(* ===== verification/Prelude.thy ===== *)
theory Prelude
  imports Complex_Main "HOL-Library.AList" "HOL-Library.Product_Lexorder"
    "HOL-Library.List_Lexorder" "HOL-Library.Char_ord"
begin

text \<open>
  What the component theories share: the types of identifiers, instants and decimal amounts,
  the exceptions of the Python code as values, operations on a mutable state that may raise
  (the state is kept when they raise, as a Python object keeps what was written to it before
  an exception), Python's insertion-ordered dictionaries, and \<open>min\<close>, \<open>max\<close> and \<open>sum\<close> over
  lists as Python computes them.
\<close>

section \<open>Types\<close>

text \<open>
  An instant is the number of microseconds since 1970-01-01T00:00Z (a Python \<open>datetime\<close> has
  that resolution) and a duration a number of microseconds. The fixed-width UTC texts are
  represented by the number they name: \<open>stamp\<close> texts (\<open>2027-01-06T03:00:00Z\<close>) by seconds and
  \<open>slot\<close> texts (\<open>2027-01-10T15:00Z\<close>) by hours since the same origin. Comparing two such texts,
  as the code does, compares those numbers. A \<open>Decimal\<close> is the rational number it denotes.
\<close>

type_synonym ident = string
type_synonym moment = int
type_synonym duration = int
type_synonym stamp = int
type_synonym slot = int
type_synonym decimal = rat
type_synonym ('k, 'v) dict = "('k \<times> 'v) list"

named_theorems op_simps "what the operations on a state compute"
named_theorems keeps_intros "how preservation of an invariant composes"
named_theorems atomic_intros "how all-or-nothing operations compose"

section \<open>Integer division\<close>

text \<open>Python's \<open>//\<close> and \<open>%\<close> round towards minus infinity, as \<open>div\<close> and \<open>mod\<close> do.\<close>

lemma div_times_le: "0 < s \<Longrightarrow> x div s * s \<le> (x::int)"
  using div_mult_mod_eq [of x s] pos_mod_sign [of s x] by linarith

lemma less_div_times: "0 < s \<Longrightarrow> (x::int) < x div s * s + s"
  using div_mult_mod_eq [of x s] pos_mod_bound [of s x] by linarith

lemma div_eqI: "(q::int) * s \<le> x \<Longrightarrow> x < q * s + s \<Longrightarrow> x div s = q"
proof -
  assume a: "q * s \<le> x" "x < q * s + s"
  define r where "r = x - q * s"
  from a have "0 \<le> r" "r < s" "x = r + q * s" by (auto simp: r_def)
  then show ?thesis by simp
qed

lemma div_pred: "0 < k \<Longrightarrow> (y::int) div k = (y - 1) div k + (if y mod k = 0 then 1 else 0)"
proof -
  assume k: "0 < k"
  have y: "y = y div k * k + y mod k" by simp
  have r: "0 \<le> y mod k" "y mod k < k" using k by simp_all
  show ?thesis
  proof (cases "y mod k = 0")
    case True
    with y k have "(y - 1) div k = y div k - 1" by (intro div_eqI) (auto simp: left_diff_distrib)
    with True show ?thesis by simp
  next
    case False
    with y r k have "(y - 1) div k = y div k" by (intro div_eqI) linarith+
    with False show ?thesis by simp
  qed
qed

lemma le_div_iff_times: "0 < s \<Longrightarrow> (q::int) \<le> x div s \<longleftrightarrow> q * s \<le> x"
proof
  assume s: "0 < s" and "q \<le> x div s"
  then have "q * s \<le> x div s * s" by simp
  with div_times_le [OF s, of x] show "q * s \<le> x" by linarith
next
  assume s: "0 < s" and "q * s \<le> x"
  with zdiv_mono1 [of "q * s" x s] show "q \<le> x div s" by simp
qed

section \<open>Exceptions and operations on a state\<close>

text \<open>
  \<open>Refusal\<close> is the exception of \<open>sparkpipe_market.py\<close> with its HTTP status and its reason; its
  message is text for the customer and is left out. \<open>RemoteError\<close> is what a call to a payment
  service raises: \<open>Declined\<close> with its code, or a network error. \<open>Exhausted\<close> is not an exception
  of the code: it says that a loop was cut off at the model's bound. The others are the
  exceptions of Python; \<open>SystemExit\<close> is how a command of the queue refuses, and \<open>CopyError\<close> is what
  the copying tool raises.
\<close>

datatype exn =
    Refusal int "string option"
  | KeyError
  | StopIteration
  | ValueError
  | ZeroDivision
  | AttributeError
  | TypeError
  | InvalidOperation
  | RemoteError "string option"
  | SystemExit
  | OSError
  | CopyError
  | Exhausted

type_synonym 'a fallible = "exn + 'a"
type_synonym ('s, 'a) op = "'s \<Rightarrow> 'a fallible \<times> 's"

definition ret :: "'a \<Rightarrow> ('s, 'a) op" where
  "ret x s = (Inr x, s)"

definition raise :: "exn \<Rightarrow> ('s, 'a) op" where
  "raise e s = (Inl e, s)"

definition bind_op :: "('s, 'a) op \<Rightarrow> ('a \<Rightarrow> ('s, 'b) op) \<Rightarrow> ('s, 'b) op" where
  "bind_op m f s = (case m s of (Inl e, s') \<Rightarrow> (Inl e, s') | (Inr x, s') \<Rightarrow> f x s')"

definition seq_op :: "('s, unit) op \<Rightarrow> ('s, 'b) op \<Rightarrow> ('s, 'b) op" where
  "seq_op m n = bind_op m (\<lambda>_. n)"

definition gets :: "('s \<Rightarrow> 'a) \<Rightarrow> ('s, 'a) op" where
  "gets f s = (Inr (f s), s)"

definition modify :: "('s \<Rightarrow> 's) \<Rightarrow> ('s, unit) op" where
  "modify f s = (Inr (), f s)"

definition lift :: "'a fallible \<Rightarrow> ('s, 'a) op" where
  "lift r s = (r, s)"

definition require :: "bool \<Rightarrow> exn \<Rightarrow> ('s, unit) op" where
  "require b e s = (if b then (Inr (), s) else (Inl e, s))"

fun each :: "('a \<Rightarrow> ('s, unit) op) \<Rightarrow> 'a list \<Rightarrow> ('s, unit) op" where
  "each f [] = ret ()"
| "each f (x # xs) = seq_op (f x) (each f xs)"

fun map_op :: "('a \<Rightarrow> ('s, 'b) op) \<Rightarrow> 'a list \<Rightarrow> ('s, 'b list) op" where
  "map_op f [] = ret []"
| "map_op f (x # xs) = bind_op (f x) (\<lambda>y. bind_op (map_op f xs) (\<lambda>ys. ret (y # ys)))"

definition bind_result :: "'a fallible \<Rightarrow> ('a \<Rightarrow> 'b fallible) \<Rightarrow> 'b fallible" where
  "bind_result r f = (case r of Inl e \<Rightarrow> Inl e | Inr x \<Rightarrow> f x)"

lemma op_steps [op_simps]:
  "ret x s = (Inr x, s)"
  "raise e s = (Inl e, s)"
  "gets f s = (Inr (f s), s)"
  "modify g s = (Inr (), g s)"
  "lift r s = (r, s)"
  "require b e s = (if b then (Inr (), s) else (Inl e, s))"
  by (simp_all add: ret_def raise_def gets_def modify_def lift_def require_def)

lemma bind_op_step [op_simps]:
  "bind_op m f s = (case m s of (Inl e, s') \<Rightarrow> (Inl e, s') | (Inr x, s') \<Rightarrow> f x s')"
  by (simp add: bind_op_def)

lemma seq_op_step [op_simps]:
  "seq_op m n s = (case m s of (Inl e, s') \<Rightarrow> (Inl e, s') | (Inr x, s') \<Rightarrow> n s')"
  by (simp add: seq_op_def bind_op_def)

lemma bind_result_simps [simp]:
  "bind_result (Inl e) f = Inl e"
  "bind_result (Inr x) f = f x"
  by (simp_all add: bind_result_def)

lemma bind_op_Inr:
  "bind_op m f s = (Inr y, t) \<longleftrightarrow> (\<exists>x s'. m s = (Inr x, s') \<and> f x s' = (Inr y, t))"
  by (auto simp: bind_op_def split: prod.splits sum.splits)

lemma seq_op_Inr:
  "seq_op m n s = (Inr y, t) \<longleftrightarrow> (\<exists>s'. m s = (Inr (), s') \<and> n s' = (Inr y, t))"
  by (auto simp: seq_op_def bind_op_Inr)

lemma bind_result_Inr:
  "bind_result r f = Inr y \<longleftrightarrow> (\<exists>x. r = Inr x \<and> f x = Inr y)"
  by (cases r) auto

lemma require_Inr: "require b e s = (Inr u, t) \<longleftrightarrow> b \<and> t = s"
  by (auto simp: require_def)

lemma each_append: "each f (xs @ ys) s = (case each f xs s of (Inl e, s') \<Rightarrow> (Inl e, s') | (Inr u, s') \<Rightarrow> each f ys s')"
  by (induction xs arbitrary: s) (auto simp: op_simps split: prod.splits sum.splits)

lemma each_append_Inr:
  "each f (xs @ ys) s = (Inr (), t) \<longleftrightarrow> (\<exists>s'. each f xs s = (Inr (), s') \<and> each f ys s' = (Inr (), t))"
  by (auto simp: each_append split: prod.splits sum.splits)

lemma each_snoc_Inr:
  "each f (xs @ [x]) s = (Inr (), t) \<longleftrightarrow> (\<exists>s'. each f xs s = (Inr (), s') \<and> f x s' = (Inr (), t))"
  by (simp add: each_append_Inr seq_op_Inr ret_def)

lemmas op_elims = bind_op_Inr seq_op_Inr bind_result_Inr require_Inr

lemma gets_Inr: "gets f s = (Inr y, t) \<longleftrightarrow> y = f s \<and> t = s"
  by (auto simp: gets_def)

lemma lift_Inr: "lift r s = (Inr y, t) \<longleftrightarrow> r = Inr y \<and> t = s"
  by (auto simp: lift_def)

lemma modify_Inr: "modify f s = (Inr y, t) \<longleftrightarrow> t = f s"
  by (auto simp: modify_def)

lemma raise_Inr: "raise e s = (Inr y, t) \<longleftrightarrow> False"
  by (simp add: raise_def)

lemma ret_Inr: "ret x s = (Inr y, t) \<longleftrightarrow> y = x \<and> t = s"
  by (auto simp: ret_def)

lemmas leaf_elims = gets_Inr lift_Inr modify_Inr raise_Inr ret_Inr

text \<open>An operation keeps an invariant when it holds of the state it leaves, raising or not.\<close>

definition keeps :: "('s \<Rightarrow> bool) \<Rightarrow> ('s, 'a) op \<Rightarrow> bool" where
  "keeps I m \<longleftrightarrow> (\<forall>s. I s \<longrightarrow> I (snd (m s)))"

lemma keepsI: "(\<And>s. I s \<Longrightarrow> I (snd (m s))) \<Longrightarrow> keeps I m"
  by (simp add: keeps_def)

lemma keepsD: "keeps I m \<Longrightarrow> I s \<Longrightarrow> I (snd (m s))"
  by (simp add: keeps_def)

lemma keeps_result: "keeps I m \<Longrightarrow> I s \<Longrightarrow> m s = (r, t) \<Longrightarrow> I t"
  by (metis keepsD snd_conv)

lemma keeps_pure [keeps_intros]:
  "keeps I (ret x)" "keeps I (raise e)" "keeps I (gets f)" "keeps I (lift r)" "keeps I (require b e)"
  by (simp_all add: keeps_def op_simps)

lemma keeps_modify: "(\<And>s. I s \<Longrightarrow> I (f s)) \<Longrightarrow> keeps I (modify f)"
  by (simp add: keeps_def op_simps)

lemma keeps_bind [keeps_intros]:
  assumes "keeps I m" and "\<And>x. keeps I (f x)"
  shows "keeps I (bind_op m f)"
proof (rule keepsI)
  fix s assume "I s"
  then have "I (snd (m s))" by (rule keepsD [OF assms(1)])
  then show "I (snd (bind_op m f s))"
    using keepsD [OF assms(2)] by (auto simp: bind_op_def split: prod.splits sum.splits)
qed

lemma keeps_seq [keeps_intros]: "keeps I m \<Longrightarrow> keeps I n \<Longrightarrow> keeps I (seq_op m n)"
  by (simp add: seq_op_def keeps_bind)

lemma keeps_each [keeps_intros]: "(\<And>x. x \<in> set xs \<Longrightarrow> keeps I (f x)) \<Longrightarrow> keeps I (each f xs)"
  by (induction xs) (auto intro: keeps_intros)

lemma keeps_map_op [keeps_intros]: "(\<And>x. x \<in> set xs \<Longrightarrow> keeps I (f x)) \<Longrightarrow> keeps I (map_op f xs)"
  by (induction xs) (auto intro: keeps_intros)

lemma keeps_if [keeps_intros]:
  "(b \<Longrightarrow> keeps I m) \<Longrightarrow> (\<not> b \<Longrightarrow> keeps I n) \<Longrightarrow> keeps I (if b then m else n)"
  by simp

lemma keeps_option [keeps_intros]:
  "keeps I m \<Longrightarrow> (\<And>x. keeps I (f x)) \<Longrightarrow> keeps I (case v of None \<Rightarrow> m | Some x \<Rightarrow> f x)"
  by (cases v) auto

text \<open>An operation that only reads, and one that changes nothing when it raises.\<close>

definition reads :: "('s, 'a) op \<Rightarrow> bool" where
  "reads m \<longleftrightarrow> (\<forall>s. snd (m s) = s)"

definition atomic_op :: "('s, 'a) op \<Rightarrow> bool" where
  "atomic_op m \<longleftrightarrow> (\<forall>s e t. m s = (Inl e, t) \<longrightarrow> t = s)"

lemma reads_pure [atomic_intros]: "reads (ret x)" "reads (raise e)" "reads (gets f)" "reads (lift r)" "reads (require b e)"
  by (simp_all add: reads_def ret_def raise_def gets_def lift_def require_def)

lemma atomic_reads: "reads m \<Longrightarrow> atomic_op m"
  unfolding reads_def atomic_op_def by (metis snd_conv)

lemma atomic_modify [atomic_intros]: "atomic_op (modify f)"
  by (simp add: atomic_op_def modify_def)

lemma atomic_raise [atomic_intros]: "atomic_op (raise e)" "atomic_op (ret x)"
  by (simp_all add: atomic_op_def raise_def ret_def)

lemma atomic_bind [atomic_intros]: "reads m \<Longrightarrow> (\<And>x. atomic_op (f x)) \<Longrightarrow> atomic_op (bind_op m f)"
  unfolding reads_def atomic_op_def bind_op_def by (auto split: prod.splits sum.splits) (metis snd_conv)+

lemma atomic_seq [atomic_intros]: "reads m \<Longrightarrow> atomic_op n \<Longrightarrow> atomic_op (seq_op m n)"
  unfolding seq_op_def by (rule atomic_bind)

text \<open>The state after an all-or-nothing operation: the one before, or the one it returned with.\<close>

lemma atomic_cases:
  assumes "atomic_op m"
  obtains "snd (m s) = s" | y where "m s = (Inr y, snd (m s))"
  using assms by (cases "m s"; cases "fst (m s)") (auto simp: atomic_op_def)

section \<open>Python's dictionaries\<close>

text \<open>
  A dictionary keeps its keys in insertion order: writing a present key changes the value in
  place, writing a new one appends it.
\<close>

abbreviation dget :: "('k, 'v) dict \<Rightarrow> 'k \<Rightarrow> 'v option" where
  "dget d k \<equiv> map_of d k"

abbreviation dset :: "'k \<Rightarrow> 'v \<Rightarrow> ('k, 'v) dict \<Rightarrow> ('k, 'v) dict" where
  "dset k v d \<equiv> AList.update k v d"

abbreviation ddel :: "'k \<Rightarrow> ('k, 'v) dict \<Rightarrow> ('k, 'v) dict" where
  "ddel k d \<equiv> AList.delete k d"

abbreviation dkeys :: "('k, 'v) dict \<Rightarrow> 'k list" where
  "dkeys d \<equiv> map fst d"

abbreviation dvalues :: "('k, 'v) dict \<Rightarrow> 'v list" where
  "dvalues d \<equiv> map snd d"

lemma dget_dset [simp]: "dget (dset k v d) k' = (if k' = k then Some v else dget d k')"
  by (simp add: update_conv')

lemma dget_ddel [simp]: "dget (ddel k d) k' = (if k' = k then None else dget d k')"
  by (simp add: delete_conv')

lemma set_dset_subset: "set (dset k v d) \<subseteq> insert (k, v) (set d)"
  by (induction d) auto

lemma dvalues_dset_cases: "x \<in> set (dvalues (dset k v d)) \<Longrightarrow> x = v \<or> x \<in> set (dvalues d)"
  using set_dset_subset [of k v d] by auto

lemma set_ddel_subset: "set (ddel k d) \<subseteq> set d"
  by (induction d) (auto simp: AList.delete_eq)

lemma dset_new: "k \<notin> set (dkeys d) \<Longrightarrow> dset k v d = d @ [(k, v)]"
  by (induction d) auto

lemma dget_in_set: "dget d k = Some v \<Longrightarrow> (k, v) \<in> set d"
  by (rule map_of_SomeD)

section \<open>Aggregates over lists\<close>

text \<open>\<open>min\<close> with a key returns the first of the smallest elements.\<close>

fun min_by :: "('a \<Rightarrow> 'k::linorder) \<Rightarrow> 'a list \<Rightarrow> 'a option" where
  "min_by f [] = None"
| "min_by f (x # xs) = (case min_by f xs of None \<Rightarrow> Some x | Some y \<Rightarrow> if f y < f x then Some y else Some x)"

fun max_list :: "'a::linorder list \<Rightarrow> 'a option" where
  "max_list [] = None"
| "max_list (x # xs) = (case max_list xs of None \<Rightarrow> Some x | Some y \<Rightarrow> Some (max x y))"

lemma min_by_None [simp]: "min_by f xs = None \<longleftrightarrow> xs = []"
  by (induction xs) (auto split: option.splits)

lemma min_by_Some: "min_by f xs = Some x \<Longrightarrow> x \<in> set xs \<and> (\<forall>y\<in>set xs. f x \<le> f y)"
  by (induction xs arbitrary: x) (fastforce split: option.splits if_splits)+

lemma max_list_None [simp]: "max_list xs = None \<longleftrightarrow> xs = []"
  by (induction xs) (auto split: option.splits)

lemma max_list_Some: "max_list xs = Some x \<Longrightarrow> x \<in> set xs \<and> (\<forall>y\<in>set xs. y \<le> x)"
proof (induction xs arbitrary: x)
  case (Cons z zs)
  then show ?case
    by (cases "max_list zs") (auto simp: max_def split: if_splits)
qed simp

lemma foldl_keeps: "P z \<Longrightarrow> (\<And>x a. x \<in> set xs \<Longrightarrow> P a \<Longrightarrow> P (f a x)) \<Longrightarrow> P (foldl f z xs)"
  by (induction xs arbitrary: z) auto

definition least_of :: "'a::linorder list \<Rightarrow> 'a option" where
  "least_of xs = min_by (\<lambda>x. x) xs"

lemma least_of_None [simp]: "least_of xs = None \<longleftrightarrow> xs = []"
  by (simp add: least_of_def)

lemma least_of_Some: "least_of xs = Some x \<Longrightarrow> x \<in> set xs \<and> (\<forall>y\<in>set xs. x \<le> y)"
  unfolding least_of_def by (rule min_by_Some)

lemma sum_list_nonneg_map: "(\<And>x. x \<in> set xs \<Longrightarrow> 0 \<le> f x) \<Longrightarrow> 0 \<le> sum_list (map f xs :: 'b::ordered_comm_monoid_add list)"
  by (rule sum_list_nonneg) auto

lemma sum_list_filter_split:
  "sum_list (map f xs) = sum_list (map f (filter P xs)) + sum_list (map (f :: 'a \<Rightarrow> 'b::comm_monoid_add) (filter (\<lambda>x. \<not> P x) xs))"
  by (induction xs) (auto simp: ac_simps)

text \<open>A sum over the values of a dictionary follows writes and deletions.\<close>

definition dsum :: "('v \<Rightarrow> 'b::ab_group_add) \<Rightarrow> ('k, 'v) dict \<Rightarrow> 'b" where
  "dsum f d = sum_list (map f (dvalues d))"

abbreviation dval :: "('v \<Rightarrow> 'b::ab_group_add) \<Rightarrow> ('k, 'v) dict \<Rightarrow> 'k \<Rightarrow> 'b" where
  "dval f d k \<equiv> (case dget d k of None \<Rightarrow> 0 | Some v \<Rightarrow> f v)"

lemma dsum_dset: "dsum f (dset k v d) = dsum f d + f v - dval f d k"
  by (induction d) (auto simp: dsum_def)

lemma dsum_ddel: "distinct (dkeys d) \<Longrightarrow> dsum f (ddel k d) = dsum f d - dval f d k"
proof (induction d)
  case (Cons p d)
  have "ddel k d = d" if "k \<notin> set (dkeys d)"
    using that by (simp add: delete_id)
  moreover have "dget d k = None" if "k \<notin> set (dkeys d)" using that by (simp add: map_of_eq_None_iff)
  ultimately show ?case using Cons by (auto simp: dsum_def AList.delete_eq split: option.splits)
qed (simp add: dsum_def)

lemma dkeys_dset: "dkeys (dset k v d) = (if k \<in> set (dkeys d) then dkeys d else dkeys d @ [k])"
  by (rule update_keys)

lemma dkeys_ddel: "dkeys (ddel k d) = filter (\<lambda>x. x \<noteq> k) (dkeys d)"
  by (induction d) (auto simp: AList.delete_eq)

lemma dget_None_iff: "dget d k = None \<longleftrightarrow> k \<notin> set (dkeys d)"
  by (simp add: map_of_eq_None_iff)

lemma dget_Some_mem: "distinct (dkeys d) \<Longrightarrow> (k, v) \<in> set d \<Longrightarrow> dget d k = Some v"
  by simp

lemma sum_list_le_map: "(\<And>x. x \<in> set xs \<Longrightarrow> f x \<le> (g x :: 'b::ordered_comm_monoid_add)) \<Longrightarrow> sum_list (map f xs) \<le> sum_list (map g xs)"
  by (rule sum_list_mono)

section \<open>Things that may not be held together\<close>

text \<open>No two of the things in a set clash: what a book of reservations and a queue of tasks both keep.\<close>

definition exclusive :: "('a \<Rightarrow> 'a \<Rightarrow> bool) \<Rightarrow> 'a set \<Rightarrow> bool" where
  "exclusive clash S \<longleftrightarrow> (\<forall>x\<in>S. \<forall>y\<in>S. x \<noteq> y \<longrightarrow> \<not> clash x y)"

lemma exclusive_subset: "exclusive clash S \<Longrightarrow> T \<subseteq> S \<Longrightarrow> exclusive clash T"
  by (auto simp: exclusive_def)

lemma exclusive_empty [simp]: "exclusive clash {}"
  by (simp add: exclusive_def)

locale exclusion =
  fixes clash :: "'a \<Rightarrow> 'a \<Rightarrow> bool"
  assumes clash_sym: "clash x y \<Longrightarrow> clash y x"
begin

lemma exclusive_insert: "exclusive clash S \<Longrightarrow> (\<And>y. y \<in> S \<Longrightarrow> \<not> clash x y) \<Longrightarrow> exclusive clash (insert x S)"
  unfolding exclusive_def using clash_sym by blast

lemma exclusive_union:
  "exclusive clash S \<Longrightarrow> exclusive clash T \<Longrightarrow> (\<And>x y. x \<in> S \<Longrightarrow> y \<in> T \<Longrightarrow> \<not> clash x y) \<Longrightarrow> exclusive clash (S \<union> T)"
  unfolding exclusive_def using clash_sym by blast

lemma exclusive_sorted_wrt: "sorted_wrt (\<lambda>x y. \<not> clash x y) xs \<Longrightarrow> exclusive clash (set xs)"
proof (induction xs)
  case (Cons x xs)
  then show ?case by (simp add: exclusive_insert)
qed simp

text \<open>Things that only shrink what they clash with keep a set free of clashes.\<close>

lemma exclusive_image:
  assumes "exclusive clash S" and "\<And>x y. x \<in> S \<Longrightarrow> y \<in> S \<Longrightarrow> clash (f x) (f y) \<Longrightarrow> clash x y"
  shows "exclusive clash (f ` S)"
  using assms unfolding exclusive_def by (metis imageE)

end

end
