(* ===== verification/Calendar.thy ===== *)
theory Calendar
  imports Prelude
begin

text \<open>
  The calendar functions of \<open>tools/sparkpipe_market.py\<close>: the durations, the texts of instants
  and hours, Weeks from Monday 00:00 KST, the Sunday of the waitlist round, adding months
  (with Python's proleptic Gregorian calendar), and the overlap and merging of intervals.
\<close>

section \<open>Durations and texts\<close>

definition SECOND :: duration where "SECOND = 1000000"
definition HOUR :: duration where "HOUR = 3600 * SECOND"
definition DAY :: duration where "DAY = 24 * HOUR"
definition WEEK :: duration where "WEEK = 7 * DAY"
definition KST :: duration where "KST = 9 * HOUR"

lemmas durations = SECOND_def HOUR_def DAY_def WEEK_def KST_def

lemma durations_pos [simp]: "0 < SECOND" "0 < HOUR" "0 < DAY" "0 < WEEK" "0 < KST"
  by (simp_all add: durations)

lemma durations_nonneg [simp]: "0 \<le> SECOND" "0 \<le> HOUR" "0 \<le> DAY" "0 \<le> WEEK"
  by (simp_all add: durations)

lemma durations_nonzero [simp]: "SECOND \<noteq> 0" "HOUR \<noteq> 0" "DAY \<noteq> 0" "WEEK \<noteq> 0"
  by (simp_all add: durations)

definition stamp :: "moment \<Rightarrow> stamp" where
  "stamp m = m div SECOND"

definition stamp_time :: "stamp \<Rightarrow> moment" where
  "stamp_time s = s * SECOND"

definition slot_text :: "moment \<Rightarrow> slot" where
  "slot_text m = m div HOUR"

definition slot_time :: "slot \<Rightarrow> moment" where
  "slot_time s = s * HOUR"

lemma stamp_stamp_time [simp]: "stamp (stamp_time s) = s"
  by (simp add: stamp_def stamp_time_def)

lemma slot_text_slot_time [simp]: "slot_text (slot_time s) = s"
  by (simp add: slot_text_def slot_time_def)

lemma stamp_mono: "a \<le> b \<Longrightarrow> stamp a \<le> stamp b"
  by (simp add: stamp_def zdiv_mono1)

lemma stamp_le_iff: "s \<le> stamp m \<longleftrightarrow> stamp_time s \<le> m"
  by (simp add: stamp_def stamp_time_def le_div_iff_times)

lemma stamp_time_stamp_le: "stamp_time (stamp m) \<le> m"
  by (simp add: stamp_def stamp_time_def div_times_le)

lemma slot_le_iff: "s \<le> slot_text m \<longleftrightarrow> slot_time s \<le> m"
  by (simp add: slot_text_def slot_time_def le_div_iff_times)

section \<open>Hours and Weeks as grids\<close>

text \<open>
  Hours and Weeks both cut time into equal steps. A function that rounds an instant down to
  such a grid has the laws below.
\<close>

locale grid =
  fixes step :: int and offset :: int and floor_to :: "int \<Rightarrow> int"
  assumes step_pos: "0 < step"
    and floor_to_eq: "floor_to m = (m + offset) div step * step - offset"
begin

lemma floor_to_le: "floor_to m \<le> m"
  using div_times_le [OF step_pos, of "m + offset"] by (simp add: floor_to_eq)

lemma less_floor_to: "m < floor_to m + step"
  using less_div_times [OF step_pos, of "m + offset"] by (simp add: floor_to_eq)

lemma floor_to_shift: "floor_to (m + k * step) = floor_to m + k * step"
proof -
  have eq: "m + k * step + offset = m + offset + k * step" by simp
  have "(m + k * step + offset) div step = k + (m + offset) div step"
    unfolding eq using step_pos by simp
  then show ?thesis by (simp add: floor_to_eq distrib_right)
qed

lemma floor_to_idem: "floor_to (floor_to m) = floor_to m"
  using step_pos by (simp add: floor_to_eq)

lemma floor_to_mono: "a \<le> b \<Longrightarrow> floor_to a \<le> floor_to b"
  using step_pos by (simp add: floor_to_eq zdiv_mono1)

lemma floor_to_unique:
  assumes "floor_to g = g" and "g \<le> m" and "m < g + step"
  shows "floor_to m = g"
proof -
  have "g = (g + offset) div step * step - offset" using assms(1) floor_to_eq by simp
  then obtain k where k: "g + offset = k * step" by (metis diff_add_cancel)
  then have "(m + offset) div step = k" using assms(2,3) by (intro div_eqI) simp_all
  with k show ?thesis by (simp add: floor_to_eq)
qed

end

definition slot_floor :: "moment \<Rightarrow> moment" where
  "slot_floor m = slot_time (slot_text m)"

definition slot_ceil :: "moment \<Rightarrow> moment" where
  "slot_ceil m = (if slot_floor m < m then slot_floor m + HOUR else m)"

text \<open>
  \<open>local.weekday()\<close> counts from Monday; 1970-01-01 was a Thursday. The Week starts at
  midnight KST of the Monday on or before the local date.
\<close>

definition kst_date :: "moment \<Rightarrow> int" where
  "kst_date m = (m + KST) div DAY"

definition weekday :: "int \<Rightarrow> int" where
  "weekday day = (day + 3) mod 7"

definition kst_midnight :: "int \<Rightarrow> moment" where
  "kst_midnight day = day * DAY - KST"

definition week_start :: "moment \<Rightarrow> moment" where
  "week_start m = kst_midnight (kst_date m - weekday (kst_date m))"

definition sunday_after :: "moment \<Rightarrow> moment" where
  "sunday_after m = (let found = week_start m + 6 * DAY in if m < found then found else found + WEEK)"

interpretation hour_grid: grid HOUR 0 slot_floor
  by unfold_locales (simp_all add: slot_floor_def slot_time_def slot_text_def)

lemma week_start_eq: "week_start m = (m + (KST + 3 * DAY)) div WEEK * WEEK - (KST + 3 * DAY)"
proof -
  define d where "d = (m + KST) div DAY"
  have day: "(m + (KST + 3 * DAY)) div DAY = d + 3"
    unfolding d_def add.assoc [symmetric] by simp
  have "(m + (KST + 3 * DAY)) div (DAY * 7) = (m + (KST + 3 * DAY)) div DAY div 7"
    by (rule zdiv_zmult2_eq) simp
  moreover have "WEEK = DAY * 7" by (simp add: WEEK_def)
  ultimately have "(m + (KST + 3 * DAY)) div WEEK = (d + 3) div 7"
    by (simp only: day)
  moreover have "d - (d + 3) mod 7 = (d + 3) div 7 * 7 - 3"
    by (simp add: minus_mod_eq_div_mult [symmetric])
  ultimately show ?thesis
    by (simp add: week_start_def kst_date_def weekday_def kst_midnight_def d_def [symmetric] WEEK_def
        left_diff_distrib)
qed

interpretation week_grid: grid WEEK "KST + 3 * DAY" week_start
  by unfold_locales (simp_all add: week_start_eq)

lemma sunday_after_spec:
  "m < sunday_after m" "sunday_after m \<le> m + WEEK"
  "week_start (sunday_after m) = sunday_after m - 6 * DAY"
proof -
  let ?w = "week_start m"
  have w: "?w \<le> m" "m < ?w + WEEK" by (rule week_grid.floor_to_le week_grid.less_floor_to)+
  have D: "0 < DAY" and W: "WEEK = 7 * DAY" by (simp_all add: WEEK_def)
  show "m < sunday_after m" "sunday_after m \<le> m + WEEK"
    using w D unfolding sunday_after_def Let_def W by auto
  have "week_start (?w + 6 * DAY) = ?w"
    by (rule week_grid.floor_to_unique [OF week_grid.floor_to_idem]) (use D W in linarith)+
  then show "week_start (sunday_after m) = sunday_after m - 6 * DAY"
    using week_grid.floor_to_shift [of "?w + 6 * DAY" 1] by (simp add: sunday_after_def Let_def)
qed

text \<open>The Sunday found is the first one after \<open>m\<close>: no Sunday midnight lies between.\<close>

lemma sunday_after_least:
  assumes "week_start s = s - 6 * DAY" and "m < s"
  shows "sunday_after m \<le> s"
proof (rule ccontr)
  assume "\<not> sunday_after m \<le> s"
  then have less: "s < sunday_after m" by simp
  let ?w = "week_start m"
  have w: "?w \<le> m" "m < ?w + WEEK" by (rule week_grid.floor_to_le week_grid.less_floor_to)+
  have W: "WEEK = 7 * DAY" and D: "0 < DAY" by (simp_all add: WEEK_def)
  have le: "?w \<le> s - 6 * DAY"
    using week_grid.floor_to_mono [of m s] assms by simp
  have "s - 6 * DAY < ?w + WEEK"
    using week_grid.less_floor_to [of m] less sunday_after_spec(2) [of m] sunday_after_spec(3) [of m] assms(1) W D
      week_grid.floor_to_mono [of s "sunday_after m"]
    by (auto simp: sunday_after_def Let_def split: if_splits)
  moreover have "week_start (s - 6 * DAY) = s - 6 * DAY"
    using week_grid.floor_to_idem [of s] assms(1) by simp
  ultimately have "s - 6 * DAY = ?w"
    using le week_grid.floor_to_unique [of ?w "s - 6 * DAY"] week_grid.floor_to_idem by simp
  then have "s = ?w + 6 * DAY" by simp
  with less assms(2) show False by (simp add: sunday_after_def Let_def)
qed

section \<open>Dates and months\<close>

text \<open>
  The date of a day number, by the division into 400, 100, 4 and single years that Python's
  \<open>datetime\<close> uses. Day 0 here is 0001-01-01; 1970-01-01 is day 719162.
\<close>

definition leap :: "int \<Rightarrow> bool" where
  "leap y \<longleftrightarrow> y mod 4 = 0 \<and> (y mod 100 \<noteq> 0 \<or> y mod 400 = 0)"

definition days_before_year :: "int \<Rightarrow> int" where
  "days_before_year y = (let p = y - 1 in p * 365 + p div 4 - p div 100 + p div 400)"

definition days_before_month :: "bool \<Rightarrow> int \<Rightarrow> int" where
  "days_before_month l m =
     [0, 31, 59, 90, 120, 151, 181, 212, 243, 273, 304, 334] ! nat (m - 1) + (if l \<and> 2 < m then 1 else 0)"

definition days_in_month :: "bool \<Rightarrow> int \<Rightarrow> int" where
  "days_in_month l m =
     (if m = 2 \<and> l then 29 else [31, 28, 31, 30, 31, 30, 31, 31, 30, 31, 30, 31] ! nat (m - 1))"

definition year_of_day :: "int \<Rightarrow> int" where
  "year_of_day n =
     (let n400 = n div 146097; r = n mod 146097; n100 = r div 36524; r = r mod 36524;
          n4 = r div 1461; r = r mod 1461; n1 = r div 365;
          y = n400 * 400 + 1 + n100 * 100 + n4 * 4 + n1
      in if n1 = 4 \<or> n100 = 4 then y - 1 else y)"

definition month_day :: "bool \<Rightarrow> int \<Rightarrow> int \<times> int" where
  "month_day l r =
     (let m = (r + 50) div 32
      in if r < days_before_month l m then (m - 1, r - days_before_month l (m - 1) + 1)
         else (m, r - days_before_month l m + 1))"

definition date_of_day :: "int \<Rightarrow> int \<times> int \<times> int" where
  "date_of_day n = (let y = year_of_day n in (y, month_day (leap y) (n - days_before_year y)))"

definition day_of_date :: "int \<Rightarrow> int \<Rightarrow> int \<Rightarrow> int" where
  "day_of_date y m d = days_before_year y + days_before_month (leap y) m + d - 1"

definition EPOCH_DAY :: int where "EPOCH_DAY = 719162"

definition months_later :: "moment \<Rightarrow> int \<Rightarrow> moment" where
  "months_later moment months =
     (let (year, month, day) = date_of_day (moment div DAY + EPOCH_DAY);
          total = month - 1 + months;
          year' = year + total div 12;
          month' = total mod 12 + 1;
          day' = min day (days_in_month (leap year') month')
      in (day_of_date year' month' day' - EPOCH_DAY) * DAY + moment mod DAY)"

text \<open>The first day of a year, from the digits of its number in the four cycles.\<close>

lemma days_before_year_digits:
  assumes "0 \<le> b" "b \<le> 3" "0 \<le> c" "c \<le> 24" "0 \<le> d" "d \<le> 3"
  shows "days_before_year (a * 400 + 1 + b * 100 + c * 4 + d) = 146097 * a + 36524 * b + 1461 * c + 365 * d"
proof -
  let ?p = "a * 400 + b * 100 + c * 4 + d"
  have "?p div 4 = 100 * a + 25 * b + c" "?p div 100 = 4 * a + b" "?p div 400 = a"
    using assms by (intro div_eqI; simp)+
  moreover have "a * 400 + 1 + b * 100 + c * 4 + d - 1 = ?p" by simp
  ultimately show ?thesis unfolding days_before_year_def Let_def by (simp only:) simp
qed

lemma days_in_year: "days_before_year (y + 1) = days_before_year y + (if leap y then 366 else 365)"
proof -
  define b4 b100 b400 where b: "b4 \<longleftrightarrow> y mod 4 = 0" "b100 \<longleftrightarrow> y mod 100 = 0" "b400 \<longleftrightarrow> y mod 400 = 0"
  define p4 p100 p400 where p: "p4 = (y - 1) div 4" "p100 = (y - 1) div 100" "p400 = (y - 1) div 400"
  have "y div 4 = p4 + (if b4 then 1 else 0)" "y div 100 = p100 + (if b100 then 1 else 0)"
    "y div 400 = p400 + (if b400 then 1 else 0)"
    unfolding b p by (rule div_pred; simp)+
  then have next_year: "days_before_year (y + 1) =
      y * 365 + (p4 + (if b4 then 1 else 0)) - (p100 + (if b100 then 1 else 0)) + (p400 + (if b400 then 1 else 0))"
    unfolding days_before_year_def Let_def by simp
  have "y mod 400 mod 100 = y mod 100" "y mod 100 mod 4 = y mod 4"
    by (rule mod_mod_cancel; simp)+
  then have "b400 \<Longrightarrow> b100" "b100 \<Longrightarrow> b4"
    unfolding b by (metis mod_0)+
  moreover have "days_before_year y = (y - 1) * 365 + p4 - p100 + p400"
    unfolding days_before_year_def Let_def p ..
  moreover have "leap y \<longleftrightarrow> b4 \<and> (\<not> b100 \<or> b400)"
    unfolding leap_def b ..
  ultimately show ?thesis using next_year by auto
qed

lemma year_of_day_spec:
  "days_before_year (year_of_day n) \<le> n \<and> n < days_before_year (year_of_day n + 1)"
proof -
  define a where "a = n div 146097"
  define r where "r = n mod 146097"
  define b where "b = r div 36524"
  define r2 where "r2 = r mod 36524"
  define c where "c = r2 div 1461"
  define r3 where "r3 = r2 mod 1461"
  define d where "d = r3 div 365"
  define r4 where "r4 = r3 mod 365"
  have n: "n = 146097 * a + 36524 * b + 1461 * c + 365 * d + r4"
    unfolding a_def b_def c_def d_def r_def r2_def r3_def r4_def by simp
  have r: "0 \<le> r" "r < 146097" "0 \<le> r2" "r2 < 36524" "0 \<le> r3" "r3 < 1461" "0 \<le> r4" "r4 < 365"
    by (simp_all add: r_def r2_def r3_def r4_def)
  have bounds: "0 \<le> b" "b \<le> 4" "0 \<le> c" "c \<le> 24" "0 \<le> d" "d \<le> 4"
    using r by (auto simp: b_def c_def d_def)
  have re: "r = 36524 * b + r2" "r3 = 365 * d + r4"
    by (simp_all add: b_def r2_def d_def r4_def)
  have y: "year_of_day n = (if d = 4 \<or> b = 4 then a * 400 + b * 100 + c * 4 + d else a * 400 + 1 + b * 100 + c * 4 + d)"
    by (simp add: year_of_day_def Let_def a_def b_def c_def d_def r_def r2_def r3_def)
  consider "b = 4" | "b \<le> 3" "d = 4" | "b \<le> 3" "d \<le> 3" using bounds by linarith
  then show ?thesis
  proof cases
    case 1
    with re r have "r2 = 0" by linarith
    then have z: "c = 0" "d = 0" "r4 = 0" by (simp_all add: c_def d_def r3_def r4_def)
    have "year_of_day n = a * 400 + 1 + 3 * 100 + 24 * 4 + 3" by (simp add: y 1 z)
    moreover have "year_of_day n + 1 = (a + 1) * 400 + 1 + 0 * 100 + 0 * 4 + 0" by (simp add: y 1 z)
    ultimately show ?thesis
      using days_before_year_digits [of 3 24 3 a] days_before_year_digits [of 0 0 0 "a + 1"] by (simp add: n 1 z)
  next
    case 2
    with re r have r4: "r4 = 0" by linarith
    have yd: "year_of_day n = a * 400 + 1 + b * 100 + c * 4 + 3" using 2 by (simp add: y)
    have "days_before_year (year_of_day n) = 146097 * a + 36524 * b + 1461 * c + 1095"
      using days_before_year_digits [of b c 3 a] bounds 2 by (simp add: yd)
    moreover have "leap (year_of_day n)"
    proof -
      have "r2 = 1461 * c + r3" by (simp add: c_def r3_def)
      then have c: "c \<le> 23" using re(2) r 2 r4 by linarith
      have "year_of_day n = (4 * c + 4) + (4 * a + b) * 100" by (simp add: yd)
      then have "year_of_day n mod 100 = (4 * c + 4) mod 100" by (simp only: mod_mult_self1)
      then have "year_of_day n mod 100 = 4 * c + 4" using bounds c by simp
      moreover have "year_of_day n = (100 * a + 25 * b + c + 1) * 4" by (simp add: yd)
      then have "year_of_day n mod 4 = 0" by simp
      ultimately show ?thesis using bounds by (simp add: leap_def)
    qed
    ultimately show ?thesis using days_in_year [of "year_of_day n"] by (simp add: n 2 r4)
  next
    case 3
    have yd: "year_of_day n = a * 400 + 1 + b * 100 + c * 4 + d" using 3 by (simp add: y)
    then have "days_before_year (year_of_day n) = 146097 * a + 36524 * b + 1461 * c + 365 * d"
      using days_before_year_digits [of b c d a] bounds 3 by simp
    then show ?thesis using days_in_year [of "year_of_day n"] r by (auto simp: n)
  qed
qed

text \<open>The days of a year, one by one, with and without the leap day.\<close>

lemma month_day_table:
  "\<forall>l\<in>set [True, False]. \<forall>r\<in>set [0..365]. r < (if l then 366 else 365) \<longrightarrow>
     (case month_day l r of (m, d) \<Rightarrow>
        1 \<le> m \<and> m \<le> 12 \<and> 1 \<le> d \<and> d \<le> days_in_month l m \<and> days_before_month l m + d - 1 = r)"
  by code_simp

lemma month_day_spec:
  assumes "0 \<le> r" "r < (if l then 366 else 365)" "month_day l r = (m, d)"
  shows "1 \<le> m" "m \<le> 12" "1 \<le> d" "d \<le> days_in_month l m" "days_before_month l m + d - 1 = r"
proof -
  have r: "r \<in> set [0..365]" and l: "l \<in> set [True, False]" using assms(1,2) by (auto split: if_splits)
  note row = month_day_table [THEN bspec, OF l, THEN bspec, OF r, THEN mp, OF assms(2)]
  from row show "1 \<le> m" "m \<le> 12" "1 \<le> d" "d \<le> days_in_month l m" "days_before_month l m + d - 1 = r"
    using assms(3) by (simp_all del: set_upto)
qed

lemma date_of_day_spec:
  assumes "date_of_day n = (y, m, d)"
  shows "day_of_date y m d = n" "1 \<le> m" "m \<le> 12" "1 \<le> d" "d \<le> days_in_month (leap y) m"
proof -
  have y: "y = year_of_day n" and md: "month_day (leap y) (n - days_before_year y) = (m, d)"
    using assms by (auto simp: date_of_day_def Let_def)
  have r: "0 \<le> n - days_before_year y" "n - days_before_year y < (if leap y then 366 else 365)"
    using year_of_day_spec [of n] days_in_year [of y] by (auto simp: y)
  from month_day_spec [OF r md] show "day_of_date y m d = n" "1 \<le> m" "m \<le> 12" "1 \<le> d" "d \<le> days_in_month (leap y) m"
    by (simp_all add: day_of_date_def)
qed

text \<open>Months numbered from year 0: the first day of each, and that they follow one another.\<close>

definition month_first :: "int \<Rightarrow> int" where
  "month_first k = day_of_date (k div 12) (k mod 12 + 1) 1"

definition month_length :: "int \<Rightarrow> int" where
  "month_length k = days_in_month (leap (k div 12)) (k mod 12 + 1)"

lemma month_steps:
  "\<forall>l\<in>set [True, False]. \<forall>m\<in>set [1..11]. days_before_month l (m + 1) = days_before_month l m + days_in_month l m"
  "\<forall>l\<in>set [True, False]. days_before_month l 12 + days_in_month l 12 = (if l then 366 else 365)"
  "\<forall>l\<in>set [True, False]. \<forall>m\<in>set [1..12]. 1 \<le> days_in_month l m"
  by code_simp+

lemma month_length_pos: "1 \<le> month_length k"
proof -
  have "k mod 12 + 1 \<in> set [1..12]" by simp
  then show ?thesis using month_steps(3) [THEN bspec, of "leap (k div 12)", THEN bspec, of "k mod 12 + 1"]
    by (simp add: month_length_def)
qed

lemma month_first_next: "month_first (k + 1) = month_first k + month_length k"
proof (cases "k mod 12 = 11")
  case True
  have k: "k + 1 = (k div 12 + 1) * 12" using True div_mult_mod_eq [of k 12] unfolding distrib_right by presburger
  have "(k + 1) div 12 = k div 12 + 1" "(k + 1) mod 12 = 0" by (subst k, simp)+
  moreover have "days_before_month (leap (k div 12)) 12 + days_in_month (leap (k div 12)) 12
      = (if leap (k div 12) then 366 else 365)"
    using month_steps(2) by (cases "leap (k div 12)") simp_all
  ultimately show ?thesis using True days_in_year [of "k div 12"]
    by (simp add: month_first_def month_length_def day_of_date_def days_before_month_def [of _ 1])
next
  case False
  then have r: "k mod 12 < 11" using pos_mod_bound [of 12 k] by linarith
  have k: "k = k div 12 * 12 + k mod 12" by simp
  have q: "(k + 1) div 12 = k div 12"
    by (rule div_eqI) (use k r pos_mod_sign [of 12 k] in linarith)+
  moreover have "(k + 1) mod 12 = k mod 12 + 1"
    using k q div_mult_mod_eq [of "k + 1" 12] by linarith
  moreover have "k mod 12 + 1 \<in> set [1..11]" using False pos_mod_bound [of 12 k] by simp
  then have "days_before_month (leap (k div 12)) (k mod 12 + 1 + 1)
      = days_before_month (leap (k div 12)) (k mod 12 + 1) + days_in_month (leap (k div 12)) (k mod 12 + 1)"
    using month_steps(1) [THEN bspec, of "leap (k div 12)", THEN bspec, of "k mod 12 + 1"] by simp
  ultimately show ?thesis
    by (simp add: month_first_def month_length_def day_of_date_def)
qed

lemma month_first_mono: "j \<le> k \<Longrightarrow> month_first j \<le> month_first k"
proof (induction k rule: int_ge_induct)
  case (step i)
  then show ?case using month_first_next [of i] month_length_pos [of i] by linarith
qed simp

lemma months_later_day:
  fixes months :: int
  assumes "date_of_day (m div DAY + EPOCH_DAY) = (y, mo, d)"
  defines "k \<equiv> 12 * y + (mo - 1) + months"
  shows "months_later m months = (month_first k + min d (month_length k) - 1 - EPOCH_DAY) * DAY + m mod DAY"
proof -
  have k: "k = (mo - 1 + months) + y * 12" by (simp add: k_def)
  have "y + (mo - 1 + months) div 12 = k div 12" "(mo - 1 + months) mod 12 = k mod 12"
    unfolding k by simp_all
  then show ?thesis
    using assms(1) by (simp add: months_later_def Let_def month_first_def month_length_def day_of_date_def algebra_simps)
qed

text \<open>Adding at least one month always gives a later instant.\<close>

lemma months_later_less:
  assumes "0 < months"
  shows "m < months_later m months"
proof -
  obtain y mo d where date: "date_of_day (m div DAY + EPOCH_DAY) = (y, mo, d)" by (metis prod_cases3)
  note spec = date_of_day_spec [OF date]
  let ?j = "12 * y + (mo - 1)"
  let ?k = "?j + months"
  have div: "?j div 12 = y" and mod: "?j mod 12 + 1 = mo" using spec(2,3) by (simp_all add: div_eqI)
  have day: "m div DAY + EPOCH_DAY = month_first ?j + d - 1" and len: "d \<le> month_length ?j"
    using spec by (simp_all add: month_first_def month_length_def div mod day_of_date_def)
  have "month_first ?j + month_length ?j \<le> month_first ?k"
    using month_first_mono [of "?j + 1" ?k] month_first_next [of ?j] assms by linarith
  then have "m div DAY + 1 \<le> month_first ?k + min d (month_length ?k) - 1 - EPOCH_DAY"
    using day len spec(4) month_length_pos [of ?k] by linarith
  then have "(m div DAY + 1) * DAY \<le> (month_first ?k + min d (month_length ?k) - 1 - EPOCH_DAY) * DAY"
    by (rule mult_right_mono) simp
  moreover have "m < (m div DAY + 1) * DAY" using less_div_times [of DAY m] by (simp add: distrib_right)
  moreover have "0 \<le> m mod DAY" by simp
  ultimately show ?thesis unfolding months_later_day [OF date] by linarith
qed

section \<open>Intervals\<close>

definition overlap :: "moment \<Rightarrow> moment \<Rightarrow> moment \<Rightarrow> moment \<Rightarrow> duration" where
  "overlap begins ends start end = max 0 (min ends end - max begins start)"

lemma overlap_nonneg [simp]: "0 \<le> overlap a b c d"
  by (simp add: overlap_def)

lemma overlap_pos_iff: "a < b \<Longrightarrow> c < d \<Longrightarrow> 0 < overlap a b c d \<longleftrightarrow> a < d \<and> c < b"
  by (auto simp: overlap_def max_def min_def)

lemma overlap_commute: "overlap a b c d = overlap c d a b"
  by (simp add: overlap_def max.commute min.commute)

definition merge_step :: "(moment \<times> moment) list \<Rightarrow> moment \<times> moment \<Rightarrow> (moment \<times> moment) list" where
  "merge_step found x =
     (if found \<noteq> [] \<and> fst x \<le> snd (last found)
      then butlast found @ [(fst (last found), max (snd (last found)) (snd x))]
      else found @ [x])"

definition merged_spans :: "(moment \<times> moment) list \<Rightarrow> (moment \<times> moment) list" where
  "merged_spans spans = foldl merge_step [] (sort spans)"

definition merged :: "(moment \<times> moment) list \<Rightarrow> (slot \<times> slot) list" where
  "merged spans = map (\<lambda>(a, b). (slot_text a, slot_text b)) (merged_spans spans)"

definition points :: "(moment \<times> moment) list \<Rightarrow> moment set" where
  "points spans = (\<Union>(a, b)\<in>set spans. {a..<b})"

definition apart :: "(moment \<times> moment) list \<Rightarrow> bool" where
  "apart spans \<longleftrightarrow> sorted_wrt (\<lambda>x y. snd x < fst y) spans"

lemma points_simps [simp]:
  "points [] = {}" "points (x # xs) = {fst x..<snd x} \<union> points xs" "points (xs @ ys) = points xs \<union> points ys"
  by (auto simp: points_def)

lemma merge_step_inv:
  assumes "apart found" "\<forall>x\<in>set found. fst x \<le> fst x' \<and> fst x \<le> snd x" "fst x' \<le> snd x'"
  shows "apart (merge_step found x')"
    and "points (merge_step found x') = points found \<union> {fst x'..<snd x'}"
    and "\<forall>x\<in>set (merge_step found x'). fst x \<le> fst x' \<and> fst x \<le> snd x"
proof -
  consider "found = []" | ys y where "found = ys @ [y]" by (metis rev_exhaust)
  then have "apart (merge_step found x') \<and> points (merge_step found x') = points found \<union> {fst x'..<snd x'}
     \<and> (\<forall>x\<in>set (merge_step found x'). fst x \<le> fst x' \<and> fst x \<le> snd x)"
  proof cases
    case 1
    with assms show ?thesis by (simp add: merge_step_def apart_def)
  next
    case 2
    have prev: "\<forall>x\<in>set ys. snd x < fst y" "sorted_wrt (\<lambda>x y. snd x < fst y) ys"
      using assms(1) by (simp_all add: 2 apart_def sorted_wrt_append)
    have y: "fst y \<le> fst x'" "fst y \<le> snd y" using assms(2) by (simp_all add: 2)
    show ?thesis
    proof (cases "fst x' \<le> snd y")
      case True
      then have "{fst y..<max (snd y) (snd x')} = {fst y..<snd y} \<union> {fst x'..<snd x'}"
        using y assms(3) by auto
      with True show ?thesis using prev y assms(2)
        by (auto simp: 2 merge_step_def apart_def sorted_wrt_append)
    next
      case False
      then show ?thesis using prev y assms(2,3)
        by (fastforce simp: 2 merge_step_def apart_def sorted_wrt_append)
    qed
  qed
  then show "apart (merge_step found x')"
    and "points (merge_step found x') = points found \<union> {fst x'..<snd x'}"
    and "\<forall>x\<in>set (merge_step found x'). fst x \<le> fst x' \<and> fst x \<le> snd x" by auto
qed

lemma fold_merge_inv:
  assumes "sorted xs" "\<forall>x\<in>set xs. fst x \<le> snd x" "apart found"
    "\<forall>x\<in>set found. fst x \<le> snd x \<and> (\<forall>z\<in>set xs. fst x \<le> fst z)"
  shows "apart (foldl merge_step found xs) \<and> points (foldl merge_step found xs) = points found \<union> points xs"
  using assms
proof (induction xs arbitrary: found)
  case (Cons z zs)
  have "\<forall>x\<in>set found. fst x \<le> fst z \<and> fst x \<le> snd x" "fst z \<le> snd z" using Cons.prems by auto
  note inv = merge_step_inv [OF Cons.prems(3) this]
  have "\<forall>w\<in>set zs. fst z \<le> fst w" using Cons.prems(1) by (auto simp: less_eq_prod_def)
  then have "\<forall>x\<in>set (merge_step found z). fst x \<le> snd x \<and> (\<forall>w\<in>set zs. fst x \<le> fst w)"
    using inv(3) by fastforce
  with Cons.IH [of "merge_step found z"] Cons.prems inv show ?case by auto
qed auto

lemma merged_spans_spec:
  assumes "\<forall>x\<in>set spans. fst x \<le> snd x"
  shows "apart (merged_spans spans)" "points (merged_spans spans) = points spans"
proof -
  have "apart (foldl merge_step [] (sort spans)) \<and> points (foldl merge_step [] (sort spans)) = points [] \<union> points (sort spans)"
    by (rule fold_merge_inv) (use assms in \<open>auto simp: apart_def\<close>)
  moreover have "points (sort spans) = points spans" by (simp add: points_def)
  ultimately show "apart (merged_spans spans)" "points (merged_spans spans) = points spans"
    by (simp_all add: merged_spans_def)
qed

section \<open>Properties\<close>

text \<open>The Week of an instant starts on a Monday at midnight in Korea, at most seven days before the instant.\<close>

theorem week_start_monday:
  "week_start m \<le> m \<and> m < week_start m + WEEK \<and> weekday (kst_date (week_start m)) = 0
     \<and> week_start m = kst_midnight (kst_date (week_start m))"
proof -
  have "kst_date (week_start m) = kst_date m - weekday (kst_date m)"
    by (simp add: week_start_def kst_midnight_def kst_date_def)
  moreover have "(kst_date m + 3 - (kst_date m + 3) mod 7) mod 7 = 0" by (simp add: mod_diff_right_eq)
  then have "weekday (kst_date m - weekday (kst_date m)) = 0" by (simp add: weekday_def algebra_simps)
  ultimately show ?thesis
    using week_grid.floor_to_le [of m] week_grid.less_floor_to [of m] by (simp add: week_start_def)
qed

text \<open>
  A waitlist round is at the first Sunday midnight in Korea after the given instant: it is
  later than the instant, and no such Sunday is in between.
\<close>

theorem sunday_after_first:
  assumes "week_start s = s - 6 * DAY" "m < s"
  shows "m < sunday_after m \<and> sunday_after m \<le> s \<and> week_start (sunday_after m) = sunday_after m - 6 * DAY"
  using sunday_after_spec(1,3) [of m] sunday_after_least [OF assms] by simp

theorem sunday_after_first_witness:
  "(0::moment) < sunday_after 0 \<and> sunday_after 0 \<le> 226800000000 \<and> week_start (sunday_after 0) = sunday_after 0 - 6 * DAY"
  by (rule sunday_after_first) code_simp+

text \<open>The civil date computed for a day names that day, and its month and day of month are in range.\<close>

theorem date_of_day_roundtrip:
  "case date_of_day n of (y, m, d) \<Rightarrow> day_of_date y m d = n \<and> 1 \<le> m \<and> m \<le> 12 \<and> 1 \<le> d \<and> d \<le> days_in_month (leap y) m"
  using date_of_day_spec [of n] by (cases "date_of_day n") simp

text \<open>
  Adding a positive number of months gives a later instant, so a lot issued with a positive
  validity never lapses at once; the day of the month is kept, or cut to the length of the month.
\<close>

theorem months_later_later:
  assumes "0 < months" "date_of_day (m div DAY + EPOCH_DAY) = (y, mo, d)"
  shows "m < months_later m months \<and> (\<exists>y' mo'. y' * 12 + mo' = y * 12 + mo + months
     \<and> months_later m months = (day_of_date y' mo' (min d (days_in_month (leap y') mo')) - EPOCH_DAY) * DAY + m mod DAY)"
proof -
  let ?t = "mo - 1 + months"
  have "(y + ?t div 12) * 12 + (?t mod 12 + 1) = y * 12 + mo + months" by (simp add: algebra_simps) 
  moreover have "months_later m months = (day_of_date (y + ?t div 12) (?t mod 12 + 1)
      (min d (days_in_month (leap (y + ?t div 12)) (?t mod 12 + 1))) - EPOCH_DAY) * DAY + m mod DAY"
    using assms(2) by (simp add: months_later_def Let_def)
  ultimately show ?thesis using months_later_less [OF assms(1)] by blast
qed

theorem months_later_later_witness:
  "(0::moment) < months_later 0 12 \<and> (\<exists>y' mo'. y' * 12 + mo' = 1970 * 12 + 1 + 12
     \<and> months_later 0 12 = (day_of_date y' mo' (min 1 (days_in_month (leap y') mo')) - EPOCH_DAY) * DAY + 0 mod DAY)"
  by (rule months_later_later) code_simp+

text \<open>
  C35. The list of booked or closed periods shown for a Fleet covers exactly the instants of the
  periods it was built from, and its entries are in order and neither overlap nor touch.
\<close>

theorem merged_spans_cover:
  assumes "\<forall>x\<in>set spans. fst x \<le> snd x"
  shows "apart (merged_spans spans) \<and> points (merged_spans spans) = points spans"
  using merged_spans_spec [OF assms] by simp

theorem merged_spans_cover_witness:
  "apart (merged_spans [(7, 9), (1, 4), (3, 5), (9, 12)]) \<and> points (merged_spans [(7, 9), (1, 4), (3, 5), (9, 12)]) = points [(7, 9), (1, 4), (3, 5), (9, 12)]"
  by (rule merged_spans_cover) simp

end
