(* ===== verification/Credits.thy ===== *)
theory Credits
  imports Calendar
begin

text \<open>
  Hour-credits (HC) of \<open>tools/sparkpipe_market.py\<close>: amounts to six decimals, lots with their
  lapse time, taking HC from the lots that lapse first, and the waitlist's locks, whose parts
  point at the lots they were taken from. Lots are Python objects that \<open>State.lots\<close> and
  \<open>State.locks\<close> share, so they live in a store here: a lot is an address, and an account's lots
  and a lock's parts are addresses into the store.
\<close>

section \<open>Amounts\<close>

definition HC_STEP :: decimal where "HC_STEP = 1 / 1000000"

text \<open>\<open>quantize\<close> with \<open>ROUND_DOWN\<close> cuts towards zero.\<close>

definition quantize_down :: "decimal \<Rightarrow> decimal \<Rightarrow> decimal" where
  "quantize_down unit x = (if 0 \<le> x then of_int \<lfloor>x / unit\<rfloor> else of_int \<lceil>x / unit\<rceil>) * unit"

definition hc :: "decimal \<Rightarrow> decimal" where
  "hc value = quantize_down HC_STEP value"

definition text_hc :: "decimal \<Rightarrow> decimal" where
  "text_hc value = hc value"

lemma quantize_down_nonneg: "0 < u \<Longrightarrow> 0 \<le> x \<Longrightarrow> 0 \<le> quantize_down u x"
  by (simp add: quantize_down_def)

lemma quantize_down_le: "0 < u \<Longrightarrow> 0 \<le> x \<Longrightarrow> quantize_down u x \<le> x"
proof -
  assume u: "0 < u" and "0 \<le> x"
  have "of_int \<lfloor>x / u\<rfloor> * u \<le> x / u * u" using u by (intro mult_right_mono) simp_all
  with u \<open>0 \<le> x\<close> show ?thesis by (simp add: quantize_down_def)
qed

lemma less_quantize_down: "0 < u \<Longrightarrow> 0 \<le> x \<Longrightarrow> x < quantize_down u x + u"
proof -
  assume u: "0 < u" and "0 \<le> x"
  have "x / u < of_int \<lfloor>x / u\<rfloor> + 1" by linarith
  then have "x / u * u < (of_int \<lfloor>x / u\<rfloor> + 1) * u" using u by (rule mult_strict_right_mono)
  with u \<open>0 \<le> x\<close> show ?thesis by (simp add: quantize_down_def distrib_right)
qed

lemma quantize_down_mono: "0 < u \<Longrightarrow> 0 \<le> x \<Longrightarrow> x \<le> y \<Longrightarrow> quantize_down u x \<le> quantize_down u y"
proof -
  assume u: "0 < u" and "0 \<le> x" "x \<le> y"
  then have "\<lfloor>x / u\<rfloor> \<le> \<lfloor>y / u\<rfloor>" by (intro floor_mono divide_right_mono) simp_all
  with u \<open>0 \<le> x\<close> \<open>x \<le> y\<close> show ?thesis by (simp add: quantize_down_def mult_right_mono)
qed

lemma quantize_down_idem: "0 < u \<Longrightarrow> quantize_down u (quantize_down u x) = quantize_down u x"
  by (auto simp: quantize_down_def mult_less_0_iff zero_le_mult_iff)

lemma HC_STEP_pos [simp]: "0 < HC_STEP"
  by (simp add: HC_STEP_def)

lemma hc_nonneg: "0 \<le> x \<Longrightarrow> 0 \<le> hc x"
  by (simp add: hc_def quantize_down_nonneg)

lemma hc_le: "0 \<le> x \<Longrightarrow> hc x \<le> x"
  by (simp add: hc_def quantize_down_le)

lemma hc_idem [simp]: "hc (hc x) = hc x"
  by (simp add: hc_def quantize_down_idem)

lemma text_hc_idem [simp]: "text_hc (hc x) = hc x" "text_hc (text_hc x) = text_hc x"
  by (simp_all add: text_hc_def)

section \<open>Lots and locks\<close>

type_synonym addr = nat
type_synonym part = "addr \<times> decimal"

record lot =
  lot_id :: ident
  lot_hc :: decimal
  lot_first :: decimal
  lot_expires :: stamp
  lot_source :: string
  lot_ref :: ident
  lot_issued :: stamp
  lot_fleet :: "ident option"
  lot_hours :: "slot list"

record lock =
  lk_parts :: "part list"
  lk_joined :: stamp
  lk_seq :: nat

record credits =
  heap :: "lot list"
  lots :: "ident \<Rightarrow> addr list"
  locks :: "(ident, lock) dict"

definition adjust :: "addr \<Rightarrow> decimal \<Rightarrow> lot list \<Rightarrow> lot list" where
  "adjust a d h = h[a := (h ! a)\<lparr>lot_hc := lot_hc (h ! a) + d\<rparr>]"

fun take_from :: "lot list \<Rightarrow> addr list \<Rightarrow> decimal \<Rightarrow> stamp \<Rightarrow> part list \<times> lot list" where
  "take_from h [] left now = ([], h)"
| "take_from h (a # as) left now =
     (if left \<le> 0 then ([], h)
      else if now < lot_expires (h ! a) \<and> 0 < lot_hc (h ! a)
      then (let part = min (lot_hc (h ! a)) left;
                (taken, h') = take_from (adjust a (- part) h) as (left - part) now
            in ((a, part) # taken, h'))
      else take_from h as left now)"

definition take_hc :: "ident \<Rightarrow> decimal \<Rightarrow> stamp \<Rightarrow> 'a credits_scheme \<Rightarrow> part list \<times> 'a credits_scheme" where
  "take_hc account amount now st =
     (let (taken, h') = take_from (heap st) (lots st account) amount now in (taken, st\<lparr>heap := h'\<rparr>))"

definition balance :: "ident \<Rightarrow> stamp \<Rightarrow> 'a credits_scheme \<Rightarrow> decimal" where
  "balance account now st =
     sum_list (map (\<lambda>a. lot_hc (heap st ! a)) (filter (\<lambda>a. now < lot_expires (heap st ! a)) (lots st account)))"

definition parts_total :: "part list \<Rightarrow> decimal" where
  "parts_total parts = sum_list (map snd parts)"

definition locked :: "ident \<Rightarrow> 'a credits_scheme \<Rightarrow> decimal" where
  "locked account st = (case dget (locks st) account of None \<Rightarrow> 0 | Some lk \<Rightarrow> parts_total (lk_parts lk))"

text \<open>
  \<open>spend\<close> removes an amount from the front of a lock's parts. When a part is larger than what
  is left, the loop reduces it and stops, as nothing is left then.
\<close>

primrec spend :: "part list \<Rightarrow> decimal \<Rightarrow> part list" where
  "spend [] left = []"
| "spend (q # ps) left =
     (if left \<le> 0 then q # ps
      else let used = min (snd q) left
           in if used = snd q then spend ps (left - used) else (fst q, snd q - used) # ps)"

definition give_back :: "part list \<Rightarrow> lot list \<Rightarrow> lot list" where
  "give_back parts h = foldl (\<lambda>h (a, p). adjust a p h) h parts"

section \<open>What the operations do to each lot\<close>

definition held_at :: "part list \<Rightarrow> addr \<Rightarrow> decimal" where
  "held_at parts a = sum_list (map snd (filter (\<lambda>q. fst q = a) parts))"

lemma held_at_simps [simp]:
  "held_at [] a = 0"
  "held_at ((b, p) # ps) a = (if b = a then p else 0) + held_at ps a"
  "held_at (ps @ qs) a = held_at ps a + held_at qs a"
  by (simp_all add: held_at_def)

lemma parts_total_simps [simp]:
  "parts_total [] = 0"
  "parts_total ((b, p) # ps) = p + parts_total ps"
  "parts_total (ps @ qs) = parts_total ps + parts_total qs"
  by (simp_all add: parts_total_def)

lemma held_at_nonneg: "(\<And>q. q \<in> set ps \<Longrightarrow> 0 \<le> snd q) \<Longrightarrow> 0 \<le> held_at ps a"
  unfolding held_at_def by (rule sum_list_nonneg) auto

lemma parts_total_nonneg: "(\<And>q. q \<in> set ps \<Longrightarrow> 0 \<le> snd q) \<Longrightarrow> 0 \<le> parts_total ps"
  unfolding parts_total_def by (rule sum_list_nonneg) auto

lemma held_at_notin: "a \<notin> fst ` set ps \<Longrightarrow> held_at ps a = 0"
  by (induction ps) auto

lemma adjust_length [simp]: "length (adjust a d h) = length h"
  by (simp add: adjust_def)

lemma adjust_nth:
  "b < length h \<Longrightarrow> adjust a d h ! b = (if a = b then (h ! b)\<lparr>lot_hc := lot_hc (h ! b) + d\<rparr> else h ! b)"
  by (simp add: adjust_def nth_list_update)

lemma adjust_other: "a \<noteq> b \<Longrightarrow> adjust a d h ! b = h ! b"
  by (simp add: adjust_def)

lemma adjust_hc: "b < length h \<Longrightarrow> lot_hc (adjust a d h ! b) = lot_hc (h ! b) + (if a = b then d else 0)"
  by (simp add: adjust_nth)

text \<open>Everything about a lot but its amount.\<close>

definition same_lots :: "lot list \<Rightarrow> lot list \<Rightarrow> bool" where
  "same_lots h h' \<longleftrightarrow> length h' = length h \<and> (\<forall>a<length h. \<exists>x. h' ! a = (h ! a)\<lparr>lot_hc := x\<rparr>)"

lemma same_lots_refl [simp]: "same_lots h h"
proof -
  have "\<exists>x. l = l\<lparr>lot_hc := x\<rparr>" for l :: lot by (rule exI [of _ "lot_hc l"]) simp
  then show ?thesis by (simp add: same_lots_def)
qed

lemma same_lots_adjust [simp]: "same_lots h (adjust a d h)"
proof -
  have "\<exists>x. l = l\<lparr>lot_hc := x\<rparr>" for l :: lot by (rule exI [of _ "lot_hc l"]) simp
  then show ?thesis by (auto simp: same_lots_def adjust_nth)
qed

lemma same_lots_trans: "same_lots h h' \<Longrightarrow> same_lots h' h'' \<Longrightarrow> same_lots h h''"
  unfolding same_lots_def by (metis lot.update_convs(2) lot.surjective lot.fold_congs(2))

lemma same_lots_fields:
  assumes "same_lots h h'" "a < length h"
  shows "lot_id (h' ! a) = lot_id (h ! a)" "lot_first (h' ! a) = lot_first (h ! a)"
    "lot_expires (h' ! a) = lot_expires (h ! a)" "lot_source (h' ! a) = lot_source (h ! a)"
    "lot_ref (h' ! a) = lot_ref (h ! a)" "lot_issued (h' ! a) = lot_issued (h ! a)"
  using assms unfolding same_lots_def by (metis lot.select_convs lot.surjective lot.update_convs(2))+

lemma take_from_spec:
  assumes "take_from h as left now = (ts, h')" "distinct as" "set as \<subseteq> {..<length h}"
  shows "same_lots h h'"
    and "\<forall>a<length h. lot_hc (h' ! a) = lot_hc (h ! a) - held_at ts a"
    and "fst ` set ts \<subseteq> set as"
    and "distinct (map fst ts)"
    and "\<forall>q\<in>set ts. 0 < snd q \<and> snd q \<le> lot_hc (h ! fst q) \<and> now < lot_expires (h ! fst q)"
proof -
  have "same_lots h h' \<and> (\<forall>a<length h. lot_hc (h' ! a) = lot_hc (h ! a) - held_at ts a) \<and> fst ` set ts \<subseteq> set as
    \<and> distinct (map fst ts)
    \<and> (\<forall>q\<in>set ts. 0 < snd q \<and> snd q \<le> lot_hc (h ! fst q) \<and> now < lot_expires (h ! fst q))"
    using assms
  proof (induction h as left now arbitrary: ts h' rule: take_from.induct)
    case (2 h a as left now)
    show ?case
    proof (cases "left \<le> 0 \<or> \<not> (now < lot_expires (h ! a) \<and> 0 < lot_hc (h ! a))")
      case True
      show ?thesis
      proof (cases "left \<le> 0")
        case True
        with "2.prems"(1) show ?thesis by simp
      next
        case pos: False
        with True "2.prems"(1) have "take_from h as left now = (ts, h')" by auto
        with "2.IH"(2) [of ts h'] pos True "2.prems"(2,3) show ?thesis by auto
      qed
    next
      case False
      let ?p = "min (lot_hc (h ! a)) left" and ?h = "adjust a (- min (lot_hc (h ! a)) left) h"
      obtain ts1 where rest: "take_from ?h as (left - ?p) now = (ts1, h')" and ts: "ts = (a, ?p) # ts1"
        using "2.prems"(1) False by (auto simp: Let_def split: prod.splits if_splits)
      have a: "a < length h" "a \<notin> set as" "distinct as" "set as \<subseteq> {..<length ?h}" using "2.prems" by auto
      note IH = "2.IH"(1) [OF _ _ refl rest a(3) a(4)]
      have IH: "same_lots ?h h'" "\<forall>b<length h. lot_hc (h' ! b) = lot_hc (?h ! b) - held_at ts1 b"
        "fst ` set ts1 \<subseteq> set as" "distinct (map fst ts1)"
        "\<forall>q\<in>set ts1. 0 < snd q \<and> snd q \<le> lot_hc (?h ! fst q) \<and> now < lot_expires (?h ! fst q)"
        using IH False by auto
      have other: "?h ! b = h ! b" if "b \<in> set as" for b
        using that a by (intro adjust_other) auto
      have z: "held_at ts1 a = 0" using IH(3) a(2) by (intro held_at_notin) auto
      have "same_lots h h'" by (rule same_lots_trans [OF same_lots_adjust IH(1)])
      moreover have "\<forall>b<length h. lot_hc (h' ! b) = lot_hc (h ! b) - held_at ts b"
        using IH(2) by (simp add: ts adjust_hc)
      moreover have "fst ` set ts \<subseteq> set (a # as)" "distinct (map fst ts)"
        using IH(3,4) a(2) by (auto simp: ts)
      moreover have "\<forall>q\<in>set ts. 0 < snd q \<and> snd q \<le> lot_hc (h ! fst q) \<and> now < lot_expires (h ! fst q)"
        using IH(3,5) other False by (auto simp: ts image_subset_iff)
      ultimately show ?thesis by blast
    qed
  qed auto
  then show "same_lots h h'"
    and "\<forall>a<length h. lot_hc (h' ! a) = lot_hc (h ! a) - held_at ts a"
    and "fst ` set ts \<subseteq> set as"
    and "distinct (map fst ts)"
    and "\<forall>q\<in>set ts. 0 < snd q \<and> snd q \<le> lot_hc (h ! fst q) \<and> now < lot_expires (h ! fst q)" by auto
qed

definition available :: "lot list \<Rightarrow> addr list \<Rightarrow> stamp \<Rightarrow> decimal" where
  "available h as now = sum_list (map (\<lambda>a. lot_hc (h ! a)) (filter (\<lambda>a. now < lot_expires (h ! a)) as))"

lemma available_Cons:
  "available h (a # as) now = (if now < lot_expires (h ! a) then lot_hc (h ! a) else 0) + available h as now"
  by (simp add: available_def)

lemma available_cong: "(\<And>a. a \<in> set as \<Longrightarrow> h ! a = h' ! a) \<Longrightarrow> available h as now = available h' as now"
  by (induction as) (auto simp: available_Cons, simp add: available_def)

lemma available_nonneg: "\<forall>a\<in>set as. 0 \<le> lot_hc (h ! a) \<Longrightarrow> 0 \<le> available h as now"
  by (induction as) (auto simp: available_Cons, simp add: available_def)

text \<open>As much is taken as asked for, or everything that is there.\<close>

lemma take_from_total:
  assumes "take_from h as left now = (ts, h')" "distinct as" "set as \<subseteq> {..<length h}"
    "\<forall>a\<in>set as. 0 \<le> lot_hc (h ! a)" "0 \<le> left"
  shows "parts_total ts = min left (available h as now)"
  using assms
proof (induction h as left now arbitrary: ts h' rule: take_from.induct)
  case (1 h left now)
  then show ?case by (simp add: available_def)
next
  case (2 h a as left now)
  have nn: "0 \<le> available h as now" using "2.prems" by (intro available_nonneg) auto
  show ?case
  proof (cases "left \<le> 0 \<or> \<not> (now < lot_expires (h ! a) \<and> 0 < lot_hc (h ! a))")
    case True
    then show ?thesis using 2 nn by (auto simp: available_Cons split: if_splits)
  next
    case False
    let ?p = "min (lot_hc (h ! a)) left" and ?h = "adjust a (- min (lot_hc (h ! a)) left) h"
    obtain ts1 where rest: "take_from ?h as (left - ?p) now = (ts1, h')" and ts: "ts = (a, ?p) # ts1"
      using "2.prems"(1) False by (auto simp: Let_def split: prod.splits if_splits)
    have a: "a < length h" "a \<notin> set as" "distinct as" "set as \<subseteq> {..<length ?h}" using "2.prems" by auto
    have other: "?h ! b = h ! b" if "b \<in> set as" for b
      using that a by (intro adjust_other) auto
    have "parts_total ts1 = min (left - ?p) (available ?h as now)"
      using "2.IH"(1) [OF _ _ refl rest a(3) a(4)] False "2.prems" other by auto
    moreover have "available ?h as now = available h as now" by (rule available_cong) (rule other)
    ultimately show ?thesis using False nn by (auto simp: ts available_Cons min_def)
  qed
qed

text \<open>HC leaves the lot that lapses first: what comes before a touched lot is used up.\<close>

lemma take_from_in_order:
  assumes "take_from h as left now = (ts, h')" "distinct as" "set as \<subseteq> {..<length h}"
    "as = xs @ b # ys" "a \<in> set xs" "b \<in> fst ` set ts" "now < lot_expires (h ! a)" "0 \<le> lot_hc (h ! a)"
  shows "lot_hc (h' ! a) = 0"
  using assms
proof (induction h as left now arbitrary: ts h' xs rule: take_from.induct)
  case (2 h c as left now)
  then obtain xs' where xs: "xs = c # xs'" "as = xs' @ b # ys" by (cases xs) auto
  have b: "b \<noteq> c" using "2.prems"(2,4) xs by auto
  have l: "\<not> left \<le> 0" using "2.prems"(1,6) by auto
  show ?case
  proof (cases "now < lot_expires (h ! c) \<and> 0 < lot_hc (h ! c)")
    case False
    then have rest: "take_from h as left now = (ts, h')" using "2.prems"(1) l by auto
    show ?thesis
    proof (cases "a = c")
      case True
      with False "2.prems"(7,8) have z: "lot_hc (h ! a) = 0" by auto
      have "a \<notin> fst ` set ts" using take_from_spec(3) [OF rest] "2.prems"(2,3) True by auto
      then show ?thesis
        using take_from_spec(2) [OF rest] "2.prems"(2,3) z True held_at_notin [of a ts] by simp
    next
      case False2: False
      then show ?thesis using "2.IH"(2) [OF _ _ rest _ _ xs(2)] l False "2.prems" xs by auto
    qed
  next
    case True
    let ?p = "min (lot_hc (h ! c)) left" and ?h = "adjust c (- min (lot_hc (h ! c)) left) h"
    obtain ts1 where rest: "take_from ?h as (left - ?p) now = (ts1, h')" and ts: "ts = (c, ?p) # ts1"
      using "2.prems"(1) l True by (auto simp: Let_def split: prod.splits if_splits)
    have c: "c < length h" "c \<notin> set as" "distinct as" "set as \<subseteq> {..<length ?h}" using "2.prems"(2,3) by auto
    have bts: "b \<in> fst ` set ts1" using "2.prems"(6) b by (auto simp: ts)
    show ?thesis
    proof (cases "a = c")
      case True
      have "\<not> left - ?p \<le> 0" using rest bts by (cases as) auto
      then have "?p = lot_hc (h ! c)" by auto
      moreover have "held_at ts1 c = 0" using take_from_spec(3) [OF rest c(3,4)] c(2) by (intro held_at_notin) auto
      ultimately show ?thesis using take_from_spec(2) [OF rest c(3,4)] c(1) True by (simp add: adjust_hc)
    next
      case False
      then have "?h ! a = h ! a" by (intro adjust_other) simp
      moreover have "a \<in> set xs'" using "2.prems"(5) xs False by auto
      ultimately show ?thesis
        using "2.IH"(1) [OF _ _ refl rest c(3,4) xs(2) _ bts] l True "2.prems" by auto
    qed
  qed
qed auto

lemma give_back_simps [simp]:
  "give_back [] h = h"
  "give_back ((a, p) # ps) h = give_back ps (adjust a p h)"
  by (simp_all add: give_back_def)

lemma give_back_length [simp]: "length (give_back ps h) = length h"
  by (induction ps arbitrary: h) auto

lemma give_back_same: "same_lots h (give_back ps h)"
proof (induction ps arbitrary: h)
  case (Cons q ps)
  then show ?case by (cases q) (auto intro: same_lots_trans [OF same_lots_adjust])
qed simp

lemma give_back_hc: "a < length h \<Longrightarrow> lot_hc (give_back ps h ! a) = lot_hc (h ! a) + held_at ps a"
proof (induction ps arbitrary: h)
  case (Cons q ps)
  then show ?case by (cases q) (auto simp: adjust_hc)
qed simp

lemma spend_spec:
  assumes "\<forall>q\<in>set ps. 0 < snd q" "0 \<le> x"
  shows "parts_total (spend ps x) = max 0 (parts_total ps - x)"
    and "\<forall>q\<in>set (spend ps x). 0 < snd q"
    and "fst ` set (spend ps x) \<subseteq> fst ` set ps"
    and "held_at (spend ps x) a \<le> held_at ps a"
proof -
  have "parts_total (spend ps x) = max 0 (parts_total ps - x) \<and> (\<forall>q\<in>set (spend ps x). 0 < snd q)
    \<and> fst ` set (spend ps x) \<subseteq> fst ` set ps \<and> held_at (spend ps x) a \<le> held_at ps a"
    using assms
  proof (induction ps arbitrary: x)
    case (Cons q ps)
    obtain b p where q: "q = (b, p)" by (cases q)
    have nn: "0 \<le> parts_total ps" using Cons.prems by (intro parts_total_nonneg) (auto intro: less_imp_le)
    consider "x \<le> 0" | "0 < x" "p \<le> x" | "0 < x" "x < p" by linarith
    then show ?case
    proof cases
      case 1
      with Cons.prems nn q show ?thesis by auto
    next
      case 2
      then have "spend (q # ps) x = spend ps (x - p)" by (simp add: q Let_def min_def)
      moreover have "0 < p" using Cons.prems by (simp add: q)
      ultimately show ?thesis using Cons.IH [of "x - p"] Cons.prems 2 nn by (auto simp: q)
    next
      case 3
      then have "spend (q # ps) x = (b, p - x) # ps" by (simp add: q Let_def min_def)
      then show ?thesis using Cons.prems 3 nn by (auto simp: q)
    qed
  qed simp
  then show "parts_total (spend ps x) = max 0 (parts_total ps - x)"
    and "\<forall>q\<in>set (spend ps x). 0 < snd q"
    and "fst ` set (spend ps x) \<subseteq> fst ` set ps"
    and "held_at (spend ps x) a \<le> held_at ps a" by auto
qed

section \<open>Well-formed credits\<close>

text \<open>
  Each lot belongs to one account, an account's lots are in the order they lapse, and the
  parts of a lock are positive amounts of its own account's lots. No lot holds less than
  nothing, and what it holds together with what locks hold of it is at most what was issued.
\<close>

definition lapse_key :: "lot list \<Rightarrow> addr \<Rightarrow> stamp \<times> stamp" where
  "lapse_key h a = (lot_expires (h ! a), lot_issued (h ! a))"

definition locks_at :: "(ident, lock) dict \<Rightarrow> addr \<Rightarrow> decimal" where
  "locks_at d a = dsum (\<lambda>lk. held_at (lk_parts lk) a) d"

definition lots_ok :: "'a credits_scheme \<Rightarrow> bool" where
  "lots_ok st \<longleftrightarrow>
     (\<forall>acc. distinct (lots st acc) \<and> set (lots st acc) \<subseteq> {..<length (heap st)}
        \<and> sorted (map (lapse_key (heap st)) (lots st acc)))
     \<and> (\<forall>acc acc'. acc \<noteq> acc' \<longrightarrow> set (lots st acc) \<inter> set (lots st acc') = {})"

definition locks_ok :: "'a credits_scheme \<Rightarrow> bool" where
  "locks_ok st \<longleftrightarrow> distinct (dkeys (locks st)) \<and>
     (\<forall>(acc, lk)\<in>set (locks st). \<forall>q\<in>set (lk_parts lk). fst q \<in> set (lots st acc) \<and> 0 < snd q)"

definition amounts_ok :: "'a credits_scheme \<Rightarrow> bool" where
  "amounts_ok st \<longleftrightarrow> (\<forall>a<length (heap st). 0 \<le> lot_hc (heap st ! a)
     \<and> lot_hc (heap st ! a) + locks_at (locks st) a \<le> lot_first (heap st ! a))"

definition credits_ok :: "'a credits_scheme \<Rightarrow> bool" where
  "credits_ok st \<longleftrightarrow> lots_ok st \<and> locks_ok st \<and> amounts_ok st"

lemma locks_at_simps:
  "locks_at [] a = 0"
  "locks_at (dset k lk d) a = locks_at d a + held_at (lk_parts lk) a - dval (\<lambda>lk. held_at (lk_parts lk) a) d k"
  "distinct (dkeys d) \<Longrightarrow> locks_at (ddel k d) a = locks_at d a - dval (\<lambda>lk. held_at (lk_parts lk) a) d k"
  by (simp_all add: locks_at_def dsum_dset dsum_ddel) (simp add: dsum_def)

lemma lapse_key_same: "same_lots h h' \<Longrightarrow> a < length h \<Longrightarrow> lapse_key h' a = lapse_key h a"
  by (simp add: lapse_key_def same_lots_fields)

lemma lots_ok_same:
  assumes "lots_ok st" "same_lots (heap st) h'" "lots st' = lots st" "heap st' = h'"
  shows "lots_ok st'"
proof -
  have "map (lapse_key h') (lots st acc) = map (lapse_key (heap st)) (lots st acc)" for acc
    using assms(1,2) by (auto simp: lots_ok_def subset_iff intro!: lapse_key_same)
  moreover have "length h' = length (heap st)" using assms(2) by (simp add: same_lots_def)
  ultimately show ?thesis using assms by (simp add: lots_ok_def del: map_eq_conv)
qed

lemma locks_ok_part: "locks_ok st \<Longrightarrow> dget (locks st) acc = Some lk \<Longrightarrow> q \<in> set (lk_parts lk) \<Longrightarrow> fst q \<in> set (lots st acc) \<and> 0 < snd q"
  unfolding locks_ok_def by (auto dest!: dget_in_set)

lemma locks_ok_dset:
  assumes "locks_ok st" "\<forall>q\<in>set (lk_parts lk). fst q \<in> set (lots st acc) \<and> 0 < snd q"
    "locks st' = dset acc lk (locks st)" "lots st' = lots st"
  shows "locks_ok st'"
  using assms set_dset_subset [of acc lk "locks st"]
  by (fastforce simp: locks_ok_def distinct_update)

lemma locks_ok_ddel:
  assumes "locks_ok st" "locks st' = ddel acc (locks st)" "lots st' = lots st"
  shows "locks_ok st'"
  using assms set_ddel_subset [of acc "locks st"]
  by (fastforce simp: locks_ok_def dkeys_ddel)

lemma locks_at_dget_le:
  assumes "locks_ok st"
  shows "0 \<le> dval (\<lambda>lk. held_at (lk_parts lk) a) (locks st) acc"
  using locks_ok_part [OF assms] by (fastforce split: option.splits intro: held_at_nonneg less_imp_le)

lemma take_hc_spec:
  assumes "lots_ok st" "take_hc acc x now st = (ts, st')"
  obtains h' where "st' = st\<lparr>heap := h'\<rparr>" "same_lots (heap st) h'"
    "\<forall>a<length (heap st). lot_hc (h' ! a) = lot_hc (heap st ! a) - held_at ts a"
    "fst ` set ts \<subseteq> set (lots st acc)" "distinct (map fst ts)"
    "\<forall>q\<in>set ts. 0 < snd q \<and> snd q \<le> lot_hc (heap st ! fst q) \<and> now < lot_expires (heap st ! fst q)"
proof -
  obtain h' where tf: "take_from (heap st) (lots st acc) x now = (ts, h')" and st': "st' = st\<lparr>heap := h'\<rparr>"
    using assms(2) by (auto simp: take_hc_def split: prod.splits)
  have "distinct (lots st acc)" "set (lots st acc) \<subseteq> {..<length (heap st)}"
    using assms(1) by (simp_all add: lots_ok_def)
  note spec = take_from_spec [OF tf this]
  show thesis by (rule that [OF st' spec])
qed

lemma taken_at_le:
  assumes "distinct (map fst ts)" "\<forall>q\<in>set ts. snd q \<le> f (fst q)" "0 \<le> f a"
  shows "held_at ts a \<le> f a"
  using assms(1,2)
proof (induction ts)
  case Nil
  then show ?case using assms(3) by simp
next
  case (Cons q ts)
  obtain b p where q: "q = (b, p)" by (cases q)
  show ?case
  proof (cases "b = a")
    case True
    then have "held_at ts a = 0" using Cons.prems by (intro held_at_notin) (auto simp: q)
    then show ?thesis using Cons.prems True by (simp add: q)
  next
    case False
    then show ?thesis using Cons by (simp add: q)
  qed
qed

text \<open>The credit side of the ledger's lines, each keeping credits well-formed.\<close>

definition issue_lot :: "ident \<Rightarrow> lot \<Rightarrow> 'a credits_scheme \<Rightarrow> 'a credits_scheme" where
  "issue_lot acc l st =
     (let h = heap st @ [l]
      in st\<lparr>heap := h, lots := (lots st)(acc := sort_key (lapse_key h) (lots st acc @ [length (heap st)]))\<rparr>)"

definition lock_hc :: "ident \<Rightarrow> decimal \<Rightarrow> stamp \<Rightarrow> nat \<Rightarrow> 'a credits_scheme \<Rightarrow> 'a credits_scheme" where
  "lock_hc acc x now seq st =
     (let lk = (case dget (locks st) acc of None \<Rightarrow> \<lparr>lk_parts = [], lk_joined = now, lk_seq = seq\<rparr> | Some lk \<Rightarrow> lk);
          (taken, st') = take_hc acc x now st
      in st'\<lparr>locks := dset acc (lk\<lparr>lk_parts := lk_parts lk @ taken\<rparr>) (locks st')\<rparr>)"

definition release_parts :: "ident \<Rightarrow> part list \<Rightarrow> 'a credits_scheme \<Rightarrow> 'a credits_scheme" where
  "release_parts acc ps st = st\<lparr>locks := ddel acc (locks st), heap := give_back ps (heap st)\<rparr>"

lemma credits_ok_issue:
  assumes "credits_ok st" "0 \<le> lot_hc l" "lot_hc l \<le> lot_first l"
  shows "credits_ok (issue_lot acc l st)"
proof -
  let ?h = "heap st @ [l]" and ?n = "length (heap st)"
  have ok: "lots_ok st" "locks_ok st" "amounts_ok st" using assms(1) by (simp_all add: credits_ok_def)
  have bound: "set (lots st b) \<subseteq> {..<?n}" "distinct (lots st b)" "sorted (map (lapse_key (heap st)) (lots st b))" for b
    using ok(1) by (simp_all add: lots_ok_def)
  have keys: "map (lapse_key ?h) (lots st b) = map (lapse_key (heap st)) (lots st b)" for b
    using bound(1) [of b] by (auto simp: lapse_key_def nth_append subset_iff)
  have new: "?n \<notin> set (lots st b)" for b using bound(1) [of b] by auto
  have "lots_ok (issue_lot acc l st)"
    using ok(1) bound new keys by (auto simp: lots_ok_def issue_lot_def Let_def subset_iff less_Suc_eq simp del: map_eq_conv)
  moreover have "locks_ok (issue_lot acc l st)"
    using ok(2) by (fastforce simp: locks_ok_def issue_lot_def Let_def)
  moreover have "locks_at (locks st) ?n = 0"
  proof -
    have "held_at (lk_parts lk) ?n = 0" if "(b, lk) \<in> set (locks st)" for b lk
      using that ok(2) bound(1) [of b] by (intro held_at_notin) (fastforce simp: locks_ok_def)
    then have "map (\<lambda>lk. held_at (lk_parts lk) ?n) (dvalues (locks st)) = map (\<lambda>_. 0) (dvalues (locks st))" by auto
    then show ?thesis unfolding locks_at_def dsum_def by (metis sum_list_0)
  qed
  then have "amounts_ok (issue_lot acc l st)"
    using ok(3) assms(2,3) by (auto simp: amounts_ok_def issue_lot_def Let_def nth_append less_Suc_eq)
  ultimately show ?thesis by (simp add: credits_ok_def)
qed

lemma credits_ok_take:
  assumes "credits_ok st" "take_hc acc x now st = (ts, st')"
  shows "credits_ok st'"
proof -
  have ok: "lots_ok st" "locks_ok st" "amounts_ok st" using assms(1) by (simp_all add: credits_ok_def)
  obtain h' where h': "st' = st\<lparr>heap := h'\<rparr>" "same_lots (heap st) h'"
    "\<forall>a<length (heap st). lot_hc (h' ! a) = lot_hc (heap st ! a) - held_at ts a"
    "distinct (map fst ts)"
    "\<forall>q\<in>set ts. 0 < snd q \<and> snd q \<le> lot_hc (heap st ! fst q) \<and> now < lot_expires (heap st ! fst q)"
    by (rule take_hc_spec [OF ok(1) assms(2)]) blast
  have len: "length h' = length (heap st)" using h'(2) by (simp add: same_lots_def)
  have "lots_ok st'" by (rule lots_ok_same [OF ok(1) h'(2)]) (simp_all add: h'(1))
  moreover have "locks_ok st'" using ok(2) by (simp add: locks_ok_def h'(1))
  moreover have "amounts_ok st'"
    unfolding amounts_ok_def
  proof (intro allI impI)
    fix a assume "a < length (heap st')"
    then have a: "a < length (heap st)" by (simp add: h'(1) len)
    have hc: "0 \<le> lot_hc (heap st ! a)" "lot_hc (heap st ! a) + locks_at (locks st) a \<le> lot_first (heap st ! a)"
      using ok(3) a by (simp_all add: amounts_ok_def)
    have "0 \<le> held_at ts a" using h'(5) by (intro held_at_nonneg) (auto intro: less_imp_le)
    moreover have "held_at ts a \<le> lot_hc (heap st ! a)"
      using h'(4,5) hc(1) by (intro taken_at_le [where f = "\<lambda>b. lot_hc (heap st ! b)"]) auto
    ultimately show "0 \<le> lot_hc (heap st' ! a) \<and> lot_hc (heap st' ! a) + locks_at (locks st') a \<le> lot_first (heap st' ! a)"
      using h'(3) a hc same_lots_fields(2) [OF h'(2) a] by (simp add: h'(1))
  qed
  ultimately show ?thesis by (simp add: credits_ok_def)
qed

lemma credits_ok_lock:
  assumes "credits_ok st"
  shows "credits_ok (lock_hc acc x now n st)"
proof -
  have ok: "lots_ok st" "locks_ok st" "amounts_ok st" using assms by (simp_all add: credits_ok_def)
  obtain ts st' where t: "take_hc acc x now st = (ts, st')" by fastforce
  obtain h' where h': "st' = st\<lparr>heap := h'\<rparr>" "same_lots (heap st) h'"
    "\<forall>a<length (heap st). lot_hc (h' ! a) = lot_hc (heap st ! a) - held_at ts a"
    "fst ` set ts \<subseteq> set (lots st acc)"
    "\<forall>q\<in>set ts. 0 < snd q \<and> snd q \<le> lot_hc (heap st ! fst q) \<and> now < lot_expires (heap st ! fst q)"
    by (rule take_hc_spec [OF ok(1) t]) blast
  have ok': "credits_ok st'" by (rule credits_ok_take [OF assms t])
  define lk where "lk = (case dget (locks st) acc of None \<Rightarrow> \<lparr>lk_parts = [], lk_joined = now, lk_seq = n\<rparr> | Some lk \<Rightarrow> lk)"
  have eq: "lock_hc acc x now n st = st'\<lparr>locks := dset acc (lk\<lparr>lk_parts := lk_parts lk @ ts\<rparr>) (locks st')\<rparr>"
    by (simp add: lock_hc_def t lk_def [symmetric])
  have lkp: "lk_parts lk = (case dget (locks st) acc of None \<Rightarrow> [] | Some lk \<Rightarrow> lk_parts lk)"
    by (simp add: lk_def split: option.splits)
  have "lots_ok (lock_hc acc x now n st)" using ok' by (simp add: eq credits_ok_def lots_ok_def)
  moreover have "locks_ok (lock_hc acc x now n st)"
  proof (rule locks_ok_dset)
    show "locks_ok st'" using ok' by (simp add: credits_ok_def)
    show "\<forall>q\<in>set (lk_parts (lk\<lparr>lk_parts := lk_parts lk @ ts\<rparr>)). fst q \<in> set (lots st' acc) \<and> 0 < snd q"
    proof -
      have "\<forall>q\<in>set (lk_parts lk). fst q \<in> set (lots st acc) \<and> 0 < snd q"
        using locks_ok_part [OF ok(2), of acc] unfolding lkp by (cases "dget (locks st) acc") auto
      then show ?thesis using h'(1,4,5) by auto
    qed
  qed (simp_all add: eq)
  moreover have "amounts_ok (lock_hc acc x now n st)"
  proof -
    have "dval (\<lambda>lk. held_at (lk_parts lk) a) (locks st) acc = held_at (lk_parts lk) a" for a
      by (simp add: lkp split: option.splits)
    then have at: "locks_at (dset acc (lk\<lparr>lk_parts := lk_parts lk @ ts\<rparr>) (locks st)) a = locks_at (locks st) a + held_at ts a" for a
      by (simp add: locks_at_simps)
    show ?thesis unfolding amounts_ok_def
    proof (intro allI impI)
      fix a assume "a < length (heap (lock_hc acc x now n st))"
      then have a: "a < length (heap st)" "a < length (heap st')"
        using h'(2) by (simp_all add: eq h'(1) same_lots_def)
      have "0 \<le> lot_hc (heap st' ! a)" using ok' a(2) by (simp add: credits_ok_def amounts_ok_def)
      moreover have "lot_hc (heap st ! a) + locks_at (locks st) a \<le> lot_first (heap st ! a)"
        using ok(3) a(1) by (simp add: amounts_ok_def)
      ultimately show "0 \<le> lot_hc (heap (lock_hc acc x now n st) ! a) \<and>
          lot_hc (heap (lock_hc acc x now n st) ! a) + locks_at (locks (lock_hc acc x now n st)) a
            \<le> lot_first (heap (lock_hc acc x now n st) ! a)"
        using h'(3) a same_lots_fields(2) [OF h'(2) a(1)] by (simp add: eq h'(1) at)
    qed
  qed
  ultimately show ?thesis by (simp add: credits_ok_def)
qed

lemma credits_ok_release:
  assumes "credits_ok st" "dget (locks st) acc = Some lk"
    "\<forall>q\<in>set ps. 0 < snd q" "\<And>a. held_at ps a \<le> held_at (lk_parts lk) a"
  shows "credits_ok (release_parts acc ps st)"
proof -
  have ok: "lots_ok st" "locks_ok st" "amounts_ok st" using assms(1) by (simp_all add: credits_ok_def)
  have "lots_ok (release_parts acc ps st)"
    by (rule lots_ok_same [OF ok(1) give_back_same]) (simp_all add: release_parts_def)
  moreover have "locks_ok (release_parts acc ps st)"
    by (rule locks_ok_ddel [OF ok(2)]) (simp_all add: release_parts_def)
  moreover have "amounts_ok (release_parts acc ps st)"
    unfolding amounts_ok_def
  proof (intro allI impI)
    fix a assume "a < length (heap (release_parts acc ps st))"
    then have a: "a < length (heap st)" by (simp add: release_parts_def)
    have "0 \<le> held_at ps a" using assms(3) by (intro held_at_nonneg) (auto intro: less_imp_le)
    moreover have "distinct (dkeys (locks st))" using ok(2) by (simp add: locks_ok_def)
    moreover have "0 \<le> lot_hc (heap st ! a) \<and> lot_hc (heap st ! a) + locks_at (locks st) a \<le> lot_first (heap st ! a)"
      using ok(3) a by (simp add: amounts_ok_def)
    ultimately show "0 \<le> lot_hc (heap (release_parts acc ps st) ! a) \<and>
        lot_hc (heap (release_parts acc ps st) ! a) + locks_at (locks (release_parts acc ps st)) a
          \<le> lot_first (heap (release_parts acc ps st) ! a)"
      using assms(2) assms(4) [of a] same_lots_fields(2) [OF give_back_same a, of ps] a
      by (simp add: release_parts_def give_back_hc locks_at_simps)
  qed
  ultimately show ?thesis by (simp add: credits_ok_def)
qed

lemma credits_ok_drop_parts:
  assumes "credits_ok st" "dget (locks st) acc = Some lk" "set ps \<subseteq> set (lk_parts lk)"
    "\<And>a. held_at ps a \<le> held_at (lk_parts lk) a"
    "d = dset acc (lk\<lparr>lk_parts := ps\<rparr>) (locks st) \<or> d = ddel acc (locks st)"
  shows "credits_ok (st\<lparr>locks := d\<rparr>)"
proof -
  have ok: "lots_ok st" "locks_ok st" "amounts_ok st" using assms(1) by (simp_all add: credits_ok_def)
  have pos: "\<forall>q\<in>set ps. fst q \<in> set (lots st acc) \<and> 0 < snd q"
    using assms(3) locks_ok_part [OF ok(2) assms(2)] by blast
  have le: "locks_at d a \<le> locks_at (locks st) a" for a
  proof -
    have "distinct (dkeys (locks st))" using ok(2) by (simp add: locks_ok_def)
    moreover have "0 \<le> held_at (lk_parts lk) a"
      using locks_at_dget_le [OF ok(2), of a acc] assms(2) by simp
    ultimately show ?thesis using assms(2,5) assms(4) [of a] by (auto simp: locks_at_simps)
  qed
  have "lots_ok (st\<lparr>locks := d\<rparr>)" using ok(1) by (simp add: lots_ok_def)
  moreover have "locks_ok (st\<lparr>locks := d\<rparr>)"
    using assms(5)
  proof
    assume "d = dset acc (lk\<lparr>lk_parts := ps\<rparr>) (locks st)"
    then show ?thesis using pos by (intro locks_ok_dset [OF ok(2)]) simp_all
  next
    assume "d = ddel acc (locks st)"
    then show ?thesis by (intro locks_ok_ddel [OF ok(2)]) simp_all
  qed
  moreover have "amounts_ok (st\<lparr>locks := d\<rparr>)"
    unfolding amounts_ok_def
  proof (intro allI impI)
    fix a assume "a < length (heap (st\<lparr>locks := d\<rparr>))"
    then have "0 \<le> lot_hc (heap st ! a)" "lot_hc (heap st ! a) + locks_at (locks st) a \<le> lot_first (heap st ! a)"
      using ok(3) by (simp_all add: amounts_ok_def)
    with le [of a] show "0 \<le> lot_hc (heap (st\<lparr>locks := d\<rparr>) ! a) \<and>
        lot_hc (heap (st\<lparr>locks := d\<rparr>) ! a) + locks_at (locks (st\<lparr>locks := d\<rparr>)) a \<le> lot_first (heap (st\<lparr>locks := d\<rparr>) ! a)"
      by simp
  qed
  ultimately show ?thesis by (simp add: credits_ok_def)
qed

lemma credits_ok_debit:
  assumes "credits_ok st" "a < length (heap st)" "0 \<le> x" "x \<le> lot_hc (heap st ! a)"
  shows "credits_ok (st\<lparr>heap := adjust a (- x) (heap st)\<rparr>)"
proof -
  have ok: "lots_ok st" "locks_ok st" "amounts_ok st" using assms(1) by (simp_all add: credits_ok_def)
  have "lots_ok (st\<lparr>heap := adjust a (- x) (heap st)\<rparr>)"
    by (rule lots_ok_same [OF ok(1) same_lots_adjust]) simp_all
  moreover have "locks_ok (st\<lparr>heap := adjust a (- x) (heap st)\<rparr>)" using ok(2) by (simp add: locks_ok_def)
  moreover have "amounts_ok (st\<lparr>heap := adjust a (- x) (heap st)\<rparr>)"
    using ok(3) assms(2-4) by (auto simp: amounts_ok_def adjust_nth)
  ultimately show ?thesis by (simp add: credits_ok_def)
qed

section \<open>Balances\<close>

lemma balance_available: "balance acc now st = available (heap st) (lots st acc) now"
  by (simp add: balance_def available_def)

lemma balance_nonneg: "credits_ok st \<Longrightarrow> 0 \<le> balance acc now st"
  unfolding balance_available
proof (rule available_nonneg, rule ballI)
  fix a assume "credits_ok st" "a \<in> set (lots st acc)"
  then have "a < length (heap st)" "amounts_ok st" by (auto simp: credits_ok_def lots_ok_def)
  then show "0 \<le> lot_hc (heap st ! a)" by (simp add: amounts_ok_def)
qed

lemma available_diff:
  assumes "\<And>a. a \<in> set as \<Longrightarrow> lot_expires (h' ! a) = lot_expires (h ! a)"
    and "\<And>a. a \<in> set as \<Longrightarrow> lot_hc (h' ! a) = lot_hc (h ! a) - f a"
    and "\<And>a. a \<in> set as \<Longrightarrow> \<not> now < lot_expires (h ! a) \<Longrightarrow> f a = 0"
  shows "available h' as now = available h as now - sum_list (map f as)"
  using assms by (induction as) (auto simp: available_Cons, simp add: available_def)

lemma sum_held_at:
  assumes "distinct as" "fst ` set ts \<subseteq> set as"
  shows "sum_list (map (held_at ts) as) = parts_total ts"
  using assms(2)
proof (induction ts)
  case (Cons q ts)
  obtain b p where q: "q = (b, p)" by (cases q)
  have "sum_list (map (\<lambda>a. (if b = a then p else 0) + held_at ts a) as) =
      sum_list (map (\<lambda>a. if b = a then p else 0) as) + sum_list (map (held_at ts) as)"
    by (simp add: sum_list_addf)
  moreover have "sum_list (map (\<lambda>a. if b = a then p else 0) as) = p"
    using assms(1) Cons.prems by (simp add: q sum_list_map_eq_sum_count2 sum_list_distinct_conv_sum_set)
  ultimately show ?case using Cons by (simp add: q)
next
  case Nil
  have "held_at [] = (\<lambda>_. 0)" by (simp add: fun_eq_iff)
  then show ?case by simp
qed

text \<open>Taking an amount the balance covers lowers the balance by exactly that amount.\<close>

lemma take_hc_balance:
  assumes "credits_ok st" "take_hc acc x now st = (ts, st')" "0 \<le> x" "x \<le> balance acc now st"
  shows "balance acc now st' = balance acc now st - x" "parts_total ts = x"
proof -
  have ok: "lots_ok st" "amounts_ok st" using assms(1) by (simp_all add: credits_ok_def)
  have as: "distinct (lots st acc)" "set (lots st acc) \<subseteq> {..<length (heap st)}" using ok(1) by (simp_all add: lots_ok_def)
  obtain h' where h': "st' = st\<lparr>heap := h'\<rparr>" "same_lots (heap st) h'"
    "\<forall>a<length (heap st). lot_hc (h' ! a) = lot_hc (heap st ! a) - held_at ts a"
    "fst ` set ts \<subseteq> set (lots st acc)"
    "\<forall>q\<in>set ts. 0 < snd q \<and> snd q \<le> lot_hc (heap st ! fst q) \<and> now < lot_expires (heap st ! fst q)"
    by (rule take_hc_spec [OF ok(1) assms(2)]) blast
  have tf: "take_from (heap st) (lots st acc) x now = (ts, h')"
    using assms(2) h'(1) by (auto simp: take_hc_def split: prod.splits) (metis credits.select_convs(1) credits.surjective credits.update_convs(1))
  have "\<forall>a\<in>set (lots st acc). 0 \<le> lot_hc (heap st ! a)" using ok(2) as(2) by (auto simp: amounts_ok_def)
  then show total: "parts_total ts = x"
    using take_from_total [OF tf as] assms(3,4) by (simp add: balance_available)
  have "held_at ts a = 0" if "\<not> now < lot_expires (heap st ! a)" for a
    using that h'(5) by (intro held_at_notin) fastforce
  then have "available h' (lots st acc) now = available (heap st) (lots st acc) now - sum_list (map (held_at ts) (lots st acc))"
    using as(2) h'(3) same_lots_fields(3) [OF h'(2)] by (intro available_diff) auto
  then show "balance acc now st' = balance acc now st - x"
    using sum_held_at [OF as(1) h'(4)] total by (simp add: balance_available h'(1))
qed

lemma take_hc_other:
  assumes "lots_ok st" "take_hc acc x now st = (ts, st')" "other \<noteq> acc"
  shows "balance other t st' = balance other t st"
proof -
  obtain h' where h': "st' = st\<lparr>heap := h'\<rparr>" "same_lots (heap st) h'"
    "\<forall>a<length (heap st). lot_hc (h' ! a) = lot_hc (heap st ! a) - held_at ts a"
    "fst ` set ts \<subseteq> set (lots st acc)"
    by (rule take_hc_spec [OF assms(1,2)]) blast
  have o: "set (lots st other) \<subseteq> {..<length (heap st)}" "set (lots st other) \<inter> set (lots st acc) = {}"
    using assms(1,3) by (simp_all add: lots_ok_def)
  have "available h' (lots st other) t = available (heap st) (lots st other) t - sum_list (map (\<lambda>_. 0) (lots st other))"
  proof (rule available_diff)
    fix a assume a: "a \<in> set (lots st other)"
    with o have "a < length (heap st)" "a \<notin> set (lots st acc)" by auto
    then show "lot_expires (h' ! a) = lot_expires (heap st ! a)" "lot_hc (h' ! a) = lot_hc (heap st ! a) - 0"
      using h'(3,4) same_lots_fields(3) [OF h'(2)] held_at_notin [of a ts] by auto
  qed simp
  then show ?thesis by (simp add: balance_available h'(1))
qed

section \<open>Properties\<close>

text \<open>Two lots of one account, the second lapsing later, for the examples.\<close>

definition two_lots :: credits where
  "two_lots = \<lparr>heap =
      [\<lparr>lot_id = ''LT1'', lot_hc = 10, lot_first = 10, lot_expires = 100, lot_source = ''purchase'', lot_ref = ''SP1'', lot_issued = 1,
        lot_fleet = None, lot_hours = []\<rparr>,
       \<lparr>lot_id = ''LT2'', lot_hc = 5, lot_first = 5, lot_expires = 200, lot_source = ''purchase'', lot_ref = ''SP2'', lot_issued = 2,
        lot_fleet = None, lot_hours = []\<rparr>],
     lots = (\<lambda>acc. if acc = ''AC1'' then [0, 1] else []), locks = []\<rparr>"

lemma two_lots_ok: "credits_ok two_lots"
  by (auto simp: credits_ok_def lots_ok_def locks_ok_def amounts_ok_def two_lots_def lapse_key_def locks_at_simps less_Suc_eq)

lemma two_lots_take:
  "take_hc ''AC1'' 12 50 two_lots = ([(0, 10), (1, 2)], snd (take_hc ''AC1'' 12 50 two_lots))"
  by (simp add: take_hc_def two_lots_def adjust_def Let_def split: prod.splits)

text \<open>
  C18. Taking an amount that the unlocked balance covers takes exactly that amount from the
  account, leaves every other account's balance as it was, and keeps the credits well-formed.
\<close>

theorem take_hc_exact:
  assumes "credits_ok s" "0 \<le> x" "x \<le> balance acc t s" "take_hc acc x t s = (ts, s')"
  shows "balance acc t s' = balance acc t s - x \<and> parts_total ts = x \<and> credits_ok s'
     \<and> (\<forall>other u. other \<noteq> acc \<longrightarrow> balance other u s' = balance other u s)"
  using take_hc_balance [OF assms(1,4,2,3)] credits_ok_take [OF assms(1,4)] take_hc_other [OF _ assms(4)] assms(1)
  by (simp add: credits_ok_def)

theorem take_hc_exact_witness:
  "balance ''AC1'' 50 (snd (take_hc ''AC1'' 12 50 two_lots)) = balance ''AC1'' 50 two_lots - 12 \<and> parts_total [(0 :: addr, 10), (1, 2)] = 12
     \<and> credits_ok (snd (take_hc ''AC1'' 12 50 two_lots))
     \<and> balance ''AC2'' 50 (snd (take_hc ''AC1'' 12 50 two_lots)) = balance ''AC2'' 50 two_lots"
  using take_hc_exact [OF two_lots_ok _ _ two_lots_take] by (simp add: balance_def two_lots_def)

text \<open>
  C29. HC that lapse first are spent first: when anything is taken from a lot, every lot of the
  account that is ordered before it and has not lapsed is left empty, and lapses no later.
\<close>

theorem take_hc_earliest_first:
  assumes "credits_ok s" "take_hc acc x t s = (ts, s')" "lots s acc = xs @ b # ys" "a \<in> set xs" "b \<in> fst ` set ts"
    "t < lot_expires (heap s ! a)"
  shows "lot_hc (heap s' ! a) = 0 \<and> lapse_key (heap s) a \<le> lapse_key (heap s) b"
proof -
  have ok: "lots_ok s" "amounts_ok s" using assms(1) by (simp_all add: credits_ok_def)
  have as: "distinct (lots s acc)" "set (lots s acc) \<subseteq> {..<length (heap s)}" "sorted (map (lapse_key (heap s)) (lots s acc))"
    using ok(1) by (simp_all add: lots_ok_def)
  have "take_from (heap s) (lots s acc) x t = (ts, heap s')"
    using assms(2) by (auto simp: take_hc_def split: prod.splits)
  moreover have "0 \<le> lot_hc (heap s ! a)" using ok(2) as(2) assms(3,4) by (auto simp: amounts_ok_def)
  ultimately have "lot_hc (heap s' ! a) = 0"
    using take_from_in_order as(1,2) assms(3-6) by blast
  then show ?thesis using as(3) assms(3,4) by (auto simp: sorted_append)
qed

theorem take_hc_earliest_first_witness:
  "lot_hc (heap (snd (take_hc ''AC1'' 12 50 two_lots)) ! 0) = 0 \<and> lapse_key (heap two_lots) 0 \<le> lapse_key (heap two_lots) 1"
  by (rule take_hc_earliest_first [OF two_lots_ok two_lots_take, of "[0]" 1 "[]"]) (simp_all add: two_lots_def)

end
