(* ===== verification/Market_State.thy ===== *)
theory Market_State
  imports Credits
begin

text \<open>
  The class \<open>State\<close> of \<open>tools/sparkpipe_market.py\<close>: what the market's ledger lines hold, the
  state they build, and one handler per kind of line. The state extends the credits with the
  bookings, keys, refunds due, maintenance, rounds, auto-extend settings, downtime and
  failovers. A handler raises what the Python raises (a missing key, no such lot), keeping
  what it wrote before.
\<close>

section \<open>What ledger lines hold\<close>

datatype kind = Hours | Weeks
datatype paid_from = Balance | Waitlist

record booking =
  bk_id :: ident
  bk_account :: ident
  bk_fleet :: ident
  bk_kind :: kind
  bk_start :: slot
  bk_end :: slot
  bk_hc :: decimal
  bk_rate :: decimal
  bk_source :: paid_from
  bk_now :: stamp
  bk_hours :: "int option"
  bk_weeks :: "int option"
  bk_discount :: "decimal option"
  bk_unlocked :: "decimal option"
  bk_auto :: bool

definition begins :: "booking \<Rightarrow> moment" where "begins b = slot_time (bk_start b)"
definition ends :: "booking \<Rightarrow> moment" where "ends b = slot_time (bk_end b)"

record lot_data =
  ld_lot :: ident
  ld_account :: ident
  ld_hc :: decimal
  ld_expires :: stamp
  ld_source :: string
  ld_ref :: ident
  ld_now :: stamp
  ld_fleet :: "ident option"
  ld_hours :: "slot list"
  ld_note :: "string option"

record refund_owed =
  rd_order :: ident
  rd_processor :: string
  rd_currency :: string
  rd_amount :: decimal

record refund_entry =
  rf_lot :: ident
  rf_hc :: decimal
  rf_ref :: ident
  rf_refund :: "refund_owed option"
  rf_now :: stamp

datatype address = V4 int | V6 int
datatype network = Net4 int nat | Net6 int nat

definition SCOPES :: "string list" where
  "SCOPES = [''inference'', ''state'', ''storage'', ''functions'', ''models'', ''account:read'']"

record key_data =
  kd_key :: ident
  kd_account :: ident
  kd_member :: "ident option"
  kd_note :: string
  kd_hint :: string
  kd_hash :: string
  kd_now :: stamp
  kd_scopes :: "string list option"
  kd_fleet :: "ident option"
  kd_allow_swap :: bool
  kd_expires :: "stamp option"
  kd_ips :: "network list"
  kd_priority :: "string option"
  kd_rotated_from :: "ident option"

record api_key =
  k_key :: ident
  k_account :: ident
  k_member :: ident
  k_note :: string
  k_hint :: string
  k_created :: stamp
  k_revoked :: bool
  k_scopes :: "string list"
  k_fleet :: "ident option"
  k_allow_swap :: bool
  k_expires :: "stamp option"
  k_ips :: "network list"
  k_priority :: "string option"
  k_rotated_from :: "ident option"
  k_retires :: "stamp option"
  k_rotated_to :: "ident option"

record extension =
  ex_weeks :: int
  ex_now :: stamp
  ex_through :: "slot option"
  ex_waiting :: "string option"

record downtime =
  dt_id :: ident
  dt_fleet :: ident
  dt_start :: stamp
  dt_end :: "stamp option"
  dt_cause :: string
  dt_through :: slot
  dt_credited :: "(ident \<times> decimal) list"
  dt_now :: stamp

record failover =
  fo_id :: ident
  fo_account :: ident
  fo_from :: ident
  fo_to :: ident
  fo_start :: stamp
  fo_end :: "stamp option"
  fo_reason :: "string option"

definition fo_begins :: "failover \<Rightarrow> moment" where "fo_begins f = stamp_time (fo_start f)"
definition fo_ends :: "failover \<Rightarrow> moment option" where "fo_ends f = map_option stamp_time (fo_end f)"

record maintenance =
  mt_id :: ident
  mt_fleet :: ident
  mt_start :: slot
  mt_hours :: int
  mt_now :: stamp
  mt_done :: bool

definition mt_begins :: "maintenance \<Rightarrow> moment" where "mt_begins m = slot_time (mt_start m)"
definition mt_ends :: "maintenance \<Rightarrow> moment" where "mt_ends m = slot_time (mt_start m) + HOUR * mt_hours m"

text \<open>The market's kinds of ledger line (\<open>KINDS\<close>), each with its data.\<close>

datatype mline =
    Hc_lot lot_data
  | Hc_debit ident decimal stamp "ident option"
  | Booking booking
  | Lock ident decimal stamp
  | Unlock ident decimal string stamp
  | Lock_lapse ident ident decimal ident "refund_owed option" stamp
  | Round stamp
  | Api_key key_data
  | Api_key_revoke ident
  | Api_key_rotate ident ident ident stamp
  | Maintenance maintenance
  | Maintenance_done ident "(ident \<times> decimal) list"
  | Clock int
  | Auto_extend ident ident int "string option" stamp
  | Auto_extend_wait ident ident slot string stamp
  | Downtime downtime
  | Failover failover
  | Failover_end ident stamp string

section \<open>The state and its handlers\<close>

record mstate = credits +
  bookings :: "(ident, booking) dict"
  keys :: "(ident, api_key) dict"
  key_hashes :: "(string, ident) dict"
  refunds :: "(ident, refund_entry list) dict"
  maintenances :: "(ident, maintenance) dict"
  round_done :: "stamp option"
  offset :: int
  seq :: nat
  extends :: "(ident \<times> ident, extension) dict"
  rebuilds :: "(ident, lot_data) dict"
  downtimes :: "(ident, downtime) dict"
  downtime_hours :: "(ident \<times> slot) list"
  failovers :: "(ident, failover) dict"

definition init_state :: mstate where
  "init_state = \<lparr>heap = [], lots = (\<lambda>_. []), locks = [], bookings = [], keys = [], key_hashes = [], refunds = [],
     maintenances = [], round_done = None, offset = 0, seq = 0, extends = [], rebuilds = [], downtimes = [],
     downtime_hours = [], failovers = []\<rparr>"

definition lot_of :: "lot_data \<Rightarrow> lot" where
  "lot_of d = \<lparr>lot_id = ld_lot d, lot_hc = ld_hc d, lot_first = ld_hc d, lot_expires = ld_expires d,
     lot_source = ld_source d, lot_ref = ld_ref d, lot_issued = ld_now d, lot_fleet = ld_fleet d, lot_hours = ld_hours d\<rparr>"

definition on_hc_lot :: "lot_data \<Rightarrow> (mstate, unit) op" where
  "on_hc_lot d =
     seq_op (modify (issue_lot (ld_account d) (lot_of d)))
    (seq_op (if ld_source d = ''rebuild'' then modify (\<lambda>st. st\<lparr>rebuilds := dset (ld_ref d) d (rebuilds st)\<rparr>) else ret ())
            (if ld_source d = ''downtime''
             then (case ld_fleet d of None \<Rightarrow> raise KeyError
                   | Some fleet \<Rightarrow> modify (\<lambda>st. st\<lparr>downtime_hours := downtime_hours st @ map (Pair fleet) (ld_hours d)\<rparr>))
             else ret ()))"

definition find_lot :: "ident \<Rightarrow> ident \<Rightarrow> 'a credits_scheme \<Rightarrow> addr option" where
  "find_lot account ident st = find (\<lambda>a. lot_id (heap st ! a) = ident) (lots st account)"

definition on_hc_debit :: "ident \<Rightarrow> decimal \<Rightarrow> stamp \<Rightarrow> ident option \<Rightarrow> (mstate, unit) op" where
  "on_hc_debit account amount now lot =
     (case lot of
        Some ident \<Rightarrow> bind_op (gets (find_lot account ident))
          (\<lambda>found. case found of None \<Rightarrow> raise StopIteration
             | Some a \<Rightarrow> modify (\<lambda>st. st\<lparr>heap := adjust a (- amount) (heap st)\<rparr>))
      | None \<Rightarrow> modify (\<lambda>st. snd (take_hc account amount now st)))"

definition pop_lock :: "ident \<Rightarrow> (mstate, lock) op" where
  "pop_lock account =
     bind_op (gets (\<lambda>st. dget (locks st) account))
       (\<lambda>found. case found of None \<Rightarrow> raise KeyError
          | Some lk \<Rightarrow> bind_op (modify (\<lambda>st. st\<lparr>locks := ddel account (locks st)\<rparr>)) (\<lambda>_. ret lk))"

definition return_parts :: "part list \<Rightarrow> (mstate, unit) op" where
  "return_parts parts = modify (\<lambda>st. st\<lparr>heap := give_back parts (heap st)\<rparr>)"

definition on_booking :: "booking \<Rightarrow> (mstate, unit) op" where
  "on_booking b =
     seq_op (modify (\<lambda>st. st\<lparr>bookings := dset (bk_id b) b (bookings st)\<rparr>))
       (case bk_source b of
          Waitlist \<Rightarrow> bind_op (pop_lock (bk_account b)) (\<lambda>lk. return_parts (spend (lk_parts lk) (bk_hc b)))
        | Balance \<Rightarrow> modify (\<lambda>st. snd (take_hc (bk_account b) (bk_hc b) (bk_now b) st)))"

definition on_lock :: "ident \<Rightarrow> decimal \<Rightarrow> stamp \<Rightarrow> (mstate, unit) op" where
  "on_lock account amount now = modify (\<lambda>st. lock_hc account amount now (seq st) st)"

definition on_unlock :: "ident \<Rightarrow> (mstate, unit) op" where
  "on_unlock account = bind_op (pop_lock account) (\<lambda>lk. return_parts (lk_parts lk))"

definition on_lock_lapse :: "ident \<Rightarrow> ident \<Rightarrow> decimal \<Rightarrow> ident \<Rightarrow> refund_owed option \<Rightarrow> stamp \<Rightarrow> (mstate, unit) op" where
  "on_lock_lapse account lot amount ref due now =
     bind_op (gets (\<lambda>st. dget (locks st) account))
       (\<lambda>found. case found of None \<Rightarrow> raise KeyError
          | Some lk \<Rightarrow> modify (\<lambda>st.
              let parts = filter (\<lambda>q. lot_id (heap st ! fst q) \<noteq> lot) (lk_parts lk);
                  d = (if parts = [] then ddel account (locks st) else dset account (lk\<lparr>lk_parts := parts\<rparr>) (locks st));
                  entry = \<lparr>rf_lot = lot, rf_hc = amount, rf_ref = ref, rf_refund = due, rf_now = now\<rparr>;
                  before = (case dget (refunds st) account of None \<Rightarrow> [] | Some rs \<Rightarrow> rs)
              in st\<lparr>locks := d, refunds := dset account (before @ [entry]) (refunds st)\<rparr>))"

definition on_round :: "stamp \<Rightarrow> (mstate, unit) op" where
  "on_round sunday = modify (\<lambda>st. st\<lparr>round_done := Some sunday\<rparr>)"

definition key_of :: "key_data \<Rightarrow> api_key" where
  "key_of d = \<lparr>k_key = kd_key d, k_account = kd_account d,
     k_member = (case kd_member d of None \<Rightarrow> kd_account d | Some m \<Rightarrow> m), k_note = kd_note d, k_hint = kd_hint d,
     k_created = kd_now d, k_revoked = False, k_scopes = (case kd_scopes d of None \<Rightarrow> SCOPES | Some ss \<Rightarrow> ss),
     k_fleet = kd_fleet d, k_allow_swap = kd_allow_swap d, k_expires = kd_expires d, k_ips = kd_ips d,
     k_priority = kd_priority d, k_rotated_from = kd_rotated_from d, k_retires = None, k_rotated_to = None\<rparr>"

definition on_api_key :: "key_data \<Rightarrow> (mstate, unit) op" where
  "on_api_key d = modify (\<lambda>st. st\<lparr>keys := dset (kd_key d) (key_of d) (keys st),
     key_hashes := dset (kd_hash d) (kd_key d) (key_hashes st)\<rparr>)"

text \<open>Changing the entry of a dictionary that must be there.\<close>

definition change :: "('s \<Rightarrow> ('k, 'v) dict) \<Rightarrow> (('k, 'v) dict \<Rightarrow> 's \<Rightarrow> 's) \<Rightarrow> 'k \<Rightarrow> ('v \<Rightarrow> 'v) \<Rightarrow> ('s, unit) op" where
  "change get put k f =
     bind_op (gets (\<lambda>st. dget (get st) k))
       (\<lambda>found. case found of None \<Rightarrow> raise KeyError | Some v \<Rightarrow> modify (\<lambda>st. put (dset k (f v) (get st)) st))"

definition on_api_key_revoke :: "ident \<Rightarrow> (mstate, unit) op" where
  "on_api_key_revoke key = change keys (\<lambda>d. keys_update (\<lambda>_. d)) key (\<lambda>r. r\<lparr>k_revoked := True\<rparr>)"

definition on_api_key_rotate :: "ident \<Rightarrow> ident \<Rightarrow> stamp \<Rightarrow> (mstate, unit) op" where
  "on_api_key_rotate key new retires =
     change keys (\<lambda>d. keys_update (\<lambda>_. d)) key (\<lambda>r. r\<lparr>k_retires := Some retires, k_rotated_to := Some new\<rparr>)"

definition on_auto_extend :: "ident \<Rightarrow> ident \<Rightarrow> int \<Rightarrow> stamp \<Rightarrow> (mstate, unit) op" where
  "on_auto_extend account fleet weeks now = modify (\<lambda>st. st\<lparr>extends :=
     (if weeks \<noteq> 0 then dset (account, fleet) \<lparr>ex_weeks = weeks, ex_now = now, ex_through = None, ex_waiting = None\<rparr> (extends st)
      else ddel (account, fleet) (extends st))\<rparr>)"

definition on_auto_extend_wait :: "ident \<Rightarrow> ident \<Rightarrow> slot \<Rightarrow> string \<Rightarrow> (mstate, unit) op" where
  "on_auto_extend_wait account fleet through reason =
     change extends (\<lambda>d. extends_update (\<lambda>_. d)) (account, fleet) (\<lambda>s. s\<lparr>ex_through := Some through, ex_waiting := Some reason\<rparr>)"

definition on_downtime :: "downtime \<Rightarrow> (mstate, unit) op" where
  "on_downtime d = modify (\<lambda>st. st\<lparr>downtimes := dset (dt_id d) d (downtimes st)\<rparr>)"

definition on_failover :: "failover \<Rightarrow> (mstate, unit) op" where
  "on_failover f = modify (\<lambda>st. st\<lparr>failovers := dset (fo_id f) (f\<lparr>fo_end := None\<rparr>) (failovers st)\<rparr>)"

definition on_failover_end :: "ident \<Rightarrow> stamp \<Rightarrow> string \<Rightarrow> (mstate, unit) op" where
  "on_failover_end ident end reason =
     change failovers (\<lambda>d. failovers_update (\<lambda>_. d)) ident (\<lambda>f. f\<lparr>fo_end := Some end, fo_reason := Some reason\<rparr>)"

definition on_maintenance :: "maintenance \<Rightarrow> (mstate, unit) op" where
  "on_maintenance m = modify (\<lambda>st. st\<lparr>maintenances := dset (mt_id m) (m\<lparr>mt_done := False\<rparr>) (maintenances st)\<rparr>)"

definition on_maintenance_done :: "ident \<Rightarrow> (mstate, unit) op" where
  "on_maintenance_done ident = change maintenances (\<lambda>d. maintenances_update (\<lambda>_. d)) ident (\<lambda>m. m\<lparr>mt_done := True\<rparr>)"

definition on_clock :: "int \<Rightarrow> (mstate, unit) op" where
  "on_clock off = modify (\<lambda>st. st\<lparr>offset := off\<rparr>)"

fun dispatch :: "mline \<Rightarrow> (mstate, unit) op" where
  "dispatch (Hc_lot d) = on_hc_lot d"
| "dispatch (Hc_debit account amount now lot) = on_hc_debit account amount now lot"
| "dispatch (Booking b) = on_booking b"
| "dispatch (Lock account amount now) = on_lock account amount now"
| "dispatch (Unlock account amount reason now) = on_unlock account"
| "dispatch (Lock_lapse account lot amount ref due now) = on_lock_lapse account lot amount ref due now"
| "dispatch (Round sunday) = on_round sunday"
| "dispatch (Api_key d) = on_api_key d"
| "dispatch (Api_key_revoke key) = on_api_key_revoke key"
| "dispatch (Api_key_rotate key account new retires) = on_api_key_rotate key new retires"
| "dispatch (Maintenance m) = on_maintenance m"
| "dispatch (Maintenance_done ident credited) = on_maintenance_done ident"
| "dispatch (Clock off) = on_clock off"
| "dispatch (Auto_extend account fleet weeks reason now) = on_auto_extend account fleet weeks now"
| "dispatch (Auto_extend_wait account fleet through reason now) = on_auto_extend_wait account fleet through reason"
| "dispatch (Downtime d) = on_downtime d"
| "dispatch (Failover f) = on_failover f"
| "dispatch (Failover_end ident end reason) = on_failover_end ident end reason"

definition apply_line :: "nat \<Rightarrow> mline \<Rightarrow> (mstate, unit) op" where
  "apply_line n line = seq_op (modify (\<lambda>st. st\<lparr>seq := n\<rparr>)) (dispatch line)"

section \<open>The handlers keep credits well-formed\<close>

text \<open>
  A line is sound in a state when the amounts it issues or spends are not negative and a debit
  of a named lot is covered by that lot: what the operations that write lines check.
\<close>

definition line_ok :: "mstate \<Rightarrow> mline \<Rightarrow> bool" where
  "line_ok st line =
     (case line of
        Hc_lot d \<Rightarrow> 0 \<le> ld_hc d
      | Booking b \<Rightarrow> 0 \<le> bk_hc b \<and> bk_start b < bk_end b
      | Hc_debit account amount now lot \<Rightarrow>
          (case lot of None \<Rightarrow> True
           | Some ident \<Rightarrow> (case find_lot account ident st of None \<Rightarrow> False
               | Some a \<Rightarrow> 0 \<le> amount \<and> amount \<le> lot_hc (heap st ! a)))
      | _ \<Rightarrow> True)"

lemma credits_ok_frame:
  "heap st' = heap st \<Longrightarrow> lots st' = lots st \<Longrightarrow> locks st' = locks st \<Longrightarrow> credits_ok st' = credits_ok (st :: mstate)"
  by (simp add: credits_ok_def lots_ok_def locks_ok_def amounts_ok_def)

lemma credits_ok_fields [simp]:
  "credits_ok (st\<lparr>bookings := a\<rparr>) = credits_ok (st :: mstate)"
  "credits_ok (st\<lparr>keys := b\<rparr>) = credits_ok st"
  "credits_ok (st\<lparr>key_hashes := c\<rparr>) = credits_ok st"
  "credits_ok (st\<lparr>refunds := d\<rparr>) = credits_ok st"
  "credits_ok (st\<lparr>maintenances := e\<rparr>) = credits_ok st"
  "credits_ok (st\<lparr>round_done := f\<rparr>) = credits_ok st"
  "credits_ok (st\<lparr>offset := g\<rparr>) = credits_ok st"
  "credits_ok (st\<lparr>seq := i\<rparr>) = credits_ok st"
  "credits_ok (st\<lparr>extends := j\<rparr>) = credits_ok st"
  "credits_ok (st\<lparr>rebuilds := k\<rparr>) = credits_ok st"
  "credits_ok (st\<lparr>downtimes := l\<rparr>) = credits_ok st"
  "credits_ok (st\<lparr>downtime_hours := m\<rparr>) = credits_ok st"
  "credits_ok (st\<lparr>failovers := n\<rparr>) = credits_ok st"
  by (rule credits_ok_frame; simp)+

lemma credits_ok_init [simp]: "credits_ok init_state"
  by (simp add: credits_ok_def lots_ok_def locks_ok_def amounts_ok_def init_state_def)

lemma pop_lock_step:
  "pop_lock acc st = (case dget (locks st) acc of None \<Rightarrow> (Inl KeyError, st) | Some lk \<Rightarrow> (Inr lk, st\<lparr>locks := ddel acc (locks st)\<rparr>))"
  by (simp add: pop_lock_def op_simps split: option.splits)

lemma lot_of_simps [simp]: "lot_hc (lot_of d) = ld_hc d" "lot_first (lot_of d) = ld_hc d"
  by (simp_all add: lot_of_def)

lemma held_at_filter_le: "\<forall>q\<in>set ps. 0 < snd q \<Longrightarrow> held_at (filter P ps) a \<le> held_at ps a"
proof (induction ps)
  case (Cons q ps)
  then show ?case by (cases q) auto
qed simp

lemma on_booking_credits_ok:
  assumes "credits_ok st" "0 \<le> bk_hc b"
  shows "credits_ok (snd (on_booking b st))"
proof (cases "bk_source b")
  case Balance
  then show ?thesis using assms credits_ok_take [of "st\<lparr>bookings := dset (bk_id b) b (bookings st)\<rparr>" "bk_account b" "bk_hc b" "bk_now b"]
    by (simp add: on_booking_def op_simps prod.collapse del: prod.collapse) (metis prod.collapse)
next
  case Waitlist
  show ?thesis
  proof (cases "dget (locks st) (bk_account b)")
    case None
    with Waitlist assms show ?thesis by (simp add: on_booking_def op_simps pop_lock_step)
  next
    case (Some lk)
    let ?st = "st\<lparr>bookings := dset (bk_id b) b (bookings st)\<rparr>"
    have ok: "credits_ok ?st" using assms by simp
    have lk: "dget (locks ?st) (bk_account b) = Some lk" using Some by simp
    have pos: "\<forall>q\<in>set (lk_parts lk). 0 < snd q"
      using ok locks_ok_part [OF _ lk] by (auto simp: credits_ok_def)
    have "credits_ok (release_parts (bk_account b) (spend (lk_parts lk) (bk_hc b)) ?st)"
      using spend_spec(2,4) [OF pos assms(2)] by (intro credits_ok_release [OF ok lk]) auto
    then show ?thesis using Waitlist Some
      by (simp add: on_booking_def op_simps pop_lock_step return_parts_def release_parts_def)
  qed
qed

lemma on_unlock_credits_ok: "credits_ok st \<Longrightarrow> credits_ok (snd (on_unlock acc st))"
proof (cases "dget (locks st) acc")
  case (Some lk)
  assume ok: "credits_ok st"
  have "\<forall>q\<in>set (lk_parts lk). 0 < snd q" using ok locks_ok_part [OF _ Some] by (auto simp: credits_ok_def)
  then have "credits_ok (release_parts acc (lk_parts lk) st)" by (intro credits_ok_release [OF ok Some]) auto
  then show ?thesis by (simp add: on_unlock_def op_simps pop_lock_step Some return_parts_def release_parts_def)
qed (simp add: on_unlock_def op_simps pop_lock_step)

lemma on_lock_lapse_credits_ok: "credits_ok st \<Longrightarrow> credits_ok (snd (on_lock_lapse acc lot x ref due now st))"
proof (cases "dget (locks st) acc")
  case (Some lk)
  assume ok: "credits_ok st"
  have pos: "\<forall>q\<in>set (lk_parts lk). 0 < snd q" using ok locks_ok_part [OF _ Some] by (auto simp: credits_ok_def)
  let ?ps = "filter (\<lambda>q. lot_id (heap st ! fst q) \<noteq> lot) (lk_parts lk)"
  have "credits_ok (st\<lparr>locks := (if ?ps = [] then ddel acc (locks st) else dset acc (lk\<lparr>lk_parts := ?ps\<rparr>) (locks st))\<rparr>)"
    using held_at_filter_le [OF pos] by (intro credits_ok_drop_parts [OF ok Some, of ?ps]) auto
  then show ?thesis by (simp add: on_lock_lapse_def op_simps Some Let_def)
qed (simp add: on_lock_lapse_def op_simps)

lemma on_hc_debit_credits_ok:
  assumes "credits_ok st" "line_ok st (Hc_debit acc x now lot)"
  shows "credits_ok (snd (on_hc_debit acc x now lot st))"
proof (cases lot)
  case None
  then show ?thesis using assms(1) credits_ok_take [OF assms(1), of acc x now]
    by (simp add: on_hc_debit_def op_simps) (metis prod.collapse)
next
  case (Some ident)
  then obtain a where a: "find_lot acc ident st = Some a" "0 \<le> x" "x \<le> lot_hc (heap st ! a)"
    using assms(2) by (auto simp: line_ok_def split: option.splits)
  then have "a \<in> set (lots st acc)" by (auto simp: find_lot_def find_Some_iff)
  then have "a < length (heap st)" using assms(1) by (auto simp: credits_ok_def lots_ok_def)
  then show ?thesis using Some a credits_ok_debit [OF assms(1)]
    by (simp add: on_hc_debit_def op_simps)
qed

lemma line_ok_seq [simp]: "line_ok (st\<lparr>seq := n\<rparr>) line = line_ok st line"
  by (simp add: line_ok_def find_lot_def split: mline.splits option.splits)

lemma change_step:
  "change get put k f st = (case dget (get st) k of None \<Rightarrow> (Inl KeyError, st) | Some v \<Rightarrow> (Inr (), put (dset k (f v) (get st)) st))"
  by (simp add: change_def op_simps split: option.splits)

lemma dispatch_credits_ok:
  assumes "credits_ok st" "line_ok st line"
  shows "credits_ok (snd (dispatch line st))"
proof (cases line)
  case (Hc_lot d)
  have "credits_ok (issue_lot (ld_account d) (lot_of d) st)"
    using assms by (intro credits_ok_issue) (simp_all add: Hc_lot line_ok_def)
  then show ?thesis by (simp add: Hc_lot on_hc_lot_def op_simps split: option.splits)
next
  case (Lock acc x now)
  then show ?thesis using assms(1) by (simp add: on_lock_def op_simps credits_ok_lock)
next
  case (Booking b)
  then show ?thesis using assms on_booking_credits_ok by (simp add: line_ok_def)
qed (use assms on_unlock_credits_ok on_lock_lapse_credits_ok on_hc_debit_credits_ok in
      \<open>simp_all add: op_simps on_round_def on_api_key_def on_api_key_revoke_def on_api_key_rotate_def on_maintenance_def
         on_maintenance_done_def on_clock_def on_auto_extend_def on_auto_extend_wait_def on_downtime_def on_failover_def
         on_failover_end_def change_step split: option.splits\<close>)

lemma apply_line_credits_ok:
  assumes "credits_ok st" "line_ok st line"
  shows "credits_ok (snd (apply_line n line st))"
  using dispatch_credits_ok [of "st\<lparr>seq := n\<rparr>" line] assms by (simp add: apply_line_def op_simps)

end
