(* ===== verification/Book.thy ===== *)
theory Book
  imports Market_State
begin

text \<open>
  The class \<open>Book\<close> of \<open>tools/sparkpipe_pay.py\<close>: the hash-chained ledger file, the state a
  process builds from it (accounts, members, orders and the market's state), reading new lines
  (\<open>catch_up\<close>, \<open>refresh\<close>) and writing one (\<open>append\<close>). The file is shared between processes and
  each has its own \<open>Book\<close>. SHA-256 over the line's JSON is the parameter \<open>digest\<close>, a function
  of the line's body.
\<close>

section \<open>Entries\<close>

record account_data =
  ad_account :: ident
  ad_email :: string
  ad_company :: string

record invite_data =
  iv_invite :: ident
  iv_account :: ident
  iv_email :: string
  iv_role :: string
  iv_by :: ident
  iv_expires :: stamp

record member_data =
  mb_member :: ident
  mb_account :: ident
  mb_email :: string
  mb_role :: string
  mb_invite :: "ident option"

record order_data =
  od_order :: ident
  od_account :: ident
  od_email :: string
  od_company :: string
  od_processor :: "string option"
  od_currency :: "string option"
  od_hc :: decimal
  od_price :: decimal
  od_net :: decimal
  od_vat_rate :: decimal
  od_vat :: decimal
  od_total :: decimal
  od_coin :: "string option"
  od_reference :: "string option"
  od_brn :: "string option"
  od_expires :: "stamp option"

text \<open>The fields of an order that a state line may set.\<close>

record changes =
  ch_state :: "string option"
  ch_received :: "decimal option"
  ch_reason :: "string option"
  ch_method :: "string option"
  ch_deposit :: "(string \<times> string \<times> string) option"
  ch_expires :: "stamp option"

record tax_invoice =
  tx_needed :: bool
  tx_brn :: "string option"
  tx_supply :: decimal
  tx_vat :: decimal

record payment_data =
  py_order :: ident
  py_total :: decimal
  py_received :: decimal
  py_currency :: string
  py_method :: "string option"
  py_tax_invoice :: "tax_invoice option"

record refund_data =
  rn_order :: ident
  rn_account :: ident
  rn_amount :: decimal
  rn_balance :: decimal
  rn_clause :: string
  rn_hc :: decimal

datatype entry =
    Market mline
  | Account account_data
  | Acceptance ident "string option" "string option"
  | Records_erased ident stamp int ident
  | Member_invite invite_data
  | Member member_data
  | Member_role ident ident string ident
  | Member_remove ident "ident option" "ident option" ident
  | Order order_data
  | Invoice ident ident string
  | Invoice_failed ident
  | Order_state ident changes
  | Toss_payment ident string
  | Payment payment_data
  | Refund refund_data
  | Tax_invoice ident ident string
  | Hc_issued ident ident decimal decimal

section \<open>The state of a book\<close>

record acct = account_data +
  ac_created :: stamp
  ac_accepted :: "(string option \<times> string option \<times> stamp) option"

record invitation = invite_data +
  in_created :: stamp
  in_state :: string

record membership = member_data +
  ms_created :: stamp
  ms_removed :: bool

record order = order_data +
  o_created :: stamp
  o_state :: string
  o_invoice :: "ident option"
  o_link :: "string option"
  o_issued :: bool
  o_paid :: "stamp option"
  o_refunds :: "(string \<times> decimal) list"
  o_received :: "decimal option"
  o_reason :: "string option"
  o_method :: "string option"
  o_deposit :: "(string \<times> string \<times> string) option"
  o_payment_key :: "string option"
  o_tax_invoice :: "tax_invoice option"
  o_refunded :: "decimal option"
  o_tax_number :: "string option"
  o_issued_hc :: "decimal option"
  o_paid_net :: "decimal option"

record body =
  ln_seq :: nat
  ln_at :: stamp
  ln_data :: entry
  ln_prev :: string

record line = body +
  ln_hash :: string

datatype raw = Complete line | Incomplete

record book =
  count :: nat
  head :: string
  consumed :: nat
  orders :: "(ident, order) dict"
  invoices :: "(ident, ident) dict"
  accounts :: "(ident, acct) dict"
  emails :: "(string, ident) dict"
  members :: "(ident, membership) dict"
  member_emails :: "(string, ident) dict"
  invites :: "(ident, invitation) dict"
  erased :: "(ident, stamp) dict"
  market :: mstate

definition ZERO_HASH :: string where
  "ZERO_HASH = replicate 64 CHR ''0''"

definition init_book :: book where
  "init_book = \<lparr>count = 0, head = ZERO_HASH, consumed = 0, orders = [], invoices = [], accounts = [], emails = [],
     members = [], member_emails = [], invites = [], erased = [], market = init_state\<rparr>"

section \<open>Applying a line\<close>

definition on_market :: "(mstate, 'a) op \<Rightarrow> (book, 'a) op" where
  "on_market m b = (case m (market b) of (r, st) \<Rightarrow> (r, b\<lparr>market := st\<rparr>))"

text \<open>
  The order a line names is \<open>None\<close> when there is no such order. Calling a method on it, as
  \<open>order.update\<close> does, raises \<open>AttributeError\<close>, and assigning an item of it \<open>TypeError\<close>.
\<close>

definition update_order :: "exn \<Rightarrow> ident \<Rightarrow> (order \<Rightarrow> order) \<Rightarrow> (book, unit) op" where
  "update_order missing ident f =
     bind_op (gets (\<lambda>b. dget (orders b) ident))
       (\<lambda>found. case found of None \<Rightarrow> raise missing | Some order \<Rightarrow> modify (\<lambda>b. b\<lparr>orders := dset ident (f order) (orders b)\<rparr>))"

definition order_of :: "order_data \<Rightarrow> stamp \<Rightarrow> order" where
  "order_of d t = order_data.extend d
     \<lparr>o_created = t, o_state = (if od_processor d = Some ''swift'' then ''unpaid'' else ''created''), o_invoice = None,
      o_link = None, o_issued = False, o_paid = None, o_refunds = [], o_received = None, o_reason = None, o_method = None,
      o_deposit = None, o_payment_key = None, o_tax_invoice = None, o_refunded = None, o_tax_number = None,
      o_issued_hc = None, o_paid_net = None\<rparr>"

definition keep_new :: "'a option \<Rightarrow> 'a option \<Rightarrow> 'a option" where
  "keep_new new old = (case new of None \<Rightarrow> old | Some v \<Rightarrow> Some v)"

definition change_order :: "changes \<Rightarrow> order \<Rightarrow> order" where
  "change_order c order = order\<lparr>od_expires := keep_new (ch_expires c) (od_expires order),
     o_state := (case ch_state c of None \<Rightarrow> o_state order | Some v \<Rightarrow> v),
     o_received := keep_new (ch_received c) (o_received order), o_reason := keep_new (ch_reason c) (o_reason order),
     o_method := keep_new (ch_method c) (o_method order), o_deposit := keep_new (ch_deposit c) (o_deposit order)\<rparr>"

definition replace_invites :: "invite_data \<Rightarrow> (ident, invitation) dict \<Rightarrow> (ident, invitation) dict" where
  "replace_invites d = map (\<lambda>(k, other).
     (k, if iv_email other = iv_email d \<and> iv_account other = iv_account d \<and> iv_invite other \<noteq> iv_invite d
            \<and> in_state other = ''invited'' then other\<lparr>in_state := ''replaced''\<rparr> else other))"

definition set_invite :: "ident option \<Rightarrow> string \<Rightarrow> (ident, invitation) dict \<Rightarrow> (ident, invitation) dict" where
  "set_invite ident state d =
     (case ident of None \<Rightarrow> d
      | Some i \<Rightarrow> (case dget d i of None \<Rightarrow> d | Some v \<Rightarrow> dset i (v\<lparr>in_state := state\<rparr>) d))"

definition remove_member :: "ident option \<Rightarrow> book \<Rightarrow> book" where
  "remove_member ident b =
     (case ident of None \<Rightarrow> b
      | Some m \<Rightarrow> (case dget (members b) m of None \<Rightarrow> b
          | Some r \<Rightarrow> b\<lparr>members := dset m (r\<lparr>ms_removed := True\<rparr>) (members b), member_emails := ddel (mb_email r) (member_emails b)\<rparr>))"

definition record_refund :: "refund_data \<Rightarrow> order \<Rightarrow> order" where
  "record_refund r order = order\<lparr>o_refunded := Some ((case o_refunded order of None \<Rightarrow> 0 | Some x \<Rightarrow> x) + rn_amount r),
     o_refunds := o_refunds order @ [(rn_clause r, rn_amount r)],
     o_state := (if rn_balance r = 0 then ''refunded'' else o_state order)\<rparr>"

fun apply_entry :: "nat \<Rightarrow> stamp \<Rightarrow> entry \<Rightarrow> (book, unit) op" where
  "apply_entry n t (Market line) = on_market (apply_line n line)"
| "apply_entry n t (Account d) = modify (\<lambda>b. b\<lparr>
     accounts := dset (ad_account d) (account_data.extend d \<lparr>ac_created = t, ac_accepted = None\<rparr>) (accounts b),
     emails := dset (ad_email d) (ad_account d) (emails b)\<rparr>)"
| "apply_entry n t (Acceptance account ko en) =
     change accounts (\<lambda>d. accounts_update (\<lambda>_. d)) account (\<lambda>a. a\<lparr>ac_accepted := Some (ko, en, t)\<rparr>)"
| "apply_entry n t (Records_erased account through records by) =
     modify (\<lambda>b. b\<lparr>erased := dset account through (erased b)\<rparr>)"
| "apply_entry n t (Member_invite d) = modify (\<lambda>b. b\<lparr>invites := replace_invites d
     (dset (iv_invite d) (invite_data.extend d \<lparr>in_created = t, in_state = ''invited''\<rparr>) (invites b))\<rparr>)"
| "apply_entry n t (Member d) = modify (\<lambda>b. b\<lparr>
     members := dset (mb_member d) (member_data.extend d \<lparr>ms_created = t, ms_removed = False\<rparr>) (members b),
     member_emails := dset (mb_email d) (mb_member d) (member_emails b),
     invites := set_invite (mb_invite d) ''accepted'' (invites b)\<rparr>)"
| "apply_entry n t (Member_role account member role by) =
     change members (\<lambda>d. members_update (\<lambda>_. d)) member (\<lambda>m. m\<lparr>mb_role := role\<rparr>)"
| "apply_entry n t (Member_remove account member invite by) =
     modify (\<lambda>b. (remove_member member b)\<lparr>invites := set_invite invite ''cancelled'' (invites b)\<rparr>)"
| "apply_entry n t (Order d) = modify (\<lambda>b. b\<lparr>orders := dset (od_order d) (order_of d t) (orders b)\<rparr>)"
| "apply_entry n t (Invoice ident invoice link) =
     seq_op (update_order AttributeError ident (\<lambda>order. order\<lparr>o_invoice := Some invoice, o_link := Some link, o_state := ''unpaid''\<rparr>))
            (modify (\<lambda>b. b\<lparr>invoices := dset invoice ident (invoices b)\<rparr>))"
| "apply_entry n t (Invoice_failed ident) = update_order AttributeError ident (\<lambda>order. order\<lparr>o_state := ''failed''\<rparr>)"
| "apply_entry n t (Order_state ident c) = update_order AttributeError ident (change_order c)"
| "apply_entry n t (Toss_payment ident key) = update_order TypeError ident (\<lambda>order. order\<lparr>o_payment_key := Some key\<rparr>)"
| "apply_entry n t (Payment p) = update_order AttributeError (py_order p) (\<lambda>order. order\<lparr>o_state := ''completed'', o_paid := Some t,
     o_received := Some (py_received p), o_method := py_method p, o_tax_invoice := py_tax_invoice p\<rparr>)"
| "apply_entry n t (Refund r) = update_order AttributeError (rn_order r) (record_refund r)"
| "apply_entry n t (Tax_invoice ident account number) = update_order TypeError ident (\<lambda>order. order\<lparr>o_tax_number := Some number\<rparr>)"
| "apply_entry n t (Hc_issued ident account amount net) =
     update_order AttributeError ident (\<lambda>order. order\<lparr>o_issued := True, o_issued_hc := Some amount, o_paid_net := Some net\<rparr>)"

definition apply_book :: "line \<Rightarrow> (book, unit) op" where
  "apply_book line =
     seq_op (modify (\<lambda>b. b\<lparr>count := ln_seq line, head := ln_hash line\<rparr>)) (apply_entry (ln_seq line) (ln_at line) (ln_data line))"

section \<open>Reading and writing the file\<close>

record store =
  book :: book
  ledger :: "raw list"

definition chained :: "(body \<Rightarrow> string) \<Rightarrow> book \<Rightarrow> line \<Rightarrow> bool" where
  "chained digest b line \<longleftrightarrow> ln_seq line = count b + 1 \<and> ln_prev line = head b \<and> digest (body.truncate line) = ln_hash line"

definition read_line :: "(body \<Rightarrow> string) \<Rightarrow> raw \<Rightarrow> (book, unit) op" where
  "read_line digest r =
     (case r of Incomplete \<Rightarrow> raise ValueError
      | Complete line \<Rightarrow> bind_op (gets (\<lambda>b. chained digest b line))
          (\<lambda>good. seq_op (require good ValueError)
            (seq_op (apply_book line) (modify (\<lambda>b. b\<lparr>consumed := consumed b + 1\<rparr>)))))"

definition catch_up_book :: "(body \<Rightarrow> string) \<Rightarrow> raw list \<Rightarrow> (book, unit) op" where
  "catch_up_book digest f b = each (read_line digest) (drop (consumed b) f) b"

definition on_book :: "(book, 'b) op \<Rightarrow> ('a store_scheme, 'b) op" where
  "on_book m s = (case m (book s) of (r, b) \<Rightarrow> (r, s\<lparr>book := b\<rparr>))"

definition catch_up :: "(body \<Rightarrow> string) \<Rightarrow> ('a store_scheme, unit) op" where
  "catch_up digest s = on_book (catch_up_book digest (ledger s)) s"

definition refresh :: "(body \<Rightarrow> string) \<Rightarrow> ('a store_scheme, unit) op" where
  "refresh digest = catch_up digest"

definition new_line :: "(body \<Rightarrow> string) \<Rightarrow> stamp \<Rightarrow> entry \<Rightarrow> book \<Rightarrow> line" where
  "new_line digest t e b =
     (let bd = \<lparr>ln_seq = count b + 1, ln_at = t, ln_data = e, ln_prev = head b\<rparr>
      in body.extend bd \<lparr>ln_hash = digest bd\<rparr>)"

definition append_entry :: "(body \<Rightarrow> string) \<Rightarrow> stamp \<Rightarrow> entry \<Rightarrow> ('a store_scheme, line) op" where
  "append_entry digest t e =
     seq_op (catch_up digest)
    (bind_op (gets (\<lambda>s. new_line digest t e (book s)))
       (\<lambda>line. seq_op (modify (\<lambda>s. s\<lparr>ledger := ledger s @ [Complete line]\<rparr>))
              (seq_op (on_book (apply_book line))
              (seq_op (on_book (modify (\<lambda>b. b\<lparr>consumed := consumed b + 1\<rparr>))) (ret line)))))"

text \<open>Opening a book replays the file from the start.\<close>

definition open_book :: "(body \<Rightarrow> string) \<Rightarrow> raw list \<Rightarrow> unit fallible \<times> book" where
  "open_book digest f = catch_up_book digest f init_book"

section \<open>A log that is read line by line\<close>

text \<open>
  What the book relies on when it catches up: reading one line either raises or takes exactly
  that line in. Then reading a file in several goes, by one process or by several, is the same
  as replaying it from the start.
\<close>

locale line_log =
  fixes take_in :: "'r \<Rightarrow> ('b, unit) op" and used :: "'b \<Rightarrow> nat"
  assumes take_in_used: "take_in r b = (Inr (), b') \<Longrightarrow> used b' = used b + 1"
begin

lemma each_used: "each take_in rs b = (Inr (), b') \<Longrightarrow> used b' = used b + length rs"
  by (induction rs arbitrary: b) (auto simp: seq_op_Inr op_steps dest: take_in_used)

lemma replay_continue:
  assumes "each take_in (take (used b) f) b0 = (Inr (), b)" "each take_in (drop (used b) f) b = (Inr (), b')"
  shows "each take_in f b0 = (Inr (), b')"
proof -
  have "each take_in (take (used b) f @ drop (used b) f) b0 = (Inr (), b')"
    using assms by (subst each_append_Inr) blast
  then show ?thesis by simp
qed

lemma replay_length: "each take_in f b0 = (Inr (), b) \<Longrightarrow> used b0 = 0 \<Longrightarrow> used b = length f"
  using each_used by fastforce

end

lemma each_require: "seq_op (require c e) m b = (if c then m b else (Inl e, b))"
  by (simp add: op_simps)

lemma on_market_frame [simp]: "consumed (snd (on_market m b)) = consumed b" "count (snd (on_market m b)) = count b"
  "head (snd (on_market m b)) = head b"
  by (simp_all add: on_market_def split: prod.splits)

lemma apply_entry_frame:
  "consumed (snd (apply_entry n t e b)) = consumed b \<and> count (snd (apply_entry n t e b)) = count b
     \<and> head (snd (apply_entry n t e b)) = head b"
  by (cases e) (simp_all add: op_simps change_step update_order_def remove_member_def split: option.splits)

lemma apply_book_frame:
  assumes "apply_book l b = (r, b')"
  shows "consumed b' = consumed b" "count b' = ln_seq l" "head b' = ln_hash l"
proof -
  have "b' = snd (apply_entry (ln_seq l) (ln_at l) (ln_data l) (b\<lparr>count := ln_seq l, head := ln_hash l\<rparr>))"
    using assms by (simp add: apply_book_def op_simps)
  then show "consumed b' = consumed b" "count b' = ln_seq l" "head b' = ln_hash l"
    using apply_entry_frame [of "ln_seq l" "ln_at l" "ln_data l" "b\<lparr>count := ln_seq l, head := ln_hash l\<rparr>"] by simp_all
qed

lemma read_line_Inr:
  "read_line digest r b = (Inr (), b') \<longleftrightarrow>
     (\<exists>l b1. r = Complete l \<and> chained digest b l \<and> apply_book l b = (Inr (), b1) \<and> b' = b1\<lparr>consumed := consumed b1 + 1\<rparr>)"
  by (cases r) (auto simp: read_line_def bind_op_Inr seq_op_Inr op_steps split: if_splits)

interpretation book_log: line_log "read_line digest" consumed for digest
  by unfold_locales (auto simp: read_line_Inr dest: apply_book_frame)

section \<open>The state of a book is the replay of its file\<close>

definition in_sync :: "(body \<Rightarrow> string) \<Rightarrow> 'a store_scheme \<Rightarrow> bool" where
  "in_sync digest s \<longleftrightarrow> consumed (book s) \<le> length (ledger s)
     \<and> open_book digest (take (consumed (book s)) (ledger s)) = (Inr (), book s)"

lemma consumed_init [simp]: "consumed init_book = 0"
  by (simp add: init_book_def)

lemma open_book_each: "open_book digest f = each (read_line digest) f init_book"
  by (simp add: open_book_def catch_up_book_def)

lemma on_book_Inr: "on_book m s = (Inr x, t) \<longleftrightarrow> (\<exists>b. m (book s) = (Inr x, b) \<and> t = s\<lparr>book := b\<rparr>)"
  by (auto simp: on_book_def split: prod.splits)

lemma catch_up_sync:
  assumes "in_sync digest s" "catch_up digest s = (Inr (), s')"
  shows "open_book digest (ledger s') = (Inr (), book s')" "ledger s' = ledger s"
    "consumed (book s') = length (ledger s')"
proof -
  obtain b where b: "each (read_line digest) (drop (consumed (book s)) (ledger s)) (book s) = (Inr (), b)"
    and s': "s' = s\<lparr>book := b\<rparr>"
    using assms(2) by (auto simp: catch_up_def catch_up_book_def on_book_Inr)
  show o: "open_book digest (ledger s') = (Inr (), book s')"
    using assms(1) book_log.replay_continue [OF _ b] by (simp add: in_sync_def open_book_each s')
  show "ledger s' = ledger s" by (simp add: s')
  show "consumed (book s') = length (ledger s')"
    using o book_log.replay_length by (simp add: open_book_each)
qed

lemma new_line_chained: "chained digest b (new_line digest t e b)"
  by (simp add: chained_def new_line_def body.defs Let_def)

lemma append_entry_sync:
  assumes "in_sync digest s" "append_entry digest t e s = (Inr l, s')"
  shows "open_book digest (ledger s') = (Inr (), book s')"
    "\<exists>b1. open_book digest (ledger s) = (Inr (), b1) \<and> l = new_line digest t e b1 \<and> ledger s' = ledger s @ [Complete l]"
proof -
  obtain s1 b2 where c: "catch_up digest s = (Inr (), s1)" and l: "l = new_line digest t e (book s1)"
    and b2: "apply_book l (book s1) = (Inr (), b2)"
    and s': "ledger s' = ledger s1 @ [Complete l]" "book s' = b2\<lparr>consumed := consumed b2 + 1\<rparr>"
    using assms(2) by (auto simp: append_entry_def bind_op_Inr seq_op_Inr on_book_Inr op_steps)
  note sync = catch_up_sync [OF assms(1) c]
  have "read_line digest (Complete l) (book s1) = (Inr (), book s')"
    using b2 new_line_chained [of digest "book s1" t e] by (auto simp: read_line_Inr l s')
  then show "open_book digest (ledger s') = (Inr (), book s')"
    using sync(1) by (auto simp: open_book_each s' each_snoc_Inr)
  show "\<exists>b1. open_book digest (ledger s) = (Inr (), b1) \<and> l = new_line digest t e b1 \<and> ledger s' = ledger s @ [Complete l]"
    using sync(1,2) l s'(1) by auto
qed

lemma append_entry_in_sync:
  "in_sync digest s \<Longrightarrow> append_entry digest t e s = (Inr l, s') \<Longrightarrow> in_sync digest s'"
  using append_entry_sync(1) [of digest s t e l s'] book_log.replay_length
  by (fastforce simp: in_sync_def open_book_each)

section \<open>The hash chain\<close>

definition bodies :: "raw list \<Rightarrow> body set" where
  "bodies f = {body.truncate l | l. Complete l \<in> set f}"

lemma replay_count: "open_book digest f = (Inr (), b) \<Longrightarrow> count b = length f"
proof (induction f arbitrary: b rule: rev_induct)
  case Nil
  then show ?case by (auto simp: open_book_each op_simps init_book_def)
next
  case (snoc r f)
  then obtain b0 where "open_book digest f = (Inr (), b0)" "read_line digest r b0 = (Inr (), b)"
    by (auto simp: open_book_each each_snoc_Inr)
  then show ?case using snoc.IH apply_book_frame(2) by (fastforce simp: read_line_Inr chained_def)
qed

lemma replay_snoc:
  assumes "open_book digest (f @ [r]) = (Inr (), b)"
  obtains l b0 where "r = Complete l" "open_book digest f = (Inr (), b0)" "ln_prev l = head b0"
    "head b = digest (body.truncate l)" "ln_hash l = head b"
proof -
  obtain b0 where "open_book digest f = (Inr (), b0)" "read_line digest r b0 = (Inr (), b)"
    using assms by (auto simp: open_book_each each_snoc_Inr)
  then show ?thesis using that apply_book_frame(3) by (fastforce simp: read_line_Inr chained_def)
qed

lemma line_eqI: "body.truncate l = body.truncate l' \<Longrightarrow> ln_hash l = ln_hash l' \<Longrightarrow> l = (l' :: line)"
  by (cases l, cases l') (simp add: body.defs)

lemma chain_unique:
  assumes "open_book digest f = (Inr (), b)" "open_book digest f' = (Inr (), b')"
    "head b = head b'" "length f = length f'" "inj_on digest (bodies f \<union> bodies f')"
  shows "f = f'"
  using assms
proof (induction f arbitrary: f' b b' rule: rev_induct)
  case (snoc r f)
  obtain f0 r' where f': "f' = f0 @ [r']" using snoc.prems(4) by (cases f' rule: rev_cases) auto
  obtain l b0 where l: "r = Complete l" "open_book digest f = (Inr (), b0)" "ln_prev l = head b0"
    "head b = digest (body.truncate l)" "ln_hash l = head b"
    using replay_snoc [OF snoc.prems(1)] by metis
  obtain l' b0' where l': "r' = Complete l'" "open_book digest f0 = (Inr (), b0')" "ln_prev l' = head b0'"
    "head b' = digest (body.truncate l')" "ln_hash l' = head b'"
    using replay_snoc snoc.prems(2) unfolding f' by metis
  have "body.truncate l \<in> bodies (f @ [r]) \<union> bodies f'" "body.truncate l' \<in> bodies (f @ [r]) \<union> bodies f'"
    by (auto simp: bodies_def l(1) l'(1) f')
  then have eq: "body.truncate l = body.truncate l'"
    using snoc.prems(3,5) l(4) l'(4) by (metis inj_onD)
  then have "ln_prev l = ln_prev l'" by (simp add: body.defs)
  moreover have "inj_on digest (bodies f \<union> bodies f0)"
    by (rule inj_on_subset [OF snoc.prems(5)]) (auto simp: bodies_def f')
  ultimately have "f = f0" using snoc.IH [OF l(2) l'(2)] l(3) l'(3) snoc.prems(4) by (simp add: f')
  moreover have "l = l'" using eq l(5) l'(5) snoc.prems(3) by (intro line_eqI) simp_all
  ultimately show ?case by (simp add: f' l(1) l'(1))
qed simp

section \<open>Properties\<close>

text \<open>A store with an empty ledger, and a digest that is enough for the examples.\<close>

definition sample_digest :: "body \<Rightarrow> string" where
  "sample_digest b = replicate (ln_seq b) CHR ''x''"

definition empty_store :: store where
  "empty_store = \<lparr>book = init_book, ledger = []\<rparr>"

definition sample_account :: entry where
  "sample_account = Account \<lparr>ad_account = ''AC1'', ad_email = ''a@b.kr'', ad_company = ''A''\<rparr>"

lemma empty_store_sync: "in_sync d empty_store"
  by (simp add: in_sync_def empty_store_def open_book_each op_simps)

lemma sample_append: "append_entry sample_digest 5 sample_account empty_store =
    (Inr (new_line sample_digest 5 sample_account init_book), snd (append_entry sample_digest 5 sample_account empty_store))"
  by (simp add: append_entry_def catch_up_def catch_up_book_def empty_store_def on_book_def op_simps apply_book_def sample_account_def
      new_line_def Let_def body.defs)

text \<open>
  C2. The state a process holds is always the replay of the ledger file: appending an entry adds
  one line at the end of the file, numbered after the lines before it, and reading the new file
  from the start gives exactly the state the process has.
\<close>

theorem append_entry_replays:
  assumes "in_sync digest s" "append_entry digest t e s = (Inr l, s')"
  shows "open_book digest (ledger s') = (Inr (), book s') \<and> in_sync digest s' \<and> ledger s' = ledger s @ [Complete l]
     \<and> ln_seq l = length (ledger s) + 1 \<and> ln_data l = e"
proof -
  obtain b1 where b1: "open_book digest (ledger s) = (Inr (), b1)" "l = new_line digest t e b1" "ledger s' = ledger s @ [Complete l]"
    using append_entry_sync(2) [OF assms] by blast
  then show ?thesis using append_entry_sync(1) [OF assms] append_entry_in_sync [OF assms] replay_count [OF b1(1)]
    by (simp add: new_line_def Let_def body.defs)
qed

theorem append_entry_replays_witness:
  "open_book sample_digest (ledger (snd (append_entry sample_digest 5 sample_account empty_store)))
       = (Inr (), book (snd (append_entry sample_digest 5 sample_account empty_store)))
     \<and> in_sync sample_digest (snd (append_entry sample_digest 5 sample_account empty_store))
     \<and> ledger (snd (append_entry sample_digest 5 sample_account empty_store))
          = ledger empty_store @ [Complete (new_line sample_digest 5 sample_account init_book)]
     \<and> ln_seq (new_line sample_digest 5 sample_account init_book) = length (ledger empty_store) + 1
     \<and> ln_data (new_line sample_digest 5 sample_account init_book) = sample_account"
  by (rule append_entry_replays [OF empty_store_sync sample_append])

text \<open>
  C20. The hash chain fixes the whole ledger: two files with the same number of lines that replay to
  the same last hash are the same file, as long as the digest does not collide on their lines.
\<close>

theorem hash_chain_fixes_ledger:
  assumes "open_book digest f = (Inr (), b)" "open_book digest f' = (Inr (), b')"
    "head b = head b'" "length f = length f'" "inj_on digest (bodies f \<union> bodies f')"
  shows "f = f'"
  by (rule chain_unique [OF assms])

theorem hash_chain_fixes_ledger_witness:
  "[Complete (new_line sample_digest 5 sample_account init_book)] = [Complete (new_line sample_digest 5 sample_account init_book)]"
proof (rule hash_chain_fixes_ledger [of sample_digest])
  show "open_book sample_digest [Complete (new_line sample_digest 5 sample_account init_book)]
      = (Inr (), book (snd (append_entry sample_digest 5 sample_account empty_store)))"
    using append_entry_sync [OF empty_store_sync sample_append] by (auto simp: empty_store_def)
  then show "open_book sample_digest [Complete (new_line sample_digest 5 sample_account init_book)]
      = (Inr (), book (snd (append_entry sample_digest 5 sample_account empty_store)))" .
qed (auto simp: bodies_def)


text \<open>An entry whose handler raises: an unlock of an account that has no lock.\<close>

definition stray_unlock :: entry where
  "stray_unlock = Market (Unlock ''AC1'' 0 ''leave'' 5)"

lemma stray_unlock_raises: "append_entry sample_digest 5 stray_unlock empty_store
    = (Inl KeyError, snd (append_entry sample_digest 5 stray_unlock empty_store))"
    "ledger (snd (append_entry sample_digest 5 stray_unlock empty_store)) \<noteq> ledger empty_store"
  by (simp_all add: append_entry_def catch_up_def catch_up_book_def empty_store_def on_book_def op_simps apply_book_def stray_unlock_def
      new_line_def Let_def body.defs on_market_def apply_line_def on_unlock_def pop_lock_step init_book_def init_state_def)


end
