(* ===== verification/Stores.thy ===== *)
theory Stores
  imports Calendar
begin

text \<open>
  The small stores of \<open>tools/sparkpipe_pay.py\<close>: \<open>Records\<close> (one JSON file of records by id),
  \<open>Journal\<close> (a file per day, appended to by several processes, with the set of once-only marks a
  process has seen) and \<open>Usage\<close> (a file per account and day, in which an id occurs once).
  A file is the list of its complete lines; a day is a number of days since 1970-01-01.
\<close>

section \<open>Records\<close>

definition rec_get :: "ident \<Rightarrow> (ident, 'r) dict \<Rightarrow> 'r option" where
  "rec_get ident items = dget items ident"

definition rec_find :: "('r \<Rightarrow> bool) \<Rightarrow> (ident, 'r) dict \<Rightarrow> (ident \<times> 'r) option" where
  "rec_find test items = find (\<lambda>(ident, r). test r) items"

definition rec_put :: "ident \<Rightarrow> 'r \<Rightarrow> (ident, 'r) dict \<Rightarrow> (ident, 'r) dict" where
  "rec_put ident r items = dset ident r items"

definition rec_drop :: "ident \<Rightarrow> (ident, 'r) dict \<Rightarrow> 'r option \<times> (ident, 'r) dict" where
  "rec_drop ident items = (dget items ident, ddel ident items)"

definition rec_keep :: "('r \<Rightarrow> bool) \<Rightarrow> (ident, 'r) dict \<Rightarrow> (ident, 'r) dict" where
  "rec_keep test items = filter (\<lambda>(ident, r). test r) items"

lemma rec_get_put: "rec_get i (rec_put k r items) = (if i = k then Some r else rec_get i items)"
  by (simp add: rec_get_def rec_put_def)

lemma rec_get_drop: "rec_get i (snd (rec_drop k items)) = (if i = k then None else rec_get i items)"
  by (simp add: rec_get_def rec_drop_def)

section \<open>Journal\<close>

definition SWEEP_DAYS :: nat where "SWEEP_DAYS = 3"

definition DAY_SECONDS :: int where "DAY_SECONDS = 86400"

text \<open>The day of a UTC time text, its first ten characters.\<close>

definition day_of :: "stamp \<Rightarrow> int" where
  "day_of s = s div DAY_SECONDS"

record ('i, 'o) journal =
  jr_files :: "(int, 'i list) dict"
  jr_offsets :: "(int, nat) dict"
  jr_once :: "'o list"

definition journal_lines :: "int \<Rightarrow> ('i, 'o, 'z) journal_scheme \<Rightarrow> 'i list" where
  "journal_lines d j = (case dget (jr_files j) d of None \<Rightarrow> [] | Some xs \<Rightarrow> xs)"

definition journal_offset :: "int \<Rightarrow> ('i, 'o, 'z) journal_scheme \<Rightarrow> nat" where
  "journal_offset d j = (case dget (jr_offsets j) d of None \<Rightarrow> 0 | Some n \<Rightarrow> n)"

definition names :: "('i, 'o, 'z) journal_scheme \<Rightarrow> int list" where
  "names j = sort (dkeys (jr_files j))"

text \<open>\<open>xs[-n:]\<close> for a positive \<open>n\<close>.\<close>

definition last_of :: "nat \<Rightarrow> 'a list \<Rightarrow> 'a list" where
  "last_of n xs = drop (length xs - n) xs"

definition read_new :: "('i \<Rightarrow> 'o option) \<Rightarrow> int \<Rightarrow> ('i, 'o, 'z) journal_scheme \<Rightarrow> ('i, 'o, 'z) journal_scheme" where
  "read_new once_of d j =
     (let new = drop (journal_offset d j) (journal_lines d j)
      in j\<lparr>jr_offsets := dset d (journal_offset d j + length new) (jr_offsets j),
           jr_once := jr_once j @ List.map_filter once_of new\<rparr>)"

definition journal_catch_up :: "('i \<Rightarrow> 'o option) \<Rightarrow> int \<Rightarrow> ('i, 'o, 'z) journal_scheme \<Rightarrow> ('i, 'o, 'z) journal_scheme" where
  "journal_catch_up once_of d j = (if d \<in> set (dkeys (jr_files j)) then read_new once_of d j else j)"

definition journal_open :: "('i \<Rightarrow> 'o option) \<Rightarrow> (int, 'i list) dict \<Rightarrow> ('i, 'o) journal" where
  "journal_open once_of files =
     (let j = \<lparr>jr_files = files, jr_offsets = [], jr_once = []\<rparr> in foldl (\<lambda>j d. journal_catch_up once_of d j) j (names j))"

definition journal_add :: "('i \<Rightarrow> 'o option) \<Rightarrow> 'i \<Rightarrow> int \<Rightarrow> ('i, 'o, 'z) journal_scheme \<Rightarrow> ('i, 'o, 'z) journal_scheme" where
  "journal_add once_of item d j =
     (let j1 = read_new once_of d j
      in j1\<lparr>jr_files := dset d (journal_lines d j1 @ [item]) (jr_files j1),
            jr_offsets := dset d (journal_offset d j1 + 1) (jr_offsets j1),
            jr_once := jr_once j1 @ List.map_filter once_of [item]\<rparr>)"

definition sent :: "('i \<Rightarrow> 'o option) \<Rightarrow> 'o \<Rightarrow> ('i, 'o, 'z) journal_scheme \<Rightarrow> bool \<times> ('i, 'o, 'z) journal_scheme" where
  "sent once_of mark j =
     (let j' = (if mark \<in> set (jr_once j) then j
                else foldl (\<lambda>j d. journal_catch_up once_of d j) j (last_of SWEEP_DAYS (names j)))
      in (mark \<in> set (jr_once j'), j'))"

definition journal_items :: "nat option \<Rightarrow> ('i, 'o, 'z) journal_scheme \<Rightarrow> 'i list" where
  "journal_items most j =
     concat (map (\<lambda>d. journal_lines d j) (case most of None \<Rightarrow> names j | Some n \<Rightarrow> last_of n (names j)))"

definition journal_prune :: "int \<Rightarrow> int \<Rightarrow> ('i, 'o, 'z) journal_scheme \<Rightarrow> ('i, 'o, 'z) journal_scheme" where
  "journal_prune today days j =
     (let cutoff = today - days; gone = filter (\<lambda>d. d < cutoff) (names j)
      in j\<lparr>jr_files := filter (\<lambda>(d, xs). d \<notin> set gone) (jr_files j),
           jr_offsets := filter (\<lambda>(d, n). d \<notin> set gone) (jr_offsets j)\<rparr>)"

text \<open>A process has read every line up to its offset and knows the marks of those lines.\<close>

definition journal_ok :: "('i \<Rightarrow> 'o option) \<Rightarrow> ('i, 'o, 'z) journal_scheme \<Rightarrow> bool" where
  "journal_ok once_of j \<longleftrightarrow> (\<forall>d. journal_offset d j \<le> length (journal_lines d j)
     \<and> (\<forall>x\<in>set (take (journal_offset d j) (journal_lines d j)). \<forall>mark. once_of x = Some mark \<longrightarrow> mark \<in> set (jr_once j)))"

lemma set_map_filter_Some: "y \<in> set (List.map_filter f xs) \<longleftrightarrow> (\<exists>x\<in>set xs. f x = Some y)"
  by (force simp: List.map_filter_def)

lemma read_new_fields [simp]:
  "jr_files (read_new f d j) = jr_files j"
  "journal_lines c (read_new f d j) = journal_lines c j"
  "set (jr_once j) \<subseteq> set (jr_once (read_new f d j))"
  by (simp_all add: read_new_def journal_lines_def Let_def)

lemma read_new_offset:
  "journal_offset c (read_new f d j) = (if c = d then max (journal_offset d j) (length (journal_lines d j)) else journal_offset c j)"
  by (auto simp: read_new_def journal_offset_def journal_lines_def Let_def max_def)

lemma read_new_ok:
  assumes "journal_ok f j"
  shows "journal_ok f (read_new f d j)"
    "x \<in> set (journal_lines d j) \<Longrightarrow> f x = Some mark \<Longrightarrow> mark \<in> set (jr_once (read_new f d j))"
proof -
  have le: "journal_offset d j \<le> length (journal_lines d j)" using assms by (simp add: journal_ok_def)
  have all: "mark \<in> set (jr_once (read_new f d j))" if "x \<in> set (journal_lines d j)" "f x = Some mark" for x mark
  proof -
    have "x \<in> set (take (journal_offset d j) (journal_lines d j)) \<or> x \<in> set (drop (journal_offset d j) (journal_lines d j))"
      using that(1) by (metis Un_iff append_take_drop_id set_append)
    then show ?thesis using that(2) assms
      by (auto simp: read_new_def journal_ok_def set_map_filter_Some Let_def)
  qed
  then show "x \<in> set (journal_lines d j) \<Longrightarrow> f x = Some mark \<Longrightarrow> mark \<in> set (jr_once (read_new f d j))" .
  show "journal_ok f (read_new f d j)"
    unfolding journal_ok_def
  proof (intro allI)
    fix c
    show "journal_offset c (read_new f d j) \<le> length (journal_lines c (read_new f d j)) \<and>
      (\<forall>x\<in>set (take (journal_offset c (read_new f d j)) (journal_lines c (read_new f d j))).
         \<forall>mark. f x = Some mark \<longrightarrow> mark \<in> set (jr_once (read_new f d j)))"
    proof (cases "c = d")
      case True
      then show ?thesis using le all by (auto simp: read_new_offset dest: in_set_takeD)
    next
      case False
      then show ?thesis using assms read_new_fields(3) [of j f d]
        by (fastforce simp: read_new_offset journal_ok_def)
    qed
  qed
qed

lemma catch_ups_ok:
  assumes "journal_ok f j"
  shows "journal_ok f (foldl (\<lambda>j d. journal_catch_up f d j) j ds)
    \<and> jr_files (foldl (\<lambda>j d. journal_catch_up f d j) j ds) = jr_files j
    \<and> set (jr_once j) \<subseteq> set (jr_once (foldl (\<lambda>j d. journal_catch_up f d j) j ds))
    \<and> (\<forall>d\<in>set ds. \<forall>x\<in>set (journal_lines d j). \<forall>mark. f x = Some mark \<longrightarrow>
          mark \<in> set (jr_once (foldl (\<lambda>j d. journal_catch_up f d j) j ds)))"
  using assms
proof (induction ds arbitrary: j)
  case (Cons d ds)
  let ?j = "journal_catch_up f d j"
  have step: "journal_ok f ?j" "jr_files ?j = jr_files j" "set (jr_once j) \<subseteq> set (jr_once ?j)"
    using read_new_ok(1) [OF Cons.prems, of d] Cons.prems by (simp_all add: journal_catch_up_def)
  have lines: "journal_lines c ?j = journal_lines c j" for c
    using step(2) by (simp add: journal_lines_def)
  have here: "mark \<in> set (jr_once ?j)" if "x \<in> set (journal_lines d j)" "f x = Some mark" for x mark
    using that read_new_ok(2) [OF Cons.prems] dget_None_iff [of "jr_files j" d]
    by (auto simp: journal_catch_up_def journal_lines_def split: option.splits)
  show ?case using Cons.IH [OF step(1)] step here unfolding lines by (auto 4 4)
qed simp

lemma journal_open_ok: "journal_ok f (journal_open f files)"
proof -
  have "journal_ok f \<lparr>jr_files = files, jr_offsets = [], jr_once = []\<rparr>"
    by (simp add: journal_ok_def journal_offset_def)
  then show ?thesis using catch_ups_ok by (fastforce simp: journal_open_def Let_def)
qed

lemma sent_ok: "journal_ok f j \<Longrightarrow> journal_ok f (snd (sent f mark j))"
  using catch_ups_ok by (fastforce simp: sent_def Let_def)

lemma sent_once: "mark \<in> set (jr_once j) \<Longrightarrow> fst (sent f mark j)"
  by (simp add: sent_def)

lemma sent_mono: "journal_ok f j \<Longrightarrow> set (jr_once j) \<subseteq> set (jr_once (snd (sent f mark j)))"
  using catch_ups_ok [of f j "last_of SWEEP_DAYS (names j)"] by (simp add: sent_def Let_def)

lemma journal_add_fields:
  "jr_files (journal_add f x d j) = dset d (journal_lines d j @ [x]) (jr_files j)"
  "set (jr_once j) \<subseteq> set (jr_once (journal_add f x d j))"
  "f x = Some mark \<Longrightarrow> mark \<in> set (jr_once (journal_add f x d j))"
  using subsetD [OF read_new_fields(3) [of j f d]] by (auto simp: journal_add_def Let_def List.map_filter_simps split: option.splits)

lemma journal_add_ok: "journal_ok f j \<Longrightarrow> journal_ok f (journal_add f x d j)"
proof -
  assume ok: "journal_ok f j"
  let ?j = "read_new f d j" and ?k = "journal_add f x d j"
  have lines: "journal_lines c ?k = (if c = d then journal_lines d j @ [x] else journal_lines c j)" for c
    using journal_add_fields(1) [of f x d j] by (simp add: journal_lines_def)
  have off: "journal_offset c ?k = (if c = d then length (journal_lines d j) + 1 else journal_offset c j)" for c
    using ok by (auto simp: journal_add_def Let_def journal_offset_def read_new_def journal_ok_def)
  show ?thesis unfolding journal_ok_def lines off
    using ok journal_add_fields(2) [of j f x d] journal_add_fields(3) [of f x _ d j] read_new_ok(2) [OF ok, of _ d]
    by (auto simp: journal_ok_def journal_add_def Let_def)
qed

lemma journal_prune_fields: "jr_once (journal_prune today days j) = jr_once j"
  by (simp add: journal_prune_def Let_def)

lemma map_of_filter_keys: "map_of (filter (\<lambda>(k, v). P k) d) k = (if P k then map_of d k else None)"
  by (induction d) auto

lemma journal_prune_ok: "journal_ok f j \<Longrightarrow> journal_ok f (journal_prune today days j)"
proof -
  assume ok: "journal_ok f j"
  let ?gone = "set (filter (\<lambda>d. d < today - days) (names j))"
  have "journal_lines d (journal_prune today days j) = (if d \<in> ?gone then [] else journal_lines d j)"
    "journal_offset d (journal_prune today days j) = (if d \<in> ?gone then 0 else journal_offset d j)" for d
    by (simp_all add: journal_prune_def Let_def journal_lines_def journal_offset_def map_of_filter_keys [where P = "\<lambda>d. d \<notin> ?gone"]
      del: set_filter)
  then show ?thesis using ok by (simp add: journal_ok_def journal_prune_fields)
qed

text \<open>What another process appends to the files does not disturb what this one has read.\<close>

lemma journal_grown_ok:
  assumes "journal_ok f j" "\<And>d. \<exists>more. journal_lines d (j\<lparr>jr_files := files\<rparr>) = journal_lines d j @ more"
  shows "journal_ok f (j\<lparr>jr_files := files\<rparr>)"
  unfolding journal_ok_def
proof (intro allI)
  fix d
  obtain more where m: "journal_lines d (j\<lparr>jr_files := files\<rparr>) = journal_lines d j @ more" using assms(2) by blast
  have "journal_offset d j \<le> length (journal_lines d j)" using assms(1) by (simp add: journal_ok_def)
  moreover have "journal_offset d (j\<lparr>jr_files := files\<rparr>) = journal_offset d j" by (simp add: journal_offset_def)
  ultimately show "journal_offset d (j\<lparr>jr_files := files\<rparr>) \<le> length (journal_lines d (j\<lparr>jr_files := files\<rparr>)) \<and>
    (\<forall>x\<in>set (take (journal_offset d (j\<lparr>jr_files := files\<rparr>)) (journal_lines d (j\<lparr>jr_files := files\<rparr>))).
       \<forall>mark. f x = Some mark \<longrightarrow> mark \<in> set (jr_once (j\<lparr>jr_files := files\<rparr>)))"
    using assms(1) unfolding m by (simp add: journal_ok_def trans_le_add1)
qed

lemma sent_written:
  assumes "journal_ok f j" "d \<in> set (last_of SWEEP_DAYS (names j))" "x \<in> set (journal_lines d j)" "f x = Some mark"
  shows "fst (sent f mark j)"
  using catch_ups_ok [OF assms(1), of "last_of SWEEP_DAYS (names j)"] assms(2-4)
  by (auto simp: sent_def Let_def)

section \<open>Usage\<close>

text \<open>
  The request records and the audit log are the same store over different records: \<open>shape\<close> reads
  the account, the time and the id of a record. \<open>us_ids\<close> is the cache of the ids of a file, in
  least recently used order.
\<close>

record 'r shape =
  sh_account :: "'r \<Rightarrow> ident"
  sh_at :: "'r \<Rightarrow> stamp"
  sh_ident :: "'r \<Rightarrow> ident"

type_synonym file_key = "ident \<times> int"

record 'r usage =
  us_files :: "(file_key, 'r list) dict"
  us_ids :: "(file_key, ident list) dict"

definition ID_CACHE :: nat where "ID_CACHE = 256"

definition usage_lines :: "file_key \<Rightarrow> ('r, 'z) usage_scheme \<Rightarrow> 'r list" where
  "usage_lines k u = (case dget (us_files u) k of None \<Rightarrow> [] | Some xs \<Rightarrow> xs)"

definition file_of :: "'r shape \<Rightarrow> 'r \<Rightarrow> file_key" where
  "file_of sh r = (sh_account sh r, day_of (sh_at sh r))"

definition move_to_end :: "'k \<Rightarrow> ('k, 'v) dict \<Rightarrow> ('k, 'v) dict" where
  "move_to_end k d = (case dget d k of None \<Rightarrow> d | Some v \<Rightarrow> ddel k d @ [(k, v)])"

definition known :: "'r shape \<Rightarrow> file_key \<Rightarrow> ('r, 'z) usage_scheme \<Rightarrow> ident list \<times> ('r, 'z) usage_scheme" where
  "known sh k u =
     (let ids = (if k \<in> set (dkeys (us_ids u)) then us_ids u
                 else last_of ID_CACHE (us_ids u @ [(k, map (sh_ident sh) (usage_lines k u))]))
      in (case dget ids k of None \<Rightarrow> [] | Some seen \<Rightarrow> seen, u\<lparr>us_ids := move_to_end k ids\<rparr>))"

definition by_ident :: "'r shape \<Rightarrow> 'r list \<Rightarrow> (ident, 'r) dict" where
  "by_ident sh rs = foldl (\<lambda>d r. dset (sh_ident sh r) r d) [] rs"

definition usage_add_file :: "'r shape \<Rightarrow> 'r list \<Rightarrow> file_key \<Rightarrow> ('r, 'z) usage_scheme \<Rightarrow> nat \<times> ('r, 'z) usage_scheme" where
  "usage_add_file sh records k u =
     (let (seen, u1) = known sh k u;
          fresh = filter (\<lambda>r. file_of sh r = k \<and> sh_ident sh r \<notin> set seen) records;
          unique = dvalues (by_ident sh fresh)
      in if unique = [] then (0, u1)
         else (length unique, u1\<lparr>us_files := dset k (usage_lines k u1 @ unique) (us_files u1),
                us_ids := dset k (seen @ map (sh_ident sh) unique) (us_ids u1)\<rparr>))"

fun usage_add_files :: "'r shape \<Rightarrow> 'r list \<Rightarrow> file_key list \<Rightarrow> ('r, 'z) usage_scheme \<Rightarrow> nat \<times> ('r, 'z) usage_scheme" where
  "usage_add_files sh records [] u = (0, u)"
| "usage_add_files sh records (k # ks) u =
     (let (n, u1) = usage_add_file sh records k u; (m, u2) = usage_add_files sh records ks u1 in (n + m, u2))"

definition usage_add :: "'r shape \<Rightarrow> 'r list \<Rightarrow> ('r, 'z) usage_scheme \<Rightarrow> nat \<times> ('r, 'z) usage_scheme" where
  "usage_add sh records u = usage_add_files sh records (sort (remdups (map (file_of sh) records))) u"

definition usage_erase :: "ident \<Rightarrow> ('r, 'z) usage_scheme \<Rightarrow> nat \<times> ('r, 'z) usage_scheme" where
  "usage_erase account u =
     (sum_list (map (\<lambda>(k, xs). length xs) (filter (\<lambda>(k, xs). fst k = account) (us_files u))),
      u\<lparr>us_files := filter (\<lambda>(k, xs). fst k \<noteq> account) (us_files u),
        us_ids := filter (\<lambda>(k, ids). \<not> (fst k = account \<and> k \<in> set (dkeys (us_files u)))) (us_ids u)\<rparr>)"

definition RECORD_DAYS :: int where "RECORD_DAYS = 366"

definition usage_prune :: "int \<Rightarrow> ('r, 'z) usage_scheme \<Rightarrow> ('r, 'z) usage_scheme" where
  "usage_prune today u =
     (let cutoff = today - RECORD_DAYS
      in u\<lparr>us_files := filter (\<lambda>(k, xs). \<not> snd k < cutoff) (us_files u),
           us_ids := filter (\<lambda>(k, ids). \<not> (snd k < cutoff \<and> k \<in> set (dkeys (us_files u)))) (us_ids u)\<rparr>)"

definition usage_query :: "'r shape \<Rightarrow> ident \<Rightarrow> moment \<Rightarrow> moment \<Rightarrow> ('r \<Rightarrow> bool) \<Rightarrow> ('r, 'z) usage_scheme \<Rightarrow> 'r list" where
  "usage_query sh account since until matches u =
     concat (map (\<lambda>k. sort_key (\<lambda>r. (sh_at sh r, sh_ident sh r))
         (filter (\<lambda>r. since \<le> stamp_time (sh_at sh r) \<and> stamp_time (sh_at sh r) < until \<and> matches r) (usage_lines k u)))
       (filter (\<lambda>k. fst k = account \<and> day_of (stamp since) \<le> snd k \<and> snd k \<le> day_of (stamp until)) (sort (dkeys (us_files u)))))"

text \<open>
  Well-formed stores: a file holds an id once and only records of its account and day, and the
  cache agrees with the files.
\<close>

definition file_ok :: "'r shape \<Rightarrow> ('r, 'z) usage_scheme \<Rightarrow> file_key \<Rightarrow> bool" where
  "file_ok sh u k \<longleftrightarrow> distinct (map (sh_ident sh) (usage_lines k u)) \<and> (\<forall>r\<in>set (usage_lines k u). file_of sh r = k)
     \<and> (\<forall>ids. dget (us_ids u) k = Some ids \<longrightarrow> set ids = sh_ident sh ` set (usage_lines k u))"

definition usage_ok :: "'r shape \<Rightarrow> ('r, 'z) usage_scheme \<Rightarrow> bool" where
  "usage_ok sh u \<longleftrightarrow> All (file_ok sh u) \<and> distinct (dkeys (us_ids u)) \<and> distinct (dkeys (us_files u))"

lemma usage_okI:
  assumes "\<And>k. distinct (map (sh_ident sh) (usage_lines k u))" "\<And>k r. r \<in> set (usage_lines k u) \<Longrightarrow> file_of sh r = k"
    "\<And>k ids. dget (us_ids u) k = Some ids \<Longrightarrow> set ids = sh_ident sh ` set (usage_lines k u)"
    "distinct (dkeys (us_ids u))" "distinct (dkeys (us_files u))"
  shows "usage_ok sh u"
  using assms unfolding usage_ok_def file_ok_def by blast

lemma usage_okD:
  assumes "usage_ok sh u"
  shows "distinct (map (sh_ident sh) (usage_lines k u))" "r \<in> set (usage_lines k u) \<Longrightarrow> file_of sh r = k"
    "dget (us_ids u) k = Some ids \<Longrightarrow> set ids = sh_ident sh ` set (usage_lines k u)"
    "distinct (dkeys (us_ids u))" "distinct (dkeys (us_files u))"
  using assms unfolding usage_ok_def file_ok_def by blast+

lemma dkeys_by_ident: "distinct (dkeys (by_ident sh rs))" "set (dkeys (by_ident sh rs)) = sh_ident sh ` set rs"
  "set (by_ident sh rs) \<subseteq> (\<lambda>r. (sh_ident sh r, r)) ` set rs"
proof -
  have "distinct (dkeys (foldl (\<lambda>d r. dset (sh_ident sh r) r d) d rs))
      \<and> set (dkeys (foldl (\<lambda>d r. dset (sh_ident sh r) r d) d rs)) = set (dkeys d) \<union> sh_ident sh ` set rs
      \<and> set (foldl (\<lambda>d r. dset (sh_ident sh r) r d) d rs) \<subseteq> set d \<union> (\<lambda>r. (sh_ident sh r, r)) ` set rs"
    if "distinct (dkeys d)" for d :: "(ident, 'a) dict"
    using that
  proof (induction rs arbitrary: d)
    case (Cons r rs)
    have "distinct (dkeys (dset (sh_ident sh r) r d))" using Cons.prems by (rule distinct_update)
    from Cons.IH [OF this] show ?case using set_dset_subset [of "sh_ident sh r" r d]
      by (auto simp: dkeys_dset)
  qed auto
  from this [of "[]"] show "distinct (dkeys (by_ident sh rs))" "set (dkeys (by_ident sh rs)) = sh_ident sh ` set rs"
    "set (by_ident sh rs) \<subseteq> (\<lambda>r. (sh_ident sh r, r)) ` set rs"
    by (simp_all add: by_ident_def)
qed

lemma by_ident_values:
  "map (sh_ident sh) (dvalues (by_ident sh rs)) = dkeys (by_ident sh rs)"
  "set (dvalues (by_ident sh rs)) \<subseteq> set rs"
  using dkeys_by_ident(3) [of sh rs] by (auto intro!: map_cong)

lemma set_last_of: "set (last_of n xs) \<subseteq> set xs"
  by (auto simp: last_of_def dest: in_set_dropD)

lemma last_of_snoc: "0 < n \<Longrightarrow> last_of n (xs @ [x]) = last_of (n - 1) xs @ [x]"
  by (simp add: last_of_def)

lemma dget_last_of: "distinct (dkeys d) \<Longrightarrow> dget (last_of n d) k = Some v \<Longrightarrow> dget d k = Some v"
  using set_last_of [of n d] by (auto dest: dget_in_set)

lemma dget_move_to_end: "dget (move_to_end k d) c = dget d c"
  by (auto simp: move_to_end_def map_add_def split: option.splits)

lemma distinct_move_to_end: "distinct (dkeys d) \<Longrightarrow> distinct (dkeys (move_to_end k d))"
  by (auto simp: move_to_end_def dkeys_ddel split: option.splits)

lemma known_spec:
  assumes "usage_ok sh u" "known sh k u = (seen, u1)"
  shows "set seen = sh_ident sh ` set (usage_lines k u)" "us_files u1 = us_files u" "usage_ok sh u1"
proof -
  let ?new = "us_ids u @ [(k, map (sh_ident sh) (usage_lines k u))]"
  define ids where "ids = (if k \<in> set (dkeys (us_ids u)) then us_ids u else last_of ID_CACHE ?new)"
  have d: "distinct (dkeys (us_ids u))" and agree: "\<And>c is. dget (us_ids u) c = Some is \<Longrightarrow> set is = sh_ident sh ` set (usage_lines c u)"
    using usage_okD(3,4) [OF assms(1)] by auto
  have k: "seen = (case dget ids k of None \<Rightarrow> [] | Some seen \<Rightarrow> seen)" "u1 = u\<lparr>us_ids := move_to_end k ids\<rparr>"
    using assms(2) by (simp_all add: known_def Let_def ids_def)
  have dn: "distinct (dkeys ?new)" if "k \<notin> set (dkeys (us_ids u))" using d that by simp
  have ok: "set is = sh_ident sh ` set (usage_lines c u)" if "dget ids c = Some is" for c "is"
  proof (cases "k \<in> set (dkeys (us_ids u))")
    case False
    then have "dget ?new c = Some is" using that dget_last_of [OF dn] by (simp add: ids_def)
    then show ?thesis using agree [of c "is"] False by (auto simp: map_add_Some_iff split: if_splits)
  qed (use that agree in \<open>simp add: ids_def\<close>)
  have "distinct (dkeys ids)"
    using d distinct_drop [OF dn, of "length ?new - ID_CACHE"] unfolding drop_map by (simp add: ids_def last_of_def)
  then have di: "distinct (dkeys (move_to_end k ids))" by (rule distinct_move_to_end)
  have "dget ids k \<noteq> None"
  proof (cases "k \<in> set (dkeys (us_ids u))")
    case False
    then show ?thesis by (simp add: ids_def ID_CACHE_def last_of_snoc map_add_def split: option.split)
  qed (simp add: ids_def dget_None_iff)
  then show "set seen = sh_ident sh ` set (usage_lines k u)" using ok [of k] k(1) by auto
  show "us_files u1 = us_files u" by (simp add: k(2))
  have "usage_lines c u1 = usage_lines c u" for c by (simp add: k(2) usage_lines_def)
  then show "usage_ok sh u1" using usage_okD [OF assms(1)] ok di by (intro usage_okI) (auto simp: k(2) dget_move_to_end)
qed

lemma usage_add_file_spec:
  assumes "usage_ok sh u" "usage_add_file sh rs k u = (n, u')"
  shows "usage_ok sh u'" "\<And>c. c \<noteq> k \<Longrightarrow> usage_lines c u' = usage_lines c u"
    "sh_ident sh ` set (usage_lines k u') = sh_ident sh ` (set (usage_lines k u) \<union> {r \<in> set rs. file_of sh r = k})"
    "\<exists>new. usage_lines k u' = usage_lines k u @ new \<and> length new = n \<and> set new \<subseteq> {r \<in> set rs. file_of sh r = k}"
proof -
  obtain seen u1 where kn: "known sh k u = (seen, u1)" by fastforce
  note known = known_spec [OF assms(1) kn]
  define fresh where "fresh = filter (\<lambda>r. file_of sh r = k \<and> sh_ident sh r \<notin> set seen) rs"
  define unique where "unique = dvalues (by_ident sh fresh)"
  have lines1: "usage_lines c u1 = usage_lines c u" for c by (simp add: usage_lines_def known(2))
  have uniq: "distinct (map (sh_ident sh) unique)" "sh_ident sh ` set unique = sh_ident sh ` set fresh" "set unique \<subseteq> set fresh"
  proof -
    have keys: "map (sh_ident sh) unique = dkeys (by_ident sh fresh)" unfolding unique_def by (rule by_ident_values)
    show "distinct (map (sh_ident sh) unique)" unfolding keys by (rule dkeys_by_ident)
    have "sh_ident sh ` set unique = set (map (sh_ident sh) unique)" by simp
    then show "sh_ident sh ` set unique = sh_ident sh ` set fresh" unfolding keys dkeys_by_ident .
    show "set unique \<subseteq> set fresh" unfolding unique_def by (rule by_ident_values)
  qed
  have u': "(n, u') = (if unique = [] then (0, u1) else (length unique,
      u1\<lparr>us_files := dset k (usage_lines k u1 @ unique) (us_files u1), us_ids := dset k (seen @ map (sh_ident sh) unique) (us_ids u1)\<rparr>))"
    using assms(2) unfolding usage_add_file_def kn Let_def prod.case fresh_def [symmetric] unique_def [symmetric] by (rule sym)
  have res: "usage_lines c u' = (if c = k then usage_lines k u @ unique else usage_lines c u)" "n = length unique"
    "us_files u' = (if unique = [] then us_files u1 else dset k (usage_lines k u1 @ unique) (us_files u1))"
    "us_ids u' = (if unique = [] then us_ids u1 else dset k (seen @ map (sh_ident sh) unique) (us_ids u1))" for c
  proof -
    show f: "us_files u' = (if unique = [] then us_files u1 else dset k (usage_lines k u1 @ unique) (us_files u1))"
      using u' by (simp split: if_splits)
    show "usage_lines c u' = (if c = k then usage_lines k u @ unique else usage_lines c u)"
      using lines1 [of c] lines1 [of k] unfolding usage_lines_def f by simp
  qed (use u' in \<open>simp_all split: if_splits\<close>)
  have img: "sh_ident sh ` (set (usage_lines k u) \<union> set unique) = sh_ident sh ` (set (usage_lines k u) \<union> {r \<in> set rs. file_of sh r = k})"
    unfolding image_Un uniq(2) using known(1) by (auto simp: fresh_def)
  then show "sh_ident sh ` set (usage_lines k u') = sh_ident sh ` (set (usage_lines k u) \<union> {r \<in> set rs. file_of sh r = k})"
    by (simp add: res(1))
  show "\<And>c. c \<noteq> k \<Longrightarrow> usage_lines c u' = usage_lines c u" by (simp add: res(1))
  show "\<exists>new. usage_lines k u' = usage_lines k u @ new \<and> length new = n \<and> set new \<subseteq> {r \<in> set rs. file_of sh r = k}"
    using uniq(3) by (intro exI [of _ unique]) (auto simp: res(1,2) fresh_def)
  have "sh_ident sh ` set (usage_lines k u) \<inter> sh_ident sh ` set unique = {}"
    unfolding uniq(2) known(1) [symmetric] by (auto simp: fresh_def)
  then have dl: "distinct (map (sh_ident sh) (usage_lines c u'))" for c
    using usage_okD(1) [OF assms(1)] uniq(1) by (auto simp: res(1))
  have fl: "\<forall>r\<in>set (usage_lines c u'). file_of sh r = c" for c
    using usage_okD(2) [OF assms(1), of _ c] uniq(3) by (auto simp: res(1) fresh_def)
  have "set ids = sh_ident sh ` set (usage_lines c u')" if "dget (us_ids u') c = Some ids" for c ids
    using that known(1) usage_okD(3) [OF known(3)] by (auto simp: res(1,4) lines1 split: if_splits)
  then show "usage_ok sh u'"
    using dl fl usage_okD(4,5) [OF known(3)] by (intro usage_okI) (auto simp: res(3,4) intro: distinct_update)
qed

lemma usage_add_files_spec:
  assumes "usage_ok sh u" "usage_add_files sh rs ks u = (n, u')" "distinct ks"
  shows "usage_ok sh u'
    \<and> (\<forall>c\<in>set ks. sh_ident sh ` set (usage_lines c u') = sh_ident sh ` (set (usage_lines c u) \<union> {r \<in> set rs. file_of sh r = c}))
    \<and> (\<forall>c. c \<notin> set ks \<longrightarrow> usage_lines c u' = usage_lines c u)
    \<and> n = sum_list (map (\<lambda>c. length (usage_lines c u') - length (usage_lines c u)) ks)
    \<and> (\<forall>c. \<exists>new. usage_lines c u' = usage_lines c u @ new \<and> set new \<subseteq> set rs)"
  using assms
proof (induction ks arbitrary: u n)
  case (Cons k ks)
  obtain n1 u1 m where k: "usage_add_file sh rs k u = (n1, u1)" "usage_add_files sh rs ks u1 = (m, u')" "n = n1 + m"
    using Cons.prems(2) by (auto split: prod.splits)
  note first = usage_add_file_spec [OF Cons.prems(1) k(1)]
  note rest = Cons.IH [OF first(1) k(2)]
  have d: "k \<notin> set ks" "distinct ks" using Cons.prems(3) by simp_all
  have kk: "usage_lines k u' = usage_lines k u1" using rest d by blast
  obtain new where new: "usage_lines k u1 = usage_lines k u @ new" "length new = n1" "set new \<subseteq> {r \<in> set rs. file_of sh r = k}"
    using first(4) by blast
  have same: "c \<in> set ks \<Longrightarrow> usage_lines c u1 = usage_lines c u" for c using first(2) [of c] d(1) by auto
  have "sum_list (map (\<lambda>c. length (usage_lines c u') - length (usage_lines c u1)) ks) =
      sum_list (map (\<lambda>c. length (usage_lines c u') - length (usage_lines c u)) ks)"
    using same by (metis (no_types, lifting) map_eq_conv)
  moreover have "\<exists>new. usage_lines c u' = usage_lines c u @ new \<and> set new \<subseteq> set rs" for c
  proof (cases "c = k")
    case True
    then show ?thesis using new kk by auto
  next
    case False
    then show ?thesis using first(2) [OF False] rest d(2) by metis
  qed
  moreover have "sh_ident sh ` set (usage_lines c u') = sh_ident sh ` (set (usage_lines c u) \<union> {r \<in> set rs. file_of sh r = c})"
    if "c \<in> set (k # ks)" for c
  proof (cases "c = k")
    case True
    then show ?thesis using first(3) kk by simp
  next
    case False
    then show ?thesis using that rest d(2) same [of c] by simp
  qed
  ultimately show ?case using rest d first(2) new kk k(3) by (simp only: set_simps list.map sum_list.Cons) auto
qed auto

lemma usage_add_spec:
  assumes "usage_ok sh u" "usage_add sh rs u = (n, u')"
  shows "usage_ok sh u'"
    "sh_ident sh ` set (usage_lines k u') = sh_ident sh ` (set (usage_lines k u) \<union> {r \<in> set rs. file_of sh r = k})"
    "\<exists>new. usage_lines k u' = usage_lines k u @ new \<and> set new \<subseteq> set rs"
proof -
  let ?ks = "sort (remdups (map (file_of sh) rs))"
  have a: "usage_add_files sh rs ?ks u = (n, u')" using assms(2) by (simp add: usage_add_def)
  note spec = usage_add_files_spec [OF assms(1) a]
  have d: "distinct ?ks" by simp
  show "usage_ok sh u'" "\<exists>new. usage_lines k u' = usage_lines k u @ new \<and> set new \<subseteq> set rs" using spec [OF d] by blast+
  show "sh_ident sh ` set (usage_lines k u') = sh_ident sh ` (set (usage_lines k u) \<union> {r \<in> set rs. file_of sh r = k})"
  proof (cases "k \<in> set ?ks")
    case False
    then have "usage_lines k u' = usage_lines k u" using spec [OF d] by blast
    moreover have none: "{r \<in> set rs. file_of sh r = k} = {}" using False by (simp, blast)
    ultimately show ?thesis unfolding none by simp
  qed (use spec [OF d] in blast)
qed

lemma usage_lines_filter:
  "usage_lines k (u\<lparr>us_files := filter (\<lambda>(c, xs). P c) (us_files u), us_ids := is\<rparr>) = (if P k then usage_lines k u else [])"
  by (simp add: usage_lines_def map_of_filter_keys)

lemma distinct_dkeys_filter: "distinct (dkeys d) \<Longrightarrow> distinct (dkeys (filter P d))"
  by (rule distinct_map_filter)

lemma usage_filter_ok:
  assumes "usage_ok sh u" "\<And>k. \<not> P k \<Longrightarrow> k \<in> set (dkeys (us_files u)) \<Longrightarrow> \<not> Q k"
  shows "usage_ok sh (u\<lparr>us_files := filter (\<lambda>(k, xs). P k) (us_files u), us_ids := filter (\<lambda>(k, is). Q k) (us_ids u)\<rparr>)"
proof (rule usage_okI)
  fix k ids
  let ?u = "u\<lparr>us_files := filter (\<lambda>(k, xs). P k) (us_files u), us_ids := filter (\<lambda>(k, is). Q k) (us_ids u)\<rparr>"
  assume "dget (us_ids ?u) k = Some ids"
  then have q: "Q k" "dget (us_ids u) k = Some ids" by (simp_all add: map_of_filter_keys split: if_splits)
  have "P k \<or> usage_lines k u = []"
    using assms(2) [of k] q(1) by (auto simp: usage_lines_def dget_None_iff split: option.splits) (metis dget_None_iff list.set_map option.simps(3))
  then show "set ids = sh_ident sh ` set (usage_lines k ?u)"
    using usage_okD(3) [OF assms(1) q(2)] unfolding usage_lines_filter by auto
qed (use usage_okD [OF assms(1)] in \<open>auto simp: usage_lines_filter intro: distinct_dkeys_filter split: if_splits\<close>)

lemma usage_erase_ok: "usage_ok sh u \<Longrightarrow> usage_ok sh (snd (usage_erase acc u))"
  unfolding usage_erase_def snd_conv by (rule usage_filter_ok) auto

lemma usage_prune_ok: "usage_ok sh u \<Longrightarrow> usage_ok sh (usage_prune today u)"
  unfolding usage_prune_def Let_def by (rule usage_filter_ok) auto

lemma usage_add_again:
  assumes "usage_ok sh u" "usage_add sh rs u = (n, u')" "usage_add sh rs u' = (k, u'')"
  shows "k = 0" "usage_lines c u'' = usage_lines c u'"
proof -
  note first = usage_add_spec [OF assms(1,2)]
  note again = usage_add_spec [OF first(1) assms(3)]
  have same: "usage_lines c u'' = usage_lines c u'" for c
  proof -
    obtain new where new: "usage_lines c u'' = usage_lines c u' @ new" using again(3) [of c] by blast
    have "sh_ident sh ` set (usage_lines c u'') = sh_ident sh ` set (usage_lines c u')"
      unfolding again(2) [of c] using first(2) [of c] by (simp add: image_Un)
    moreover have "distinct (map (sh_ident sh) (usage_lines c u''))" by (rule usage_okD(1) [OF again(1)])
    ultimately show ?thesis unfolding new by (cases new) auto
  qed
  then show "usage_lines c u'' = usage_lines c u'" .
  have "usage_add_files sh rs (sort (remdups (map (file_of sh) rs))) u' = (k, u'')" using assms(3) by (simp add: usage_add_def)
  from usage_add_files_spec [OF first(1) this] show "k = 0" using same by simp
qed

section \<open>Properties\<close>

text \<open>
  A once-only notice is sent once: a mark that any process wrote in one of the three latest
  day files counts as sent, whatever this process had read before.
\<close>

theorem journal_sees_written_marks:
  assumes "journal_ok once_of j" "d \<in> set (last_of SWEEP_DAYS (names j))" "x \<in> set (journal_lines d j)" "once_of x = Some mark"
  shows "fst (sent once_of mark j) \<and> journal_ok once_of (snd (sent once_of mark j))"
  using sent_written [OF assms] sent_ok [OF assms(1)] by simp

definition one_day :: "(string, string) journal" where
  "one_day = \<lparr>jr_files = [(3, [''a'', ''b''])], jr_offsets = [], jr_once = []\<rparr>"

theorem journal_sees_written_marks_witness:
  "fst (sent Some ''b'' one_day) \<and> journal_ok Some (snd (sent Some ''b'' one_day))"
  by (rule journal_sees_written_marks [where d = 3 and x = "''b''"])
    (simp_all add: one_day_def journal_ok_def journal_offset_def journal_lines_def names_def last_of_def SWEEP_DAYS_def)

text \<open>
  A mark this process wrote stays sent: after adding the notice, pruning the old day files and
  asking about other marks, it is still known.
\<close>

theorem journal_remembers_own_marks:
  assumes "journal_ok once_of j" "once_of x = Some mark"
  shows "fst (sent once_of mark (journal_prune today days (snd (sent once_of other (journal_add once_of x d j)))))"
proof -
  have "mark \<in> set (jr_once (snd (sent once_of other (journal_add once_of x d j))))"
    using sent_mono [OF journal_add_ok [OF assms(1), of x d], of other] journal_add_fields(3) [of once_of x mark d j] assms(2) by blast
  then show ?thesis by (intro sent_once) (simp add: journal_prune_fields)
qed

theorem journal_remembers_own_marks_witness:
  "fst (sent Some ''c'' (journal_prune 40 30 (snd (sent Some ''b'' (journal_add Some ''c'' 3 one_day)))))"
  by (rule journal_remembers_own_marks)
    (simp_all add: one_day_def journal_ok_def journal_offset_def)

text \<open>
  A record is stored once: adding records keeps every file free of duplicate ids, leaves in each
  file exactly the ids that were there or came with the records, and adding the same records again
  adds none.
\<close>

theorem usage_add_once:
  assumes "usage_ok sh u" "usage_add sh rs u = (n, u')" "usage_add sh rs u' = (k, u'')"
  shows "usage_ok sh u' \<and> sh_ident sh ` set (usage_lines c u') = sh_ident sh ` (set (usage_lines c u) \<union> {r \<in> set rs. file_of sh r = c})
     \<and> k = 0 \<and> usage_lines c u'' = usage_lines c u'"
  using usage_add_spec(1,2) [OF assms(1,2)] usage_add_again [OF assms] by blast

definition pair_shape :: "(string \<times> int) shape" where
  "pair_shape = \<lparr>sh_account = (\<lambda>_. ''AC1''), sh_at = snd, sh_ident = fst\<rparr>"

definition no_usage :: "(string \<times> int) usage" where
  "no_usage = \<lparr>us_files = [], us_ids = []\<rparr>"

lemma no_usage_ok: "usage_ok sh no_usage"
  by (rule usage_okI) (simp_all add: no_usage_def usage_lines_def)

theorem usage_add_once_witness:
  "let rs = [(''r1'', 5), (''r2'', 90000), (''r1'', 6)]; u' = snd (usage_add pair_shape rs no_usage); u'' = snd (usage_add pair_shape rs u')
   in usage_ok pair_shape u' \<and> sh_ident pair_shape ` set (usage_lines (''AC1'', 0) u')
        = sh_ident pair_shape ` (set (usage_lines (''AC1'', 0) no_usage) \<union> {r \<in> set rs. file_of pair_shape r = (''AC1'', 0)})
      \<and> fst (usage_add pair_shape rs u') = 0 \<and> usage_lines (''AC1'', 0) u'' = usage_lines (''AC1'', 0) u'"
  unfolding Let_def by (rule usage_add_once [OF no_usage_ok prod.collapse [symmetric] prod.collapse [symmetric]])

end
