(* ===== verification/World.thy ===== *)
theory World
  imports Book Stores
begin

text \<open>
  The application around the book (class \<open>App\<close> of \<open>tools/sparkpipe_pay.py\<close> and the helpers of
  class \<open>Market\<close> that only read settings or send notices). \<open>env\<close> holds what the process is
  given and never changes: the configuration, the digest, and the sources of time and of random
  identifiers, as streams read by position. \<open>world\<close> extends the book's store with the
  application's other stores. The texts of notices and mails are left out; what a notice is
  about, whom it goes to and its once-only mark are kept.
\<close>

section \<open>Settings\<close>

record fleet_listing =
  fl_id :: ident
  fl_name :: string
  fl_state :: string
  fl_rate :: decimal
  fl_demo :: bool

record fleet = fleet_listing +
  fl_serving :: bool

record rules =
  hourHC :: decimal
  weekHC :: decimal
  discounts :: "(int \<times> decimal) list"
  maxWeeksAhead :: nat
  demoDaysAhead :: int
  demoHoursPerWeek :: int
  maintenanceHoursPerWeek :: int

record price_tier =
  pt_from :: decimal
  pt_usd :: decimal
  pt_krw :: decimal

record pricing =
  pr_fleets :: "fleet_listing list"
  pr_rules :: rules
  pr_min :: decimal
  pr_prices :: "price_tier list"
  validityMonths :: int
  vatRate :: decimal
  swiftVatRate :: decimal
  demoFrom :: int
  weeksFrom :: int

record env =
  digest :: "body \<Rightarrow> string"
  clock :: "nat \<Rightarrow> moment"
  monotonic :: "nat \<Rightarrow> duration"
  token :: "nat \<Rightarrow> string"
  key_digest :: "string \<Rightarrow> string"
  sandbox :: bool
  settings :: pricing
  terms :: "string \<times> string"
  notify_to :: string
  health_seconds :: int
  fuel :: nat

section \<open>Notices, hooks, uptime records and audit records\<close>

definition EVENTS :: "string list" where
  "EVENTS = [''booking.deadline'', ''booking.confirmed'', ''fleet.allocated'', ''waitlist.position'', ''run.finished'', ''run.failed'',
     ''report.ready'', ''fetch.finished'', ''fetch.failed'', ''fetch.needs_token'', ''pack.warm'', ''cache.restored'', ''models.changed'',
     ''downtime.credited'', ''working_state.lost'', ''fleet.failover'']"

definition HUB_EVENTS :: "string list" where
  "HUB_EVENTS = [''run.finished'', ''run.failed'', ''report.ready'', ''fetch.finished'', ''fetch.failed'', ''fetch.needs_token'',
     ''pack.warm'', ''cache.restored'', ''models.changed'']"

definition EMAIL_EVENTS :: "string list" where
  "EMAIL_EVENTS = [''booking.deadline'', ''fleet.allocated'', ''downtime.credited'', ''working_state.lost'', ''fleet.failover'']"

definition REQUIRED_EMAIL :: "string list" where
  "REQUIRED_EMAIL = [''fleet.allocated'', ''downtime.credited'', ''working_state.lost'']"

text \<open>The data of a notice, by what sends it.\<close>

datatype payload =
    Confirmed booking
  | Position "nat option" decimal nat
  | Allocated booking
  | Maintenance_credit ident ident slot int decimal
  | Downtime_credit ident ident stamp "stamp option" "slot list" decimal ident
  | Manual_credit ident decimal string
  | Deadline_due ident slot slot int decimal "decimal option" int "string option"
  | Extend_waits ident slot string int decimal decimal "decimal option"
  | Extend_stopped ident string "slot option"
  | Failover_started ident ident ident stamp
  | Failover_ended ident ident ident stamp stamp string
  | State_lost ident string stamp "string option" decimal ident "string list" "string list" "string list"
  | Hub_data ident string

text \<open>The once-only marks, the texts \<open>deadline:...\<close>, \<open>downtime:...\<close>, \<open>loss:...\<close> and \<open>hub:...\<close> by their parts.\<close>

datatype once =
    Deadline_once ident ident slot int
  | Downtime_once ident ident slot
  | Loss_once string
  | Hub_once ident string

record notice =
  nt_id :: ident
  nt_account :: ident
  nt_type :: string
  nt_data :: payload
  nt_targets :: "string list"
  nt_now :: stamp
  nt_once :: "once option"

datatype hook_kind = Url | Email

record hook =
  wh_id :: ident
  wh_account :: ident
  wh_kind :: hook_kind
  wh_events :: "string list"
  wh_slack :: bool
  wh_now :: stamp
  wh_target :: "string option"
  wh_secret :: "string option"

record span_data =
  sp_span :: ident
  sp_fleet :: ident
  sp_start :: stamp
  sp_cause :: string

record outage_span = span_data +
  sp_end :: "stamp option"

record up_entry =
  up_good :: "stamp option"
  up_open :: "span_data option"
  up_first :: stamp
  up_detail :: string
  up_seen :: stamp

record uptime_store =
  up_state :: "(ident, up_entry) dict"
  up_recent :: "outage_span list"
  up_months :: "(int, outage_span list) dict"

record audit_record =
  au_id :: ident
  au_account :: ident
  au_at :: stamp
  au_member :: ident
  au_type :: string
  au_data :: "string list"

definition audit_shape :: "audit_record shape" where
  "audit_shape = \<lparr>sh_account = au_account, sh_at = au_at, sh_ident = au_id\<rparr>"

text \<open>A webhook delivery waiting for its time, and the notifier's state.\<close>

record delivery =
  dl_at :: duration
  dl_count :: nat
  dl_notice :: notice
  dl_target :: string
  dl_attempt :: nat

record outcome =
  oc_notice :: ident
  oc_target :: string
  oc_attempts :: nat
  oc_outcome :: string
  oc_at :: stamp

record notifier =
  nf_heap :: "delivery list"
  nf_count :: nat
  nf_known :: "(ident \<times> string) list"
  nf_deliveries :: "(outcome, once) journal"

record world = store +
  ticks :: nat
  beats :: nat
  draws :: nat
  notices :: "(notice, once) journal"
  notifier :: notifier
  mails :: "(string \<times> string) list"
  audits :: "audit_record usage"
  hooks :: "(ident, hook) dict"
  uptime :: uptime_store

abbreviation st :: "'a world_scheme \<Rightarrow> mstate" where
  "st w \<equiv> market (book w)"

section \<open>Time, identifiers, the ledger\<close>

definition read_clock :: "env \<Rightarrow> ('a world_scheme, moment) op" where
  "read_clock e w = (Inr (clock e (ticks w)), w\<lparr>ticks := ticks w + 1\<rparr>)"

definition read_monotonic :: "env \<Rightarrow> ('a world_scheme, duration) op" where
  "read_monotonic e w = (Inr (monotonic e (beats w)), w\<lparr>beats := beats w + 1\<rparr>)"

definition new_id :: "env \<Rightarrow> string \<Rightarrow> ('a world_scheme, ident) op" where
  "new_id e prefix w = (Inr (prefix @ token e (draws w)), w\<lparr>draws := draws w + 1\<rparr>)"

definition now :: "env \<Rightarrow> ('a world_scheme, moment) op" where
  "now e = bind_op (read_clock e) (\<lambda>m. gets (\<lambda>w. m + offset (st w) * SECOND))"

definition append :: "env \<Rightarrow> entry \<Rightarrow> ('a world_scheme, line) op" where
  "append e x = bind_op (read_clock e) (\<lambda>m. append_entry (digest e) (stamp m) x)"

definition append_market :: "env \<Rightarrow> mline \<Rightarrow> ('a world_scheme, unit) op" where
  "append_market e l = bind_op (append e (Market l)) (\<lambda>_. ret ())"

section \<open>Fleets\<close>

definition fleets :: "env \<Rightarrow> fleet list" where
  "fleets e = map (\<lambda>f. fleet_listing.extend f \<lparr>fl_serving = sandbox e \<or> fl_state f = ''serving''\<rparr>) (pr_fleets (settings e))"

definition fleet_field :: "env \<Rightarrow> ident \<Rightarrow> fleet fallible" where
  "fleet_field e value =
     (case find (\<lambda>f. fl_id f = value) (fleets e) of None \<Rightarrow> Inl (Refusal 400 None) | Some f \<Rightarrow> Inr f)"

definition fleet_name :: "env \<Rightarrow> ident \<Rightarrow> string" where
  "fleet_name e fleet_id =
     (case find (\<lambda>f. fl_id f = fleet_id) (pr_fleets (settings e)) of None \<Rightarrow> fleet_id | Some f \<Rightarrow> fl_name f)"

definition gate :: "env \<Rightarrow> (pricing \<Rightarrow> int) \<Rightarrow> moment option" where
  "gate e key = (if sandbox e then None else Some (kst_midnight (key (settings e))))"

section \<open>Mail, notices, audit\<close>

definition mail :: "env \<Rightarrow> string \<Rightarrow> string \<Rightarrow> ('a world_scheme, unit) op" where
  "mail e to subject = modify (\<lambda>w. if sandbox e then w else w\<lparr>mails := mails w @ [(to, subject)]\<rparr>)"

definition schedule :: "env \<Rightarrow> notice \<Rightarrow> string \<Rightarrow> nat \<Rightarrow> duration \<Rightarrow> ('a world_scheme, unit) op" where
  "schedule e n target attempt delay =
     bind_op (read_monotonic e) (\<lambda>m. modify (\<lambda>w. w\<lparr>notifier := (notifier w)\<lparr>
       nf_heap := nf_heap (notifier w) @ [\<lparr>dl_at = m + delay, dl_count = nf_count (notifier w), dl_notice = n, dl_target = target, dl_attempt = attempt\<rparr>],
       nf_count := nf_count (notifier w) + 1,
       nf_known := (nt_id n, target) # nf_known (notifier w)\<rparr>\<rparr>))"

definition notified :: "env \<Rightarrow> notice \<Rightarrow> ('a world_scheme, unit) op" where
  "notified e n =
     bind_op (gets (\<lambda>w. dget (accounts (book w)) (nt_account n))) (\<lambda>account.
       each (\<lambda>target. if target \<noteq> ''mail'' then schedule e n target 0 0
                      else (case account of None \<Rightarrow> ret () | Some a \<Rightarrow> mail e (ad_email a) (nt_type n))) (nt_targets n))"

definition hooks_of :: "ident \<Rightarrow> 'a world_scheme \<Rightarrow> hook list" where
  "hooks_of account w = sort_key wh_id (filter (\<lambda>h. wh_account h = account) (dvalues (hooks w)))"

definition targets :: "ident \<Rightarrow> string \<Rightarrow> 'a world_scheme \<Rightarrow> string list" where
  "targets account kind w =
     (let mine = hooks_of account w;
          found = map wh_id (filter (\<lambda>h. wh_kind h = Url \<and> (kind \<in> set (wh_events h) \<or> ''*'' \<in> set (wh_events h))) mine);
          email = find (\<lambda>h. wh_kind h = Email) mine
      in if kind \<in> set REQUIRED_EMAIL
            \<or> (case email of Some h \<Rightarrow> kind \<in> set (wh_events h) \<or> ''*'' \<in> set (wh_events h) | None \<Rightarrow> kind \<in> set EMAIL_EVENTS)
         then found @ [''mail''] else found)"

definition notify :: "env \<Rightarrow> ident \<Rightarrow> string \<Rightarrow> payload \<Rightarrow> moment \<Rightarrow> once option \<Rightarrow> bool \<Rightarrow> ('a world_scheme, notice) op" where
  "notify e account kind data m once mailed =
     bind_op (gets (targets account kind)) (\<lambda>found.
     bind_op (new_id e ''NT'') (\<lambda>ident.
       let n = \<lparr>nt_id = ident, nt_account = account, nt_type = kind, nt_data = data,
                nt_targets = (if mailed \<and> ''mail'' \<notin> set found then found @ [''mail''] else found), nt_now = stamp m, nt_once = once\<rparr>
       in seq_op (modify (\<lambda>w. w\<lparr>notices := journal_add nt_once n (day_of (nt_now n)) (notices w)\<rparr>))
         (seq_op (notified e n) (ret n))))"

definition tell :: "env \<Rightarrow> ident \<Rightarrow> string \<Rightarrow> payload \<Rightarrow> moment \<Rightarrow> once option \<Rightarrow> bool \<Rightarrow> ('a world_scheme, unit) op" where
  "tell e account kind data m once mailed = bind_op (notify e account kind data m once mailed) (\<lambda>_. ret ())"

definition notices_sent :: "once \<Rightarrow> ('a world_scheme, bool) op" where
  "notices_sent mark w = (case sent nt_once mark (notices w) of (found, j) \<Rightarrow> (Inr found, w\<lparr>notices := j\<rparr>))"

definition audit :: "env \<Rightarrow> ident \<Rightarrow> ident \<Rightarrow> string \<Rightarrow> string list \<Rightarrow> moment option \<Rightarrow> ('a world_scheme, unit) op" where
  "audit e account member kind data given =
     bind_op (case given of None \<Rightarrow> now e | Some m \<Rightarrow> ret m) (\<lambda>m.
     bind_op (new_id e ''AU'') (\<lambda>ident.
       modify (\<lambda>w. w\<lparr>audits := snd (usage_add audit_shape
         [\<lparr>au_id = ident, au_account = account, au_at = stamp m, au_member = member, au_type = kind, au_data = data\<rparr>] (audits w))\<rparr>)))"

section \<open>Terms\<close>

definition accepted :: "env \<Rightarrow> acct \<Rightarrow> bool" where
  "accepted e a = (case ac_accepted a of None \<Rightarrow> False | Some (ko, en, t) \<Rightarrow> ko = Some (fst (terms e)) \<and> en = Some (snd (terms e)))"

definition terms_current :: "env \<Rightarrow> ident \<Rightarrow> 'a world_scheme \<Rightarrow> bool" where
  "terms_current e account w = (case dget (accounts (book w)) account of None \<Rightarrow> False | Some a \<Rightarrow> accepted e a)"

definition accept :: "env \<Rightarrow> ident \<Rightarrow> ('a world_scheme, unit) op" where
  "accept e account =
     bind_op (gets (\<lambda>w. dget (accounts (book w)) account)) (\<lambda>found.
       case found of None \<Rightarrow> raise KeyError
       | Some a \<Rightarrow> bind_op (append e (Acceptance account (Some (fst (terms e))) (Some (snd (terms e))))) (\<lambda>_. ret ()))"

definition require_terms :: "env \<Rightarrow> ident \<Rightarrow> bool \<Rightarrow> ('a world_scheme, unit) op" where
  "require_terms e account agreed =
     bind_op (gets (\<lambda>w. dget (accounts (book w)) account)) (\<lambda>found.
       case found of None \<Rightarrow> raise KeyError
       | Some a \<Rightarrow> if accepted e a then ret ()
                   else seq_op (require agreed (Refusal 409 (Some ''terms''))) (accept e account))"

section \<open>What the operations leave alone\<close>

text \<open>Only \<open>append\<close> writes to the ledger and to the state built from it.\<close>

definition quiet :: "('a world_scheme, 'b) op \<Rightarrow> bool" where
  "quiet m \<longleftrightarrow> (\<forall>w. book (snd (m w)) = book w \<and> ledger (snd (m w)) = ledger w)"

lemma quiet_eq_keeps: "quiet m \<longleftrightarrow> (\<forall>B L. keeps (\<lambda>w. book w = B \<and> ledger w = L) m)"
  by (auto simp: quiet_def keeps_def)

lemma quiet_bind [keeps_intros]: "quiet m \<Longrightarrow> (\<And>x. quiet (f x)) \<Longrightarrow> quiet (bind_op m f)"
  by (simp add: quiet_eq_keeps keeps_bind)

lemma quiet_seq [keeps_intros]: "quiet m \<Longrightarrow> quiet n \<Longrightarrow> quiet (seq_op m n)"
  by (simp add: quiet_eq_keeps keeps_seq)

lemma quiet_each [keeps_intros]: "(\<And>x. x \<in> set xs \<Longrightarrow> quiet (f x)) \<Longrightarrow> quiet (each f xs)"
  by (simp add: quiet_eq_keeps keeps_each)

lemma quiet_map_op [keeps_intros]: "(\<And>x. x \<in> set xs \<Longrightarrow> quiet (f x)) \<Longrightarrow> quiet (map_op f xs)"
  by (simp add: quiet_eq_keeps keeps_map_op)

lemma quiet_basic [keeps_intros]:
  "quiet (ret x)" "quiet (raise ex)" "quiet (gets g)" "quiet (lift r)" "quiet (require b ex)"
  by (simp_all add: quiet_eq_keeps keeps_pure)

lemma quiet_modify: "(\<And>w. book (f w) = book w \<and> ledger (f w) = ledger w) \<Longrightarrow> quiet (modify f)"
  by (simp add: quiet_def op_simps)

lemma quiet_if [keeps_intros]: "(b \<Longrightarrow> quiet m) \<Longrightarrow> (\<not> b \<Longrightarrow> quiet n) \<Longrightarrow> quiet (if b then m else n)"
  by simp

lemma quiet_option [keeps_intros]:
  "quiet m \<Longrightarrow> (\<And>x. quiet (f x)) \<Longrightarrow> quiet (case v of None \<Rightarrow> m | Some x \<Rightarrow> f x)"
  by (cases v) auto

lemma quiet_reads [keeps_intros]:
  "quiet (read_clock e)" "quiet (read_monotonic e)" "quiet (new_id e p)" "quiet (notices_sent mark)"
  by (simp_all add: quiet_def read_clock_def read_monotonic_def new_id_def notices_sent_def split: prod.splits)

lemma quiet_now [keeps_intros]: "quiet (now e)"
  unfolding now_def by (intro keeps_intros)

lemma quiet_mail [keeps_intros]: "quiet (mail e to subject)"
  unfolding mail_def by (rule quiet_modify) simp

lemma quiet_schedule [keeps_intros]: "quiet (schedule e n t a d)"
  unfolding schedule_def by (intro keeps_intros quiet_modify) simp

lemma quiet_notify [keeps_intros]: "quiet (notify e acc kind data m once mailed)"
  unfolding notify_def notified_def Let_def by (intro keeps_intros quiet_modify) simp

lemma quiet_tell [keeps_intros]: "quiet (tell e acc kind data m once mailed)"
  unfolding tell_def by (intro keeps_intros)

lemma quiet_audit [keeps_intros]: "quiet (audit e acc member kind data given)"
  unfolding audit_def by (intro keeps_intros quiet_modify) simp

lemma quiet_result: "quiet m \<Longrightarrow> m w = (r, w') \<Longrightarrow> book w' = book w \<and> ledger w' = ledger w"
  by (metis quiet_def snd_conv)

lemma quiet_keeps: "quiet m \<Longrightarrow> keeps (\<lambda>w. I (book w) (ledger w)) m"
  by (simp add: quiet_def keeps_def)

section \<open>A process that has read the whole ledger\<close>

definition synced :: "'a store_scheme \<Rightarrow> bool" where
  "synced w \<longleftrightarrow> consumed (book w) = length (ledger w)"

lemma catch_up_synced: "synced w \<Longrightarrow> catch_up d w = (Inr (), w)"
  by (simp add: synced_def catch_up_def on_book_def catch_up_book_def op_simps)

text \<open>
  The market's state after a line was appended by such a process is what the line's handler
  makes of the state before it, and nothing but the clock reading changes outside the book.
\<close>

lemma append_market_Inr:
  assumes "synced w" "append_market e l w = (Inr (), w')"
  obtains n where "n = count (book w) + 1" "apply_line n l (st w) = (Inr (), st w')" "synced w'"
    "accounts (book w') = accounts (book w)" "orders (book w') = orders (book w)"
    "ticks w' = ticks w + 1" "uptime w' = uptime w" "notices w' = notices w" "draws w' = draws w" "length (ledger w') = length (ledger w) + 1"
proof -
  let ?w = "w\<lparr>ticks := ticks w + 1\<rparr>"
  have s: "synced ?w" using assms(1) by (simp add: synced_def)
  let ?ln = "new_line (digest e) (stamp (clock e (ticks w))) (Market l) (book w)"
  have ln: "ln_seq ?ln = count (book w) + 1" "ln_data ?ln = Market l"
    by (simp_all add: new_line_def Let_def body.defs)
  obtain st' where a: "apply_line (count (book w) + 1) l (st w) = (Inr (), st')"
    "book w' = (book w)\<lparr>count := count (book w) + 1, head := ln_hash ?ln, market := st', consumed := consumed (book w) + 1\<rparr>"
    "ledger w' = ledger w @ [Complete ?ln]"
    "ticks w' = ticks w + 1" "uptime w' = uptime w" "notices w' = notices w" "draws w' = draws w"
    using assms(2) catch_up_synced [OF s] ln
    by (auto simp: append_market_def append_def append_entry_def bind_op_Inr seq_op_Inr read_clock_def on_book_Inr op_steps
        apply_book_def on_market_def split: prod.splits)
  show ?thesis
    by (rule that [OF refl]) (use a assms(1) in \<open>simp_all add: synced_def\<close>)
qed

end
