(* ===== verification/Bookings.thy ===== *)
theory Bookings
  imports World
begin

text \<open>
  Booking hours and Weeks of a Fleet (class \<open>Market\<close> of \<open>tools/sparkpipe_market.py\<close>): which
  bookings and maintenance a period meets, the rules for hours and for Weeks, their prices, and
  paying for a booking. A request's fields arrive parsed: \<open>None\<close> is a value the field's parser
  does not accept.
\<close>

section \<open>Fields of a request\<close>

definition hc_field :: "decimal option \<Rightarrow> decimal fallible" where
  "hc_field value =
     (case value of None \<Rightarrow> Inl (Refusal 400 None)
      | Some amount \<Rightarrow> if amount \<le> 0 \<or> 10 ^ 9 \<le> amount \<or> amount \<noteq> hc amount then Inl (Refusal 400 None) else Inr amount)"

definition slot_field :: "slot option \<Rightarrow> moment fallible" where
  "slot_field value = (case value of None \<Rightarrow> Inl (Refusal 400 None) | Some s \<Rightarrow> Inr (slot_time s))"

definition count_field :: "int option \<Rightarrow> int \<Rightarrow> int \<Rightarrow> int fallible" where
  "count_field value most least =
     (case value of None \<Rightarrow> Inl (Refusal 400 None)
      | Some n \<Rightarrow> if n < least \<or> n > most then Inl (Refusal 400 None) else Inr n)"

definition stamp_field :: "stamp option \<Rightarrow> moment fallible" where
  "stamp_field value =
     (case value of None \<Rightarrow> Inl (Refusal 400 (Some ''invalid_request'')) | Some s \<Rightarrow> Inr (stamp_time s))"

text \<open>\<open>str.isprintable\<close> on the characters HOL's strings hold, those of Latin-1.\<close>

definition isprintable :: "string \<Rightarrow> bool" where
  "isprintable t \<longleftrightarrow> (\<forall>c\<in>set t. let n = (of_char c :: nat) in (32 \<le> n \<and> n < 127) \<or> (161 \<le> n \<and> n \<noteq> 173))"

definition short_text :: "string option \<Rightarrow> nat \<Rightarrow> string fallible" where
  "short_text value most =
     (case value of None \<Rightarrow> Inl (Refusal 400 (Some ''invalid_request''))
      | Some t \<Rightarrow> if \<not> (0 < length t \<and> length t \<le> most) \<or> \<not> isprintable t then Inl (Refusal 400 (Some ''invalid_request'')) else Inr t)"

section \<open>What a period meets\<close>

definition on_fleet :: "ident \<Rightarrow> mstate \<Rightarrow> booking list" where
  "on_fleet fleet_id s = filter (\<lambda>b. bk_fleet b = fleet_id) (dvalues (bookings s))"

definition busy :: "ident \<Rightarrow> moment \<Rightarrow> moment \<Rightarrow> mstate \<Rightarrow> booking list" where
  "busy fleet_id start end s = sort_key begins (filter (\<lambda>b. begins b < end \<and> start < ends b) (on_fleet fleet_id s))"

definition maintained :: "ident \<Rightarrow> moment \<Rightarrow> moment \<Rightarrow> mstate \<Rightarrow> maintenance list" where
  "maintained fleet_id start end s =
     filter (\<lambda>m. mt_fleet m = fleet_id \<and> mt_begins m < end \<and> start < mt_ends m) (dvalues (maintenances s))"

definition weeks_of :: "ident \<Rightarrow> ident \<Rightarrow> mstate \<Rightarrow> booking list" where
  "weeks_of account fleet_id s = filter (\<lambda>b. bk_account b = account \<and> bk_kind b = Weeks) (on_fleet fleet_id s)"

definition weeks_left :: "ident \<Rightarrow> ident \<Rightarrow> moment \<Rightarrow> mstate \<Rightarrow> int \<times> moment option" where
  "weeks_left account fleet_id m s =
     (let current = week_start m; mine = filter (\<lambda>b. m < ends b) (weeks_of account fleet_id s)
      in (sum_list (map (\<lambda>b. (ends b - max (begins b) current) div WEEK) mine), max_list (map ends mine)))"

section \<open>Prices\<close>

definition discount :: "rules \<Rightarrow> int \<Rightarrow> decimal" where
  "discount r held = (case max_list (map snd (filter (\<lambda>(weeks, off). weeks \<le> held) (discounts r))) of None \<Rightarrow> 0 | Some off \<Rightarrow> off)"

definition week_price :: "rules \<Rightarrow> fleet \<Rightarrow> int \<Rightarrow> decimal \<Rightarrow> decimal" where
  "week_price r fleet weeks off = hc (weekHC r * fl_rate fleet * of_int weeks * (1 - off))"

function demo_weeks :: "rules \<Rightarrow> booking list \<Rightarrow> moment \<Rightarrow> moment \<Rightarrow> moment \<Rightarrow> unit fallible" where
  "demo_weeks r mine start end week =
     (if week < end
      then (let used = sum_list (map (\<lambda>b. overlap (begins b) (ends b) week (week + WEEK)) mine)
            in if HOUR * demoHoursPerWeek r < used + overlap start end week (week + WEEK)
               then Inl (Refusal 409 (Some ''demo_cap'')) else demo_weeks r mine start end (week + WEEK))
      else Inr ())"
  by auto
termination by (relation "measure (\<lambda>(r, mine, start, end, week). nat (end - week))") auto

declare demo_weeks.simps [simp del]

definition check_demo :: "env \<Rightarrow> mstate \<Rightarrow> ident \<Rightarrow> fleet \<Rightarrow> moment \<Rightarrow> moment \<Rightarrow> moment \<Rightarrow> unit fallible" where
  "check_demo e s account fleet start end m =
     (let r = pr_rules (settings e)
      in if (case gate e demoFrom of None \<Rightarrow> False | Some g \<Rightarrow> start < g) then Inl (Refusal 409 (Some ''not_open''))
         else if m + DAY * demoDaysAhead r < end then Inl (Refusal 409 (Some ''too_far''))
         else demo_weeks r (filter (\<lambda>b. bk_account b = account) (on_fleet (fl_id fleet) s)) start end (week_start start))"

definition hour_price :: "env \<Rightarrow> mstate \<Rightarrow> ident \<Rightarrow> fleet \<Rightarrow> moment \<Rightarrow> moment \<Rightarrow> moment \<Rightarrow> decimal fallible" where
  "hour_price e s account fleet start end m =
     (if \<not> fl_serving fleet then Inl (Refusal 409 (Some ''not_serving''))
      else if start \<le> m then Inl (Refusal 409 (Some ''started''))
      else bind_result
        (if fl_demo fleet then check_demo e s account fleet start end m
         else if week_start m + WEEK < end then Inl (Refusal 409 (Some ''too_far'')) else Inr ())
        (\<lambda>_. let taken = busy (fl_id fleet) start end s
             in if \<exists>b\<in>set taken. bk_kind b = Weeks then Inl (Refusal 409 (Some ''pinned''))
                else if taken \<noteq> [] then Inl (Refusal 409 (Some ''taken''))
                else if maintained (fl_id fleet) start end s \<noteq> [] then Inl (Refusal 409 (Some ''maintenance''))
                else Inr (hc (of_int ((end - start) div HOUR) * hourHC (pr_rules (settings e)) * fl_rate fleet))))"

definition check_first :: "env \<Rightarrow> mstate \<Rightarrow> fleet \<Rightarrow> moment \<Rightarrow> moment \<Rightarrow> unit fallible" where
  "check_first e s fleet first m =
     (if (case gate e weeksFrom of None \<Rightarrow> False | Some g \<Rightarrow> first < g) then Inl (Refusal 409 (Some ''not_open''))
      else let held = filter (\<lambda>b. bk_kind b = Weeks) (busy (fl_id fleet) (first - WEEK) first s)
           in if held \<noteq> [] \<and> m < first - DAY then Inl (Refusal 409 (Some ''pinned''))
              else let week = weekHC (pr_rules (settings e)) * fl_rate fleet
                   in if \<exists>account\<in>set (dkeys (locks s)). week \<le> locked account s then Inl (Refusal 409 (Some ''waitlist''))
                      else Inr ())"

record plan =
  pl_fleet :: ident
  pl_weeks :: int
  pl_first :: slot
  pl_last :: slot
  pl_end :: slot
  pl_count :: int
  pl_discount :: decimal
  pl_price :: decimal
  pl_extends :: bool

definition week_plan :: "env \<Rightarrow> mstate \<Rightarrow> ident \<Rightarrow> fleet \<Rightarrow> int \<Rightarrow> moment \<Rightarrow> plan fallible" where
  "week_plan e s account fleet weeks m =
     (let r = pr_rules (settings e)
      in if fl_demo fleet \<or> \<not> fl_serving fleet then Inl (Refusal 409 (Some ''not_weekly''))
         else let current = week_start m;
                  (held, through) = weeks_left account (fl_id fleet) m s;
                  first = (case through of None \<Rightarrow> current + WEEK | Some t \<Rightarrow> t)
              in bind_result (if through = None then check_first e s fleet first m else Inr ())
                (\<lambda>_. let end = first + WEEK * weeks
                     in if current + WEEK * int (maxWeeksAhead r) < end - WEEK then Inl (Refusal 409 (Some ''too_far''))
                        else if busy (fl_id fleet) first end s \<noteq> [] then Inl (Refusal 409 (Some ''taken''))
                        else let off = discount r (held + weeks)
                             in Inr \<lparr>pl_fleet = fl_id fleet, pl_weeks = weeks, pl_first = slot_text first, pl_last = slot_text (end - WEEK),
                                  pl_end = slot_text end, pl_count = held + weeks, pl_discount = off,
                                  pl_price = text_hc (week_price r fleet weeks off), pl_extends = (through \<noteq> None)\<rparr>))"

section \<open>Paying\<close>

definition DEFAULT_WEEKS_AHEAD :: int where "DEFAULT_WEEKS_AHEAD = 1"

definition default_extend :: "env \<Rightarrow> ident \<Rightarrow> ident \<Rightarrow> moment \<Rightarrow> ('a world_scheme, unit) op" where
  "default_extend e account fleet_id m =
     bind_op (gets (\<lambda>w. dget (extends (st w)) (account, fleet_id))) (\<lambda>found.
       if found = None then append_market e (Auto_extend account fleet_id DEFAULT_WEEKS_AHEAD None (stamp m)) else ret ())"

text \<open>The fields that \<open>pay\<close> takes besides the booking's own.\<close>

record extra =
  xt_hours :: "int option"
  xt_weeks :: "int option"
  xt_discount :: "decimal option"
  xt_auto :: bool

definition pay :: "env \<Rightarrow> ident \<Rightarrow> fleet \<Rightarrow> kind \<Rightarrow> moment \<Rightarrow> moment \<Rightarrow> decimal \<Rightarrow> moment \<Rightarrow> extra \<Rightarrow> ('a world_scheme, ident) op" where
  "pay e account fleet kind start end price m xt =
     bind_op (gets (\<lambda>w. balance account (stamp m) (st w))) (\<lambda>unlocked.
     seq_op (require (price \<le> unlocked) (Refusal 402 (Some ''insufficient_hc'')))
    (bind_op (gets (\<lambda>w. kind = Weeks \<and> snd (weeks_left account (fl_id fleet) m (st w)) = None)) (\<lambda>first.
     bind_op (new_id e ''BK'') (\<lambda>ident.
     seq_op (append_market e (Booking
        \<lparr>bk_id = ident, bk_account = account, bk_fleet = fl_id fleet, bk_kind = kind, bk_start = slot_text start, bk_end = slot_text end,
         bk_hc = text_hc price, bk_rate = text_hc (fl_rate fleet), bk_source = Balance, bk_now = stamp m, bk_hours = xt_hours xt,
         bk_weeks = xt_weeks xt, bk_discount = xt_discount xt, bk_unlocked = None, bk_auto = xt_auto xt\<rparr>))
    (seq_op (if first then default_extend e account (fl_id fleet) m else ret ())
            (ret ident))))))"

definition confirmed :: "env \<Rightarrow> ident \<Rightarrow> moment \<Rightarrow> ('a world_scheme, unit) op" where
  "confirmed e ident m =
     bind_op (gets (\<lambda>w. dget (bookings (st w)) ident)) (\<lambda>found.
       case found of None \<Rightarrow> raise KeyError
       | Some b \<Rightarrow> tell e (bk_account b) ''booking.confirmed'' (Confirmed b) m None False)"

section \<open>Whole hours\<close>

lemma slot_time_text [simp]: "slot_time (slot_text (slot_time x)) = slot_time x"
  by simp

lemma week_start_hours: "slot_time (slot_text (week_start m)) = week_start m"
proof -
  have "week_start m = slot_time ((kst_date m - weekday (kst_date m)) * 24 - 9)"
    by (simp add: week_start_def kst_midnight_def slot_time_def DAY_def KST_def algebra_simps)
  then show ?thesis by simp
qed

lemma slot_text_shift: "slot_text (m + k * HOUR) = slot_text m + k"
  by (simp add: slot_text_def)

lemma slot_time_shift: "slot_time (s + k) = slot_time s + k * HOUR"
  by (simp add: slot_time_def distrib_right)

lemma WEEK_hours: "WEEK = 168 * HOUR"
  by (simp add: WEEK_def DAY_def)

lemma whole_hours_weeks: "slot_time (slot_text m) = m \<Longrightarrow> slot_time (slot_text (m + WEEK * k)) = m + WEEK * k"
  using slot_text_shift [of m "168 * k"] slot_time_shift [of "slot_text m" "168 * k"] by (simp add: WEEK_hours ac_simps)

lemma begins_hours [simp]: "slot_time (slot_text (begins b)) = begins b" "slot_time (slot_text (ends b)) = ends b"
  by (simp_all add: begins_def ends_def)

section \<open>What the checks establish\<close>

lemma set_busy: "set (busy f a z s) = {b \<in> set (on_fleet f s). begins b < z \<and> a < ends b}"
  by (auto simp: busy_def)

lemma busy_Nil: "busy f a z s = [] \<longleftrightarrow> (\<forall>b\<in>set (dvalues (bookings s)). bk_fleet b = f \<longrightarrow> z \<le> begins b \<or> ends b \<le> a)"
proof -
  have "busy f a z s = [] \<longleftrightarrow> set (busy f a z s) = {}" by simp
  then show ?thesis unfolding set_busy on_fleet_def by (auto simp: not_less)
qed

lemma hour_price_Inr:
  assumes "hour_price e s account fleet start end m = Inr price"
  shows "fl_serving fleet" "m < start" "busy (fl_id fleet) start end s = []" "maintained (fl_id fleet) start end s = []"
    "\<not> fl_demo fleet \<Longrightarrow> end \<le> week_start m + WEEK" "fl_demo fleet \<Longrightarrow> check_demo e s account fleet start end m = Inr ()"
    "price = hc (of_int ((end - start) div HOUR) * hourHC (pr_rules (settings e)) * fl_rate fleet)"
  using assms by (auto simp: hour_price_def bind_result_Inr Let_def split: if_splits)

lemma weeks_left_through:
  "snd (weeks_left account f m s) = Some t \<Longrightarrow> \<exists>b\<in>set (dvalues (bookings s)). bk_fleet b = f \<and> t = ends b \<and> m < ends b"
  using max_list_Some by (force simp: weeks_left_def Let_def weeks_of_def on_fleet_def)

definition plan_first :: "ident \<Rightarrow> fleet \<Rightarrow> moment \<Rightarrow> mstate \<Rightarrow> moment" where
  "plan_first account fleet m s =
     (case snd (weeks_left account (fl_id fleet) m s) of None \<Rightarrow> week_start m + WEEK | Some t \<Rightarrow> t)"

lemma plan_first_hours: "slot_time (slot_text (plan_first account fleet m s)) = plan_first account fleet m s"
proof (cases "snd (weeks_left account (fl_id fleet) m s)")
  case None
  then show ?thesis using whole_hours_weeks [OF week_start_hours, of m 1] by (simp add: plan_first_def)
next
  case (Some t)
  then show ?thesis using weeks_left_through [OF Some] by (auto simp: plan_first_def)
qed

lemma week_plan_Inr:
  assumes "week_plan e s account fleet weeks m = Inr p"
  shows "\<not> fl_demo fleet" "fl_serving fleet"
    "slot_time (pl_first p) = plan_first account fleet m s" "slot_time (pl_end p) = plan_first account fleet m s + WEEK * weeks"
    "busy (fl_id fleet) (slot_time (pl_first p)) (slot_time (pl_end p)) s = []"
    "slot_time (pl_end p) - WEEK \<le> week_start m + WEEK * int (maxWeeksAhead (pr_rules (settings e)))"
    "snd (weeks_left account (fl_id fleet) m s) = None \<Longrightarrow> check_first e s fleet (plan_first account fleet m s) m = Inr ()"
    "pl_discount p = discount (pr_rules (settings e)) (fst (weeks_left account (fl_id fleet) m s) + weeks)"
    "pl_price p = week_price (pr_rules (settings e)) fleet weeks (pl_discount p)" "pl_weeks p = weeks" "pl_fleet p = fl_id fleet"
proof -
  obtain c t where ct: "weeks_left account (fl_id fleet) m s = (c, t)" by fastforce
  let ?first = "plan_first account fleet m s"
  have first: "?first = (case t of None \<Rightarrow> week_start m + WEEK | Some t \<Rightarrow> t)" by (simp add: plan_first_def ct)
  note hours = plan_first_hours [of account fleet m s] whole_hours_weeks [OF plan_first_hours, of account fleet m s weeks]
  have *: "\<not> fl_demo fleet \<and> fl_serving fleet \<and> (t = None \<longrightarrow> check_first e s fleet ?first m = Inr ())
     \<and> \<not> week_start m + WEEK * int (maxWeeksAhead (pr_rules (settings e))) < ?first + WEEK * weeks - WEEK
     \<and> busy (fl_id fleet) ?first (?first + WEEK * weeks) s = []
     \<and> p = \<lparr>pl_fleet = fl_id fleet, pl_weeks = weeks, pl_first = slot_text ?first, pl_last = slot_text (?first + WEEK * weeks - WEEK),
           pl_end = slot_text (?first + WEEK * weeks), pl_count = c + weeks, pl_discount = discount (pr_rules (settings e)) (c + weeks),
           pl_price = text_hc (week_price (pr_rules (settings e)) fleet weeks (discount (pr_rules (settings e)) (c + weeks))),
           pl_extends = (t \<noteq> None)\<rparr>"
    using assms unfolding week_plan_def ct first by (auto simp: Let_def bind_result_Inr split: if_splits)
  show "\<not> fl_demo fleet" "fl_serving fleet"
    "slot_time (pl_first p) = plan_first account fleet m s" "slot_time (pl_end p) = plan_first account fleet m s + WEEK * weeks"
    "busy (fl_id fleet) (slot_time (pl_first p)) (slot_time (pl_end p)) s = []"
    "slot_time (pl_end p) - WEEK \<le> week_start m + WEEK * int (maxWeeksAhead (pr_rules (settings e)))"
    "snd (weeks_left account (fl_id fleet) m s) = None \<Longrightarrow> check_first e s fleet (plan_first account fleet m s) m = Inr ()"
    "pl_discount p = discount (pr_rules (settings e)) (fst (weeks_left account (fl_id fleet) m s) + weeks)"
    "pl_price p = week_price (pr_rules (settings e)) fleet weeks (pl_discount p)" "pl_weeks p = weeks" "pl_fleet p = fl_id fleet"
    using * hours by (simp_all add: ct week_price_def)
qed

section \<open>No Fleet is booked twice\<close>

definition clear_of :: "booking \<Rightarrow> booking \<Rightarrow> bool" where
  "clear_of b c \<longleftrightarrow> bk_fleet b \<noteq> bk_fleet c \<or> ends b \<le> begins c \<or> ends c \<le> begins b"

definition no_clash :: "mstate \<Rightarrow> bool" where
  "no_clash s \<longleftrightarrow> sorted_wrt clear_of (dvalues (bookings s))"

lemma clear_of_sym: "clear_of b c = clear_of c b"
  by (auto simp: clear_of_def)

lemma sorted_wrt_dset:
  assumes "\<And>x y. P x y = P y x" "sorted_wrt P (dvalues d)" "\<forall>x\<in>set (dvalues d). P v x"
  shows "sorted_wrt P (dvalues (dset k v d))"
  using assms(2,3)
proof (induction d)
  case (Cons q d)
  show ?case
  proof (cases "fst q = k")
    case False
    have "P (snd q) x" if "x \<in> set (dvalues (dset k v d))" for x
      using dvalues_dset_cases [OF that] Cons.prems assms(1) by auto
    then show ?thesis using Cons False by (cases q) auto
  qed (use Cons in \<open>cases q, auto\<close>)
qed simp

lemma no_clash_dset:
  assumes "no_clash s" "busy (bk_fleet b) (begins b) (ends b) s = []" "bookings s' = dset k b (bookings s)"
  shows "no_clash s'"
  using assms(1) unfolding no_clash_def assms(3)
  by (rule sorted_wrt_dset [OF clear_of_sym]) (use assms(2) in \<open>auto simp: busy_Nil clear_of_def\<close>)

lemma no_clash_fleet:
  assumes "no_clash s" "distinct (dkeys (bookings s))" "dget (bookings s) i = Some b" "dget (bookings s) j = Some c" "i \<noteq> j"
  shows "clear_of b c"
proof -
  obtain x y where x: "x < length (bookings s)" "bookings s ! x = (i, b)" and y: "y < length (bookings s)" "bookings s ! y = (j, c)"
    using dget_in_set [OF assms(3)] dget_in_set [OF assms(4)] by (meson in_set_conv_nth)
  have "x \<noteq> y" using x y assms(5) by auto
  then consider "x < y" | "y < x" by linarith
  then show ?thesis
    using sorted_wrt_nth_less [OF assms(1) [unfolded no_clash_def], of x y]
      sorted_wrt_nth_less [OF assms(1) [unfolded no_clash_def], of y x] x y clear_of_sym
    by cases auto
qed

section \<open>What paying does\<close>

lemma take_hc_frame:
  "bookings (snd (take_hc acc x t s)) = bookings (s :: mstate)" "locks (snd (take_hc acc x t s)) = locks s"
  "maintenances (snd (take_hc acc x t s)) = maintenances s" "extends (snd (take_hc acc x t s)) = extends s"
  by (simp_all add: take_hc_def split: prod.splits)

lemma balance_frame:
  "heap s' = heap s \<Longrightarrow> lots s' = lots s \<Longrightarrow> balance acc t s' = balance acc t s"
  by (simp add: balance_def)

lemma apply_booking:
  assumes "apply_line n (Booking b) s = (Inr (), s')" "bk_source b = Balance"
  shows "s' = snd (take_hc (bk_account b) (bk_hc b) (bk_now b) (s\<lparr>seq := n, bookings := dset (bk_id b) b (bookings s)\<rparr>))"
  using assms by (simp add: apply_line_def on_booking_def op_simps)

lemma apply_auto_extend:
  assumes "apply_line n (Auto_extend acc f weeks reason t) s = (Inr (), s')"
  shows "bookings s' = bookings s" "heap s' = heap s" "lots s' = lots s" "locks s' = locks s" "maintenances s' = maintenances s"
    "credits_ok s' = credits_ok s"
  using assms by (auto simp: apply_line_def on_auto_extend_def op_simps)

lemma default_extend_Inr:
  assumes "synced w" "default_extend e acc f m w = (Inr (), w')"
  shows "synced w'" "bookings (st w') = bookings (st w)" "heap (st w') = heap (st w)" "lots (st w') = lots (st w)"
    "locks (st w') = locks (st w)" "credits_ok (st w') = credits_ok (st w)" "uptime w' = uptime w"
    "dget (extends (st w')) (acc, f) \<noteq> None"
proof -
  have "synced w' \<and> bookings (st w') = bookings (st w) \<and> heap (st w') = heap (st w) \<and> lots (st w') = lots (st w)
     \<and> locks (st w') = locks (st w) \<and> credits_ok (st w') = credits_ok (st w) \<and> uptime w' = uptime w
     \<and> dget (extends (st w')) (acc, f) \<noteq> None"
  proof (cases "dget (extends (st w)) (acc, f)")
    case None
    then have a: "append_market e (Auto_extend acc f DEFAULT_WEEKS_AHEAD None (stamp m)) w = (Inr (), w')"
      using assms(2) by (simp add: default_extend_def op_simps)
    obtain n where n: "apply_line n (Auto_extend acc f DEFAULT_WEEKS_AHEAD None (stamp m)) (st w) = (Inr (), st w')"
      "synced w'" "uptime w' = uptime w"
      by (rule append_market_Inr [OF assms(1) a]) blast
    have "dget (extends (st w')) (acc, f) \<noteq> None"
      using n(1) [symmetric] by (simp add: apply_line_def on_auto_extend_def op_simps DEFAULT_WEEKS_AHEAD_def)
    then show ?thesis using apply_auto_extend [OF n(1)] n by simp
  qed (use assms in \<open>auto simp: default_extend_def op_simps\<close>)
  then show "synced w'" "bookings (st w') = bookings (st w)" "heap (st w') = heap (st w)" "lots (st w') = lots (st w)"
    "locks (st w') = locks (st w)" "credits_ok (st w') = credits_ok (st w)" "uptime w' = uptime w"
    "dget (extends (st w')) (acc, f) \<noteq> None"
    by simp_all
qed

definition paid_booking :: "ident \<Rightarrow> ident \<Rightarrow> fleet \<Rightarrow> kind \<Rightarrow> moment \<Rightarrow> moment \<Rightarrow> decimal \<Rightarrow> moment \<Rightarrow> extra \<Rightarrow> booking" where
  "paid_booking ident account fleet kind start end price m xt =
     \<lparr>bk_id = ident, bk_account = account, bk_fleet = fl_id fleet, bk_kind = kind, bk_start = slot_text start, bk_end = slot_text end,
      bk_hc = text_hc price, bk_rate = text_hc (fl_rate fleet), bk_source = Balance, bk_now = stamp m, bk_hours = xt_hours xt,
      bk_weeks = xt_weeks xt, bk_discount = xt_discount xt, bk_unlocked = None, bk_auto = xt_auto xt\<rparr>"

lemma pay_Inr:
  assumes "synced w" "credits_ok (st w)" "0 \<le> price" "pay e account fleet kind start end price m xt w = (Inr ident, w')"
  defines "b \<equiv> paid_booking ident account fleet kind start end price m xt"
  shows "synced w'" "credits_ok (st w')" "price \<le> balance account (stamp m) (st w)"
    "bookings (st w') = dset ident b (bookings (st w))" "locks (st w') = locks (st w)" "uptime w' = uptime w"
    "balance account (stamp m) (st w') = balance account (stamp m) (st w) - text_hc price"
    "\<And>other t. other \<noteq> account \<Longrightarrow> balance other t (st w') = balance other t (st w)"
proof -
  define w1 where "w1 = w\<lparr>draws := draws w + 1\<rparr>"
  have w1: "st w1 = st w" "ledger w1 = ledger w" "book w1 = book w" "uptime w1 = uptime w" by (simp_all add: w1_def)
  let ?new = "kind = Weeks \<and> snd (weeks_left account (fl_id fleet) m (st w)) = None"
  have price: "price \<le> balance account (stamp m) (st w)"
    using assms(4) by (simp add: pay_def bind_op_Inr seq_op_Inr op_steps split: if_splits)
  obtain w2 where a: "append_market e (Booking b) w1 = (Inr (), w2)"
    and d: "(if ?new then default_extend e account (fl_id fleet) m else ret ()) w2 = (Inr (), w')"
    using assms(4) price
    by (simp only: pay_def bind_op_Inr seq_op_Inr op_steps new_id_def b_def paid_booking_def w1_def if_True prod.inject sum.inject)
       (elim exE conjE, simp)
  have s1: "synced w1" using assms(1) w1 by (simp add: synced_def)
  obtain n where n: "apply_line n (Booking b) (st w1) = (Inr (), st w2)" "synced w2" "uptime w2 = uptime w1"
    by (rule append_market_Inr [OF s1 a]) blast
  have bal: "bk_source b = Balance" "bk_account b = account" "bk_hc b = text_hc price" "bk_now b = stamp m" "bk_id b = ident"
    by (simp_all add: b_def paid_booking_def)
  let ?s = "(st w)\<lparr>seq := n, bookings := dset ident b (bookings (st w))\<rparr>"
  have st2: "st w2 = snd (take_hc account (text_hc price) (stamp m) ?s)"
    using apply_booking [OF n(1) bal(1)] by (simp add: bal w1)
  obtain ts where t: "take_hc account (text_hc price) (stamp m) ?s = (ts, st w2)" using st2 by (metis prod.collapse)
  have ok: "credits_ok ?s" using assms(2) by simp
  have th: "0 \<le> text_hc price" "text_hc price \<le> balance account (stamp m) ?s"
    using assms(3) hc_nonneg hc_le [OF assms(3)] price balance_frame [of ?s "st w"] by (simp_all add: text_hc_def)
  have w': "synced w' \<and> bookings (st w') = bookings (st w2) \<and> heap (st w') = heap (st w2) \<and> lots (st w') = lots (st w2)
     \<and> locks (st w') = locks (st w2) \<and> credits_ok (st w') = credits_ok (st w2) \<and> uptime w' = uptime w2"
    using d n(2) default_extend_Inr [OF n(2)] by (auto simp: op_simps split: if_splits)
  then show "synced w'" by blast
  show "price \<le> balance account (stamp m) (st w)" by (rule price)
  show "credits_ok (st w')" using credits_ok_take [OF ok t] w' by blast
  show "bookings (st w') = dset ident b (bookings (st w))" "locks (st w') = locks (st w)" "uptime w' = uptime w"
    using w' n(3) w1 by (simp_all add: st2 take_hc_frame)
  have s: "balance other t ?s = balance other t (st w)" for other t by (rule balance_frame) simp_all
  show "balance account (stamp m) (st w') = balance account (stamp m) (st w) - text_hc price"
    using take_hc_balance(1) [OF ok t th] w' balance_frame [of "st w'" "st w2"] unfolding s by auto
  show "balance other t (st w') = balance other t (st w)" if "other \<noteq> account" for other t
    using take_hc_other [OF _ t that] ok w' balance_frame [of "st w'" "st w2"] unfolding s by (auto simp: credits_ok_def)
qed

lemma pay_no_clash:
  assumes "synced w" "credits_ok (st w)" "0 \<le> price" "pay e account fleet kind start end price m xt w = (Inr ident, w')"
    "slot_time (slot_text start) = start" "slot_time (slot_text end) = end" "busy (fl_id fleet) start end (st w) = []" "no_clash (st w)"
  shows "no_clash (st w')"
proof (rule no_clash_dset [OF assms(8)])
  let ?b = "paid_booking ident account fleet kind start end price m xt"
  show "bookings (st w') = dset ident ?b (bookings (st w))" by (rule pay_Inr(4) [OF assms(1-4)])
  show "busy (bk_fleet ?b) (begins ?b) (ends ?b) (st w) = []"
    using assms(5-7) by (simp add: paid_booking_def begins_def ends_def)
qed

end
