(* ===== verification/Waitlist.thy ===== *)
theory Waitlist
  imports Bookings
begin

text \<open>
  The waitlist of \<open>tools/sparkpipe_market.py\<close>: the order of the accounts that lock HC, locked HC
  that lapses and what is owed back for it, and the Sunday round that allocates Fleets.
\<close>

section \<open>Places\<close>

definition queue_key :: "mstate \<Rightarrow> ident \<Rightarrow> decimal \<times> nat" where
  "queue_key s account = (- locked account s, case dget (locks s) account of None \<Rightarrow> 0 | Some lk \<Rightarrow> lk_seq lk)"

definition queue_order :: "mstate \<Rightarrow> ident list" where
  "queue_order s = sort_key (queue_key s) (dkeys (locks s))"

definition positions :: "mstate \<Rightarrow> (ident, nat) dict" where
  "positions s = (let order = queue_order s in zip order [1..<length order + 1])"

definition position :: "ident \<Rightarrow> mstate \<Rightarrow> nat option" where
  "position account s = dget (positions s) account"

definition moved :: "env \<Rightarrow> (ident, nat) dict \<Rightarrow> moment \<Rightarrow> ident list \<Rightarrow> ('a world_scheme, unit) op" where
  "moved e before m actors =
     bind_op (gets (\<lambda>w. positions (st w))) (\<lambda>after.
       each (\<lambda>account. if account \<notin> set actors \<and> dget before account \<noteq> dget after account
              then bind_op (gets (\<lambda>w. locked account (st w))) (\<lambda>amount.
                     tell e account ''waitlist.position'' (Position (dget after account) (text_hc amount) (length after)) m None False)
              else ret ())
         (sort (remdups (dkeys before @ dkeys after))))"

section \<open>Locked HC that lapses\<close>

definition locked_parts :: "mstate \<Rightarrow> part list" where
  "locked_parts s = concat (map lk_parts (dvalues (locks s)))"

definition lapse_at :: "mstate \<Rightarrow> moment \<Rightarrow> stamp option" where
  "lapse_at s m = least_of (filter (\<lambda>t. t \<le> stamp m) (map (\<lambda>q. lot_expires (heap s ! fst q)) (locked_parts s)))"

definition refund_due :: "book \<Rightarrow> lot \<Rightarrow> decimal \<Rightarrow> refund_owed option" where
  "refund_due b lot part =
     (case (if lot_source lot = ''purchase'' then dget (orders b) (lot_ref lot) else None) of
        None \<Rightarrow> None
      | Some order \<Rightarrow>
          (let unit = (if od_currency order = Some ''KRW'' then 1 else 1 / 100)
           in Some \<lparr>rd_order = od_order order,
                rd_processor = (case od_processor order of None \<Rightarrow> ''coinpayments'' | Some p \<Rightarrow> p),
                rd_currency = (case od_currency order of None \<Rightarrow> ''USD'' | Some c \<Rightarrow> c),
                rd_amount = quantize_down unit (part * od_total order / od_hc order)\<rparr>))"

definition lapsed_parts :: "lot list \<Rightarrow> stamp \<Rightarrow> part list \<Rightarrow> (ident, part) dict" where
  "lapsed_parts h t parts =
     foldl (\<lambda>d (a, part). if lot_expires (h ! a) \<le> t
         then dset (lot_id (h ! a)) (a, (case dget d (lot_id (h ! a)) of None \<Rightarrow> 0 | Some q \<Rightarrow> snd q) + part) d else d) [] parts"

definition lapse_account :: "env \<Rightarrow> stamp \<Rightarrow> ident \<Rightarrow> ('a world_scheme, nat) op" where
  "lapse_account e t account =
     bind_op (gets (\<lambda>w. (dget (locks (st w)) account, heap (st w)))) (\<lambda>(found, h). case found of None \<Rightarrow> raise KeyError
     | Some lk \<Rightarrow> (let lapsed = dvalues (lapsed_parts h t (lk_parts lk)) in
         seq_op (each (\<lambda>(a, part). bind_op (gets (\<lambda>w. refund_due (book w) (h ! a) part)) (\<lambda>due.
                   append_market e (Lock_lapse account (lot_id (h ! a)) (text_hc part) (lot_ref (h ! a)) due t))) lapsed)
        (bind_op (gets (\<lambda>w. (dget (locks (st w)) account, locked account (st w)))) (\<lambda>(still, amount).
         seq_op (if still \<noteq> None \<and> amount < weekHC (pr_rules (settings e))
                 then append_market e (Unlock account (text_hc amount) ''below'' t) else ret ())
                (ret (length lapsed))))))"

fun lapse_accounts :: "env \<Rightarrow> stamp \<Rightarrow> ident list \<Rightarrow> ('a world_scheme, nat) op" where
  "lapse_accounts e t [] = ret 0"
| "lapse_accounts e t (a # as) =
     bind_op (lapse_account e t a) (\<lambda>n. bind_op (lapse_accounts e t as) (\<lambda>k. ret (n + k)))"

definition lapse :: "env \<Rightarrow> stamp \<Rightarrow> ('a world_scheme, unit) op" where
  "lapse e t =
     bind_op (gets (\<lambda>w. (positions (st w), dkeys (locks (st w))))) (\<lambda>(places, accounts).
     bind_op (lapse_accounts e t accounts) (\<lambda>notes.
     seq_op (moved e places (stamp_time t) [])
            (if 0 < notes then mail e (notify_to e) ''Refund due: locked HC lapsed'' else ret ())))"

section \<open>The Sunday round\<close>

definition round_at :: "mstate \<Rightarrow> moment \<Rightarrow> moment option" where
  "round_at s m =
     (case least_of (map (\<lambda>lk. stamp_time (lk_joined lk)) (dvalues (locks s))) of
        None \<Rightarrow> None
      | Some joined \<Rightarrow>
          (let since = (case round_done s of None \<Rightarrow> joined | Some r \<Rightarrow> max joined (stamp_time r));
               found = sunday_after since
           in if found \<le> m then Some found else None))"

definition affordable :: "rules \<Rightarrow> mstate \<Rightarrow> ident \<Rightarrow> fleet \<Rightarrow> moment \<Rightarrow> (int \<times> decimal \<times> decimal) option" where
  "affordable r s account fleet sunday =
     (let held = fst (weeks_left account (fl_id fleet) sunday s);
          offer = (\<lambda>weeks. (weeks, discount r (held + weeks), week_price r fleet weeks (discount r (held + weeks))))
      in find (\<lambda>(weeks, off, price). price \<le> locked account s) (map (\<lambda>n. offer (int n)) (rev [1..<maxWeeksAhead r + 1])))"

definition grant :: "env \<Rightarrow> ident \<Rightarrow> fleet \<Rightarrow> int \<times> decimal \<times> decimal \<Rightarrow> moment \<Rightarrow> ('a world_scheme, unit) op" where
  "grant e account fleet found sunday =
     (case found of (weeks, off, price) \<Rightarrow>
     (let monday = sunday + DAY in
     bind_op (gets (\<lambda>w. locked account (st w) - price)) (\<lambda>left.
     bind_op (new_id e ''BK'') (\<lambda>ident.
     (let b = \<lparr>bk_id = ident, bk_account = account, bk_fleet = fl_id fleet, bk_kind = Weeks, bk_start = slot_text monday,
               bk_end = slot_text (monday + WEEK * weeks), bk_hc = text_hc price, bk_rate = text_hc (fl_rate fleet), bk_source = Waitlist,
               bk_now = stamp sunday, bk_hours = None, bk_weeks = Some weeks, bk_discount = Some off, bk_unlocked = Some (text_hc left), bk_auto = False\<rparr>
      in seq_op (append_market e (Booking b))
        (seq_op (default_extend e account (fl_id fleet) sunday)
        (seq_op (audit e account ''system'' ''fleet.allocated'' [ident, fl_id fleet] (Some sunday))
                (tell e account ''fleet.allocated'' (Allocated b) sunday None False))))))))"

definition candidate :: "env \<Rightarrow> fleet \<Rightarrow> ident list \<Rightarrow> moment \<Rightarrow> mstate \<Rightarrow> (ident \<times> int \<times> decimal \<times> decimal) option" where
  "candidate e fleet waiting sunday s =
     (let monday = sunday + DAY
      in if fl_demo fleet \<or> \<not> fl_serving fleet \<or> busy (fl_id fleet) monday (monday + WEEK) s \<noteq> [] then None
         else (case find (\<lambda>account. affordable (pr_rules (settings e)) s account fleet sunday \<noteq> None) waiting of
                 None \<Rightarrow> None
               | Some account \<Rightarrow> map_option (Pair account) (affordable (pr_rules (settings e)) s account fleet sunday)))"

fun allocate_fleets :: "env \<Rightarrow> moment \<Rightarrow> fleet list \<Rightarrow> ident list \<Rightarrow> ident list \<Rightarrow> ('a world_scheme, ident list) op" where
  "allocate_fleets e sunday [] waiting granted = ret granted"
| "allocate_fleets e sunday (f # fs) waiting granted =
     bind_op (gets (\<lambda>w. candidate e f waiting sunday (st w))) (\<lambda>c. case c of
         None \<Rightarrow> allocate_fleets e sunday fs waiting granted
       | Some (account, found) \<Rightarrow>
           seq_op (grant e account f found sunday) (allocate_fleets e sunday fs (remove1 account waiting) (account # granted)))"

definition allocate :: "env \<Rightarrow> moment \<Rightarrow> ('a world_scheme, unit) op" where
  "allocate e sunday =
     bind_op (gets (\<lambda>w. (queue_order (st w), positions (st w)))) (\<lambda>(waiting, places).
     bind_op (allocate_fleets e sunday (fleets e) waiting []) (\<lambda>granted.
     seq_op (append_market e (Round (stamp sunday))) (moved e places sunday granted)))"

section \<open>The order of the queue\<close>

lemma set_queue_order: "set (queue_order s) = set (dkeys (locks s))" "distinct (dkeys (locks s)) \<Longrightarrow> distinct (queue_order s)"
  by (simp_all add: queue_order_def)

lemma queue_order_before:
  assumes "i < j" "j < length (queue_order s)"
  shows "queue_key s (queue_order s ! i) \<le> queue_key s (queue_order s ! j)"
  using sorted_nth_mono [OF sorted_sort_key [of "queue_key s" "dkeys (locks s)"], of i j] assms
  by (simp add: queue_order_def)

lemma position_nth:
  assumes "distinct (dkeys (locks s))" "i < length (queue_order s)"
  shows "position (queue_order s ! i) s = Some (i + 1)"
proof -
  let ?q = "queue_order s"
  have d: "distinct ?q" using assms(1) by (simp add: set_queue_order)
  have "(?q ! i, i + 1) \<in> set (zip ?q [1..<length ?q + 1])"
    using assms(2) by (auto simp: in_set_zip simp del: upt_Suc intro!: exI [of _ i])
  moreover have "distinct (dkeys (zip ?q [1..<length ?q + 1]))" using d by simp
  ultimately show ?thesis unfolding position_def positions_def Let_def by (rule dget_Some_mem [rotated])
qed

section \<open>What a lock affords\<close>

lemma find_rev_upt:
  assumes "find (\<lambda>n. P n) (rev [1..<k + 1]) = Some n"
  shows "P n" "1 \<le> n" "n \<le> k" "n < m \<Longrightarrow> m \<le> k \<Longrightarrow> \<not> P m"
proof -
  have "P n \<and> 1 \<le> n \<and> n \<le> k \<and> (\<forall>m. n < m \<longrightarrow> m \<le> k \<longrightarrow> \<not> P m)"
    using assms
  proof (induction k)
    case (Suc k)
    have "rev [1..<Suc k + 1] = Suc k # rev [1..<k + 1]" by simp
    then show ?case using Suc.IH Suc.prems by (cases "P (Suc k)") (auto simp: le_Suc_eq simp del: upt_Suc)
  qed simp
  then show "P n" "1 \<le> n" "n \<le> k" "n < m \<Longrightarrow> m \<le> k \<Longrightarrow> \<not> P m" by auto
qed

lemma find_map: "find P (map f xs) = map_option f (find (P \<circ> f) xs)"
  by (induction xs) auto

definition offer_price :: "rules \<Rightarrow> mstate \<Rightarrow> ident \<Rightarrow> fleet \<Rightarrow> moment \<Rightarrow> int \<Rightarrow> decimal" where
  "offer_price r s account fleet sunday weeks =
     week_price r fleet weeks (discount r (fst (weeks_left account (fl_id fleet) sunday s) + weeks))"

lemma affordable_Some:
  assumes "affordable r s account fleet sunday = Some (weeks, off, price)"
  shows "1 \<le> weeks" "weeks \<le> int (maxWeeksAhead r)" "price = offer_price r s account fleet sunday weeks"
    "off = discount r (fst (weeks_left account (fl_id fleet) sunday s) + weeks)" "price \<le> locked account s"
    "weeks < n \<Longrightarrow> n \<le> int (maxWeeksAhead r) \<Longrightarrow> locked account s < offer_price r s account fleet sunday n"
proof -
  let ?held = "fst (weeks_left account (fl_id fleet) sunday s)"
  obtain k where k: "find (\<lambda>n. offer_price r s account fleet sunday (int n) \<le> locked account s) (rev [1..<maxWeeksAhead r + 1]) = Some k"
    "weeks = int k" "off = discount r (?held + int k)" "price = offer_price r s account fleet sunday (int k)"
    using assms unfolding affordable_def Let_def find_map
    by (auto simp: comp_def offer_price_def simp del: upt_Suc)
  note spec = find_rev_upt [OF k(1)]
  show "1 \<le> weeks" "weeks \<le> int (maxWeeksAhead r)" "price = offer_price r s account fleet sunday weeks"
    "off = discount r (?held + weeks)" "price \<le> locked account s"
    using spec(1-3) k by auto
  show "locked account s < offer_price r s account fleet sunday n" if "weeks < n" "n \<le> int (maxWeeksAhead r)"
    using spec(4) [of "nat n"] that k(2) by (auto simp: not_le)
qed

lemma affordable_None:
  "affordable r s account fleet sunday = None \<longleftrightarrow>
     (\<forall>n\<in>{1..int (maxWeeksAhead r)}. locked account s < offer_price r s account fleet sunday n)"
proof -
  have "affordable r s account fleet sunday = None \<longleftrightarrow>
     (\<forall>k\<in>{1..<maxWeeksAhead r + 1}. locked account s < offer_price r s account fleet sunday (int k))"
    by (auto simp: affordable_def Let_def find_None_iff offer_price_def not_le simp del: upt_Suc)
  also have "\<dots> \<longleftrightarrow> (\<forall>n\<in>{1..int (maxWeeksAhead r)}. locked account s < offer_price r s account fleet sunday n)"
  proof (intro iffI ballI)
    fix n assume "\<forall>k\<in>{1..<maxWeeksAhead r + 1}. locked account s < offer_price r s account fleet sunday (int k)" "n \<in> {1..int (maxWeeksAhead r)}"
    then show "locked account s < offer_price r s account fleet sunday n"
      by (auto dest!: bspec [of _ _ "nat n"])
  qed auto
  finally show ?thesis .
qed

section \<open>Rounds\<close>

lemma round_at_Some:
  assumes "round_at s m = Some sunday"
  shows "sunday \<le> m" "locks s \<noteq> []" "\<And>r. round_done s = Some r \<Longrightarrow> stamp_time r < sunday"
    "\<exists>lk\<in>set (dvalues (locks s)). stamp_time (lk_joined lk) < sunday" "weekday (kst_date sunday) = 6"
proof -
  obtain j since where j: "least_of (map (\<lambda>lk. stamp_time (lk_joined lk)) (dvalues (locks s))) = Some j"
    and since: "since = (case round_done s of None \<Rightarrow> j | Some r \<Rightarrow> max j (stamp_time r))"
    and sun: "sunday = sunday_after since" "sunday \<le> m"
    using assms by (auto simp: round_at_def Let_def split: option.splits if_splits)
  have lt: "since < sunday" using sunday_after_spec(1) by (simp add: sun)
  show "sunday \<le> m" by (rule sun)
  show "locks s \<noteq> []" using j by (auto simp: least_of_def)
  show "stamp_time r < sunday" if "round_done s = Some r" for r using lt that by (simp add: since)
  have "j < sunday" using lt by (auto simp: since split: option.splits)
  then show "\<exists>lk\<in>set (dvalues (locks s)). stamp_time (lk_joined lk) < sunday" using least_of_Some [OF j] by auto
  have ws: "sunday = week_start sunday + 6 * DAY" using sunday_after_spec(3) [of since] by (simp add: sun)
  have "kst_date (week_start sunday + 6 * DAY) = kst_date sunday - weekday (kst_date sunday) + 6"
    by (simp add: week_start_def kst_midnight_def kst_date_def durations)
  then show "weekday (kst_date sunday) = 6" using ws by simp
qed

end
