(* ===== verification/Uptime.thy ===== *)
theory Uptime
  imports World
begin

text \<open>
  The class \<open>Uptime\<close> of \<open>tools/sparkpipe_pay.py\<close>: what the health probes of each Fleet record, a
  small state machine per Fleet (up, or down since a time), and the closed spans of downtime, kept
  in memory and in a file per month.
\<close>

definition UPTIME_GAP_SECONDS :: int where "UPTIME_GAP_SECONDS = 90"
definition UPTIME_MONTHS_SHOWN :: nat where "UPTIME_MONTHS_SHOWN = 4"
definition UPTIME_DAYS_SHOWN :: int where "UPTIME_DAYS_SHOWN = 90"
definition UPTIME_YEARS :: int where "UPTIME_YEARS = 5"

text \<open>The month of a time text, its first seven characters, as a number of months.\<close>

definition month_of :: "stamp \<Rightarrow> int" where
  "month_of t = (case date_of_day (t div 86400 + EPOCH_DAY) of (y, mo, d) \<Rightarrow> y * 12 + mo - 1)"

definition closed_span :: "span_data \<Rightarrow> moment \<Rightarrow> outage_span" where
  "closed_span sp m = span_data.extend sp \<lparr>sp_end = Some (stamp m)\<rparr>"

definition close_span :: "span_data \<Rightarrow> moment \<Rightarrow> uptime_store \<Rightarrow> uptime_store" where
  "close_span sp m u =
     (let s = closed_span sp m; k = month_of (stamp m)
      in u\<lparr>up_recent := up_recent u @ [s],
           up_months := dset k ((case dget (up_months u) k of None \<Rightarrow> [] | Some xs \<Rightarrow> xs) @ [s]) (up_months u)\<rparr>)"

definition uptime_open :: "(int, outage_span list) dict \<Rightarrow> (ident, up_entry) dict \<Rightarrow> uptime_store" where
  "uptime_open files states =
     \<lparr>up_state = states,
      up_recent = concat (map (\<lambda>k. case dget files k of None \<Rightarrow> [] | Some xs \<Rightarrow> xs) (last_of UPTIME_MONTHS_SHOWN (sort (dkeys files)))),
      up_months = files\<rparr>"

definition blank_entry :: "moment \<Rightarrow> up_entry" where
  "blank_entry m = \<lparr>up_good = None, up_open = None, up_first = stamp m, up_detail = [], up_seen = stamp m\<rparr>"

definition gap_since :: "env \<Rightarrow> bool \<Rightarrow> up_entry \<Rightarrow> moment \<Rightarrow> bool" where
  "gap_since e watch entry m =
     (case up_good entry of None \<Rightarrow> False
      | Some good \<Rightarrow> watch \<and> max UPTIME_GAP_SECONDS (3 * health_seconds e) * SECOND < m - stamp_time good)"

definition on_uptime :: "(uptime_store \<Rightarrow> uptime_store) \<Rightarrow> ('a world_scheme, unit) op" where
  "on_uptime f = modify (\<lambda>w. w\<lparr>uptime := f (uptime w)\<rparr>)"

definition observe :: "env \<Rightarrow> ident \<Rightarrow> bool \<Rightarrow> moment \<Rightarrow> string \<Rightarrow> bool \<Rightarrow> ('a world_scheme, unit) op" where
  "observe e fleet up m detail watch =
     bind_op (gets (\<lambda>w. case dget (up_state (uptime w)) fleet of None \<Rightarrow> blank_entry m | Some entry \<Rightarrow> entry)) (\<lambda>entry.
     (let gap = gap_since e watch entry m in
      bind_op
        (if up then
           seq_op (case up_open entry of
                     Some sp \<Rightarrow> on_uptime (close_span sp m)
                   | None \<Rightarrow> if gap then bind_op (new_id e ''DT'') (\<lambda>ident.
                         on_uptime (close_span \<lparr>sp_span = ident, sp_fleet = fleet,
                            sp_start = (case up_good entry of None \<Rightarrow> 0 | Some good \<Rightarrow> good), sp_cause = ''gateway''\<rparr> m)) else ret ())
                  (ret (entry\<lparr>up_good := Some (stamp m), up_open := None\<rparr>))
         else (case up_open entry of
                 Some sp \<Rightarrow> ret entry
               | None \<Rightarrow> bind_op (new_id e ''DT'') (\<lambda>ident. ret (entry\<lparr>up_open := Some \<lparr>sp_span = ident, sp_fleet = fleet,
                   sp_start = (case up_good entry of Some good \<Rightarrow> if watch then good else stamp m | None \<Rightarrow> stamp m),
                   sp_cause = (if gap then ''gateway'' else if \<not> watch then ''sandbox'' else ''probe'')\<rparr>\<rparr>))))
        (\<lambda>entry'. on_uptime (\<lambda>u. u\<lparr>up_state := dset fleet (entry'\<lparr>up_detail := take 200 detail, up_seen := stamp m\<rparr>) (up_state u)\<rparr>))))"

definition spans :: "moment \<Rightarrow> uptime_store \<Rightarrow> outage_span list" where
  "spans since u =
     filter (\<lambda>s. case sp_end s of None \<Rightarrow> False | Some t \<Rightarrow> stamp since \<le> t) (up_recent u)
     @ map (\<lambda>sp. span_data.extend sp \<lparr>sp_end = None\<rparr>) (List.map_filter up_open (dvalues (up_state u)))"

definition entry_of :: "ident \<Rightarrow> uptime_store \<Rightarrow> up_entry option" where
  "entry_of fleet u = dget (up_state u) fleet"

definition uptime_clear :: "uptime_store \<Rightarrow> uptime_store" where
  "uptime_clear u = u\<lparr>up_months := [], up_recent := [], up_state := rec_keep (\<lambda>_. False) (up_state u)\<rparr>"

definition uptime_prune :: "moment \<Rightarrow> uptime_store \<Rightarrow> uptime_store" where
  "uptime_prune m u =
     (let cutoff = month_of (stamp (months_later m (- 12 * UPTIME_YEARS))); shown = stamp (m - DAY * (UPTIME_DAYS_SHOWN + 1))
      in u\<lparr>up_months := filter (\<lambda>(k, xs). \<not> k < cutoff) (up_months u),
           up_recent := filter (\<lambda>s. case sp_end s of None \<Rightarrow> False | Some t \<Rightarrow> shown \<le> t) (up_recent u)\<rparr>)"

text \<open>\<open>Market.fleet_down\<close> and \<open>Market.fleet_up\<close>.\<close>

definition fleet_down :: "ident \<Rightarrow> uptime_store \<Rightarrow> bool" where
  "fleet_down fleet_id u = (case entry_of fleet_id u of None \<Rightarrow> False | Some entry \<Rightarrow> up_open entry \<noteq> None)"

definition fleet_up :: "env \<Rightarrow> ident \<Rightarrow> uptime_store \<Rightarrow> bool" where
  "fleet_up e fleet_id u =
     (if sandbox e then \<not> (case entry_of fleet_id u of None \<Rightarrow> False | Some entry \<Rightarrow> up_open entry \<noteq> None)
      else (case entry_of fleet_id u of None \<Rightarrow> False | Some entry \<Rightarrow> up_open entry = None))"

text \<open>One round of probes: \<open>hub\<close> is the upstream of a Fleet and \<open>probe\<close> what asking it found.\<close>

fun probe_fleets :: "env \<Rightarrow> (ident \<Rightarrow> string option) \<Rightarrow> (string \<Rightarrow> bool \<times> string) \<Rightarrow> fleet list \<Rightarrow> ('a world_scheme, unit) op" where
  "probe_fleets e hub probe [] = ret ()"
| "probe_fleets e hub probe (f # fs) =
     seq_op (case hub (fl_id f) of None \<Rightarrow> ret ()
             | Some h \<Rightarrow> if fl_serving f then bind_op (now e) (\<lambda>m. observe e (fl_id f) (fst (probe h)) m (snd (probe h)) True) else ret ())
            (probe_fleets e hub probe fs)"

definition probe_all :: "env \<Rightarrow> (ident \<Rightarrow> string option) \<Rightarrow> (string \<Rightarrow> bool \<times> string) \<Rightarrow> ('a world_scheme, unit) op" where
  "probe_all e hub probe = probe_fleets e hub probe (fleets e)"

section \<open>What observing does\<close>

lemma quiet_on_uptime [keeps_intros]: "quiet (on_uptime f)"
  unfolding on_uptime_def by (rule quiet_modify) simp

lemma quiet_observe [keeps_intros]: "quiet (observe e fleet up m detail watch)"
  unfolding observe_def Let_def by (intro keeps_intros)

definition seen_entry :: "ident \<Rightarrow> moment \<Rightarrow> 'a world_scheme \<Rightarrow> up_entry" where
  "seen_entry fleet m w = (case dget (up_state (uptime w)) fleet of None \<Rightarrow> blank_entry m | Some entry \<Rightarrow> entry)"

lemma observe_total: "\<exists>w'. observe e fleet up m detail watch w = (Inr (), w')"
  by (auto simp: observe_def op_simps on_uptime_def new_id_def Let_def split: option.splits)

lemma observe_up:
  assumes "observe e fleet True m detail watch w = (Inr (), w')"
  shows "\<not> fleet_down fleet (uptime w')"
    "\<exists>entry. dget (up_state (uptime w')) fleet = Some entry \<and> up_good entry = Some (stamp m) \<and> up_first entry = up_first (seen_entry fleet m w)"
    "up_recent (uptime w') = up_recent (uptime w) @
       (case up_open (seen_entry fleet m w) of Some sp \<Rightarrow> [closed_span sp m]
        | None \<Rightarrow> if gap_since e watch (seen_entry fleet m w) m
            then [closed_span \<lparr>sp_span = ''DT'' @ token e (draws w), sp_fleet = fleet,
                    sp_start = the (up_good (seen_entry fleet m w)), sp_cause = ''gateway''\<rparr> m] else [])"
    "other \<noteq> fleet \<Longrightarrow> dget (up_state (uptime w')) other = dget (up_state (uptime w)) other"
  using assms
  by (auto simp: observe_def seen_entry_def op_simps on_uptime_def new_id_def Let_def fleet_down_def entry_of_def close_span_def
      gap_since_def split: option.splits if_splits)

lemma observe_down:
  assumes "observe e fleet False m detail watch w = (Inr (), w')"
  shows "fleet_down fleet (uptime w')" "up_recent (uptime w') = up_recent (uptime w)"
    "\<exists>entry sp. dget (up_state (uptime w')) fleet = Some entry \<and> up_open entry = Some sp \<and> up_good entry = up_good (seen_entry fleet m w)
       \<and> (case up_open (seen_entry fleet m w) of Some old \<Rightarrow> sp = old
          | None \<Rightarrow> sp_start sp = (case up_good (seen_entry fleet m w) of Some good \<Rightarrow> if watch then good else stamp m | None \<Rightarrow> stamp m))"
    "other \<noteq> fleet \<Longrightarrow> dget (up_state (uptime w')) other = dget (up_state (uptime w)) other"
  using assms
  by (auto simp: observe_def seen_entry_def op_simps on_uptime_def new_id_def Let_def fleet_down_def entry_of_def
      split: option.splits if_splits)

end
