(* ===== verification/Outages.thy ===== *)
theory Outages
  imports Bookings Uptime
begin

text \<open>
  What \<open>tools/sparkpipe_market.py\<close> does when a Fleet is closed or down: maintenance windows and
  the HC credited for them, outages found in the uptime records and the HC credited for the hours
  they touch, and serving a holder on another Fleet meanwhile (failover).
\<close>

section \<open>Issuing HC\<close>

definition lot_entry :: "env \<Rightarrow> ident \<Rightarrow> ident \<Rightarrow> decimal \<Rightarrow> string \<Rightarrow> ident \<Rightarrow> moment \<Rightarrow> string option \<Rightarrow> (ident \<times> slot list) option \<Rightarrow> lot_data" where
  "lot_entry e ident account credits source ref m note xt =
     \<lparr>ld_lot = ident, ld_account = account, ld_hc = text_hc credits, ld_expires = stamp (months_later m (validityMonths (settings e))),
      ld_source = source, ld_ref = ref, ld_now = stamp m, ld_fleet = map_option fst xt,
      ld_hours = (case xt of None \<Rightarrow> [] | Some (f, hours) \<Rightarrow> hours), ld_note = note\<rparr>"

definition market_lot :: "env \<Rightarrow> ident \<Rightarrow> decimal \<Rightarrow> string \<Rightarrow> ident \<Rightarrow> moment \<Rightarrow> string option \<Rightarrow> (ident \<times> slot list) option \<Rightarrow> ('a world_scheme, lot_data) op" where
  "market_lot e account credits source ref m note xt =
     bind_op (new_id e ''LT'') (\<lambda>ident.
       (let d = lot_entry e ident account credits source ref m note xt in seq_op (append_market e (Hc_lot d)) (ret d)))"

section \<open>Maintenance\<close>

definition maintenance_at :: "mstate \<Rightarrow> moment \<Rightarrow> (moment \<times> ident) option" where
  "maintenance_at s m = least_of (map (\<lambda>x. (mt_ends x, mt_id x)) (filter (\<lambda>x. \<not> mt_done x \<and> mt_ends x \<le> m) (dvalues (maintenances s))))"

definition owed_add :: "ident \<Rightarrow> decimal \<Rightarrow> (ident, decimal) dict \<Rightarrow> (ident, decimal) dict" where
  "owed_add account x d = dset account ((case dget d account of None \<Rightarrow> 0 | Some y \<Rightarrow> y) + x) d"

definition maintenance_owed :: "maintenance \<Rightarrow> mstate \<Rightarrow> (ident, decimal) dict" where
  "maintenance_owed found s =
     sort_key fst (foldl (\<lambda>d b. owed_add (bk_account b) (bk_rate b * of_int (overlap (begins b) (ends b) (mt_begins found) (mt_ends found) div HOUR)) d) []
       (busy (mt_fleet found) (mt_begins found) (mt_ends found) s))"

definition credit_maintenance :: "env \<Rightarrow> ident \<Rightarrow> ('a world_scheme, unit) op" where
  "credit_maintenance e ident =
     bind_op (gets (\<lambda>w. dget (maintenances (st w)) ident)) (\<lambda>v. case v of None \<Rightarrow> raise KeyError
     | Some found \<Rightarrow>
         bind_op (gets (\<lambda>w. maintenance_owed found (st w))) (\<lambda>owed.
         seq_op (each (\<lambda>(account, credits). bind_op (market_lot e account credits ''maintenance'' ident (mt_ends found) None None) (\<lambda>_. ret ())) owed)
        (seq_op (append_market e (Maintenance_done ident (map (\<lambda>(account, credits). (account, text_hc credits)) owed)))
                (each (\<lambda>(account, credits). tell e account ''downtime.credited''
                    (Maintenance_credit ident (mt_fleet found) (mt_start found) (mt_hours found) (text_hc credits)) (mt_ends found) None False) owed))))"

section \<open>Outages\<close>

definition OUTAGE :: duration where "OUTAGE = 15 * 60 * SECOND"
definition OUTAGE_PASS :: duration where "OUTAGE_PASS = DAY"

type_synonym outage = "moment \<times> ident \<times> outage_span \<times> moment option"

definition outage_of :: "mstate \<Rightarrow> moment \<Rightarrow> outage_span \<Rightarrow> outage option" where
  "outage_of s m sp =
     (let begins = stamp_time (sp_start sp);
          ends = (case sp_end sp of None \<Rightarrow> None | Some t \<Rightarrow> if stamp_time t \<le> m then Some (stamp_time t) else None)
      in if (case ends of None \<Rightarrow> m | Some t \<Rightarrow> t) - begins \<le> OUTAGE then None
         else let at' = (case dget (downtimes s) (sp_span sp) of
                   None \<Rightarrow> Some (case ends of Some t \<Rightarrow> t | None \<Rightarrow> begins + OUTAGE + SECOND)
                 | Some done \<Rightarrow>
                     (case ends of
                        Some t \<Rightarrow> if dt_end done = None then Some t else None
                      | None \<Rightarrow> if stamp_time (dt_now done) + OUTAGE_PASS \<le> m then Some (stamp_time (dt_now done) + OUTAGE_PASS) else None))
              in case at' of None \<Rightarrow> None | Some t \<Rightarrow> if t \<le> m then Some (t, sp_span sp, sp, ends) else None)"

definition outage_at :: "'a world_scheme \<Rightarrow> moment \<Rightarrow> outage option" where
  "outage_at w m = min_by (\<lambda>x. (fst x, fst (snd x))) (List.map_filter (outage_of (st w) m) (spans (m - 30 * DAY) (uptime w)))"

function hour_marks :: "moment \<Rightarrow> moment \<Rightarrow> moment list" where
  "hour_marks m through = (if m < through then m # hour_marks (m + HOUR) through else [])"
  by auto
termination by (relation "measure (\<lambda>(m, through). nat (through - m))") auto

declare hour_marks.simps [simp del]

type_synonym owed_hours = "(ident, decimal \<times> slot list) dict"

definition owe_hour :: "moment \<Rightarrow> owed_hours \<Rightarrow> booking \<Rightarrow> owed_hours" where
  "owe_hour m d b =
     (let (x, hours) = (case dget d (bk_account b) of None \<Rightarrow> (0, []) | Some v \<Rightarrow> v)
      in dset (bk_account b) (x + bk_rate b, hours @ [slot_text m]) d)"

definition outage_owed :: "mstate \<Rightarrow> ident \<Rightarrow> moment \<Rightarrow> moment \<Rightarrow> owed_hours" where
  "outage_owed s fleet_id first through =
     foldl (\<lambda>d m. if (fleet_id, slot_text m) \<notin> set (downtime_hours s) \<and> maintained fleet_id m (m + HOUR) s = []
              then foldl (owe_hour m) d (busy fleet_id m (m + HOUR) s) else d) [] (hour_marks first through)"

definition outage_through :: "moment \<Rightarrow> moment option \<Rightarrow> moment" where
  "outage_through m over = (case over of Some t \<Rightarrow> slot_ceil t | None \<Rightarrow> slot_floor m + HOUR)"

definition credit_outage :: "env \<Rightarrow> outage_span \<Rightarrow> moment \<Rightarrow> moment option \<Rightarrow> ('a world_scheme, unit) op" where
  "credit_outage e sp m over =
     (let fleet_id = sp_fleet sp; begins = stamp_time (sp_start sp); through = outage_through m over in
     bind_op (gets (\<lambda>w. dget (downtimes (st w)) (sp_span sp) = None)) (\<lambda>first.
     bind_op (gets (\<lambda>w. sort_key fst (outage_owed (st w) fleet_id (slot_floor begins) through))) (\<lambda>owed.
     bind_op (map_op (\<lambda>(account, credits, hours). market_lot e account credits ''downtime'' (sp_span sp) m None (Some (fleet_id, hours))) owed) (\<lambda>lots.
     seq_op (each (\<lambda>d. tell e (ld_account d) ''downtime.credited''
               (Downtime_credit (sp_span sp) fleet_id (sp_start sp) (map_option stamp over) (ld_hours d) (ld_hc d) (ld_lot d)) m
               (Some (Downtime_once (sp_span sp) (ld_account d) (slot_text through))) False) lots)
    (seq_op (append_market e (Downtime \<lparr>dt_id = sp_span sp, dt_fleet = fleet_id, dt_start = sp_start sp, dt_end = map_option stamp over,
               dt_cause = sp_cause sp, dt_through = slot_text through, dt_credited = map (\<lambda>d. (ld_account d, ld_hc d)) lots, dt_now = stamp m\<rparr>))
            (if first \<or> over \<noteq> None then mail e (notify_to e) (if over = None then ''Fleet down'' else ''Fleet back'') else ret ()))))))"

section \<open>Failover\<close>

definition GRACE_SECONDS :: int where "GRACE_SECONDS = 30"

definition active_failovers :: "mstate \<Rightarrow> failover list" where
  "active_failovers s = filter (\<lambda>f. fo_ends f = None) (dvalues (failovers s))"

definition free_now :: "ident \<Rightarrow> moment \<Rightarrow> mstate \<Rightarrow> bool" where
  "free_now fleet_id m s \<longleftrightarrow> busy fleet_id m (m + SECOND) s = [] \<and> maintained fleet_id m (m + SECOND) s = []"

definition failover_left :: "ident \<Rightarrow> moment \<Rightarrow> mstate \<Rightarrow> duration" where
  "failover_left target m s =
     (case least_of (filter (\<lambda>t. m < t) (map begins (on_fleet target s))
            @ filter (\<lambda>t. m < t) (map mt_begins (filter (\<lambda>x. mt_fleet x = target) (dvalues (maintenances s))))) of
        None \<Rightarrow> 7 * DAY
      | Some t \<Rightarrow> t - m + GRACE_SECONDS * SECOND)"

text \<open>
  The end of a run of bookings without a gap: each turn of the loop moves to the latest end of a
  booking that covers the point reached.
\<close>

definition covering :: "booking list \<Rightarrow> moment \<Rightarrow> booking list" where
  "covering mine m = filter (\<lambda>b. begins b \<le> m \<and> m < ends b) mine"

function hold_run :: "booking list \<Rightarrow> moment \<Rightarrow> moment" where
  "hold_run mine m = (case max_list (map ends (covering mine m)) of None \<Rightarrow> m | Some t \<Rightarrow> hold_run mine t)"
  by auto
termination
proof (relation "measure (\<lambda>(mine, m). card {t \<in> ends ` set mine. m < t})")
  fix mine m t assume "max_list (map ends (covering mine m)) = Some t"
  then have t: "t \<in> ends ` set mine" "m < t" using max_list_Some by (force simp: covering_def)+
  then have "{u \<in> ends ` set mine. t < u} \<subset> {u \<in> ends ` set mine. m < u}" by (auto simp: psubset_eq set_eq_iff)
  then have "card {u \<in> ends ` set mine. t < u} < card {u \<in> ends ` set mine. m < u}" by (rule psubset_card_mono [rotated]) simp
  then show "((mine, t), mine, m) \<in> measure (\<lambda>(mine, m). card {t \<in> ends ` set mine. m < t})" by simp
qed simp

declare hold_run.simps [simp del]

definition hold_end :: "ident \<Rightarrow> ident \<Rightarrow> moment \<Rightarrow> mstate \<Rightarrow> moment" where
  "hold_end account fleet_id m s = hold_run (filter (\<lambda>b. bk_account b = account) (on_fleet fleet_id s)) m"

definition failover_over :: "env \<Rightarrow> 'a world_scheme \<Rightarrow> moment \<Rightarrow> failover \<Rightarrow> (moment \<times> ident \<times> string) option" where
  "failover_over e w m f =
     (let s = st w;
          later = map begins (filter (\<lambda>b. fo_begins f < ends b \<and> begins b \<le> m) (on_fleet (fo_to f) s))
            @ map mt_begins (filter (\<lambda>x. mt_fleet x = fo_to f \<and> fo_begins f < mt_ends x \<and> mt_begins x \<le> m) (dvalues (maintenances s)));
          held = hold_end (fo_account f) (fo_from f) (fo_begins f) s
      in if \<not> fleet_down (fo_from f) (uptime w) then Some (m, fo_id f, ''recovered'')
         else (case least_of later of
                 Some t \<Rightarrow> Some (max t (fo_begins f), fo_id f, ''taken'')
               | None \<Rightarrow> if held \<le> m then Some (max held (fo_begins f), fo_id f, ''hold_ended'')
                         else if \<not> fleet_up e (fo_to f) (uptime w) then Some (m, fo_id f, ''down'') else None))"

definition failover_end_at :: "env \<Rightarrow> 'a world_scheme \<Rightarrow> moment \<Rightarrow> (moment \<times> ident \<times> string) option" where
  "failover_end_at e w m = least_of (List.map_filter (failover_over e w m) (active_failovers (st w)))"

definition end_failover :: "env \<Rightarrow> moment \<times> ident \<times> string \<Rightarrow> ('a world_scheme, unit) op" where
  "end_failover e x =
     (case x of (m, ident, reason) \<Rightarrow>
     bind_op (gets (\<lambda>w. dget (failovers (st w)) ident)) (\<lambda>v. case v of None \<Rightarrow> raise KeyError
     | Some f \<Rightarrow> seq_op (append_market e (Failover_end ident (stamp m) reason))
         (tell e (fo_account f) ''fleet.failover'' (Failover_ended ident (fo_from f) (fo_to f) (fo_start f) (stamp m) reason) m None False)))"

end
