(* ===== verification/Advance.thy ===== *)
theory Advance
  imports Waitlist Outages
begin

text \<open>
  The event loop of \<open>tools/sparkpipe_market.py\<close>: auto-extend, the notices before a booking
  deadline, and \<open>advance\<close>, which runs every event that is due, earliest first, before an operation
  looks at the state. The actions an event carries, closures in the source, are values here. The
  loop is bounded by \<open>fuel\<close>; running out of it is the result \<open>Exhausted\<close>.
\<close>

section \<open>Auto-extend\<close>

definition through_of :: "ident \<Rightarrow> ident \<Rightarrow> mstate \<Rightarrow> moment option" where
  "through_of account fleet_id s = max_list (map ends (weeks_of account fleet_id s))"

definition waiting_for :: "extension \<Rightarrow> moment \<Rightarrow> string option" where
  "waiting_for setting through = (if ex_through setting = Some (slot_text through) then ex_waiting setting else None)"

definition extend_waiting :: "ident \<Rightarrow> ident \<Rightarrow> mstate \<Rightarrow> string option" where
  "extend_waiting account fleet_id s =
     (case dget (extends s) (account, fleet_id) of None \<Rightarrow> None
      | Some setting \<Rightarrow> (case through_of account fleet_id s of None \<Rightarrow> None | Some through \<Rightarrow> waiting_for setting through))"

datatype ext_action = Stop_extend string moment | Do_extend plan moment "string option"

definition extend_step :: "env \<Rightarrow> 'a world_scheme \<Rightarrow> moment \<Rightarrow> ident \<Rightarrow> ident \<Rightarrow> extension \<Rightarrow> (moment \<times> ext_action) option fallible" where
  "extend_step e w m account fleet_id setting =
     (let s = st w in
      case through_of account fleet_id s of
        None \<Rightarrow> Inr (Some (m, Stop_extend ''not_pinned'' m))
      | Some through \<Rightarrow>
          if through \<le> stamp_time (ex_now setting) then Inr (Some (m, Stop_extend ''not_pinned'' m))
          else let due = max (through - WEEK * ex_weeks setting) (stamp_time (ex_now setting)) in
          if m < due then Inr None
          else let waiting = waiting_for setting through in
          (case (if through \<le> m then waiting else None) of
             Some reason \<Rightarrow> Inr (Some (through, Stop_extend reason through))
           | None \<Rightarrow>
               let t = (if waiting \<noteq> None then m else due) in
               bind_result (fleet_field e fleet_id) (\<lambda>fleet.
                 let weeks = max 1 ((week_start t + WEEK * (1 + ex_weeks setting) - through) div WEEK) in
                 case week_plan e s account fleet weeks t of
                   Inl (Refusal status reason) \<Rightarrow>
                     Inr (Some (t, Stop_extend (case reason of None \<Rightarrow> ''refused'' | Some r \<Rightarrow> r) t))
                 | Inl ex \<Rightarrow> Inl ex
                 | Inr plan \<Rightarrow>
                     let blocked = (if \<not> terms_current e account w then Some ''terms''
                                    else if balance account (stamp t) s < pl_price plan then Some ''insufficient_hc'' else None)
                     in if blocked \<noteq> None \<and> blocked = waiting then Inr None
                        else Inr (Some (t, Do_extend plan t blocked)))))"

fun extend_steps :: "env \<Rightarrow> 'a world_scheme \<Rightarrow> moment \<Rightarrow> ((ident \<times> ident) \<times> extension) list \<Rightarrow> (moment \<times> ident \<times> ident \<times> ext_action) list fallible" where
  "extend_steps e w m [] = Inr []"
| "extend_steps e w m (((account, fleet_id), setting) # rest) =
     bind_result (extend_step e w m account fleet_id setting) (\<lambda>step.
     bind_result (extend_steps e w m rest) (\<lambda>found.
       Inr (case step of None \<Rightarrow> found | Some (t, action) \<Rightarrow> (t, account, fleet_id, action) # found)))"

definition extend_at :: "env \<Rightarrow> 'a world_scheme \<Rightarrow> moment \<Rightarrow> (moment \<times> ident \<times> ident \<times> ext_action) option fallible" where
  "extend_at e w m =
     bind_result (extend_steps e w m (sort_key fst (extends (st w)))) (\<lambda>found.
       Inr (min_by (\<lambda>(t, account, fleet_id, action). (t, account, fleet_id)) found))"

definition extend :: "env \<Rightarrow> ident \<Rightarrow> fleet \<Rightarrow> plan \<Rightarrow> moment \<Rightarrow> string option \<Rightarrow> ('a world_scheme, unit) op" where
  "extend e account fleet plan m blocked =
     (case blocked of
        Some reason \<Rightarrow>
          seq_op (append_market e (Auto_extend_wait account (fl_id fleet) (pl_first plan) reason (stamp m)))
         (bind_op (gets (\<lambda>w. balance account (stamp m) (st w))) (\<lambda>unlocked.
            tell e account ''booking.deadline''
              (Extend_waits (fl_id fleet) (pl_first plan) reason (pl_weeks plan) (pl_price plan) (text_hc unlocked)
                (if reason = ''terms'' then None else Some (text_hc (pl_price plan - unlocked)))) m None False))
      | None \<Rightarrow>
          bind_op (pay e account fleet Weeks (slot_time (pl_first plan)) (slot_time (pl_end plan)) (pl_price plan) m
                     \<lparr>xt_hours = None, xt_weeks = Some (pl_weeks plan), xt_discount = Some (pl_discount plan), xt_auto = True\<rparr>) (\<lambda>ident.
          seq_op (confirmed e ident m) (audit e account ''system'' ''booking.auto'' [ident, fl_id fleet] (Some m))))"

definition stop_extend :: "env \<Rightarrow> ident \<Rightarrow> ident \<Rightarrow> string \<Rightarrow> moment \<Rightarrow> ('a world_scheme, unit) op" where
  "stop_extend e account fleet_id reason m =
     bind_op (gets (\<lambda>w. through_of account fleet_id (st w))) (\<lambda>through.
     seq_op (append_market e (Auto_extend account fleet_id 0 (Some reason) (stamp m)))
            (tell e account ''booking.deadline'' (Extend_stopped fleet_id reason (map_option slot_text through)) m None True))"

definition run_extension :: "env \<Rightarrow> ident \<Rightarrow> ident \<Rightarrow> ext_action \<Rightarrow> ('a world_scheme, unit) op" where
  "run_extension e account fleet_id action =
     (case action of
        Stop_extend reason m \<Rightarrow> stop_extend e account fleet_id reason m
      | Do_extend plan m blocked \<Rightarrow> bind_op (lift (fleet_field e fleet_id)) (\<lambda>fleet. extend e account fleet plan m blocked))"

section \<open>Deadlines\<close>

definition DEADLINE_HOURS :: "int list" where "DEADLINE_HOURS = [72, 48, 6, 2]"

definition pins :: "mstate \<Rightarrow> moment \<Rightarrow> (ident \<times> ident, moment) dict" where
  "pins s m =
     foldl (\<lambda>d b. let key = (bk_account b, bk_fleet b)
                  in dset key (max (case dget d key of None \<Rightarrow> ends b | Some t \<Rightarrow> t) (ends b)) d) []
       (filter (\<lambda>b. bk_kind b = Weeks \<and> m < ends b) (dvalues (bookings s)))"

type_synonym deadline = "moment \<times> ident \<times> ident \<times> moment \<times> int \<times> once"

definition deadline_mark :: "moment \<Rightarrow> moment \<Rightarrow> int option" where
  "deadline_mark m through =
     (let deadline = through - DAY in least_of (filter (\<lambda>hours. deadline - HOUR * hours \<le> m \<and> m < deadline) DEADLINE_HOURS))"

fun deadlines :: "moment \<Rightarrow> ((ident \<times> ident) \<times> moment) list \<Rightarrow> ('a world_scheme, deadline list) op" where
  "deadlines m [] = ret []"
| "deadlines m (((account, fleet_id), through) # rest) =
     (case deadline_mark m through of
        None \<Rightarrow> deadlines m rest
      | Some hours \<Rightarrow>
          (let deadline = through - DAY; once = Deadline_once account fleet_id (slot_text deadline) hours in
           bind_op (notices_sent once) (\<lambda>was_sent.
           bind_op (deadlines m rest) (\<lambda>found.
             ret (if was_sent then found else (deadline - HOUR * hours, account, fleet_id, through, hours, once) # found)))))"

definition deadline_at :: "moment \<Rightarrow> ('a world_scheme, deadline option) op" where
  "deadline_at m =
     bind_op (gets (\<lambda>w. sort_key fst (pins (st w) m))) (\<lambda>held.
     bind_op (deadlines m held) (\<lambda>found.
       ret (min_by (\<lambda>(t, account, fleet_id, through, hours, once). (t, account, fleet_id, through, hours)) found)))"

definition deadline :: "env \<Rightarrow> deadline \<Rightarrow> ('a world_scheme, unit) op" where
  "deadline e x =
     (case x of (m, account, fleet_id, through, hours, once) \<Rightarrow>
     bind_op (lift (fleet_field e fleet_id)) (\<lambda>fleet.
     bind_op (gets (\<lambda>w. (balance account (stamp m) (st w), week_plan e (st w) account fleet 1 m,
                         dget (extends (st w)) (account, fleet_id), extend_waiting account fleet_id (st w)))) (\<lambda>(unlocked, next, setting, waiting).
     bind_op (case next of Inr plan \<Rightarrow> ret (Some (pl_price plan)) | Inl (Refusal status reason) \<Rightarrow> ret None | Inl ex \<Rightarrow> raise ex) (\<lambda>price.
       tell e account ''booking.deadline''
         (Deadline_due fleet_id (slot_text (through - DAY)) (slot_text through) hours (text_hc unlocked) price
            (case setting of None \<Rightarrow> 0 | Some v \<Rightarrow> ex_weeks v) waiting) m (Some once) False))))"

section \<open>The loop\<close>

datatype event =
    Lapse_locks stamp
  | Allocate_round moment
  | Credit_maintenance ident
  | Credit_outage outage
  | End_failover "moment \<times> ident \<times> string"
  | Extension ident ident ext_action
  | Deadline_notice deadline

definition due_events :: "env \<Rightarrow> moment \<Rightarrow> ('a world_scheme, (moment \<times> nat \<times> event) list) op" where
  "due_events e m =
     bind_op (gets (\<lambda>w. (lapse_at (st w) m, round_at (st w) m, maintenance_at (st w) m))) (\<lambda>(lapsed, sunday, over).
     bind_op (deadline_at m) (\<lambda>due.
     bind_op (gets (\<lambda>w. (extend_at e w m, outage_at w m, failover_end_at e w m))) (\<lambda>(ext, out, fo).
     bind_op (lift ext) (\<lambda>extension.
       ret ((case lapsed of None \<Rightarrow> [] | Some t \<Rightarrow> [(stamp_time t, 0, Lapse_locks t)])
          @ (case sunday of None \<Rightarrow> [] | Some t \<Rightarrow> [(t, 1, Allocate_round t)])
          @ (case over of None \<Rightarrow> [] | Some (t, ident) \<Rightarrow> [(t, 2, Credit_maintenance ident)])
          @ (case out of None \<Rightarrow> [] | Some x \<Rightarrow> [(fst x, 3, Credit_outage x)])
          @ (case fo of None \<Rightarrow> [] | Some x \<Rightarrow> [(fst x, 4, End_failover x)])
          @ (case extension of None \<Rightarrow> [] | Some (t, account, fleet_id, action) \<Rightarrow> [(t, 5, Extension account fleet_id action)])
          @ (case due of None \<Rightarrow> [] | Some x \<Rightarrow> [(fst x, 6, Deadline_notice x)]))))))"

fun run_event :: "env \<Rightarrow> event \<Rightarrow> ('a world_scheme, unit) op" where
  "run_event e (Lapse_locks t) = lapse e t"
| "run_event e (Allocate_round sunday) = allocate e sunday"
| "run_event e (Credit_maintenance ident) = credit_maintenance e ident"
| "run_event e (Credit_outage x) = (case x of (t, ident, sp, over) \<Rightarrow> credit_outage e sp t over)"
| "run_event e (End_failover x) = end_failover e x"
| "run_event e (Extension account fleet_id action) = run_extension e account fleet_id action"
| "run_event e (Deadline_notice x) = deadline e x"

definition first_event :: "(moment \<times> nat \<times> event) list \<Rightarrow> event option" where
  "first_event events = map_option (\<lambda>(t, n, ev). ev) (min_by (\<lambda>(t, n, ev). (t, n)) events)"

fun advance_loop :: "nat \<Rightarrow> env \<Rightarrow> moment \<Rightarrow> ('a world_scheme, unit) op" where
  "advance_loop 0 e m = raise Exhausted"
| "advance_loop (Suc n) e m =
     bind_op (due_events e m) (\<lambda>events. case first_event events of
         None \<Rightarrow> ret ()
       | Some ev \<Rightarrow> seq_op (run_event e ev) (advance_loop n e m))"

definition advance :: "env \<Rightarrow> moment \<Rightarrow> ('a world_scheme, unit) op" where
  "advance e m = advance_loop (fuel e) e m"

definition tick :: "env \<Rightarrow> ('a world_scheme, unit) op" where
  "tick e = bind_op (now e) (advance e)"

end
