(* ===== verification/Operations.thy ===== *)
theory Operations
  imports Advance
begin

text \<open>
  The operations of \<open>tools/sparkpipe_market.py\<close> that a customer, the gateway, the hub or the
  operator calls: each reads the clock, runs \<open>advance\<close> and then does its work on the state that
  leaves. Key management is in theory \<open>Keys\<close> and the pages shown in theory \<open>Views\<close>.
\<close>

definition truthy :: "string option \<Rightarrow> bool" where
  "truthy v = (case v of None \<Rightarrow> False | Some t \<Rightarrow> t \<noteq> [])"

definition refuse :: "int \<Rightarrow> string \<Rightarrow> exn" where
  "refuse status reason = Refusal status (Some reason)"

section \<open>Bookings\<close>

definition booking_state :: "booking \<Rightarrow> moment \<Rightarrow> string" where
  "booking_state b m = (if ends b \<le> m then ''ended'' else if begins b \<le> m then ''live'' else ''upcoming'')"

definition booking_view :: "ident \<Rightarrow> moment \<Rightarrow> ('a world_scheme, booking \<times> string) op" where
  "booking_view ident m =
     bind_op (gets (\<lambda>w. dget (bookings (st w)) ident)) (\<lambda>v. case v of None \<Rightarrow> raise KeyError | Some b \<Rightarrow> ret (b, booking_state b m))"

definition book_hours :: "env \<Rightarrow> ident \<Rightarrow> ident \<Rightarrow> slot option \<Rightarrow> int option \<Rightarrow> ('a world_scheme, booking \<times> string) op" where
  "book_hours e account fleet_id start hours =
     bind_op (lift (fleet_field e fleet_id)) (\<lambda>fleet.
     bind_op (lift (slot_field start)) (\<lambda>a.
     bind_op (lift (count_field hours 168 1)) (\<lambda>n.
     bind_op (now e) (\<lambda>m.
     seq_op (advance e m)
    (bind_op (gets (\<lambda>w. hour_price e (st w) account fleet a (a + HOUR * n) m)) (\<lambda>p.
     bind_op (lift p) (\<lambda>price.
     bind_op (pay e account fleet Hours a (a + HOUR * n) price m \<lparr>xt_hours = Some n, xt_weeks = None, xt_discount = None, xt_auto = False\<rparr>) (\<lambda>ident.
     seq_op (confirmed e ident m) (booking_view ident m)))))))))"

definition weeks_request :: "env \<Rightarrow> ident \<Rightarrow> int option \<Rightarrow> (fleet \<times> int) fallible" where
  "weeks_request e fleet_id weeks =
     bind_result (fleet_field e fleet_id) (\<lambda>fleet.
     bind_result (count_field weeks (int (maxWeeksAhead (pr_rules (settings e)))) 1) (\<lambda>n. Inr (fleet, n)))"

definition quote_weeks :: "env \<Rightarrow> ident \<Rightarrow> ident \<Rightarrow> int option \<Rightarrow> ('a world_scheme, plan) op" where
  "quote_weeks e account fleet_id weeks =
     bind_op (lift (weeks_request e fleet_id weeks)) (\<lambda>(fleet, n).
     bind_op (now e) (\<lambda>m.
     seq_op (advance e m)
    (bind_op (gets (\<lambda>w. week_plan e (st w) account fleet n m)) lift)))"

definition book_weeks :: "env \<Rightarrow> ident \<Rightarrow> ident \<Rightarrow> int option \<Rightarrow> ('a world_scheme, plan \<times> ident) op" where
  "book_weeks e account fleet_id weeks =
     bind_op (lift (weeks_request e fleet_id weeks)) (\<lambda>(fleet, n).
     bind_op (now e) (\<lambda>m.
     seq_op (advance e m)
    (bind_op (gets (\<lambda>w. week_plan e (st w) account fleet n m)) (\<lambda>p.
     bind_op (lift p) (\<lambda>plan.
     bind_op (pay e account fleet Weeks (slot_time (pl_first plan)) (slot_time (pl_end plan)) (pl_price plan) m
                \<lparr>xt_hours = None, xt_weeks = Some n, xt_discount = Some (pl_discount plan), xt_auto = False\<rparr>) (\<lambda>ident.
     seq_op (confirmed e ident m) (ret (plan, ident))))))))"

definition auto_extend :: "env \<Rightarrow> ident \<Rightarrow> ident \<Rightarrow> int option \<Rightarrow> ('a world_scheme, ident \<times> int \<times> slot option) op" where
  "auto_extend e account fleet_id weeks_ahead =
     bind_op (lift (fleet_field e fleet_id)) (\<lambda>fleet.
     bind_op (lift (count_field weeks_ahead (int (maxWeeksAhead (pr_rules (settings e)))) 0)) (\<lambda>weeks.
     bind_op (now e) (\<lambda>m.
     seq_op (advance e m)
    (bind_op (gets (\<lambda>w. snd (weeks_left account (fl_id fleet) m (st w)))) (\<lambda>pinned.
     seq_op (require (weeks = 0 \<or> pinned \<noteq> None) (refuse 409 ''not_pinned''))
    (seq_op (append_market e (Auto_extend account (fl_id fleet) weeks None (stamp m)))
    (seq_op (advance e m)
    (bind_op (gets (\<lambda>w. snd (weeks_left account (fl_id fleet) m (st w)))) (\<lambda>through.
       ret (fl_id fleet, weeks, map_option slot_text through))))))))))"

section \<open>Joining and leaving the waitlist\<close>

definition join :: "env \<Rightarrow> ident \<Rightarrow> decimal option \<Rightarrow> ('a world_scheme, decimal \<times> nat option) op" where
  "join e account lock =
     bind_op (lift (hc_field lock)) (\<lambda>amount.
     bind_op (now e) (\<lambda>m.
     seq_op (advance e m)
    (bind_op (gets (\<lambda>w. (dget (locks (st w)) account = None, balance account (stamp m) (st w), positions (st w)))) (\<lambda>(joining, unlocked, places).
     seq_op (require (\<not> (joining \<and> amount < weekHC (pr_rules (settings e)))) (refuse 409 ''lock_too_small''))
    (seq_op (require (amount \<le> unlocked) (refuse 402 ''insufficient_hc''))
    (seq_op (append_market e (Lock account (text_hc amount) (stamp m)))
    (bind_op (gets (\<lambda>w. (text_hc (locked account (st w)), position account (st w)))) (\<lambda>found.
     seq_op (moved e places m [account])
    (seq_op (mail e (notify_to e) ''Waitlist lock'') (ret found))))))))))"

definition leave :: "env \<Rightarrow> ident \<Rightarrow> ('a world_scheme, decimal \<times> nat option) op" where
  "leave e account =
     bind_op (now e) (\<lambda>m.
     seq_op (advance e m)
    (bind_op (gets (\<lambda>w. (dget (locks (st w)) account, positions (st w), locked account (st w)))) (\<lambda>(lk, places, amount).
     seq_op (require (lk \<noteq> None) (Refusal 404 None))
    (bind_op (now e) (\<lambda>m2.
     seq_op (append_market e (Unlock account (text_hc amount) ''leave'' (stamp m2)))
    (bind_op (now e) (\<lambda>m3.
     seq_op (moved e places m3 [account])
            (ret (text_hc 0, None)))))))))"

section \<open>Issuing HC\<close>

definition buy :: "env \<Rightarrow> ident \<Rightarrow> decimal \<Rightarrow> ('a world_scheme, lot_data) op" where
  "buy e account credits = bind_op (now e) (\<lambda>m. market_lot e account credits ''purchase'' ''sandbox'' m None None)"

definition issue :: "env \<Rightarrow> ident \<Rightarrow> decimal \<Rightarrow> ident \<Rightarrow> ('a world_scheme, lot_data) op" where
  "issue e account credits order = bind_op (now e) (\<lambda>m. market_lot e account credits ''purchase'' order m None None)"

definition credit :: "env \<Rightarrow> ident \<Rightarrow> decimal \<Rightarrow> string \<Rightarrow> ('a world_scheme, lot_data) op" where
  "credit e account credits note =
     bind_op (new_id e ''CR'') (\<lambda>ref. bind_op (now e) (\<lambda>m. market_lot e account credits ''credit'' ref m (Some note) None))"

definition downtime_credit :: "env \<Rightarrow> ident \<Rightarrow> decimal \<Rightarrow> string \<Rightarrow> ('a world_scheme, lot_data) op" where
  "downtime_credit e account credits note =
     bind_op (now e) (\<lambda>m. bind_op (new_id e ''CR'') (\<lambda>ref.
     bind_op (market_lot e account credits ''credit'' ref m (Some note) None) (\<lambda>d.
     seq_op (tell e account ''downtime.credited'' (Manual_credit (ld_lot d) (ld_hc d) note) m None False) (ret d))))"

section \<open>The gateway\<close>

definition serving_ids :: "env \<Rightarrow> ident list" where
  "serving_ids e = map fl_id (filter fl_serving (fleets e))"

definition live :: "booking \<Rightarrow> moment \<Rightarrow> bool" where
  "live b m \<longleftrightarrow> begins b \<le> m \<and> m < ends b"

definition held :: "env \<Rightarrow> mstate \<Rightarrow> ident \<Rightarrow> moment \<Rightarrow> ident list" where
  "held e s account m =
     sort (remdups (map bk_fleet (filter (\<lambda>b. bk_account b = account \<and> live b m \<and> bk_fleet b \<in> set (serving_ids e)) (dvalues (bookings s)))))"

definition gateway_share :: "env \<Rightarrow> ident \<Rightarrow> ('a world_scheme, bool \<times> nat) op" where
  "gateway_share e account =
     bind_op (now e) (\<lambda>m.
     seq_op (advance e m)
    (gets (\<lambda>w. let active = filter (\<lambda>b. live b m \<and> bk_fleet b \<in> set (serving_ids e)) (dvalues (bookings (st w)))
               in (\<exists>b\<in>set active. bk_account b = account, length (remdups (map bk_fleet active))))))"

definition holds :: "env \<Rightarrow> ident \<Rightarrow> ident \<Rightarrow> ('a world_scheme, bool) op" where
  "holds e account fleet = bind_op (now e) (\<lambda>m. seq_op (advance e m) (gets (\<lambda>w. fleet \<in> set (held e (st w) account m))))"

definition hold_left_at :: "mstate \<Rightarrow> ident \<Rightarrow> ident \<Rightarrow> moment \<Rightarrow> duration" where
  "hold_left_at s account fleet_id m =
     (let mine = filter (\<lambda>b. bk_account b = account) (on_fleet fleet_id s);
          run = hold_run mine m;
          over = (if run = m
                  then (case max_list (filter (\<lambda>t. t \<le> m) (map ends mine)) of None \<Rightarrow> m - GRACE_SECONDS * SECOND | Some t \<Rightarrow> t)
                  else run)
      in over - m + GRACE_SECONDS * SECOND)"

definition hold_left :: "env \<Rightarrow> ident \<Rightarrow> ident \<Rightarrow> ('a world_scheme, duration) op" where
  "hold_left e account fleet_id =
     bind_op (now e) (\<lambda>m. seq_op (advance e m) (gets (\<lambda>w. hold_left_at (st w) account fleet_id m)))"

definition admission :: "ident list \<Rightarrow> string option \<Rightarrow> string option list \<Rightarrow> string fallible" where
  "admission mine requested also =
     (if \<exists>v\<in>set (requested # also). truthy v \<and> the v \<notin> set mine then Inl (refuse 403 ''fleet_not_held'')
      else case (if truthy requested then requested else None) of
          Some fleet \<Rightarrow> Inr fleet
        | None \<Rightarrow> (case mine of
              [] \<Rightarrow> Inl (refuse 403 ''fleet_not_held'')
            | [fleet] \<Rightarrow> Inr fleet
            | _ \<Rightarrow> Inl (refuse 409 ''fleet_required'')))"

definition admit :: "env \<Rightarrow> ident \<Rightarrow> api_key option \<Rightarrow> string option \<Rightarrow> string option list \<Rightarrow> ('a world_scheme, ident) op" where
  "admit e account record requested also =
     (let wanted = (case record of Some r \<Rightarrow> if truthy (k_fleet r) then k_fleet r else requested | None \<Rightarrow> requested) in
     bind_op (now e) (\<lambda>m.
     seq_op (advance e m)
    (bind_op (gets (\<lambda>w. held e (st w) account m)) (\<lambda>mine. lift (admission mine wanted also)))))"

definition admit_first :: "env \<Rightarrow> ident \<Rightarrow> api_key option \<Rightarrow> string option \<Rightarrow> ('a world_scheme, ident option) op" where
  "admit_first e account record requested =
     (if truthy requested \<or> (case record of None \<Rightarrow> False | Some r \<Rightarrow> truthy (k_fleet r))
      then bind_op (admit e account record requested []) (\<lambda>fleet. ret (Some fleet))
      else bind_op (now e) (\<lambda>m.
           seq_op (advance e m)
          (bind_op (gets (\<lambda>w. held e (st w) account m)) (\<lambda>mine.
           seq_op (require (mine \<noteq> []) (refuse 403 ''fleet_not_held'')) (ret None)))))"

definition failover_choices :: "env \<Rightarrow> 'a world_scheme \<Rightarrow> ident \<Rightarrow> ident \<Rightarrow> moment \<Rightarrow> fleet list" where
  "failover_choices e w account fleet_id m =
     (let taken = map fo_to (filter (\<lambda>f. fo_account f \<noteq> account
                    \<and> (case fo_ends f of None \<Rightarrow> True | Some t \<Rightarrow> slot_floor m < t)) (dvalues (failovers (st w))))
      in sort_key fl_demo (filter (\<lambda>f. fl_id f \<noteq> fleet_id \<and> fl_serving f \<and> fl_id f \<notin> set taken \<and> fleet_up e (fl_id f) (uptime w)
           \<and> free_now (fl_id f) m (st w)) (fleets e)))"

definition route :: "env \<Rightarrow> ident \<Rightarrow> ident \<Rightarrow> ('a world_scheme, ident \<times> ident option) op" where
  "route e account fleet_id =
     bind_op (now e) (\<lambda>m.
     seq_op (advance e m)
    (bind_op (gets (\<lambda>w. (fleet_down fleet_id (uptime w),
        find (\<lambda>f. fo_account f = account \<and> fo_from f = fleet_id) (active_failovers (st w)), failover_choices e w account fleet_id m)))
      (\<lambda>(down, current, choices).
       if \<not> down then ret (fleet_id, None)
       else case current of
          Some f \<Rightarrow> ret (fo_to f, Some fleet_id)
        | None \<Rightarrow> (case choices of
              [] \<Rightarrow> raise (refuse 503 ''fleet_down'')
            | target # _ \<Rightarrow>
                bind_op (new_id e ''FO'') (\<lambda>ident.
                seq_op (append_market e (Failover \<lparr>fo_id = ident, fo_account = account, fo_from = fleet_id, fo_to = fl_id target,
                          fo_start = stamp m, fo_end = None, fo_reason = None\<rparr>))
               (seq_op (tell e account ''fleet.failover'' (Failover_started ident fleet_id (fl_id target) (stamp m)) m None False)
                       (ret (fl_id target, Some fleet_id))))))))"

definition holder_hours :: "env \<Rightarrow> ident \<Rightarrow> moment \<Rightarrow> moment \<Rightarrow> ('a world_scheme, (slot \<times> ident) list) op" where
  "holder_hours e fleet_id start end =
     seq_op (require (fleet_id \<in> set (map fl_id (pr_fleets (settings e)))) (refuse 404 ''unknown_fleet''))
    (seq_op (require (start < end \<and> end \<le> start + WEEK) (refuse 400 ''invalid_window''))
    (bind_op (now e) (\<lambda>m.
     seq_op (advance e m)
    (gets (\<lambda>w. let closed = maintained fleet_id start end (st w);
                   spans = map (\<lambda>b. (begins b, ends b, bk_account b)) (busy fleet_id start end (st w))
                     @ map (\<lambda>f. (slot_floor (fo_begins f), case fo_ends f of Some t \<Rightarrow> slot_ceil t | None \<Rightarrow> slot_floor m + HOUR, fo_account f))
                         (filter (\<lambda>f. fo_to f = fleet_id) (dvalues (failovers (st w))))
               in sort (remdups (concat (map (\<lambda>(a, z, account). map (\<lambda>t. (slot_text t, account))
                    (filter (\<lambda>t. \<not> (\<exists>x\<in>set closed. mt_begins x \<le> t \<and> t < mt_ends x)) (hour_marks (max a start) (min z end)))) spans))))))))"

section \<open>Reports of the hub\<close>

definition REBUILD_HOURS :: decimal where "REBUILD_HOURS = 24"

record loss_report =
  ls_fleet :: ident
  ls_event :: "string option"
  ls_account :: ident
  ls_contexts :: "string list option"
  ls_storage :: "string list option"
  ls_pair :: "string list option"
  ls_run :: "string option"
  ls_at :: "stamp option"

definition texts_field :: "string list option \<Rightarrow> string list fallible" where
  "texts_field v =
     (case v of None \<Rightarrow> Inl (refuse 400 ''invalid_request'')
      | Some items \<Rightarrow> if 1000 < length items \<or> (\<exists>t\<in>set items. \<not> (0 < length t \<and> length t \<le> 300) \<or> \<not> isprintable t)
                      then Inl (refuse 400 ''invalid_request'') else Inr items)"

definition pair_loss :: "env \<Rightarrow> loss_report \<Rightarrow> ('a world_scheme, lot_data \<times> bool) op" where
  "pair_loss e r =
     seq_op (require (ls_fleet r \<in> set (map fl_id (pr_fleets (settings e)))) (refuse 404 ''unknown_fleet''))
    (bind_op (lift (short_text (ls_event r) 100)) (\<lambda>event.
     bind_op (gets (\<lambda>w. dget (accounts (book w)) (ls_account r))) (\<lambda>known.
     seq_op (require (known \<noteq> None) (refuse 400 ''invalid_request''))
    (bind_op (lift (texts_field (ls_contexts r))) (\<lambda>contexts.
     bind_op (lift (texts_field (ls_storage r))) (\<lambda>storage.
     bind_op (lift (texts_field (ls_pair r))) (\<lambda>pair.
     bind_op (case ls_run r of None \<Rightarrow> ret None | Some t \<Rightarrow> bind_op (lift (short_text (Some t) 100)) (\<lambda>v. ret (Some v))) (\<lambda>run.
     (let ref = ls_fleet r @ '':'' @ event in
     bind_op (now e) (\<lambda>m.
     seq_op (advance e m)
    (bind_op (case ls_at r of None \<Rightarrow> ret m | Some t \<Rightarrow> ret (stamp_time t)) (\<lambda>lost.
     seq_op (require (lost \<le> m + 5 * 60 * SECOND) (refuse 400 ''invalid_request''))
    (bind_op (gets (\<lambda>w. (dget (rebuilds (st w)) ref,
        filter (\<lambda>b. bk_account b = ls_account r \<and> begins b \<le> lost \<and> lost < ends b) (on_fleet (ls_fleet r) (st w))))) (\<lambda>(before, cover).
     bind_op (case before of Some d \<Rightarrow> ret d
              | None \<Rightarrow> (case cover of [] \<Rightarrow> raise (refuse 409 ''not_held'')
                         | b # _ \<Rightarrow> market_lot e (ls_account r) (bk_rate b * REBUILD_HOURS) ''rebuild'' ref m None None)) (\<lambda>d.
     bind_op (notices_sent (Loss_once ref)) (\<lambda>told.
       if told then ret (d, before \<noteq> None)
       else seq_op (tell e (ld_account d) ''working_state.lost''
                      (State_lost (ls_fleet r) event (stamp lost) run (ld_hc d) (ld_lot d) contexts storage pair) m (Some (Loss_once ref)) False)
           (seq_op (mail e (notify_to e) ''Pair loss'') (ret (d, before \<noteq> None)))))))))))))))))))"

record hub_item =
  hi_type :: string
  hi_fleet :: ident
  hi_account :: ident
  hi_id :: "string option"
  hi_size :: "nat option"
  hi_summary :: "string option"

definition hub_event :: "env \<Rightarrow> hub_item \<Rightarrow> ('a world_scheme, string \<times> ident option) op" where
  "hub_event e item =
     seq_op (require (hi_type item \<in> set HUB_EVENTS) (refuse 400 ''invalid_request''))
    (bind_op (gets (\<lambda>w. dget (accounts (book w)) (hi_account item))) (\<lambda>known.
     seq_op (require (hi_fleet item \<in> set (map fl_id (pr_fleets (settings e))) \<and> known \<noteq> None) (refuse 404 ''unknown''))
    (bind_op (lift (short_text (hi_id item) 100)) (\<lambda>ident.
     seq_op (require (case hi_size item of None \<Rightarrow> False | Some n \<Rightarrow> n \<le> 16384) (refuse 400 ''invalid_request''))
    (seq_op (case hi_summary item of None \<Rightarrow> ret () | Some t \<Rightarrow> bind_op (lift (short_text (Some t) 300)) (\<lambda>_. ret ()))
    (bind_op (notices_sent (Hub_once (hi_fleet item) ident)) (\<lambda>told.
       if told then ret (ident, None)
       else bind_op (now e) (\<lambda>m.
            bind_op (notify e (hi_account item) (hi_type item) (Hub_data (hi_fleet item) ident) m (Some (Hub_once (hi_fleet item) ident)) False) (\<lambda>n.
            ret (ident, Some (nt_id n)))))))))))"

section \<open>The operator\<close>

definition kst_hour :: "moment \<Rightarrow> int" where
  "kst_hour m = (m + KST) div HOUR mod 24"

definition quiet_score :: "mstate \<Rightarrow> ident \<Rightarrow> int \<Rightarrow> moment \<Rightarrow> duration \<times> nat \<times> moment" where
  "quiet_score s fleet_id hours start =
     (let over = start + HOUR * hours
      in (sum_list (map (\<lambda>b. overlap (begins b) (ends b) start over) (busy fleet_id start over s)),
          length (filter (\<lambda>x. mt_fleet x = fleet_id \<and> kst_hour (mt_begins x) = kst_hour start) (dvalues (maintenances s))),
          start))"

definition quiet_run :: "mstate \<Rightarrow> fleet \<Rightarrow> moment \<Rightarrow> int \<Rightarrow> moment \<Rightarrow> moment fallible" where
  "quiet_run s fleet monday hours m =
     (let starts = map (\<lambda>n. monday + HOUR * n) [0..7 * 24 - hours];
          open_starts = filter (\<lambda>a. m + WEEK \<le> a \<and> maintained (fl_id fleet) a (a + HOUR * hours) s = []) starts
      in case min_by (\<lambda>x. x) (map (quiet_score s (fl_id fleet) hours) open_starts) of
           None \<Rightarrow> Inl (Refusal 400 None) | Some (overlapped, used, start) \<Rightarrow> Inr start)"

definition schedule_maintenance :: "env \<Rightarrow> ident \<Rightarrow> int option \<Rightarrow> int option \<Rightarrow> ('a world_scheme, ident \<times> ident \<times> slot \<times> int) op" where
  "schedule_maintenance e fleet_id day hours =
     bind_op (lift (fleet_field e fleet_id)) (\<lambda>fleet.
     bind_op (case day of None \<Rightarrow> raise (Refusal 400 None) | Some d \<Rightarrow> ret d) (\<lambda>d.
     seq_op (require (weekday d = 0) (Refusal 400 None))
    (let monday = kst_midnight d; allowance = maintenanceHoursPerWeek (pr_rules (settings e));
         n = (case hours of None \<Rightarrow> allowance | Some h \<Rightarrow> h) in
     bind_op (now e) (\<lambda>m.
     seq_op (advance e m)
    (bind_op (gets (\<lambda>w. sum_list (map mt_hours (filter (\<lambda>x. mt_fleet x = fl_id fleet \<and> monday \<le> mt_begins x \<and> mt_begins x < monday + WEEK)
         (dvalues (maintenances (st w))))))) (\<lambda>done_hours.
     seq_op (require (fl_serving fleet \<and> 1 \<le> n \<and> done_hours + n \<le> allowance) (Refusal 400 None))
    (bind_op (gets (\<lambda>w. quiet_run (st w) fleet monday n m)) (\<lambda>r.
     bind_op (lift r) (\<lambda>start.
     bind_op (new_id e ''MT'') (\<lambda>ident.
     seq_op (append_market e (Maintenance \<lparr>mt_id = ident, mt_fleet = fl_id fleet, mt_start = slot_text start, mt_hours = n, mt_now = stamp m, mt_done = False\<rparr>))
    (bind_op (gets (\<lambda>w. sort (remdups (map bk_account (busy (fl_id fleet) start (start + HOUR * n) (st w)))))) (\<lambda>affected.
     seq_op (each (\<lambda>account. bind_op (gets (\<lambda>w. dget (accounts (book w)) account)) (\<lambda>v.
                case v of None \<Rightarrow> raise KeyError | Some a \<Rightarrow> mail e (ad_email a) ''SparkPipe maintenance'')) affected)
            (ret (ident, fl_id fleet, slot_text start, n))))))))))))))"

definition sandbox_fleet :: "env \<Rightarrow> ident \<Rightarrow> bool option \<Rightarrow> ('a world_scheme, ident \<times> bool \<times> stamp) op" where
  "sandbox_fleet e fleet_id up =
     bind_op (lift (fleet_field e fleet_id)) (\<lambda>fleet.
     bind_op (case up of None \<Rightarrow> raise (refuse 400 ''invalid_request'') | Some b \<Rightarrow> ret b) (\<lambda>b.
     bind_op (now e) (\<lambda>m.
     seq_op (advance e m)
    (seq_op (observe e (fl_id fleet) b m ''sandbox'' False)
    (seq_op (advance e m) (ret (fl_id fleet, b, stamp m)))))))"

definition move_clock :: "env \<Rightarrow> int \<Rightarrow> ('a world_scheme, stamp) op" where
  "move_clock e hours =
     bind_op (gets (\<lambda>w. offset (st w))) (\<lambda>off.
     seq_op (append_market e (Clock (off + hours * 3600)))
    (seq_op (bind_op (now e) (advance e))
            (bind_op (now e) (\<lambda>m. ret (stamp m)))))"

end
