(* ===== verification/Text_Fields.thy ===== *)
theory Text_Fields
  imports Prelude
begin

text \<open>
  How \<open>tools/sparkpipe_pay.py\<close> reads the text fields of a request: names, email addresses and
  amounts of money. A field that a handler may leave out is a \<open>field\<close>; a field that must be there
  arrives as \<open>Some\<close> of its text when it has a type the code accepts there (a number by what \<open>str\<close>
  makes of it) and as \<open>None\<close> otherwise. Characters are those of Latin-1.
\<close>

datatype 'a field = Absent | Malformed | Given 'a

section \<open>Characters\<close>

definition code_of :: "char \<Rightarrow> nat" where "code_of c = of_char c"

definition whitespace :: "char \<Rightarrow> bool" where
  "whitespace c \<longleftrightarrow> (let n = code_of c in (9 \<le> n \<and> n \<le> 13) \<or> (28 \<le> n \<and> n \<le> 32) \<or> n = 133 \<or> n = 160)"

definition digit :: "char \<Rightarrow> bool" where
  "digit c \<longleftrightarrow> 48 \<le> code_of c \<and> code_of c \<le> 57"

definition lower_char :: "char \<Rightarrow> char" where
  "lower_char c = (let n = code_of c in
     if (65 \<le> n \<and> n \<le> 90) \<or> (192 \<le> n \<and> n \<le> 222 \<and> n \<noteq> 215) then char_of (n + 32) else c)"

definition strip_text :: "string \<Rightarrow> string" where
  "strip_text t = rev (dropWhile whitespace (rev (dropWhile whitespace t)))"

definition lower_text :: "string \<Rightarrow> string" where
  "lower_text t = map lower_char t"

section \<open>Texts\<close>

definition text_field :: "string option \<Rightarrow> nat \<Rightarrow> string fallible" where
  "text_field value most =
     (case value of None \<Rightarrow> Inl (Refusal 400 None)
      | Some t \<Rightarrow> if strip_text t = [] \<or> most < length t \<or> (\<exists>c\<in>set t. code_of c < 32) then Inl (Refusal 400 None)
                  else Inr (strip_text t))"

definition optional_text :: "string field \<Rightarrow> nat \<Rightarrow> string fallible" where
  "optional_text value most =
     (case value of Absent \<Rightarrow> Inr [] | Malformed \<Rightarrow> Inl (Refusal 400 None)
      | Given t \<Rightarrow> if t = [] then Inr []
                   else if most < length t \<or> (\<exists>c\<in>set t. code_of c < 32 \<and> code_of c \<noteq> 9 \<and> code_of c \<noteq> 10) then Inl (Refusal 400 None)
                   else Inr (strip_text t))"

text \<open>
  The pattern \<open>EMAIL\<close> on a stripped text: a local part, an at sign, and a domain whose part after
  the last dot has two characters or more. No part holds an at sign or white space.
\<close>

definition plain :: "string \<Rightarrow> bool" where
  "plain t \<longleftrightarrow> (\<forall>c\<in>set t. c \<noteq> CHR ''@'' \<and> \<not> whitespace c)"

definition before_char :: "char \<Rightarrow> string \<Rightarrow> string" where
  "before_char a t = takeWhile (\<lambda>c. c \<noteq> a) t"

definition after_char :: "char \<Rightarrow> string \<Rightarrow> string option" where
  "after_char a t = (case dropWhile (\<lambda>c. c \<noteq> a) t of [] \<Rightarrow> None | x # xs \<Rightarrow> Some xs)"

definition EMAIL :: "string \<Rightarrow> bool" where
  "EMAIL t \<longleftrightarrow> (let name = before_char CHR ''@'' t in
     1 \<le> length name \<and> length name \<le> 64 \<and> plain name \<and>
     (case after_char CHR ''@'' t of None \<Rightarrow> False
      | Some domain \<Rightarrow> plain domain \<and> 2 \<le> length (before_char CHR ''.'' (rev domain))
          \<and> (case after_char CHR ''.'' (rev domain) of None \<Rightarrow> False | Some host \<Rightarrow> 1 \<le> length host \<and> length host \<le> 189)))"

definition email_field :: "string option \<Rightarrow> string fallible" where
  "email_field value =
     (case value of None \<Rightarrow> Inl (Refusal 400 None)
      | Some t \<Rightarrow> if 254 < length t \<or> \<not> EMAIL (strip_text t) then Inl (Refusal 400 None) else Inr (lower_text (strip_text t)))"

section \<open>Amounts\<close>

definition digits_value :: "string \<Rightarrow> int" where
  "digits_value t = foldl (\<lambda>n c. 10 * n + (int (code_of c) - 48)) 0 t"

text \<open>\<open>[0-9]{1,whole}\<close>, and with at most \<open>places\<close> digits after a point: the number such a text is.\<close>

definition whole_text :: "nat \<Rightarrow> string \<Rightarrow> decimal option" where
  "whole_text whole t = (if t \<noteq> [] \<and> length t \<le> whole \<and> list_all digit t then Some (of_int (digits_value t)) else None)"

definition decimal_text :: "nat \<Rightarrow> nat \<Rightarrow> string \<Rightarrow> decimal option" where
  "decimal_text whole places t =
     (case whole_text whole (before_char CHR ''.'' t) of None \<Rightarrow> None
      | Some x \<Rightarrow> (case after_char CHR ''.'' t of None \<Rightarrow> Some x
          | Some u \<Rightarrow> (case whole_text places u of None \<Rightarrow> None | Some y \<Rightarrow> Some (x + y / 10 ^ length u))))"

definition won_field :: "string option \<Rightarrow> decimal fallible" where
  "won_field value =
     (case value of None \<Rightarrow> Inl (Refusal 400 None)
      | Some t \<Rightarrow> (case whole_text 12 (strip_text t) of None \<Rightarrow> Inl (Refusal 400 None) | Some x \<Rightarrow> Inr x))"

definition quantity_field :: "string option \<Rightarrow> decimal \<Rightarrow> decimal fallible" where
  "quantity_field value least =
     (case value of None \<Rightarrow> Inl (Refusal 400 None)
      | Some t \<Rightarrow> (case decimal_text 9 6 (strip_text t) of None \<Rightarrow> Inl (Refusal 400 None)
          | Some x \<Rightarrow> if x < least then Inl (Refusal 400 None) else Inr x))"

definition quantize_half_up :: "decimal \<Rightarrow> decimal \<Rightarrow> decimal" where
  "quantize_half_up unit x = (if 0 \<le> x then of_int \<lfloor>x / unit + 1 / 2\<rfloor> else of_int \<lceil>x / unit - 1 / 2\<rceil>) * unit"

definition CENT :: decimal where "CENT = 1 / 100"
definition WON :: decimal where "WON = 1"

definition money :: "decimal \<Rightarrow> decimal" where "money value = quantize_half_up CENT value"
definition won :: "decimal \<Rightarrow> decimal" where "won value = quantize_half_up WON value"

text \<open>The texts of amounts stand for the amounts they name.\<close>

definition text_money :: "decimal \<Rightarrow> decimal" where "text_money value = money value"
definition text_won :: "decimal \<Rightarrow> decimal" where "text_won value = won value"

definition usd_field :: "string option \<Rightarrow> decimal fallible" where
  "usd_field value =
     (case value of None \<Rightarrow> Inl (Refusal 400 None)
      | Some t \<Rightarrow> (case decimal_text 9 2 (strip_text t) of None \<Rightarrow> Inl (Refusal 400 None)
          | Some x \<Rightarrow> if \<not> 0 < x then Inl (Refusal 400 None) else Inr (money x)))"

section \<open>Numbers as texts, and texts in parts\<close>

text \<open>Python's \<open>str\<close> of a natural number.\<close>

fun nat_text :: "nat \<Rightarrow> string" where
  "nat_text n = (if n < 10 then [char_of (48 + n)] else nat_text (n div 10) @ [char_of (48 + n mod 10)])"

declare nat_text.simps [simp del]

fun split_on :: "char \<Rightarrow> string \<Rightarrow> string list" where
  "split_on a [] = [[]]"
| "split_on a (c # cs) = (if c = a then [] # split_on a cs else (case split_on a cs of [] \<Rightarrow> [[c]] | p # ps \<Rightarrow> (c # p) # ps))"

section \<open>Rounding\<close>

lemma quantize_half_up_of_int: "0 < unit \<Longrightarrow> quantize_half_up unit (of_int n * unit) = of_int n * unit"
  by (auto simp: quantize_half_up_def intro!: floor_unique ceiling_unique)

lemma quantize_half_up_idem: "0 < unit \<Longrightarrow> quantize_half_up unit (quantize_half_up unit x) = quantize_half_up unit x"
proof -
  assume u: "0 < unit"
  have "quantize_half_up unit x = of_int (if 0 \<le> x then \<lfloor>x / unit + 1 / 2\<rfloor> else \<lceil>x / unit - 1 / 2\<rceil>) * unit"
    by (simp add: quantize_half_up_def)
  then show ?thesis using quantize_half_up_of_int [OF u] by simp
qed

lemma quantize_half_up_nonneg: "0 < unit \<Longrightarrow> 0 \<le> x \<Longrightarrow> 0 \<le> quantize_half_up unit x"
proof -
  assume u: "0 < unit" "0 \<le> x"
  then have "0 \<le> \<lfloor>x / unit + 1 / 2\<rfloor>" by (simp add: add_nonneg_nonneg)
  with u show ?thesis by (simp add: quantize_half_up_def)
qed

lemma quantize_half_up_near: "0 < unit \<Longrightarrow> \<bar>quantize_half_up unit x - x\<bar> \<le> unit / 2"
proof -
  assume u: "0 < unit"
  define y where "y = x / unit"
  have x: "x = y * unit" using u by (simp add: y_def)
  define n :: rat where "n = (if 0 \<le> x then of_int \<lfloor>y + 1 / 2\<rfloor> else of_int \<lceil>y - 1 / 2\<rceil>)"
  have q: "quantize_half_up unit x = n * unit" by (simp add: quantize_half_up_def n_def y_def)
  have "\<bar>n - y\<bar> \<le> 1 / 2" unfolding n_def
    using floor_correct [of "y + 1 / 2"] ceiling_correct [of "y - 1 / 2"]
    by (cases "0 \<le> x") (simp_all only: if_True if_False, linarith+)
  then have "\<bar>n - y\<bar> * unit \<le> 1 / 2 * unit" using u by (intro mult_right_mono) auto
  moreover have "quantize_half_up unit x - x = (n - y) * unit" by (simp add: q) (simp add: x left_diff_distrib)
  then have "\<bar>quantize_half_up unit x - x\<bar> = \<bar>n - y\<bar> * unit" using u by (simp add: abs_mult)
  ultimately show ?thesis by simp
qed

lemma quantize_half_up_mono: "0 < unit \<Longrightarrow> x \<le> y \<Longrightarrow> quantize_half_up unit x \<le> quantize_half_up unit y"
proof -
  assume u: "0 < unit" and le: "x \<le> y"
  then have d: "x / unit \<le> y / unit" by (simp add: divide_right_mono)
  show ?thesis
  proof (cases "0 \<le> x \<or> y < 0")
    case True
    then have "0 \<le> x \<and> 0 \<le> y \<or> \<not> 0 \<le> x \<and> \<not> 0 \<le> y" using le by linarith
    then show ?thesis
    proof
      assume s: "0 \<le> x \<and> 0 \<le> y"
      have "\<lfloor>x / unit + 1 / 2\<rfloor> \<le> \<lfloor>y / unit + 1 / 2\<rfloor>" using d by (intro floor_mono) simp
      then show ?thesis using s u by (simp add: quantize_half_up_def)
    next
      assume s: "\<not> 0 \<le> x \<and> \<not> 0 \<le> y"
      have "\<lceil>x / unit - 1 / 2\<rceil> \<le> \<lceil>y / unit - 1 / 2\<rceil>" using d by (intro ceiling_mono) simp
      then show ?thesis using s u by (simp add: quantize_half_up_def)
    qed
  next
    case False
    then have x: "x < 0" and y: "0 \<le> y" by auto
    have "\<lceil>x / unit - 1 / 2\<rceil> \<le> 0" using x u by (simp add: ceiling_le_iff divide_neg_pos less_imp_le order_trans [of "x / unit" 0])
    then have "quantize_half_up unit x \<le> 0" using x u by (simp add: quantize_half_up_def mult_nonpos_nonneg)
    also have "0 \<le> quantize_half_up unit y" by (rule quantize_half_up_nonneg [OF u y])
    finally show ?thesis .
  qed
qed

lemma CENT_pos [simp]: "0 < CENT" by (simp add: CENT_def)
lemma WON_pos [simp]: "0 < WON" by (simp add: WON_def)

lemma money_idem [simp]: "money (money x) = money x"
  by (simp add: money_def quantize_half_up_idem)

lemma won_idem [simp]: "won (won x) = won x"
  by (simp add: won_def quantize_half_up_idem)

lemma money_nonneg: "0 \<le> x \<Longrightarrow> 0 \<le> money x"
  by (simp add: money_def quantize_half_up_nonneg)

section \<open>What the readers promise\<close>

lemma code_of_char_of: "n < 256 \<Longrightarrow> code_of (char_of n) = n"
  by (simp add: code_of_def)

lemma code_of_lower: "code_of (lower_char c) =
    (if (65 \<le> code_of c \<and> code_of c \<le> 90) \<or> (192 \<le> code_of c \<and> code_of c \<le> 222 \<and> code_of c \<noteq> 215) then code_of c + 32 else code_of c)"
  by (simp add: lower_char_def Let_def code_of_char_of)

lemma code_of_inject: "code_of c = code_of d \<longleftrightarrow> c = d"
  by (simp add: code_of_def)

lemma lower_char_fixes [simp]:
  "whitespace (lower_char c) = whitespace c"
  "lower_char c = CHR ''@'' \<longleftrightarrow> c = CHR ''@''"
  "lower_char c = CHR ''.'' \<longleftrightarrow> c = CHR ''.''"
  "lower_char (lower_char c) = lower_char c"
proof -
  show "whitespace (lower_char c) = whitespace c" by (auto simp: whitespace_def Let_def code_of_lower)
  have at: "code_of CHR ''@'' = 64" "code_of CHR ''.'' = 46" by (simp_all add: code_of_def)
  show "lower_char c = CHR ''@'' \<longleftrightarrow> c = CHR ''@''" "lower_char c = CHR ''.'' \<longleftrightarrow> c = CHR ''.''"
    "lower_char (lower_char c) = lower_char c"
    unfolding code_of_inject [symmetric] at by (simp_all add: code_of_lower)
qed

lemma lower_text_simps [simp]:
  "before_char CHR ''@'' (lower_text t) = lower_text (before_char CHR ''@'' t)"
  "before_char CHR ''.'' (lower_text t) = lower_text (before_char CHR ''.'' t)"
  "after_char CHR ''@'' (lower_text t) = map_option lower_text (after_char CHR ''@'' t)"
  "after_char CHR ''.'' (lower_text t) = map_option lower_text (after_char CHR ''.'' t)"
  "plain (lower_text t) = plain t" "length (lower_text t) = length t" "rev (lower_text t) = lower_text (rev t)"
proof -
  have "after_char a (lower_text t) = map_option lower_text (after_char a t)" if "\<And>c. lower_char c = a \<longleftrightarrow> c = a" for a
    using that by (cases "dropWhile (\<lambda>c. c \<noteq> a) t") (simp_all add: after_char_def lower_text_def dropWhile_map comp_def del: dropWhile_eq_Nil_conv)
  then show "after_char CHR ''@'' (lower_text t) = map_option lower_text (after_char CHR ''@'' t)"
    "after_char CHR ''.'' (lower_text t) = map_option lower_text (after_char CHR ''.'' t)" by simp_all
qed (simp_all add: lower_text_def before_char_def plain_def takeWhile_map comp_def rev_map)

lemma EMAIL_lower: "EMAIL (lower_text t) = EMAIL t"
  by (simp add: EMAIL_def Let_def split: option.splits)

lemma dropWhile_stripped: "xs = [] \<or> \<not> P (hd xs) \<Longrightarrow> dropWhile P xs = xs"
  by (cases xs) auto

lemma hd_rev_dropWhile_rev: "rev (dropWhile P (rev xs)) = [] \<or> hd (rev (dropWhile P (rev xs))) = hd xs"
proof (induction xs)
  case (Cons x xs)
  then show ?case by (simp add: dropWhile_append hd_append)
qed simp

lemma strip_text_idem [simp]: "strip_text (strip_text t) = strip_text t"
proof -
  let ?a = "dropWhile whitespace t"
  have "strip_text t = [] \<or> \<not> whitespace (hd (strip_text t))"
  proof (cases "?a = []")
    case False
    then show ?thesis using hd_rev_dropWhile_rev [of whitespace ?a] hd_dropWhile [OF False] by (auto simp: strip_text_def)
  next
    case True
    show ?thesis unfolding strip_text_def True by simp
  qed
  then have "strip_text (strip_text t) = rev (dropWhile whitespace (rev (strip_text t)))"
    by (subst strip_text_def) (simp only: dropWhile_stripped)
  also have "rev (strip_text t) = dropWhile whitespace (rev ?a)" by (simp add: strip_text_def)
  finally show ?thesis by (simp add: strip_text_def)
qed

lemma strip_text_lower: "strip_text (lower_text t) = lower_text (strip_text t)"
  by (simp add: strip_text_def lower_text_def dropWhile_map comp_def rev_map)

lemma length_strip_text: "length (strip_text t) \<le> length t"
  unfolding strip_text_def by (metis length_dropWhile_le length_rev order_trans)

lemma email_field_again:
  assumes "email_field value = Inr u"
  shows "email_field (Some u) = Inr u" "length u \<le> 254"
proof -
  obtain t where t: "length t \<le> 254" "EMAIL (strip_text t)" "u = lower_text (strip_text t)"
    using assms by (cases "value") (force simp: email_field_def split: if_splits)+
  then show "length u \<le> 254" using length_strip_text [of t] by simp
  have "lower_text (lower_text v) = lower_text v" for v by (simp add: lower_text_def)
  then show "email_field (Some u) = Inr u" using t \<open>length u \<le> 254\<close>
    by (simp add: email_field_def strip_text_lower EMAIL_lower)
qed

lemma digits_value_bound: "list_all digit t \<Longrightarrow> 0 \<le> digits_value t \<and> digits_value t < 10 ^ length t"
proof (induction t rule: rev_induct)
  case (snoc c t)
  then have "digits_value (t @ [c]) = 10 * digits_value t + (int (code_of c) - 48)" "0 \<le> digits_value t" "digits_value t < 10 ^ length t"
    "48 \<le> code_of c" "code_of c \<le> 57"
    by (simp_all add: digits_value_def digit_def)
  then show ?case by simp
qed (simp add: digits_value_def)

lemma whole_text_Some:
  assumes "whole_text n t = Some x"
  shows "\<exists>k::int. x = of_int k \<and> 0 \<le> k \<and> k < 10 ^ length t" "length t \<le> n"
  using assms digits_value_bound [of t] by (auto simp: whole_text_def split: if_splits)

lemma decimal_text_Some:
  assumes "decimal_text whole places t = Some x"
  shows "\<exists>k::int. x * 10 ^ places = of_int k" "0 \<le> x" "x < 10 ^ whole"
proof -
  obtain a where a: "whole_text whole (before_char CHR ''.'' t) = Some a" using assms by (auto simp: decimal_text_def split: option.splits)
  obtain k where k: "a = of_int k" "0 \<le> k" "k < 10 ^ length (before_char CHR ''.'' t)" using whole_text_Some(1) [OF a] by blast
  have "k < 10 ^ whole" using k(3) power_increasing [OF whole_text_Some(2) [OF a], of "10::int"] by linarith
  then have "(of_int (k + 1) :: rat) \<le> of_int (10 ^ whole)" by (simp only: of_int_le_iff)
  then have ak: "a + 1 \<le> 10 ^ whole" by (simp add: k(1))
  have "(\<exists>k::int. x * 10 ^ places = of_int k) \<and> 0 \<le> x \<and> x < 10 ^ whole"
  proof (cases "after_char CHR ''.'' t")
    case None
    then have "x = a" using assms a by (simp add: decimal_text_def)
    then have "x * 10 ^ places = of_int (k * 10 ^ places)" using k by simp
    moreover have "0 \<le> x" "x < 10 ^ whole" using k(1,2) ak \<open>x = a\<close> by linarith+
    ultimately show ?thesis by blast
  next
    case (Some u)
    then obtain b where b: "whole_text places u = Some b" "x = a + b / 10 ^ length u" using assms a
      by (auto simp: decimal_text_def split: option.splits)
    obtain j where j: "b = of_int j" "0 \<le> j" "j < 10 ^ length u" "length u \<le> places" using whole_text_Some [OF b(1)] by blast
    have "(10::rat) ^ places = 10 ^ length u * 10 ^ (places - length u)" using j(4) by (simp flip: power_add)
    then have "x * 10 ^ places = of_int (k * 10 ^ places + j * 10 ^ (places - length u))"
      using b j k by (simp add: distrib_right)
    moreover have "(of_int j :: rat) < of_int (10 ^ length u)" using j(3) by (simp only: of_int_less_iff)
    then have "b < 10 ^ length u" by (simp add: j(1))
    then have "b / 10 ^ length u < 1" by simp
    then have "x < 10 ^ whole" using ak b(2) by linarith
    moreover have "0 \<le> x" using b(2) k(1,2) j(1,2) by simp
    ultimately show ?thesis by blast
  qed
  then show "\<exists>k::int. x * 10 ^ places = of_int k" "0 \<le> x" "x < 10 ^ whole" by blast+
qed

lemma quantity_field_Inr:
  assumes "quantity_field value least = Inr x"
  shows "least \<le> x" "0 \<le> x" "x < 10 ^ 9" "\<exists>k::int. x * 10 ^ 6 = of_int k"
  using assms decimal_text_Some [of 9 6] by (auto simp: quantity_field_def split: option.splits if_splits)

lemma usd_field_Inr:
  assumes "usd_field value = Inr x"
  shows "money x = x" "0 < x"
proof -
  obtain t y where t: "decimal_text 9 2 t = Some y" "0 < y" "x = money y"
    using assms by (auto simp: usd_field_def split: option.splits if_splits)
  obtain k :: int where k: "y * 10 ^ 2 = of_int k" using decimal_text_Some(1) [OF t(1)] by blast
  then have "y = of_int k * CENT" by (simp add: CENT_def)
  then have "money y = y" unfolding money_def by (simp add: quantize_half_up_of_int)
  then show "money x = x" "0 < x" using t by simp_all
qed

section \<open>Digits and parts\<close>

lemma digits_value_snoc: "digits_value (t @ [c]) = 10 * digits_value t + (int (code_of c) - 48)"
  by (simp add: digits_value_def)

lemma digit_char: "k < 10 \<Longrightarrow> digit (char_of (48 + k))" "k < 10 \<Longrightarrow> code_of (char_of (48 + k)) = 48 + k"
  by (simp_all add: digit_def code_of_char_of)

lemma nat_text_spec: "list_all digit (nat_text n) \<and> nat_text n \<noteq> [] \<and> digits_value (nat_text n) = int n"
proof (induction n rule: nat_text.induct)
  case (1 n)
  show ?case
  proof (cases "n < 10")
    case True
    then show ?thesis using digit_char [OF True] digits_value_snoc [of "[]" "char_of (48 + n)"]
      by (simp add: nat_text.simps [of n] digits_value_def)
  next
    case False
    have m: "n mod 10 < 10" by simp
    have "int n = 10 * int (n div 10) + int (n mod 10)" using of_nat_add [of "10 * (n div 10)" "n mod 10"] by simp
    then show ?thesis using 1 [OF False] False digit_char [OF m]
      by (simp add: nat_text.simps [of n] digits_value_snoc del: of_nat_mod)
  qed
qed

lemma split_on_snoc: "a \<notin> set xs \<Longrightarrow> split_on a (xs @ a # ys) = xs # split_on a ys"
  by (induction xs) auto

lemma split_on_none: "a \<notin> set xs \<Longrightarrow> split_on a xs = [xs]"
  by (induction xs) auto

lemma split_on_parts: "concat (map (\<lambda>p. p @ [a]) (split_on a t)) = t @ [a]"
  by (induction t) (auto split: list.splits)

lemma digits_no_dot: "list_all digit t \<Longrightarrow> CHR ''.'' \<notin> set t"
  by (induction t) (auto simp: digit_def code_of_def)

end
