(* ===== verification/Keys.thy ===== *)
theory Keys
  imports Operations Text_Fields
begin

text \<open>
  API keys of \<open>tools/sparkpipe_market.py\<close>: the options of a key, making, revoking and rotating
  one, and what a key is allowed. SHA-256 of a key is the parameter \<open>key_digest\<close> of the
  environment. A request's fields arrive parsed, an address and a network as numbers.
\<close>

definition ROLES :: "string list" where
  "ROLES = [''owner'', ''admin'', ''member'']"

definition ROLE_SCOPES :: "string \<Rightarrow> string list" where
  "ROLE_SCOPES role = (if role = ''member'' then [''inference'', ''functions'', ''account:read''] else SCOPES)"

definition PRIORITIES :: "string list" where
  "PRIORITIES = [''interactive'', ''background'']"

definition KEY_IPS :: nat where "KEY_IPS = 32"

fun in_network :: "address \<Rightarrow> network \<Rightarrow> bool" where
  "in_network (V4 a) (Net4 base p) = (a div 2 ^ (32 - p) = base div 2 ^ (32 - p))"
| "in_network (V6 a) (Net6 base p) = (a div 2 ^ (128 - p) = base div 2 ^ (128 - p))"
| "in_network _ _ = False"

definition address_in :: "address option \<Rightarrow> network list \<Rightarrow> bool" where
  "address_in ip networks = (case ip of None \<Rightarrow> False | Some a \<Rightarrow> \<exists>n\<in>set networks. in_network a n)"

record key_body =
  kb_scopes :: "string list field"
  kb_fleet :: "string option"
  kb_allow_swap :: "bool field"
  kb_expires :: "stamp field"
  kb_ips :: "network list field"
  kb_priority :: "string option"
  kb_note :: "string option"

record key_opts =
  ko_note :: string
  ko_scopes :: "string list"
  ko_fleet :: "string option"
  ko_allow_swap :: bool
  ko_expires :: "stamp option"
  ko_ips :: "network list"
  ko_priority :: "string option"

definition key_options :: "env \<Rightarrow> key_body \<Rightarrow> moment \<Rightarrow> key_opts fallible" where
  "key_options e body m =
     (let bad = refuse 400 ''invalid_request'';
          note = (case kb_note body of None \<Rightarrow> [] | Some t \<Rightarrow> t) in
      bind_result (case kb_scopes body of Absent \<Rightarrow> Inr SCOPES | Malformed \<Rightarrow> Inl bad
                   | Given ss \<Rightarrow> if ss = [] \<or> \<not> set ss \<subseteq> set SCOPES then Inl bad else Inr ss) (\<lambda>scopes.
      bind_result (case kb_fleet body of None \<Rightarrow> Inr None
                   | Some f \<Rightarrow> if f \<in> set (map fl_id (pr_fleets (settings e))) then Inr (Some f) else Inl bad) (\<lambda>fleet.
      bind_result (case kb_allow_swap body of Absent \<Rightarrow> Inr False | Malformed \<Rightarrow> Inl bad | Given b \<Rightarrow> Inr b) (\<lambda>swap.
      bind_result (case kb_expires body of Absent \<Rightarrow> Inr None | Malformed \<Rightarrow> Inl bad
                   | Given t \<Rightarrow> if stamp_time t \<le> m then Inl bad else Inr (Some t)) (\<lambda>expires.
      bind_result (case kb_ips body of Absent \<Rightarrow> Inr [] | Malformed \<Rightarrow> Inl bad
                   | Given ns \<Rightarrow> if KEY_IPS < length ns then Inl bad else Inr ns) (\<lambda>ips.
      bind_result (case kb_priority body of None \<Rightarrow> Inr None | Some p \<Rightarrow> if p \<in> set PRIORITIES then Inr (Some p) else Inl bad) (\<lambda>priority.
        if 100 < length note \<or> \<not> isprintable note then Inl bad
        else Inr \<lparr>ko_note = strip_text note, ko_scopes = filter (\<lambda>s. s \<in> set scopes) SCOPES, ko_fleet = fleet, ko_allow_swap = swap,
               ko_expires = expires, ko_ips = ips, ko_priority = priority\<rparr>)))))))"

definition new_key :: "env \<Rightarrow> ident \<Rightarrow> key_opts \<Rightarrow> moment \<Rightarrow> ident option \<Rightarrow> ident option \<Rightarrow> ('a world_scheme, api_key \<times> string) op" where
  "new_key e account opts m rotated_from member =
     bind_op (new_id e ''sk-hc-'') (\<lambda>key.
     bind_op (new_id e ''KY'') (\<lambda>found.
     seq_op (append_market e (Api_key \<lparr>kd_key = found, kd_account = account,
               kd_member = Some (case member of None \<Rightarrow> account | Some x \<Rightarrow> if x = [] then account else x),
               kd_note = ko_note opts, kd_hint = last_of 4 key, kd_hash = key_digest e key, kd_now = stamp m, kd_scopes = Some (ko_scopes opts),
               kd_fleet = ko_fleet opts, kd_allow_swap = ko_allow_swap opts, kd_expires = ko_expires opts, kd_ips = ko_ips opts,
               kd_priority = ko_priority opts, kd_rotated_from = rotated_from\<rparr>))
    (bind_op (gets (\<lambda>w. dget (keys (st w)) found)) (\<lambda>v. case v of None \<Rightarrow> raise KeyError | Some r \<Rightarrow> ret (r, key)))))"

definition create_key :: "env \<Rightarrow> ident \<Rightarrow> key_body \<Rightarrow> ident option \<Rightarrow> string \<Rightarrow> ('a world_scheme, api_key \<times> string) op" where
  "create_key e account body member role =
     (let allowed = ROLE_SCOPES role;
          given = (case kb_scopes body of Absent \<Rightarrow> body\<lparr>kb_scopes := Given allowed\<rparr> | _ \<Rightarrow> body) in
      seq_op (require (role \<in> set ROLES) KeyError)
     (bind_op (now e) (\<lambda>m.
      bind_op (lift (key_options e given m)) (\<lambda>opts.
      seq_op (require (set (ko_scopes opts) \<subseteq> set allowed \<and> \<not> (ko_allow_swap opts \<and> role = ''member'')) (refuse 403 ''role''))
             (new_key e account opts m None member)))))"

definition own_key :: "mstate \<Rightarrow> ident \<Rightarrow> ident \<Rightarrow> moment \<Rightarrow> ident option \<Rightarrow> string \<Rightarrow> api_key fallible" where
  "own_key s account found m member role =
     (case dget (keys s) found of None \<Rightarrow> Inl (Refusal 404 None)
      | Some r \<Rightarrow> if k_account r \<noteq> account \<or> k_revoked r \<or> (case k_retires r of None \<Rightarrow> False | Some t \<Rightarrow> stamp_time t \<le> m)
                     \<or> (role = ''member'' \<and> Some (k_member r) \<noteq> member)
                  then Inl (Refusal 404 None) else Inr r)"

definition revoke_key :: "env \<Rightarrow> ident \<Rightarrow> ident \<Rightarrow> ident option \<Rightarrow> string \<Rightarrow> ('a world_scheme, unit) op" where
  "revoke_key e account found member role =
     bind_op (now e) (\<lambda>m.
     bind_op (gets (\<lambda>w. own_key (st w) account found m member role)) (\<lambda>r.
     bind_op (lift r) (\<lambda>_. append_market e (Api_key_revoke found))))"

definition rotate_key :: "env \<Rightarrow> ident \<Rightarrow> ident \<Rightarrow> ident option \<Rightarrow> string \<Rightarrow> ('a world_scheme, api_key \<times> string \<times> stamp) op" where
  "rotate_key e account found member role =
     bind_op (now e) (\<lambda>m.
     bind_op (gets (\<lambda>w. own_key (st w) account found m member role)) (\<lambda>own.
     bind_op (lift own) (\<lambda>r.
     seq_op (require (k_retires r = None) (refuse 409 ''rotated''))
    (bind_op (new_key e account \<lparr>ko_note = k_note r, ko_scopes = k_scopes r, ko_fleet = k_fleet r, ko_allow_swap = k_allow_swap r,
                ko_expires = k_expires r, ko_ips = k_ips r, ko_priority = k_priority r\<rparr> m (Some found) (Some (k_member r))) (\<lambda>(made, key).
     seq_op (append_market e (Api_key_rotate found account (k_key made) (stamp (m + HOUR))))
            (ret (made, key, stamp (m + HOUR))))))))"

definition key_record :: "env \<Rightarrow> mstate \<Rightarrow> string \<Rightarrow> api_key option" where
  "key_record e s key =
     (if key = [] then None
      else case dget (key_hashes s) (key_digest e key) of None \<Rightarrow> None
           | Some found \<Rightarrow> if found = [] then None else dget (keys s) found)"

definition key_account :: "env \<Rightarrow> string \<Rightarrow> ('a world_scheme, api_key) op" where
  "key_account e key =
     bind_op (gets (\<lambda>w. key_record e (st w) key)) (\<lambda>found. case found of None \<Rightarrow> raise (refuse 401 ''invalid_key'')
     | Some r \<Rightarrow>
         seq_op (require (\<not> k_revoked r) (refuse 401 ''invalid_key''))
        (bind_op (now e) (\<lambda>m.
         seq_op (require (case k_retires r of None \<Rightarrow> True | Some t \<Rightarrow> m < stamp_time t) (refuse 401 ''invalid_key''))
        (seq_op (require (case k_expires r of None \<Rightarrow> True | Some t \<Rightarrow> m < stamp_time t) (refuse 401 ''invalid_key''))
                (ret r)))))"

definition authorize :: "env \<Rightarrow> string \<Rightarrow> string \<Rightarrow> address option \<Rightarrow> ('a world_scheme, api_key) op" where
  "authorize e key scope ip =
     bind_op (key_account e key) (\<lambda>r.
     seq_op (require (k_ips r = [] \<or> address_in ip (k_ips r)) (refuse 403 ''invalid_key''))
    (seq_op (require (scope \<in> set (k_scopes r)) (refuse 403 ''invalid_key''))
            (ret r)))"

section \<open>Who may do what\<close>

lemma in_network_host:
  "p \<le> 32 \<Longrightarrow> in_network (V4 a) (Net4 b p) \<longleftrightarrow> b div 2 ^ (32 - p) * 2 ^ (32 - p) \<le> a \<and> a < b div 2 ^ (32 - p) * 2 ^ (32 - p) + 2 ^ (32 - p)"
proof -
  let ?k = "2 ^ (32 - p) :: int"
  have k: "0 < ?k" by simp
  show ?thesis
    using div_times_le [OF k, of a] less_div_times [OF k, of a] div_eqI [of "b div ?k" ?k a] by auto
qed

lemma now_eq: "now e w = (Inr (clock e (ticks w) + offset (st w) * SECOND), w\<lparr>ticks := ticks w + 1\<rparr>)"
  by (simp add: now_def read_clock_def op_simps)

lemma key_account_eq:
  "key_account e key w =
     (case key_record e (st w) key of None \<Rightarrow> (Inl (refuse 401 ''invalid_key''), w)
      | Some r \<Rightarrow> if k_revoked r then (Inl (refuse 401 ''invalid_key''), w)
          else let m = clock e (ticks w) + offset (st w) * SECOND; w' = w\<lparr>ticks := ticks w + 1\<rparr>
               in if (case k_retires r of None \<Rightarrow> True | Some t \<Rightarrow> m < stamp_time t) \<and> (case k_expires r of None \<Rightarrow> True | Some t \<Rightarrow> m < stamp_time t)
                  then (Inr r, w') else (Inl (refuse 401 ''invalid_key''), w'))"
  by (cases "key_record e (st w) key") (simp_all add: key_account_def op_simps now_eq Let_def)

lemma authorize_Inr:
  assumes "authorize e key scope ip w = (Inr r, w')"
  defines "m \<equiv> clock e (ticks w) + offset (st w) * SECOND"
  shows "key_record e (st w) key = Some r" "\<not> k_revoked r" "scope \<in> set (k_scopes r)" "k_ips r = [] \<or> address_in ip (k_ips r)"
    "k_expires r = Some t \<Longrightarrow> m < stamp_time t" "k_retires r = Some t \<Longrightarrow> m < stamp_time t"
proof -
  obtain w1 where k: "key_account e key w = (Inr r, w1)" and rest: "k_ips r = [] \<or> address_in ip (k_ips r)" "scope \<in> set (k_scopes r)"
    using assms(1) by (auto simp: authorize_def bind_op_Inr seq_op_Inr op_steps split: if_splits)
  show "scope \<in> set (k_scopes r)" "k_ips r = [] \<or> address_in ip (k_ips r)" by (rule rest)+
  obtain r0 where r0: "key_record e (st w) key = Some r0" using k by (cases "key_record e (st w) key") (simp_all add: key_account_eq)
  then have "r0 = r \<and> \<not> k_revoked r0 \<and> (case k_retires r0 of None \<Rightarrow> True | Some t \<Rightarrow> m < stamp_time t)
     \<and> (case k_expires r0 of None \<Rightarrow> True | Some t \<Rightarrow> m < stamp_time t)"
    unfolding m_def using k by (simp add: key_account_eq Let_def split: if_splits)
  then show "key_record e (st w) key = Some r" "\<not> k_revoked r" "k_expires r = Some t \<Longrightarrow> m < stamp_time t"
    "k_retires r = Some t \<Longrightarrow> m < stamp_time t"
    using r0 by auto
qed

lemma key_options_Inr:
  assumes "key_options e body m = Inr opts"
  shows "set (ko_scopes opts) \<subseteq> set SCOPES" "ko_scopes opts \<noteq> []" "length (ko_ips opts) \<le> KEY_IPS"
    "ko_expires opts = Some t \<Longrightarrow> m < stamp_time t" "length (ko_note opts) \<le> 100"
    "kb_scopes body = Given ss \<Longrightarrow> set (ko_scopes opts) = set ss"
proof -
  let ?bad = "refuse 400 ''invalid_request''" and ?note = "case kb_note body of None \<Rightarrow> [] | Some t \<Rightarrow> t"
  obtain scopes expires ips where sc: "(case kb_scopes body of Absent \<Rightarrow> Inr SCOPES | Malformed \<Rightarrow> Inl ?bad
        | Given ss \<Rightarrow> if ss = [] \<or> \<not> set ss \<subseteq> set SCOPES then Inl ?bad else Inr ss) = Inr scopes"
    and ex: "(case kb_expires body of Absent \<Rightarrow> Inr None | Malformed \<Rightarrow> Inl ?bad
        | Given t \<Rightarrow> if stamp_time t \<le> m then Inl ?bad else Inr (Some t)) = Inr expires"
    and ip: "(case kb_ips body of Absent \<Rightarrow> Inr [] | Malformed \<Rightarrow> Inl ?bad | Given ns \<Rightarrow> if KEY_IPS < length ns then Inl ?bad else Inr ns) = Inr ips"
    and o: "ko_scopes opts = filter (\<lambda>s. s \<in> set scopes) SCOPES" "ko_expires opts = expires" "ko_ips opts = ips"
      "ko_note opts = strip_text ?note" "length ?note \<le> 100"
    using assms unfolding key_options_def Let_def bind_result_Inr by (elim exE conjE) (auto split: if_split_asm)
  have s: "scopes \<noteq> [] \<and> set scopes \<subseteq> set SCOPES \<and> (kb_scopes body = Given ss \<longrightarrow> scopes = ss)"
    using sc by (cases "kb_scopes body") (auto simp: SCOPES_def split: if_splits)
  then have eq: "set (ko_scopes opts) = set scopes" using o(1) by auto
  show "set (ko_scopes opts) \<subseteq> set SCOPES" using o(1) by simp
  show "ko_scopes opts \<noteq> []" using eq s by (metis set_empty)
  show "kb_scopes body = Given ss \<Longrightarrow> set (ko_scopes opts) = set ss" using eq s by simp
  show "length (ko_ips opts) \<le> KEY_IPS" using ip o(3) by (cases "kb_ips body") (auto split: if_splits)
  show "ko_expires opts = Some t \<Longrightarrow> m < stamp_time t" using ex o(2) by (cases "kb_expires body") (auto split: if_splits)
  have "length (strip_text ?note) \<le> length ?note" by (rule length_strip_text)
  then show "length (ko_note opts) \<le> 100" using o(4,5) by simp
qed

end
