(* ===== verification/Samples.thy ===== *)
theory Samples
  imports World
begin

text \<open>
  Inputs for the examples: the settings the site publishes (\<open>site/pricing.js\<close>), a clock that starts
  on 2027-01-06T03:00Z and advances a second at each reading, tokens that never repeat, and a
  process with an empty ledger. The sandbox opens both Fleets.
\<close>

definition sample_rules :: rules where
  "sample_rules = \<lparr>hourHC = 1, weekHC = 144, discounts = [(4, 1 / 20), (13, 1 / 10), (26, 3 / 20), (52, 1 / 5)], maxWeeksAhead = 52,
     demoDaysAhead = 7, demoHoursPerWeek = 24, maintenanceHoursPerWeek = 3\<rparr>"

definition sample_pricing :: pricing where
  "sample_pricing = \<lparr>pr_fleets =
       [\<lparr>fl_id = ''F1'', fl_name = ''Fleet 1'', fl_state = ''serving'', fl_rate = 1, fl_demo = True\<rparr>,
        \<lparr>fl_id = ''F3'', fl_name = ''Fleet 3'', fl_state = ''building'', fl_rate = 1, fl_demo = False\<rparr>],
     pr_rules = sample_rules, pr_min = 1,
     pr_prices = [\<lparr>pt_from = 1, pt_usd = 20, pt_krw = 26000\<rparr>, \<lparr>pt_from = 144, pt_usd = 15, pt_krw = 19500\<rparr>],
     validityMonths = 12, vatRate = 1 / 10, swiftVatRate = 0, demoFrom = 20788, weeksFrom = 20822\<rparr>"

definition sample_start :: moment where
  "sample_start = 20824 * DAY + 3 * HOUR"

definition sample_env :: env where
  "sample_env = \<lparr>digest = sample_digest, clock = (\<lambda>n. sample_start + int n * SECOND), monotonic = (\<lambda>n. int n * SECOND),
     token = (\<lambda>n. replicate n CHR ''A'' @ ''B''), key_digest = (\<lambda>t. t), sandbox = True, settings = sample_pricing,
     terms = (''KO'', ''EN''), notify_to = ''n@s.kr'', health_seconds = 30, fuel = 100\<rparr>"

definition empty_notifier :: notifier where
  "empty_notifier = \<lparr>nf_heap = [], nf_count = 0, nf_known = [], nf_deliveries = \<lparr>jr_files = [], jr_offsets = [], jr_once = []\<rparr>\<rparr>"

definition empty_uptime :: uptime_store where
  "empty_uptime = \<lparr>up_state = [], up_recent = [], up_months = []\<rparr>"

definition empty_world :: world where
  "empty_world = store.extend empty_store \<lparr>ticks = 0, beats = 0, draws = 0, notices = \<lparr>jr_files = [], jr_offsets = [], jr_once = []\<rparr>,
     notifier = empty_notifier, mails = [], audits = \<lparr>us_files = [], us_ids = []\<rparr>, hooks = [], uptime = empty_uptime\<rparr>"

lemma synced_empty_world: "synced empty_world"
  by (simp add: synced_def empty_world_def store.defs empty_store_def init_book_def)

end
