(* ===== verification/App_State.thy ===== *)
theory App_State
  imports Keys Samples
begin

text \<open>
  The rest of the state of class \<open>App\<close> of \<open>tools/sparkpipe_pay.py\<close> (sign-in codes, request
  counts, jobs, sessions, request records), its settings, and the limits on how often a client
  may call. \<open>cfg_mac\<close> is the keyed hash (HMAC-SHA256 in hexadecimal) under the process's session
  key and \<open>cfg_code\<close> the stream of random six-digit codes.
\<close>

section \<open>Settings and state\<close>

record cfg =
  cfg_swift :: bool
  cfg_toss :: bool
  cfg_capacity :: nat
  cfg_mac :: "string \<Rightarrow> string"
  cfg_code :: "nat \<Rightarrow> string"

record code_entry =
  cd_digest :: string
  cd_expires :: duration
  cd_tries :: nat

record session =
  se_session :: ident
  se_account :: ident
  se_member :: "ident option"
  se_device :: string
  se_created :: stamp
  se_expires :: stamp

datatype job = Invoice_job ident | Toss_job ident

record request_record =
  rq_texts :: "(string, string) dict"
  rq_numbers :: "(string, decimal) dict"
  rq_at :: stamp

definition request_text :: "string \<Rightarrow> request_record \<Rightarrow> string" where
  "request_text name r = (case dget (rq_texts r) name of None \<Rightarrow> [] | Some t \<Rightarrow> t)"

definition request_shape :: "request_record shape" where
  "request_shape = \<lparr>sh_account = request_text ''account'', sh_at = rq_at, sh_ident = request_text ''request''\<rparr>"

record app = world +
  codes :: "(string, code_entry) dict"
  hits :: "(string \<times> string, duration list) dict"
  jobs :: "job list"
  calls :: nat
  sessions :: "(string, session) dict"
  usages :: "request_record usage"

section \<open>Limits\<close>

definition LIMITS :: "(string, nat \<times> int) dict" where
  "LIMITS = [(''code'', 20, 600), (''code-email'', 5, 3600), (''verify'', 30, 600), (''order'', 10, 600), (''read'', 240, 600),
     (''market'', 240, 600), (''gateway'', 6000, 600)]"

definition recent_hits :: "duration \<Rightarrow> duration \<Rightarrow> duration list \<Rightarrow> duration list" where
  "recent_hits t window hs = dropWhile (\<lambda>h. h < t - window) hs"

definition limit :: "env \<Rightarrow> string \<times> string \<Rightarrow> nat \<Rightarrow> int \<Rightarrow> ('a app_scheme, unit) op" where
  "limit e key most window =
     bind_op (read_monotonic e) (\<lambda>t.
     bind_op (gets (\<lambda>w. recent_hits t (window * SECOND) (case dget (hits w) key of None \<Rightarrow> [] | Some hs \<Rightarrow> hs))) (\<lambda>hs.
       if most \<le> length hs
       then seq_op (modify (\<lambda>w. w\<lparr>hits := dset key hs (hits w)\<rparr>)) (raise (refuse 429 ''busy''))
       else modify (\<lambda>w. w\<lparr>hits := dset key (hs @ [t]) (hits w)\<rparr>)))"

definition throttle :: "env \<Rightarrow> string \<Rightarrow> string \<Rightarrow> ('a app_scheme, unit) op" where
  "throttle e kind who = (case dget LIMITS kind of None \<Rightarrow> raise KeyError | Some (most, window) \<Rightarrow> limit e (kind, who) most window)"

definition throttle_gateway :: "env \<Rightarrow> cfg \<Rightarrow> ident \<Rightarrow> ('a app_scheme, unit) op" where
  "throttle_gateway e c account =
     bind_op (gateway_share e account) (\<lambda>(holder, rented).
       if \<not> holder then throttle e ''gateway'' account
       else limit e (''gateway-holder'', account) (max 1 (cfg_capacity c div max 1 rented)) 600)"

section \<open>What a limit promises\<close>

text \<open>The times at which \<open>n\<close> calls with one key were accepted.\<close>

fun limit_run :: "env \<Rightarrow> string \<times> string \<Rightarrow> nat \<Rightarrow> int \<Rightarrow> nat \<Rightarrow> 'a app_scheme \<Rightarrow> duration list \<times> 'a app_scheme" where
  "limit_run e key most window 0 w = ([], w)"
| "limit_run e key most window (Suc n) w =
     (case limit_run e key most window n w of (ts, w1) \<Rightarrow>
       (case limit e key most window w1 of (Inl _, w2) \<Rightarrow> (ts, w2) | (Inr _, w2) \<Rightarrow> (ts @ [monotonic e (beats w1)], w2)))"

definition hits_within :: "duration \<Rightarrow> duration \<Rightarrow> duration list \<Rightarrow> nat" where
  "hits_within t window hs = length (filter (\<lambda>h. t - window \<le> h \<and> h \<le> t) hs)"

lemma recent_hits_sorted: "sorted hs \<Longrightarrow> recent_hits t window hs = filter (\<lambda>h. t - window \<le> h) hs"
  unfolding recent_hits_def
proof (induction hs)
  case (Cons h hs)
  show ?case
  proof (cases "h < t - window")
    case True
    then show ?thesis using Cons by simp
  next
    case False
    then have "filter (\<lambda>h. t - window \<le> h) (h # hs) = h # hs" using Cons.prems by (intro filter_True) auto
    then show ?thesis using False by simp
  qed
qed simp

abbreviation hits_of :: "string \<times> string \<Rightarrow> 'a app_scheme \<Rightarrow> duration list" where
  "hits_of key w \<equiv> (case dget (hits w) key of None \<Rightarrow> [] | Some hs \<Rightarrow> hs)"

lemma limit_eq:
  "limit e key most window w =
     (let t = monotonic e (beats w); hs = recent_hits t (window * SECOND) (hits_of key w);
          w' = w\<lparr>beats := beats w + 1\<rparr>
      in if most \<le> length hs then (Inl (refuse 429 ''busy''), w'\<lparr>hits := dset key hs (hits w)\<rparr>)
         else (Inr (), w'\<lparr>hits := dset key (hs @ [t]) (hits w)\<rparr>))"
  by (simp add: limit_def read_monotonic_def op_simps Let_def)

text \<open>What the deque of a key holds after some calls: the accepted times that are still recent at the last of them.\<close>

lemma hits_within_snoc:
  assumes "\<And>h. h \<in> set ts \<Longrightarrow> h \<le> t" "length (filter (\<lambda>h. t - window \<le> h) ts) < most"
    "\<And>s. hits_within s window ts \<le> most"
  shows "hits_within s window (ts @ [t]) \<le> most"
proof (cases "s < t")
  case True
  then show ?thesis using assms(3) by (simp add: hits_within_def)
next
  case False
  have "length (filter (\<lambda>h. s - window \<le> h \<and> h \<le> s) ts) \<le> length (filter (\<lambda>h. t - window \<le> h) ts)"
  proof -
    have "filter (\<lambda>h. s - window \<le> h \<and> h \<le> s) ts = filter (\<lambda>h. s - window \<le> h \<and> h \<le> s) (filter (\<lambda>h. t - window \<le> h) ts)"
      using False by (auto intro: filter_cong)
    then show ?thesis by (metis length_filter_le)
  qed
  then show ?thesis using assms(2) by (simp add: hits_within_def)
qed

lemma limit_run_invariant:
  assumes mono: "mono (monotonic e)" and start: "dget (hits w) key = None" and run: "limit_run e key most window n w = (ts, w')"
  shows "beats w' = beats w + n \<and> sorted ts \<and> (\<forall>h\<in>set ts. h \<le> monotonic e (beats w + n))
    \<and> (\<forall>t\<ge>monotonic e (beats w + n). recent_hits t (window * SECOND) (hits_of key w') = filter (\<lambda>h. t - window * SECOND \<le> h) ts)
    \<and> sorted (hits_of key w') \<and> (\<forall>s. hits_within s (window * SECOND) ts \<le> most)"
  using run
proof (induction n arbitrary: ts w')
  case 0
  then show ?case using start by (auto simp: hits_within_def recent_hits_def)
next
  case (Suc n)
  obtain us v where r: "limit_run e key most window n w = (us, v)" by (cases "limit_run e key most window n w")
  note I = Suc.IH [OF r]
  let ?t = "monotonic e (beats v)" and ?W = "window * SECOND"
  have t: "?t = monotonic e (beats w + n)" and later: "monotonic e (beats w + n) \<le> monotonic e (beats w + Suc n)"
    using I mono by (auto simp: monoD)
  define hs where "hs = filter (\<lambda>h. ?t - ?W \<le> h) us"
  have hs: "recent_hits ?t ?W (hits_of key v) = hs" using I t by (simp add: hs_def)
  have srt: "sorted hs" "\<And>h. h \<in> set hs \<Longrightarrow> h \<le> ?t" using I t by (auto simp: hs_def sorted_wrt_filter)
  have deque: "recent_hits t ?W (hs @ xs) = filter (\<lambda>h. t - ?W \<le> h) (us @ xs)" if "?t \<le> t" "sorted (hs @ xs)" for t xs
  proof -
    have "filter (\<lambda>h. t - ?W \<le> h) hs = filter (\<lambda>h. t - ?W \<le> h) us" unfolding hs_def filter_filter using that(1) by (auto intro: filter_cong)
    then show ?thesis using recent_hits_sorted [OF that(2)] by simp
  qed
  show ?case
  proof (cases "most \<le> length hs")
    case True
    then have eq: "ts = us" "hits_of key w' = hs" "beats w' = beats v + 1"
      using Suc.prems r hs by (auto simp: limit_eq Let_def)
    show ?thesis unfolding eq using I t later srt deque [where xs = "[]"] by auto
  next
    case False
    then have eq: "ts = us @ [?t]" "hits_of key w' = hs @ [?t]" "beats w' = beats v + 1"
      using Suc.prems r hs by (auto simp: limit_eq Let_def)
    have s: "sorted (hs @ [?t])" using srt by (simp add: sorted_append)
    have "hits_within s ?W (us @ [?t]) \<le> most" for s
      using I t False by (intro hits_within_snoc) (auto simp: hs_def)
    moreover have "sorted (us @ [?t])" using I t by (simp add: sorted_append)
    ultimately show ?thesis unfolding eq using I t later s deque [OF _ s] by auto
  qed
qed

definition empty_app :: app where
  "empty_app = world.extend empty_world
     \<lparr>codes = [], hits = [], jobs = [], calls = 0, sessions = [], usages = \<lparr>us_files = [], us_ids = []\<rparr>\<rparr>"

text \<open>
  C34. However often a client calls, a limit accepts at most its number of calls within any closed
  window of its length, as long as the monotonic clock does not go back.
\<close>

theorem limit_window:
  assumes "mono (monotonic e)" "dget (hits w) key = None"
  shows "hits_within t (window * SECOND) (fst (limit_run e key most window n w)) \<le> most"
proof -
  obtain ts w' where r: "limit_run e key most window n w = (ts, w')" by fastforce
  then show ?thesis using limit_run_invariant [OF assms r] by simp
qed

theorem limit_window_witness:
  "hits_within (3 * SECOND) (600 * SECOND) (fst (limit_run sample_env (''code'', ''ip'') 2 600 4 empty_app)) \<le> 2
     \<and> fst (limit_run sample_env (''code'', ''ip'') 2 600 4 empty_app) = [0, SECOND]"
proof -
  have "mono (monotonic sample_env)" by (auto simp: sample_env_def mono_def SECOND_def)
  moreover have "dget (hits empty_app) (''code'', ''ip'') = None" by (simp add: empty_app_def world.defs)
  moreover have "fst (limit_run sample_env (''code'', ''ip'') 2 600 4 empty_app) = [0, SECOND]" by code_simp
  ultimately show ?thesis using limit_window [of sample_env empty_app "(''code'', ''ip'')" "3 * SECOND" 600 2 4] by blast
qed

end
