(* ===== verification/Sessions.thy ===== *)
theory Sessions
  imports App_State
begin

text \<open>
  Who is calling (class \<open>App\<close> of \<open>tools/sparkpipe_pay.py\<close>): the signed session cookie, bearer
  sessions and API keys, and the account, member and role behind them. A header arrives as its
  text. \<open>basic\<close> stands for Base64 decoding of a Basic credential.
\<close>

type_synonym actor = "ident \<times> ident \<times> string"

section \<open>The session cookie\<close>

text \<open>
  \<open>str.isdigit\<close> holds of the superscript digits of Latin-1 too, which \<open>int\<close> does not read. A
  cookie with one of them for its time raises.
\<close>

definition isdigit :: "string \<Rightarrow> bool" where
  "isdigit t \<longleftrightarrow> t \<noteq> [] \<and> (\<forall>c\<in>set t. digit c \<or> code_of c \<in> {178, 179, 185})"

definition int_of_text :: "string \<Rightarrow> int fallible" where
  "int_of_text t = (if t \<noteq> [] \<and> list_all digit t then Inr (digits_value t) else Inl ValueError)"

definition session_token :: "(string \<Rightarrow> string) \<Rightarrow> ident \<Rightarrow> nat \<Rightarrow> string" where
  "session_token mac account expires = (let body = account @ ''.'' @ nat_text expires in body @ ''.'' @ mac body)"

definition session_account :: "(string \<Rightarrow> string) \<Rightarrow> string option \<Rightarrow> int \<Rightarrow> ident option fallible" where
  "session_account mac given_token t =
     (case given_token of None \<Rightarrow> Inr None
      | Some text \<Rightarrow> (case split_on CHR ''.'' text of
            [account, expires, given] \<Rightarrow>
              if \<not> isdigit expires then Inr None
              else bind_result (int_of_text expires) (\<lambda>n.
                if n < t then Inr None
                else Inr (if mac (account @ ''.'' @ expires) = given then Some account else None))
          | _ \<Rightarrow> Inr None))"

section \<open>Credentials\<close>

record headers =
  hd_authorization :: string
  hd_api_key :: string
  hd_cookie :: string

definition credential :: "(string \<Rightarrow> string option) \<Rightarrow> headers \<Rightarrow> string" where
  "credential basic h =
     (let given = strip_text (hd_authorization h) in
      if lower_text (take 7 given) = ''bearer '' then strip_text (drop 7 given)
      else if lower_text (take 6 given) = ''basic '' then
        (case basic (strip_text (drop 6 given)) of None \<Rightarrow> []
         | Some t \<Rightarrow> strip_text (case after_char CHR '':'' t of None \<Rightarrow> [] | Some u \<Rightarrow> u))
      else strip_text (hd_api_key h))"

definition BEARER :: string where "BEARER = ''sps-''"
definition BEARER_SECONDS :: int where "BEARER_SECONDS = 90 * 86400"
definition SESSION_SECONDS :: int where "SESSION_SECONDS = 30 * 86400"
definition COOKIE :: string where "COOKIE = ''sp_session''"

definition is_bearer :: "string \<Rightarrow> bool" where
  "is_bearer given = (take (length BEARER) given = BEARER)"

definition cookie_jar :: "string \<Rightarrow> (string, string) dict" where
  "cookie_jar text = foldl (\<lambda>jar part. let p = strip_text part
     in dset (before_char CHR ''='' p) (case after_char CHR ''='' p of None \<Rightarrow> [] | Some v \<Rightarrow> v) jar) [] (split_on CHR '';'' text)"

section \<open>Actors\<close>

definition resolve :: "book \<Rightarrow> ident \<Rightarrow> actor option" where
  "resolve b subject =
     (if dget (accounts b) subject \<noteq> None then Some (subject, subject, ''owner'')
      else case dget (members b) subject of None \<Rightarrow> None
      | Some m \<Rightarrow> if \<not> ms_removed m \<and> dget (accounts b) (mb_account m) \<noteq> None then Some (mb_account m, subject, mb_role m) else None)"

definition bearer_actor :: "env \<Rightarrow> string \<Rightarrow> ('a app_scheme, actor option) op" where
  "bearer_actor e given =
     bind_op (gets (\<lambda>w. rec_get (key_digest e given) (sessions w))) (\<lambda>found. case found of None \<Rightarrow> ret None
     | Some r \<Rightarrow> bind_op (read_clock e) (\<lambda>m.
         if stamp_time (se_expires r) \<le> m then ret None
         else gets (\<lambda>w. case resolve (book w) (if truthy (se_member r) then the (se_member r) else se_account r) of
             None \<Rightarrow> None | Some a \<Rightarrow> if fst a = se_account r then Some a else None)))"

definition actor_of :: "env \<Rightarrow> cfg \<Rightarrow> (string \<Rightarrow> string option) \<Rightarrow> headers \<Rightarrow> ('a app_scheme, actor option) op" where
  "actor_of e c basic h =
     (let token = credential basic h in
      if is_bearer token then bearer_actor e token
      else bind_op (read_clock e) (\<lambda>m.
           bind_op (lift (session_account (cfg_mac c) (dget (cookie_jar (hd_cookie h)) COOKIE) (m div SECOND))) (\<lambda>subject.
             gets (\<lambda>w. case subject of None \<Rightarrow> None | Some i \<Rightarrow> resolve (book w) i))))"

definition open_bearer :: "env \<Rightarrow> ident \<Rightarrow> ident \<Rightarrow> string \<Rightarrow> ('a app_scheme, string \<times> stamp) op" where
  "open_bearer e account member device =
     bind_op (new_id e BEARER) (\<lambda>token.
     bind_op (read_clock e) (\<lambda>m.
     bind_op (new_id e ''SE'') (\<lambda>ident.
     (let expires = stamp (m + BEARER_SECONDS * SECOND) in
      seq_op (modify (\<lambda>w. w\<lparr>sessions := rec_put (key_digest e token) \<lparr>se_session = ident, se_account = account, se_member = Some member,
                se_device = device, se_created = stamp m, se_expires = expires\<rparr> (sessions w)\<rparr>))
             (ret (token, expires))))))"

definition sign_out :: "env \<Rightarrow> cfg \<Rightarrow> (string \<Rightarrow> string option) \<Rightarrow> headers \<Rightarrow> ('a app_scheme, unit) op" where
  "sign_out e c basic h =
     (let token = credential basic h in
      bind_op (actor_of e c basic h) (\<lambda>found.
      seq_op (if is_bearer token then modify (\<lambda>w. w\<lparr>sessions := snd (rec_drop (key_digest e token) (sessions w))\<rparr>) else ret ())
             (case found of None \<Rightarrow> ret ()
              | Some (account, member, role) \<Rightarrow> audit e account member ''session.sign_out'' [if is_bearer token then ''bearer'' else ''cookie''] None)))"

definition own_session :: "actor \<Rightarrow> session \<Rightarrow> bool" where
  "own_session a r = (case a of (account, member, role) \<Rightarrow> se_account r = account
     \<and> (role = ''owner'' \<or> (case se_member r of None \<Rightarrow> account | Some m \<Rightarrow> m) = member))"

definition revoke_session :: "actor \<Rightarrow> ident \<Rightarrow> ('a app_scheme, ident) op" where
  "revoke_session a found =
     bind_op (gets (\<lambda>w. rec_find (\<lambda>r. se_session r = found \<and> own_session a r) (sessions w))) (\<lambda>v. case v of
       None \<Rightarrow> raise (Refusal 404 None)
     | Some (key, r) \<Rightarrow> seq_op (modify (\<lambda>w. w\<lparr>sessions := snd (rec_drop key (sessions w))\<rparr>)) (ret found))"

definition require_role :: "actor \<Rightarrow> string list \<Rightarrow> ('s, unit) op" where
  "require_role a roles = require (snd (snd a) \<in> set roles) (refuse 403 ''role'')"

definition sessions_of :: "env \<Rightarrow> actor \<Rightarrow> ('a app_scheme, session list) op" where
  "sessions_of e a =
     bind_op (read_clock e) (\<lambda>m. gets (\<lambda>w. sort_key (\<lambda>r. (se_created r, se_session r))
       (filter (\<lambda>r. own_session a r \<and> m < stamp_time (se_expires r)) (dvalues (sessions w)))))"

definition need_actor :: "env \<Rightarrow> cfg \<Rightarrow> (string \<Rightarrow> string option) \<Rightarrow> headers \<Rightarrow> ('a app_scheme, actor) op" where
  "need_actor e c basic h = bind_op (actor_of e c basic h) (\<lambda>found. case found of None \<Rightarrow> raise (Refusal 401 None) | Some a \<Rightarrow> ret a)"

definition need_owner :: "env \<Rightarrow> cfg \<Rightarrow> (string \<Rightarrow> string option) \<Rightarrow> headers \<Rightarrow> string list \<Rightarrow> ('a app_scheme, ident) op" where
  "need_owner e c basic h roles = bind_op (need_actor e c basic h) (\<lambda>a. seq_op (require_role a roles) (ret (fst a)))"

record principal =
  pr_account :: ident
  pr_record :: "api_key option"
  pr_via :: string
  pr_member :: ident
  pr_role :: string

definition principal_of :: "env \<Rightarrow> cfg \<Rightarrow> (string \<Rightarrow> string option) \<Rightarrow> headers \<Rightarrow> address option \<Rightarrow> string \<Rightarrow> ('a app_scheme, principal) op" where
  "principal_of e c basic h ip scope =
     (let token = credential basic h in
      bind_op
        (if is_bearer token then
           bind_op (bearer_actor e token) (\<lambda>found. case found of None \<Rightarrow> raise (refuse 401 ''invalid_key'') | Some a \<Rightarrow> ret (a, None, ''bearer''))
         else if token \<noteq> [] then
           bind_op (authorize e token scope ip) (\<lambda>r.
           bind_op (gets (\<lambda>w. resolve (book w) (k_member r))) (\<lambda>found. case found of None \<Rightarrow> raise (refuse 401 ''invalid_key'')
           | Some a \<Rightarrow> if fst a = k_account r then ret (a, Some r, ''key'') else raise (refuse 401 ''invalid_key'')))
         else bind_op (actor_of e c basic h) (\<lambda>found. case found of None \<Rightarrow> raise (refuse 401 ''invalid_key'') | Some a \<Rightarrow> ret (a, None, ''cookie'')))
        (\<lambda>((account, member, role), record, via).
         seq_op (require (role \<in> set ROLES) KeyError)
        (seq_op (require (scope \<in> set (ROLE_SCOPES role)) (refuse 403 ''invalid_key''))
                (ret \<lparr>pr_account = account, pr_record = record, pr_via = via, pr_member = member, pr_role = role\<rparr>))))"

section \<open>What a cookie proves\<close>

lemma session_account_Some:
  assumes "session_account mac given t = Inr (Some account)"
  obtains expires where "given = Some (account @ ''.'' @ expires @ ''.'' @ mac (account @ ''.'' @ expires))"
    "list_all digit expires" "t \<le> digits_value expires"
proof -
  obtain whole where t: "given = Some whole" using assms by (cases given) (auto simp: session_account_def)
  have "length (split_on CHR ''.'' whole) = 3"
    using assms t by (auto simp: session_account_def split: list.splits)
  then obtain a x g where p: "split_on CHR ''.'' whole = [a, x, g]"
    by (auto simp: length_Suc_conv eval_nat_numeral)
  then have v: "list_all digit x" "t \<le> digits_value x" "mac (a @ ''.'' @ x) = g" "a = account"
    using assms t by (auto simp: session_account_def bind_result_Inr int_of_text_def split: if_splits)
  have "whole = a @ ''.'' @ x @ ''.'' @ g" using split_on_parts [of "CHR ''.''" whole] p by simp
  then show thesis using that [of x] t v by simp
qed

text \<open>
  A session cookie made at sign-in is read back as its account until it expires, given that
  neither the account's id nor the keyed hash, which is written in hexadecimal, holds a dot.
\<close>

theorem session_token_roundtrip:
  assumes "CHR ''.'' \<notin> set account" "\<And>body. CHR ''.'' \<notin> set (mac body)"
  shows "session_account mac (Some (session_token mac account expires)) t = Inr (if t \<le> int expires then Some account else None)"
proof -
  let ?x = "nat_text expires"
  have x: "CHR ''.'' \<notin> set ?x" using nat_text_spec [of expires] digits_no_dot by blast
  have "split_on CHR ''.'' (session_token mac account expires) = [account, ?x, mac (account @ ''.'' @ ?x)]"
    using split_on_snoc [OF assms(1), of "?x @ CHR ''.'' # mac (account @ ''.'' @ ?x)"] split_on_snoc [OF x, of "mac (account @ ''.'' @ ?x)"]
      split_on_none [OF assms(2) [of "account @ ''.'' @ ?x"]]
    by (simp add: session_token_def Let_def)
  moreover have "isdigit ?x" "int_of_text ?x = Inr (int expires)"
    using nat_text_spec [of expires] by (auto simp: isdigit_def int_of_text_def list_all_iff)
  ultimately show ?thesis by (simp add: session_account_def)
qed

theorem session_token_roundtrip_witness:
  "session_account (\<lambda>body. map (\<lambda>c. CHR ''f'') body) (Some (session_token (\<lambda>body. map (\<lambda>c. CHR ''f'') body) ''AC1'' 1500)) 1400 = Inr (Some ''AC1'')"
proof -
  have "CHR ''.'' \<notin> set (map (\<lambda>c. CHR ''f'') body)" for body :: string by (induction body) auto
  then show ?thesis using session_token_roundtrip [of "''AC1''" "\<lambda>body. map (\<lambda>c. CHR ''f'') body" 1500 1400] by simp
qed

text \<open>
  C27. A cookie is taken for an account only if it is the account, a time that has not passed and
  the keyed hash of both: without the session key no cookie can be made for another account or
  a later time.
\<close>

theorem session_account_signed:
  assumes "session_account mac given t = Inr (Some account)"
  shows "\<exists>expires. given = Some (account @ ''.'' @ expires @ ''.'' @ mac (account @ ''.'' @ expires)) \<and> t \<le> digits_value expires"
  using session_account_Some [OF assms] by blast

theorem session_account_signed_witness:
  "\<exists>expires. Some ''A.9.ff'' = Some (''A'' @ ''.'' @ expires @ ''.'' @ (\<lambda>body. ''ff'') (''A'' @ ''.'' @ expires)) \<and> 5 \<le> digits_value expires"
  by (rule session_account_signed) code_simp

text \<open>
  A cookie whose time is a superscript digit raises \<open>ValueError\<close>, whatever its signature: the
  test \<open>isdigit\<close> lets it pass and \<open>int\<close> does not read it.
\<close>

theorem session_account_superscript:
  "session_account mac (Some (''A.'' @ [char_of (178::nat)] @ ''.b'')) t = Inl ValueError"
proof -
  have "char_of (178::nat) \<noteq> CHR ''.''" by code_simp
  then show ?thesis by (simp add: session_account_def isdigit_def int_of_text_def digit_def code_of_char_of)
qed

end
