(* ===== verification/Payments.thy ===== *)
theory Payments
  imports App_State
begin

text \<open>
  Buying hour-credits (class \<open>App\<close> of \<open>tools/sparkpipe_pay.py\<close>): amounts of money, the terms of
  an order, ordering by coin, by SWIFT and through Toss Payments, settling a payment and issuing
  what it bought, and refunds. What CoinPayments and Toss Payments answer is an argument: a
  function of the request and of how many calls were made before. The methods of Toss Payments,
  Korean words in the source, go by the English names of \<open>METHOD_EN\<close>.
\<close>

section \<open>Terms\<close>

definition COINS :: "string list" where
  "COINS = [''USDC.BASE'', ''USDC.SOL'', ''USDC.ARB'', ''USDC.POL'', ''USDC.BEP20'', ''USDC.ERC20'', ''USDT.TRC20'', ''USDT.SOL'', ''USDT.ARB'',
     ''USDT.POL'', ''USDT.BEP20'', ''USDT.ERC20'']"

definition coin_field :: "string \<Rightarrow> string fallible" where
  "coin_field value = (if value \<in> set COINS then Inr value else Inl (Refusal 400 None))"

record credit_quote =
  qt_currency :: string
  qt_hc :: decimal
  qt_price :: decimal
  qt_net :: decimal
  qt_vat_rate :: decimal
  qt_vat :: decimal
  qt_total :: decimal

definition price_step :: "price_tier list \<Rightarrow> decimal \<Rightarrow> price_tier option" where
  "price_step prices x = min_by (\<lambda>p. - pt_from p) (filter (\<lambda>p. pt_from p \<le> x) prices)"

definition credit_terms :: "pricing \<Rightarrow> string option \<Rightarrow> string \<Rightarrow> decimal option \<Rightarrow> credit_quote fallible" where
  "credit_terms pr value currency given =
     bind_result (quantity_field value (pr_min pr)) (\<lambda>x.
       case price_step (pr_prices pr) x of None \<Rightarrow> Inl ValueError
       | Some step \<Rightarrow>
           (let krw = (currency = ''KRW''); unit = (if krw then WON else CENT);
                price = (if krw then won (pt_krw step) else money (pt_usd step));
                rate = (case given of None \<Rightarrow> vatRate pr | Some r \<Rightarrow> r);
                net = quantize_half_up unit (price * x); vat = quantize_half_up unit (net * rate);
                shown = quantize_half_up unit
            in Inr \<lparr>qt_currency = (if krw then ''KRW'' else ''USD''), qt_hc = x, qt_price = shown price, qt_net = shown net,
                 qt_vat_rate = rate, qt_vat = shown vat, qt_total = shown (net + vat)\<rparr>))"

record order_body =
  ob_product :: string
  ob_processor :: "string option"
  ob_hc :: "string option"
  ob_coin :: string
  ob_brn :: "string field"
  ob_declare :: bool
  ob_accept :: bool

definition priced :: "env \<Rightarrow> order_body \<Rightarrow> ident \<Rightarrow> string \<Rightarrow> decimal option \<Rightarrow> ('a world_scheme, credit_quote) op" where
  "priced e body account currency rate =
     seq_op (require (ob_product body = ''credits'') (Refusal 400 None))
    (bind_op (lift (credit_terms (settings e) (ob_hc body) currency rate)) (\<lambda>q.
     seq_op (require_terms e account (ob_accept body)) (ret q)))"

definition order_entry :: "credit_quote \<Rightarrow> ident \<Rightarrow> acct \<Rightarrow> string \<Rightarrow> order_data" where
  "order_entry q ident a processor =
     \<lparr>od_order = ident, od_account = ad_account a, od_email = ad_email a, od_company = ad_company a, od_processor = Some processor,
      od_currency = Some (qt_currency q), od_hc = qt_hc q, od_price = qt_price q, od_net = qt_net q, od_vat_rate = qt_vat_rate q, od_vat = qt_vat q,
      od_total = qt_total q, od_coin = None, od_reference = None, od_brn = None, od_expires = None\<rparr>"

definition account_record :: "ident \<Rightarrow> ('a world_scheme, acct) op" where
  "account_record account =
     bind_op (gets (\<lambda>w. dget (accounts (book w)) account)) (\<lambda>v. case v of None \<Rightarrow> raise KeyError | Some a \<Rightarrow> ret a)"

definition live_order :: "ident \<Rightarrow> ('a world_scheme, order) op" where
  "live_order order_id =
     bind_op (gets (\<lambda>w. dget (orders (book w)) order_id)) (\<lambda>v. case v of None \<Rightarrow> raise KeyError | Some o' \<Rightarrow> ret o')"

section \<open>Issuing what was paid for\<close>

definition issue_order :: "env \<Rightarrow> ident \<Rightarrow> payment_data \<Rightarrow> decimal \<Rightarrow> decimal \<Rightarrow> ('a world_scheme, lot_data) op" where
  "issue_order e order_id payment credits net =
     bind_op (live_order order_id) (\<lambda>o1.
     seq_op (if o_state o1 \<noteq> ''completed'' then bind_op (append e (Payment payment)) (\<lambda>_. ret ()) else ret ())
    (bind_op (append e (Hc_issued order_id (od_account o1) credits net)) (\<lambda>_.
     bind_op (issue e (od_account o1) credits order_id) (\<lambda>d.
     seq_op (mail e (od_email o1) ''Payment received'')
    (seq_op (mail e (notify_to e) ''Paid'') (ret d))))))"

section \<open>Coin payments\<close>

record coin_remote =
  cr_status :: string
  cr_total :: decimal
  cr_currency :: string
  cr_payments :: "decimal list"

definition USD :: string where "USD = ''5057''"

definition received_of :: "coin_remote \<Rightarrow> decimal" where
  "received_of r = money (sum_list (cr_payments r))"

definition covered :: "order \<Rightarrow> decimal \<Rightarrow> decimal \<times> decimal" where
  "covered order paid =
     (let share = min 1 (paid / od_total order); net = quantize_down CENT (od_net order * share)
      in (text_hc (net / od_price order), text_money net))"

definition no_changes :: changes where
  "no_changes = \<lparr>ch_state = None, ch_received = None, ch_reason = None, ch_method = None, ch_deposit = None, ch_expires = None\<rparr>"

definition settle :: "env \<Rightarrow> ident \<Rightarrow> coin_remote \<Rightarrow> bool \<Rightarrow> ('a world_scheme, lot_data option) op" where
  "settle e order_id remote released =
     (let state = cr_status remote; received = received_of remote in
     bind_op (live_order order_id) (\<lambda>o1.
       if o_issued o1 \<or> (o_state o1 = ''mismatch'' \<and> \<not> released) then ret None
       else let due = money (od_total o1); before = (case o_received o1 of None \<Rightarrow> 0 | Some x \<Rightarrow> x) in
       if state \<noteq> ''completed'' then
         (if (state \<noteq> o_state o1 \<and> o_state o1 \<noteq> ''completed'') \<or> (before = 0 \<and> 0 < received) \<or> 1 \<le> \<bar>received - before\<bar>
          then bind_op (append e (Order_state order_id
                 (no_changes\<lparr>ch_state := Some state, ch_received := (if received \<noteq> 0 then Some (text_money received) else None)\<rparr>))) (\<lambda>_. ret None)
          else ret None)
       else let matches = (cr_currency remote = USD \<and> money (cr_total remote) = due);
                full = (matches \<and> due \<le> received + CENT); short = (matches \<and> received + CENT < due) in
       if \<not> full \<and> \<not> short \<and> \<not> released then
         bind_op (append e (Order_state order_id (no_changes\<lparr>ch_state := Some ''mismatch'', ch_received := Some (text_money received)\<rparr>))) (\<lambda>_.
         seq_op (mail e (notify_to e) ''Payment to review'') (ret None))
       else let (credits, net) = (if full then (od_hc o1, od_net o1) else covered o1 received) in
       if \<not> 0 < credits then seq_op (mail e (notify_to e) ''Payment to review'') (ret None)
       else bind_op (issue_order e order_id \<lparr>py_order = order_id, py_total = od_total o1, py_received = text_money received,
                       py_currency = cr_currency remote, py_method = None, py_tax_invoice = None\<rparr> credits net) (\<lambda>d. ret (Some d))))"

text \<open>\<open>create\<close> is the processor's answer to the request for an invoice: its id and link, or none.\<close>

definition coin_order :: "env \<Rightarrow> (order_data \<Rightarrow> (ident \<times> string) option) \<Rightarrow> order_body \<Rightarrow> ident \<Rightarrow> ('a world_scheme, ident \<times> string) op" where
  "coin_order e create body account =
     bind_op (lift (coin_field (ob_coin body))) (\<lambda>coin.
     bind_op (account_record account) (\<lambda>a.
     bind_op (priced e body account ''USD'' None) (\<lambda>q.
     bind_op (new_id e ''SP'') (\<lambda>ident.
     (let d = (order_entry q ident a ''coinpayments'')\<lparr>od_account := account, od_coin := Some coin\<rparr> in
     bind_op (append e (Order d)) (\<lambda>_.
       case create d of
         None \<Rightarrow> bind_op (append e (Invoice_failed ident)) (\<lambda>_. raise (Refusal 502 None))
       | Some (invoice, link) \<Rightarrow> bind_op (append e (Invoice ident invoice link)) (\<lambda>_. ret (ident, link))))))))"

section \<open>SWIFT\<close>

fun swift_reference :: "nat \<Rightarrow> env \<Rightarrow> ('a world_scheme, string) op" where
  "swift_reference 0 e = raise Exhausted"
| "swift_reference (Suc n) e =
     bind_op (gets (\<lambda>w. map od_reference (dvalues (orders (book w))))) (\<lambda>taken.
     bind_op (new_id e ''SW'') (\<lambda>ident.
       if Some (take 10 ident) \<notin> set taken then ret (take 10 ident) else swift_reference n e))"

definition swift_order :: "env \<Rightarrow> cfg \<Rightarrow> order_body \<Rightarrow> ident \<Rightarrow> ('a world_scheme, order_data) op" where
  "swift_order e c body account =
     seq_op (require (cfg_swift c) (refuse 503 ''swift_closed''))
    (seq_op (require (ob_declare body) (refuse 400 ''declaration''))
    (bind_op (read_clock e) (\<lambda>m.
     bind_op (account_record account) (\<lambda>a.
     bind_op (priced e body account ''USD'' (Some (swiftVatRate (settings e)))) (\<lambda>q.
     bind_op (new_id e ''SP'') (\<lambda>ident.
     bind_op (swift_reference (fuel e) e) (\<lambda>reference.
     (let d = (order_entry q ident a ''swift'')\<lparr>od_account := account, od_reference := Some reference\<rparr> in
     bind_op (append e (Order d)) (\<lambda>_.
     seq_op (mail e (od_email d) ''Invoice'')
    (seq_op (mail e (notify_to e) ''SWIFT order'') (ret d)))))))))))"

definition swift_find :: "book \<Rightarrow> string \<Rightarrow> order fallible" where
  "swift_find b key =
     (let found = (case dget (orders b) key of Some o1 \<Rightarrow> Some o1
                   | None \<Rightarrow> find (\<lambda>o1. od_reference o1 = Some key) (dvalues (orders b)))
      in case found of None \<Rightarrow> Inl (Refusal 400 None)
         | Some o1 \<Rightarrow> if od_processor o1 = Some ''swift'' then Inr o1 else Inl (Refusal 400 None))"

definition swift_confirm :: "env \<Rightarrow> string \<Rightarrow> string option \<Rightarrow> ('a world_scheme, lot_data \<times> decimal) op" where
  "swift_confirm e key given =
     bind_op (lift (usd_field given)) (\<lambda>amount.
     bind_op (gets (\<lambda>w. swift_find (book w) key)) (\<lambda>r.
     bind_op (lift r) (\<lambda>o1.
     (let total = money (od_total o1) in
     seq_op (require (\<not> (o_issued o1 \<or> o_state o1 \<noteq> ''unpaid'')) (Refusal 400 None))
    (seq_op (require (total \<le> amount) (Refusal 400 None))
    (bind_op (append e (Order_state (od_order o1) (no_changes\<lparr>ch_state := Some ''paid'', ch_received := Some (text_money amount)\<rparr>))) (\<lambda>_.
     bind_op (issue_order e (od_order o1) \<lparr>py_order = od_order o1, py_total = od_total o1, py_received = text_money amount, py_currency = ''USD'',
                py_method = None, py_tax_invoice = None\<rparr> (od_hc o1) (od_net o1)) (\<lambda>d.
     seq_op (if total < amount then mail e (notify_to e) ''Overpaid by SWIFT'' else ret ())
            (ret (d, text_money (amount - total)))))))))))"

definition swift_cancel :: "env \<Rightarrow> string \<Rightarrow> string \<Rightarrow> ('a world_scheme, ident) op" where
  "swift_cancel e key reason =
     seq_op (require (reason \<noteq> []) (Refusal 400 None))
    (bind_op (gets (\<lambda>w. swift_find (book w) key)) (\<lambda>r.
     bind_op (lift r) (\<lambda>o1.
     seq_op (require (\<not> (o_issued o1 \<or> o_state o1 \<noteq> ''unpaid'')) (Refusal 400 None))
    (bind_op (append e (Order_state (od_order o1) (no_changes\<lparr>ch_state := Some ''cancelled'', ch_reason := Some reason\<rparr>))) (\<lambda>_.
     seq_op (mail e (od_email o1) ''Cancelled'') (ret (od_order o1)))))))"

end
