(* ===== verification/Toss.thy ===== *)
theory Toss
  imports Payments
begin

text \<open>
  Payments through Toss Payments and refunds (class \<open>App\<close> of \<open>tools/sparkpipe_pay.py\<close>), the
  dispatch of an order to its processor, and the queue of payment checks. The service is the
  parameter \<open>toss_api\<close>: what it answers to a confirmation, a query or a cancellation may depend on
  how many calls were made before. Its payment methods, Korean words in the source, go by the
  English names of \<open>METHOD_EN\<close>.
\<close>

section \<open>The service\<close>

record toss_remote =
  tr_status :: string
  tr_order :: "ident option"
  tr_key :: "string option"
  tr_currency :: "string option"
  tr_total :: "int option"
  tr_method :: string
  tr_easy_amount :: decimal
  tr_failure :: "string option"
  tr_deposit :: "string \<times> string \<times> string"
  tr_due :: "moment option"
  tr_balance :: "decimal option"

datatype toss_answer = Answered toss_remote | Declined string | Unreachable

datatype cancel_for = Mismatch | Expire | Refund_of decimal

record toss_api =
  tp_confirm :: "nat \<Rightarrow> string \<Rightarrow> ident \<Rightarrow> decimal \<Rightarrow> toss_answer"
  tp_payment :: "nat \<Rightarrow> string \<Rightarrow> toss_answer"
  tp_cancel :: "nat \<Rightarrow> string \<Rightarrow> ident \<Rightarrow> cancel_for \<Rightarrow> decimal option \<Rightarrow> toss_answer"

definition toss_call :: "(nat \<Rightarrow> 'b) \<Rightarrow> ('a app_scheme, 'b) op" where
  "toss_call f = bind_op (gets calls) (\<lambda>n. seq_op (modify (\<lambda>w. w\<lparr>calls := n + 1\<rparr>)) (ret (f n)))"

definition answered :: "toss_answer \<Rightarrow> ('a app_scheme, toss_remote) op" where
  "answered a = (case a of Answered r \<Rightarrow> ret r | Declined code \<Rightarrow> raise (RemoteError (Some code)) | Unreachable \<Rightarrow> raise (RemoteError None))"

definition toss_payment :: "toss_api \<Rightarrow> string \<Rightarrow> ('a app_scheme, toss_remote) op" where
  "toss_payment api key = bind_op (toss_call (\<lambda>n. tp_payment api n key)) answered"

section \<open>Ordering\<close>

definition TOSS_SECONDS :: int where "TOSS_SECONDS = 2700"
definition TOSS_OPEN :: "string list" where "TOSS_OPEN = [''created'', ''waiting'']"
definition PENDING_SECONDS :: int where "PENDING_SECONDS = 86400"

text \<open>The patterns end in \<open>$\<close>, which also matches before a final line break.\<close>

definition before_break :: "string \<Rightarrow> string" where
  "before_break t = (if t \<noteq> [] \<and> code_of (last t) = 10 then butlast t else t)"

definition TOSS_KEY :: "string \<Rightarrow> bool" where
  "TOSS_KEY t \<longleftrightarrow> (let k = before_break t in 1 \<le> length k \<and> length k \<le> 200 \<and> (\<forall>c\<in>set k. 33 \<le> code_of c \<and> code_of c \<le> 126))"

definition BRN :: "string \<Rightarrow> bool" where
  "BRN t \<longleftrightarrow> (let k = before_break t in length k = 12 \<and> list_all digit (take 3 k) \<and> k ! 3 = CHR ''-'' \<and> list_all digit (take 2 (drop 4 k))
     \<and> k ! 6 = CHR ''-'' \<and> list_all digit (drop 7 k))"

definition toss_order :: "env \<Rightarrow> cfg \<Rightarrow> order_body \<Rightarrow> ident \<Rightarrow> ('a world_scheme, ident) op" where
  "toss_order e c body account =
     seq_op (require (cfg_toss c) (refuse 503 ''cards_closed''))
    (bind_op (lift (optional_text (ob_brn body) 20)) (\<lambda>brn.
     seq_op (require (brn = [] \<or> BRN brn) (Refusal 400 None))
    (bind_op (read_clock e) (\<lambda>m.
     bind_op (account_record account) (\<lambda>a.
     bind_op (priced e body account ''KRW'' None) (\<lambda>q.
     bind_op (new_id e ''SP'') (\<lambda>ident.
     bind_op (append e (Order ((order_entry q ident a ''toss'')\<lparr>od_account := account, od_brn := Some brn,
        od_expires := Some (stamp (m + TOSS_SECONDS * SECOND))\<rparr>))) (\<lambda>_. ret ident))))))))"

datatype order_reply = Coin_reply ident string | Swift_reply order_data | Toss_reply ident

definition PROCESSORS :: "string list" where "PROCESSORS = [''coinpayments'', ''toss'', ''swift'']"

definition app_order :: "env \<Rightarrow> cfg \<Rightarrow> (order_data \<Rightarrow> (ident \<times> string) option) \<Rightarrow> order_body \<Rightarrow> ident \<Rightarrow> string \<Rightarrow> ('a app_scheme, order_reply) op" where
  "app_order e c create body account ip =
     (let processor = (case ob_processor body of None \<Rightarrow> ''coinpayments'' | Some p \<Rightarrow> p) in
     seq_op (throttle e ''order'' ip)
    (seq_op (require (processor \<in> set PROCESSORS) (Refusal 400 None))
    (if processor = ''toss'' then bind_op (toss_order e c body account) (\<lambda>i. ret (Toss_reply i))
     else seq_op (require (\<not> sandbox e) (Refusal 404 None))
    (if processor = ''swift'' then bind_op (swift_order e c body account) (\<lambda>d. ret (Swift_reply d))
     else bind_op (coin_order e create body account) (\<lambda>(i, link). ret (Coin_reply i link))))))"

definition app_buy ::
    "env \<Rightarrow> cfg \<Rightarrow> (order_data \<Rightarrow> (ident \<times> string) option) \<Rightarrow> order_body \<Rightarrow> ident \<Rightarrow> string \<Rightarrow> ('a app_scheme, lot_data + order_reply) op" where
  "app_buy e c create body account ip =
     (if sandbox e \<and> ob_processor body \<noteq> Some ''toss''
      then bind_op (lift (quantity_field (ob_hc body) (pr_min (settings e)))) (\<lambda>x. bind_op (buy e account x) (\<lambda>d. ret (Inl d)))
      else bind_op (app_order e c create (body\<lparr>ob_product := ''credits''\<rparr>) account ip) (\<lambda>r. ret (Inr r)))"

definition shown :: "order \<Rightarrow> order \<times> string option" where
  "shown o1 = (o1, if o_state o1 \<in> {''unpaid'', ''pending''} then o_link o1 else None)"

definition order_status :: "ident \<Rightarrow> ('a world_scheme, order \<times> string option) op" where
  "order_status order_id =
     bind_op (gets (\<lambda>w. dget (orders (book w)) order_id)) (\<lambda>v. case v of None \<Rightarrow> raise (Refusal 404 None) | Some o1 \<Rightarrow> ret (shown o1))"

section \<open>What Toss Payments reports\<close>

definition CASH_METHODS :: "string list" where "CASH_METHODS = [''bank transfer'', ''virtual account'']"

definition toss_paid :: "order \<Rightarrow> toss_remote \<Rightarrow> payment_data" where
  "toss_paid o1 remote =
     (let cash = (tr_method remote \<in> set CASH_METHODS \<or> (tr_method remote = ''easy pay'' \<and> 0 < tr_easy_amount remote)) in
      \<lparr>py_order = od_order o1, py_total = od_total o1, py_received = text_won (of_int (case tr_total remote of None \<Rightarrow> 0 | Some t \<Rightarrow> t)),
       py_currency = ''KRW'', py_method = Some (tr_method remote),
       py_tax_invoice = Some \<lparr>tx_needed = cash, tx_brn = (if truthy (od_brn o1) then od_brn o1 else None), tx_supply = od_net o1, tx_vat = od_vat o1\<rparr>\<rparr>)"

definition order_change :: "env \<Rightarrow> ident \<Rightarrow> string \<Rightarrow> string \<Rightarrow> ('a world_scheme, unit) op" where
  "order_change e order_id state reason =
     bind_op (append e (Order_state order_id (no_changes\<lparr>ch_state := Some state, ch_reason := Some reason\<rparr>))) (\<lambda>_. ret ())"

definition toss_waiting :: "env \<Rightarrow> order \<Rightarrow> toss_remote \<Rightarrow> ('a world_scheme, unit) op" where
  "toss_waiting e o1 remote =
     (let limit = stamp_time (o_created o1) + PENDING_SECONDS * SECOND;
          expires = (case tr_due remote of None \<Rightarrow> limit | Some due \<Rightarrow> min limit due) in
      bind_op (append e (Order_state (od_order o1) (no_changes\<lparr>ch_state := Some ''waiting'', ch_method := Some (tr_method remote),
         ch_deposit := Some (tr_deposit remote), ch_expires := Some (stamp expires)\<rparr>))) (\<lambda>_.
      mail e (od_email o1) ''Deposit''))"

definition toss_refuse :: "env \<Rightarrow> toss_api \<Rightarrow> order \<Rightarrow> ('a app_scheme, unit) op" where
  "toss_refuse e api o1 =
     (case o_payment_key o1 of None \<Rightarrow> raise TypeError
      | Some key \<Rightarrow>
          bind_op (toss_call (\<lambda>n. tp_cancel api n key (od_order o1) Mismatch None)) (\<lambda>a.
          seq_op (order_change e (od_order o1) (case a of Answered r \<Rightarrow> ''cancelled'' | _ \<Rightarrow> ''mismatch'') ''amount'')
                 (mail e (notify_to e) ''Payment to review'')))"

definition toss_apply :: "env \<Rightarrow> toss_api \<Rightarrow> ident \<Rightarrow> toss_remote \<Rightarrow> string option \<Rightarrow> ('a app_scheme, lot_data option) op" where
  "toss_apply e api order_id remote reason =
     (let status = tr_status remote in
     bind_op (live_order order_id) (\<lambda>o1.
       if o_issued o1 \<or> tr_order remote \<noteq> Some order_id \<or> tr_key remote \<noteq> o_payment_key o1 then ret None
       else let matches = (tr_currency remote = Some ''KRW'' \<and> map_option of_int (tr_total remote) = Some (text_won (od_total o1))) in
       if status \<in> {''DONE'', ''WAITING_FOR_DEPOSIT''} \<and> \<not> matches then
         (if o_reason o1 = Some ''amount'' \<and> o_state o1 \<in> {''cancelled'', ''mismatch''} then ret None
          else seq_op (toss_refuse e api o1) (ret None))
       else if status = ''DONE'' then bind_op (issue_order e order_id (toss_paid o1 remote) (od_hc o1) (od_net o1)) (\<lambda>d. ret (Some d))
       else if status = ''WAITING_FOR_DEPOSIT'' then
         seq_op (if o_state o1 = ''created'' then toss_waiting e o1 remote else ret ()) (ret None)
       else if status \<in> {''ABORTED'', ''EXPIRED'', ''CANCELED'', ''PARTIAL_CANCELED''} then
         seq_op (if o_state o1 \<in> set TOSS_OPEN
                 then order_change e order_id
                   (if status = ''EXPIRED'' then ''timedout'' else if status \<in> {''CANCELED'', ''PARTIAL_CANCELED''} then ''cancelled'' else ''failed'')
                   (if truthy reason then the reason else take 100 (if truthy (tr_failure remote) then the (tr_failure remote) else status))
                 else ret ()) (ret None)
       else ret None))"

definition run_apply :: "env \<Rightarrow> toss_api \<Rightarrow> ident \<Rightarrow> toss_remote \<Rightarrow> string option \<Rightarrow> ('a app_scheme, unit) op" where
  "run_apply e api order_id remote reason = bind_op (toss_apply e api order_id remote reason) (\<lambda>_. ret ())"

text \<open>\<open>amount\<close> is the number whose decimal text the query gives, none for another text.\<close>

definition toss_success :: "env \<Rightarrow> toss_api \<Rightarrow> ident \<Rightarrow> string \<Rightarrow> ident \<Rightarrow> decimal option \<Rightarrow> ('a app_scheme, unit) op" where
  "toss_success e api order_id key given amount =
     bind_op (gets (\<lambda>w. dget (orders (book w)) order_id)) (\<lambda>found. case found of None \<Rightarrow> ret ()
     | Some o1 \<Rightarrow>
       if od_processor o1 \<noteq> Some ''toss'' \<or> given \<noteq> order_id \<or> \<not> TOSS_KEY key then ret ()
       else if o_issued o1 \<or> o_state o1 \<noteq> ''created'' \<or> (o_payment_key o1 \<noteq> None \<and> o_payment_key o1 \<noteq> Some key) then ret ()
       else if amount \<noteq> Some (text_won (od_total o1)) then order_change e order_id ''failed'' ''amount''
       else seq_op (if \<not> truthy (o_payment_key o1) then bind_op (append e (Toss_payment order_id key)) (\<lambda>_. ret ()) else ret ())
           (bind_op (toss_call (\<lambda>n. tp_confirm api n key order_id (od_total o1))) (\<lambda>a. case a of
              Answered remote \<Rightarrow> run_apply e api order_id remote None
            | Declined code \<Rightarrow> bind_op (toss_call (\<lambda>n. tp_payment api n key)) (\<lambda>again. case again of
                  Answered remote \<Rightarrow> run_apply e api order_id remote (Some code)
                | _ \<Rightarrow> ret ())
            | Unreachable \<Rightarrow> ret ())))"

definition fail_code :: "string \<Rightarrow> string" where
  "fail_code code = (if 1 \<le> length code \<and> length code \<le> 100 \<and> (\<forall>c\<in>set code. digit c \<or> (65 \<le> code_of c \<and> code_of c \<le> 90) \<or> c = CHR ''_'')
     then code else ''PAY_PROCESS_CANCELED'')"

definition toss_fail :: "env \<Rightarrow> ident \<Rightarrow> string \<Rightarrow> ('a world_scheme, unit) op" where
  "toss_fail e order_id code =
     bind_op (gets (\<lambda>w. dget (orders (book w)) order_id)) (\<lambda>found. case found of None \<Rightarrow> ret ()
     | Some o1 \<Rightarrow> if od_processor o1 = Some ''toss'' \<and> o_state o1 = ''created'' \<and> \<not> truthy (o_payment_key o1) \<and> \<not> o_issued o1
                  then order_change e order_id ''cancelled'' (fail_code code) else ret ())"

definition expiry :: "order \<Rightarrow> moment" where
  "expiry o1 = (case od_expires o1 of Some t \<Rightarrow> stamp_time t | None \<Rightarrow> stamp_time (o_created o1) + PENDING_SECONDS * SECOND)"

definition still_open :: "order \<Rightarrow> bool" where
  "still_open o1 \<longleftrightarrow> \<not> o_issued o1 \<and> o_state o1 \<in> set TOSS_OPEN"

definition expire_waiting :: "env \<Rightarrow> toss_api \<Rightarrow> ident \<Rightarrow> order \<Rightarrow> ('a app_scheme, bool) op" where
  "expire_waiting e api order_id o1 =
     (if o_state o1 \<noteq> ''waiting'' then ret False
      else case o_payment_key o1 of None \<Rightarrow> raise TypeError
      | Some key \<Rightarrow>
          bind_op (toss_call (\<lambda>n. tp_cancel api n key order_id Expire None)) (\<lambda>a.
          bind_op (case a of Declined code \<Rightarrow> toss_payment api key | _ \<Rightarrow> answered a) (\<lambda>remote.
            if tr_status remote = ''DONE'' then seq_op (run_apply e api order_id remote None) (ret True) else ret False)))"

definition toss_check :: "env \<Rightarrow> toss_api \<Rightarrow> ident \<Rightarrow> ('a app_scheme, unit) op" where
  "toss_check e api order_id =
     bind_op (gets (\<lambda>w. dget (orders (book w)) order_id)) (\<lambda>found. case found of None \<Rightarrow> ret ()
     | Some o1 \<Rightarrow> if od_processor o1 \<noteq> Some ''toss'' then ret ()
       else
       seq_op (if truthy (o_payment_key o1)
               then bind_op (toss_payment api (the (o_payment_key o1))) (\<lambda>remote. run_apply e api order_id remote None) else ret ())
      (bind_op (live_order order_id) (\<lambda>o2.
       bind_op (if still_open o2 then bind_op (read_clock e) (\<lambda>m. ret (expiry o2 \<le> m)) else ret False) (\<lambda>due.
         if \<not> due then ret ()
         else bind_op (expire_waiting e api order_id o2) (\<lambda>paid.
           if paid then ret ()
           else bind_op (live_order order_id) (\<lambda>o3. if still_open o3 then order_change e order_id ''timedout'' ''expired'' else ret ()))))))"

section \<open>Refunds\<close>

definition REFUND_CLAUSES :: "string list" where "REFUND_CLAUSES = [''3.2'', ''3.5'', ''10.4'', ''16.4'', ''law'']"

definition quantize_ceiling :: "decimal \<Rightarrow> decimal \<Rightarrow> decimal" where
  "quantize_ceiling unit x = of_int \<lceil>x / unit\<rceil> * unit"

definition lapse_due :: "ident \<Rightarrow> order \<Rightarrow> mstate \<Rightarrow> decimal" where
  "lapse_due order_id o1 s =
     sum_list (map rd_amount (filter (\<lambda>d. rd_order d = order_id) (List.map_filter rf_refund (concat (dvalues (refunds s))))))
     - sum_list (map snd (filter (\<lambda>(clause, amount). clause = ''16.4'') (o_refunds o1)))"

definition excess_left :: "order \<Rightarrow> decimal \<Rightarrow> decimal" where
  "excess_left o1 received = received - od_total o1 - sum_list (map snd (filter (\<lambda>(clause, amount). clause = ''3.5'') (o_refunds o1)))"

definition refund_amount :: "bool \<Rightarrow> string \<Rightarrow> decimal \<Rightarrow> decimal fallible" where
  "refund_amount swift given rest =
     (if given = ''all'' then Inr rest else if swift then usd_field (Some given) else won_field (Some given))"

definition order_lot :: "order \<Rightarrow> ident \<Rightarrow> stamp \<Rightarrow> mstate \<Rightarrow> addr option" where
  "order_lot o1 order_id t s = find (\<lambda>a. lot_ref (heap s ! a) = order_id \<and> t < lot_expires (heap s ! a)) (lots s (od_account o1))"

text \<open>The HC a refund takes back and the lot they come from, none for the clauses that leave the HC.\<close>

definition refund_debit :: "order \<Rightarrow> ident \<Rightarrow> bool \<Rightarrow> string \<Rightarrow> decimal \<Rightarrow> stamp \<Rightarrow> mstate \<Rightarrow> (decimal \<times> ident option) fallible" where
  "refund_debit o1 order_id swift clause amount t s =
     (if clause \<in> {''3.2'', ''16.4''} \<or> (swift \<and> clause = ''3.5'') then Inr (0, None)
      else let debit = quantize_ceiling HC_STEP (od_hc o1 * amount / od_total o1);
               found = order_lot o1 order_id t s;
               left = (case found of None \<Rightarrow> 0 | Some a \<Rightarrow> lot_hc (heap s ! a))
           in if left < debit then Inl (Refusal 400 None) else Inr (debit, map_option (\<lambda>a. lot_id (heap s ! a)) found))"

definition refund :: "env \<Rightarrow> toss_api \<Rightarrow> ident \<Rightarrow> string \<Rightarrow> string \<Rightarrow> string \<Rightarrow> bool \<Rightarrow> ('a app_scheme, refund_data) op" where
  "refund e api order_id clause given reason account =
     bind_op (gets (\<lambda>w. dget (orders (book w)) order_id)) (\<lambda>found. case found of None \<Rightarrow> raise (Refusal 400 None)
     | Some o1 \<Rightarrow>
       (let swift = (od_processor o1 = Some ''swift''); key = (case o_payment_key o1 of None \<Rightarrow> [] | Some k \<Rightarrow> k) in
       seq_op (require (o_issued o1 \<and> (swift \<or> (od_processor o1 = Some ''toss'' \<and> key \<noteq> []))) (Refusal 400 None))
      (seq_op (require (clause \<in> set REFUND_CLAUSES \<and> reason \<noteq> []) (Refusal 400 None))
      (bind_op (if swift then ret None else bind_op (toss_payment api key) (\<lambda>r. ret (Some r))) (\<lambda>remote.
       seq_op (require (case remote of None \<Rightarrow> True | Some r \<Rightarrow> tr_order r = Some order_id) (Refusal 400 None))
      (bind_op (case remote of
                  None \<Rightarrow> (case o_received o1 of None \<Rightarrow> raise TypeError | Some x \<Rightarrow> ret (x - (case o_refunded o1 of None \<Rightarrow> 0 | Some y \<Rightarrow> y)))
                | Some r \<Rightarrow> ret (case tr_balance r of None \<Rightarrow> 0 | Some x \<Rightarrow> x)) (\<lambda>balance.
       bind_op (lift (refund_amount swift given balance)) (\<lambda>amount.
       seq_op (require (0 < amount \<and> amount \<le> balance) (Refusal 400 None))
      (bind_op (gets (\<lambda>w. lapse_due order_id o1 (st w))) (\<lambda>due.
       seq_op (require (\<not> (clause = ''16.4'' \<and> due < amount)) (Refusal 400 None))
      (seq_op (require (\<not> (swift \<and> clause = ''3.5'' \<and> excess_left o1 (case o_received o1 of None \<Rightarrow> 0 | Some x \<Rightarrow> x) < amount)) (Refusal 400 None))
      (seq_op (require (case remote of None \<Rightarrow> True | Some r \<Rightarrow> tr_method r \<noteq> ''virtual account'' \<or> account) (Refusal 400 None))
      (bind_op (now e) (\<lambda>m.
       bind_op (gets (\<lambda>w. refund_debit o1 order_id swift clause amount (stamp m) (st w))) (\<lambda>r.
       bind_op (lift r) (\<lambda>(debit, lot).
       bind_op (if swift then ret (balance - amount)
                else bind_op (toss_call (\<lambda>n. tp_cancel api n key order_id (Refund_of balance) (if amount < balance then Some amount else None))) (\<lambda>a.
                     bind_op (answered a) (\<lambda>after. case tr_balance after of None \<Rightarrow> raise InvalidOperation | Some x \<Rightarrow> ret x))) (\<lambda>rest.
       seq_op (require (rest = balance - amount) (Refusal 502 None))
      (let d = \<lparr>rn_order = order_id, rn_account = od_account o1, rn_amount = (if swift then text_money amount else text_won amount),
                rn_balance = (if swift then text_money rest else text_won rest), rn_clause = clause, rn_hc = text_hc debit\<rparr> in
       bind_op (append e (Refund d)) (\<lambda>_.
       seq_op (case lot of None \<Rightarrow> ret () | Some l \<Rightarrow> append_market e (Hc_debit (od_account o1) (text_hc debit) (stamp m) (Some l)))
      (seq_op (mail e (od_email o1) ''Refund'') (ret d)))))))))))))))))))))"

definition tax_invoices :: "book \<Rightarrow> order list" where
  "tax_invoices b = filter (\<lambda>o1. od_processor o1 = Some ''toss'' \<and> (case o_tax_invoice o1 of None \<Rightarrow> False | Some t \<Rightarrow> tx_needed t)
     \<and> \<not> truthy (o_tax_number o1)) (dvalues (orders b))"

section \<open>The queue of payment checks\<close>

definition put_job :: "job \<Rightarrow> ('a app_scheme, unit) op" where
  "put_job j = modify (\<lambda>w. w\<lparr>jobs := jobs w @ [j]\<rparr>)"

text \<open>
  What arrives from CoinPayments: whether its signature is right, and the invoice it names, none
  when the body is not the JSON of an event with one.
\<close>

definition webhook :: "bool \<Rightarrow> ident option \<Rightarrow> ('a app_scheme, bool) op" where
  "webhook verified invoice =
     (if \<not> verified then ret False
      else seq_op (if truthy invoice then put_job (Invoice_job (the invoice)) else ret ()) (ret True))"

definition toss_webhook :: "ident option \<Rightarrow> ('a app_scheme, unit) op" where
  "toss_webhook found =
     (case found of None \<Rightarrow> ret ()
      | Some i \<Rightarrow> bind_op (gets (\<lambda>w. dget (orders (book w)) i)) (\<lambda>v.
          if (case v of None \<Rightarrow> False | Some o1 \<Rightarrow> od_processor o1 = Some ''toss'') then put_job (Toss_job i) else ret ()))"

text \<open>The worker logs what a job raises and goes on.\<close>

definition logged :: "('s, 'b) op \<Rightarrow> ('s, unit) op" where
  "logged m s = (Inr (), snd (m s))"

definition run_job :: "env \<Rightarrow> toss_api \<Rightarrow> (nat \<Rightarrow> ident \<Rightarrow> coin_remote option) \<Rightarrow> job \<Rightarrow> ('a app_scheme, unit) op" where
  "run_job e api invoice_at j =
     (case j of
        Toss_job i \<Rightarrow> logged (toss_check e api i)
      | Invoice_job key \<Rightarrow> logged (bind_op (gets (\<lambda>w. dget (invoices (book w)) key)) (\<lambda>found.
          if \<not> truthy found then ret None
          else bind_op (toss_call (\<lambda>n. invoice_at n key)) (\<lambda>remote.
            case remote of None \<Rightarrow> raise (RemoteError None) | Some r \<Rightarrow> settle e (the found) r False))))"

definition work_one :: "env \<Rightarrow> toss_api \<Rightarrow> (nat \<Rightarrow> ident \<Rightarrow> coin_remote option) \<Rightarrow> ('a app_scheme, unit) op" where
  "work_one e api invoice_at =
     bind_op (gets jobs) (\<lambda>js. case js of [] \<Rightarrow> ret ()
     | j # rest \<Rightarrow> seq_op (modify (\<lambda>w. w\<lparr>jobs := rest\<rparr>)) (run_job e api invoice_at j))"

definition RECONCILE_DAYS :: int where "RECONCILE_DAYS = 14"
definition OPEN :: "string list" where "OPEN = [''unpaid'', ''pending'', ''paid'']"

definition reconcile_keys :: "moment \<Rightarrow> book \<Rightarrow> job list" where
  "reconcile_keys m b =
     map (\<lambda>o1. Invoice_job (the (o_invoice o1))) (filter (\<lambda>o1. truthy (o_invoice o1)
        \<and> (o_state o1 \<in> set OPEN \<or> (o_state o1 = ''completed'' \<and> \<not> o_issued o1)) \<and> (m - stamp_time (o_created o1)) div DAY < RECONCILE_DAYS)
        (dvalues (orders b)))
     @ map (\<lambda>o1. Toss_job (od_order o1)) (filter (\<lambda>o1. od_processor o1 = Some ''toss'' \<and> still_open o1) (dvalues (orders b)))"

definition reconcile :: "env \<Rightarrow> ('a app_scheme, unit) op" where
  "reconcile e = bind_op (read_clock e) (\<lambda>m. bind_op (gets (\<lambda>w. reconcile_keys m (book w))) (each put_job))"

end
