(* ===== verification/Accounts.thy ===== *)
theory Accounts
  imports Sessions Toss
begin

text \<open>
  Accounts and their members (class \<open>App\<close> of \<open>tools/sparkpipe_pay.py\<close>): invitations and roles,
  sign-in by a mailed code, webhooks, deleting request records and the sandbox's reset. Display
  texts are left out; what is recorded, refused or sent and to whom is kept.
\<close>

section \<open>Members\<close>

definition INVITE_DAYS :: int where "INVITE_DAYS = 7"
definition MEMBERS_PER_ACCOUNT :: nat where "MEMBERS_PER_ACCOUNT = 50"

record member_view =
  mv_id :: ident
  mv_email :: string
  mv_role :: string
  mv_state :: string
  mv_since :: stamp
  mv_expires :: "stamp option"

definition joined :: "book \<Rightarrow> ident \<Rightarrow> member_view list" where
  "joined b account = map (\<lambda>m. \<lparr>mv_id = mb_member m, mv_email = mb_email m, mv_role = mb_role m, mv_state = ''member'', mv_since = ms_created m,
     mv_expires = None\<rparr>) (filter (\<lambda>m. mb_account m = account \<and> \<not> ms_removed m) (dvalues (members b)))"

definition invited :: "book \<Rightarrow> ident \<Rightarrow> stamp \<Rightarrow> member_view list" where
  "invited b account t = map (\<lambda>i. \<lparr>mv_id = iv_invite i, mv_email = iv_email i, mv_role = iv_role i, mv_state = ''invited'', mv_since = in_created i,
     mv_expires = Some (iv_expires i)\<rparr>) (filter (\<lambda>i. iv_account i = account \<and> in_state i = ''invited'' \<and> t < iv_expires i) (dvalues (invites b)))"

definition members_list :: "env \<Rightarrow> ident \<Rightarrow> ('a world_scheme, member_view list) op" where
  "members_list e account =
     bind_op (account_record account) (\<lambda>a.
     bind_op (now e) (\<lambda>m.
     gets (\<lambda>w. [\<lparr>mv_id = account, mv_email = ad_email a, mv_role = ''owner'', mv_state = ''member'', mv_since = ac_created a, mv_expires = None\<rparr>]
       @ joined (book w) account @ invited (book w) account (stamp m))))"

definition pending_invite :: "env \<Rightarrow> string \<Rightarrow> ident option \<Rightarrow> ('a world_scheme, invitation option) op" where
  "pending_invite e email account =
     bind_op (now e) (\<lambda>m. gets (\<lambda>w. find (\<lambda>i. iv_email i = email \<and> in_state i = ''invited'' \<and> stamp m < iv_expires i
       \<and> (case account of None \<Rightarrow> True | Some a \<Rightarrow> iv_account i = a)) (dvalues (invites (book w)))))"

definition view_of :: "env \<Rightarrow> ident \<Rightarrow> ident \<Rightarrow> ('a world_scheme, member_view) op" where
  "view_of e account ident =
     bind_op (members_list e account) (\<lambda>vs. case find (\<lambda>v. mv_id v = ident) vs of None \<Rightarrow> raise StopIteration | Some v \<Rightarrow> ret v)"

definition member_put :: "env \<Rightarrow> actor \<Rightarrow> string option \<Rightarrow> string \<Rightarrow> ('a world_scheme, member_view) op" where
  "member_put e a given role =
     (case a of (account, member, _) \<Rightarrow>
     bind_op (lift (email_field given)) (\<lambda>email.
     seq_op (require (role \<in> {''admin'', ''member''}) (refuse 400 ''invalid_request''))
    (bind_op (account_record account) (\<lambda>own.
     seq_op (require (email \<noteq> ad_email own) (refuse 400 ''invalid_request''))
    (bind_op (gets (\<lambda>w. case dget (member_emails (book w)) email of None \<Rightarrow> Inr None
                | Some i \<Rightarrow> if i = [] then Inr None else (case dget (members (book w)) i of None \<Rightarrow> Inl KeyError | Some m \<Rightarrow> Inr (Some (i, m))))) (\<lambda>r.
     bind_op (lift r) (\<lambda>current.
       if (case current of None \<Rightarrow> False | Some (i, m) \<Rightarrow> mb_account m = account)
       then (case current of None \<Rightarrow> raise KeyError | Some (i, m) \<Rightarrow>
              seq_op (if mb_role m \<noteq> role
                      then bind_op (append e (Member_role account i role member)) (\<lambda>_. audit e account member ''member.role'' [i, email, role] None)
                      else ret ())
                     (view_of e account i))
       else
       bind_op (pending_invite e email None) (\<lambda>other.
       bind_op (gets (\<lambda>w. dget (emails (book w)) email)) (\<lambda>owner.
       seq_op (require (\<not> (current \<noteq> None \<or> owner \<noteq> None \<or> (case other of None \<Rightarrow> False | Some i \<Rightarrow> iv_account i \<noteq> account))) (refuse 409 ''email_taken''))
      (bind_op (if other \<noteq> None then ret [] else members_list e account) (\<lambda>vs.
       seq_op (require (length vs \<le> MEMBERS_PER_ACCOUNT) (refuse 409 ''too_many''))
      (bind_op (now e) (\<lambda>m.
       bind_op (new_id e ''IV'') (\<lambda>ident.
       bind_op (append e (Member_invite \<lparr>iv_invite = ident, iv_account = account, iv_email = email, iv_role = role, iv_by = member,
                  iv_expires = stamp (m + DAY * INVITE_DAYS)\<rparr>)) (\<lambda>_.
       seq_op (audit e account member ''member.invited'' [ident, email, role] None)
      (seq_op (mail e email ''Invitation'') (view_of e account ident)))))))))))))))))"

definition revoke_keys_of :: "env \<Rightarrow> ident \<Rightarrow> ('a world_scheme, unit) op" where
  "revoke_keys_of e member =
     bind_op (gets (\<lambda>w. filter (\<lambda>r. k_member r = member \<and> \<not> k_revoked r) (dvalues (keys (st w)))))
       (each (\<lambda>r. append_market e (Api_key_revoke (k_key r))))"

definition member_delete :: "env \<Rightarrow> actor \<Rightarrow> ident \<Rightarrow> ('a app_scheme, ident) op" where
  "member_delete e a ident =
     (case a of (account, member, _) \<Rightarrow>
     bind_op (gets (\<lambda>w. (dget (members (book w)) ident, dget (invites (book w)) ident))) (\<lambda>(found, invite).
       if (case found of None \<Rightarrow> False | Some m \<Rightarrow> mb_account m = account \<and> \<not> ms_removed m)
       then bind_op (append e (Member_remove account (Some ident) None member)) (\<lambda>_.
            seq_op (revoke_keys_of e ident)
           (seq_op (modify (\<lambda>w. w\<lparr>sessions := rec_keep (\<lambda>r. se_member r \<noteq> Some ident) (sessions w)\<rparr>))
           (seq_op (audit e account member ''member.removed'' [ident, mb_email (the found)] None) (ret ident))))
       else if (case invite of None \<Rightarrow> False | Some i \<Rightarrow> iv_account i = account \<and> in_state i = ''invited'')
       then bind_op (append e (Member_remove account None (Some ident) member)) (\<lambda>_.
            seq_op (audit e account member ''member.invite_cancelled'' [ident, iv_email (the invite)] None) (ret ident))
       else raise (Refusal 404 None)))"

section \<open>Signing in\<close>

definition CODE_SECONDS :: int where "CODE_SECONDS = 600"
definition CODE_TRIES :: nat where "CODE_TRIES = 5"

definition code_digest :: "env \<Rightarrow> string \<Rightarrow> string \<Rightarrow> string" where
  "code_digest e email code = key_digest e (email @ '':'' @ code)"

definition CODE :: "string \<Rightarrow> bool" where
  "CODE t \<longleftrightarrow> (let k = before_break t in length k = 6 \<and> list_all digit k)"

definition draw_code :: "cfg \<Rightarrow> ('a world_scheme, string) op" where
  "draw_code c w = (Inr (cfg_code c (draws w)), w\<lparr>draws := draws w + 1\<rparr>)"

text \<open>\<open>taken\<close> says whether the mail server took the message. The sandbox answers with the code itself.\<close>

definition send_code :: "env \<Rightarrow> cfg \<Rightarrow> bool \<Rightarrow> string option \<Rightarrow> string \<Rightarrow> ('a app_scheme, string option) op" where
  "send_code e c taken given ip =
     seq_op (throttle e ''code'' ip)
    (bind_op (lift (email_field given)) (\<lambda>email.
     seq_op (throttle e ''code-email'' email)
    (bind_op (draw_code c) (\<lambda>code.
     bind_op (read_monotonic e) (\<lambda>t.
     seq_op (modify (\<lambda>w. w\<lparr>codes := dset email \<lparr>cd_digest = code_digest e email code, cd_expires = t + CODE_SECONDS * SECOND, cd_tries = 0\<rparr>
               (filter (\<lambda>(k, v). \<not> cd_expires v < t) (codes w))\<rparr>))
    (if sandbox e then ret (Some code)
     else seq_op (require taken (Refusal 502 None)) (ret None)))))))"

definition code_good :: "env \<Rightarrow> duration \<Rightarrow> string \<Rightarrow> string \<Rightarrow> code_entry \<Rightarrow> bool" where
  "code_good e t email code entry \<longleftrightarrow>
     t \<le> cd_expires entry \<and> cd_tries entry < CODE_TRIES \<and> CODE code \<and> cd_digest entry = code_digest e email code"

definition use_code :: "env \<Rightarrow> string \<Rightarrow> string \<Rightarrow> ('a app_scheme, bool) op" where
  "use_code e email code =
     bind_op (gets (\<lambda>w. dget (codes w) email)) (\<lambda>found. case found of None \<Rightarrow> ret False
     | Some entry \<Rightarrow> bind_op (read_monotonic e) (\<lambda>t.
         if code_good e t email code entry
         then seq_op (modify (\<lambda>w. w\<lparr>codes := ddel email (codes w)\<rparr>)) (ret True)
         else seq_op (modify (\<lambda>w. w\<lparr>codes := dset email (entry\<lparr>cd_tries := cd_tries entry + 1\<rparr>) (codes w)\<rparr>)) (ret False)))"

record summary =
  sm_email :: string
  sm_company :: string
  sm_member :: ident
  sm_role :: string
  sm_since :: stamp
  sm_terms :: bool
  sm_hc :: decimal
  sm_locked :: decimal
  sm_orders :: "(order \<times> string option) list"

definition own_email :: "book \<Rightarrow> ident \<Rightarrow> ident \<Rightarrow> string fallible" where
  "own_email b account member =
     (if member = account then (case dget (accounts b) account of None \<Rightarrow> Inl KeyError | Some a \<Rightarrow> Inr (ad_email a))
      else (case dget (members b) member of None \<Rightarrow> Inl KeyError | Some m \<Rightarrow> Inr (mb_email m)))"

definition summary_of :: "env \<Rightarrow> actor \<Rightarrow> ('a world_scheme, summary) op" where
  "summary_of e a =
     (case a of (account, member, role) \<Rightarrow>
     bind_op (account_record account) (\<lambda>own.
     bind_op (gets (\<lambda>w. own_email (book w) account member)) (\<lambda>r.
     bind_op (lift r) (\<lambda>email.
     bind_op (now e) (\<lambda>m.
     gets (\<lambda>w. \<lparr>sm_email = email, sm_company = ad_company own, sm_member = member, sm_role = role, sm_since = day_of (ac_created own),
       sm_terms = accepted e own, sm_hc = text_hc (balance account (stamp m) (st w)), sm_locked = text_hc (locked account (st w)),
       sm_orders = (if role = ''owner'' then map shown (take 50 (filter (\<lambda>o1. od_account o1 = account) (rev (dvalues (orders (book w)))))) else [])\<rparr>))))))"

record sign_in =
  si_email :: "string option"
  si_code :: "string option"
  si_company :: "string option"
  si_accept :: bool
  si_bearer :: bool
  si_device :: "string field"

definition require_actor :: "ident \<Rightarrow> ('a world_scheme, actor) op" where
  "require_actor subject = bind_op (gets (\<lambda>w. resolve (book w) subject)) (\<lambda>v. case v of None \<Rightarrow> raise TypeError | Some a \<Rightarrow> ret a)"

definition open_account :: "env \<Rightarrow> string \<Rightarrow> sign_in \<Rightarrow> ('a world_scheme, ident) op" where
  "open_account e email body =
     seq_op (require (truthy (si_company body)) (refuse 404 ''new''))
    (bind_op (lift (text_field (si_company body) 200)) (\<lambda>company.
     seq_op (require (si_accept body) (refuse 409 ''terms''))
    (bind_op (new_id e ''AC'') (\<lambda>account.
     bind_op (append e (Account \<lparr>ad_account = account, ad_email = email, ad_company = company\<rparr>)) (\<lambda>_.
     seq_op (accept e account)
    (seq_op (mail e (notify_to e) ''New account'') (ret account)))))))"

definition check_code :: "env \<Rightarrow> sign_in \<Rightarrow> string \<Rightarrow> ('a app_scheme, summary \<times> ident) op" where
  "check_code e body ip =
     seq_op (throttle e ''verify'' ip)
    (bind_op (lift (email_field (si_email body))) (\<lambda>email.
     bind_op (use_code e email (case si_code body of None \<Rightarrow> [] | Some t \<Rightarrow> filter (\<lambda>c. c \<noteq> CHR '' '') t)) (\<lambda>good.
     seq_op (require good (Refusal 403 None))
    (bind_op (gets (\<lambda>w. (dget (emails (book w)) email, dget (member_emails (book w)) email))) (\<lambda>(account, member).
     bind_op (if truthy account \<or> truthy member then ret None else pending_invite e email None) (\<lambda>invite.
       if truthy member
       then bind_op (require_actor (the member)) (\<lambda>a. bind_op (summary_of e a) (\<lambda>s. ret (s, the member)))
       else case invite of
         Some i \<Rightarrow>
           bind_op (new_id e ''MB'') (\<lambda>new.
           bind_op (append e (Member \<lparr>mb_member = new, mb_account = iv_account i, mb_email = email, mb_role = iv_role i, mb_invite = Some (iv_invite i)\<rparr>)) (\<lambda>_.
           seq_op (audit e (iv_account i) new ''member.joined'' [new, email, iv_role i] None)
          (bind_op (account_record (iv_account i)) (\<lambda>own.
           seq_op (mail e (ad_email own) ''Member joined'')
          (bind_op (require_actor new) (\<lambda>a. bind_op (summary_of e a) (\<lambda>s. ret (s, new))))))))
       | None \<Rightarrow>
           bind_op (if \<not> truthy account then open_account e email body
                    else bind_op (account_record (the account)) (\<lambda>own.
                         seq_op (if si_accept body \<and> \<not> accepted e own then accept e (the account) else ret ()) (ret (the account)))) (\<lambda>found.
           bind_op (summary_of e (found, found, ''owner'')) (\<lambda>s. ret (s, found)))))))))"

datatype signed = Bearer_session string stamp | Cookie_session string

definition verify :: "env \<Rightarrow> cfg \<Rightarrow> sign_in \<Rightarrow> string \<Rightarrow> ('a app_scheme, summary \<times> signed) op" where
  "verify e c body ip =
     bind_op (check_code e body ip) (\<lambda>(s, subject).
     bind_op (require_actor subject) (\<lambda>(account, member, role).
       if si_bearer body
       then bind_op (lift (optional_text (si_device body) 100)) (\<lambda>device.
            bind_op (open_bearer e account member device) (\<lambda>(session, expires).
            seq_op (audit e account member ''session.sign_in'' [''bearer'', device] None) (ret (s, Bearer_session session expires))))
       else seq_op (audit e account member ''session.sign_in'' [''cookie''] None)
           (bind_op (read_clock e) (\<lambda>m. ret (s, Cookie_session (session_token (cfg_mac c) subject (nat (m div SECOND + SESSION_SECONDS))))))))"

section \<open>Deleting request records, the sandbox's reset\<close>

definition erase_records :: "env \<Rightarrow> ident \<Rightarrow> ident \<Rightarrow> ('a app_scheme, nat \<times> stamp) op" where
  "erase_records e account by_whom =
     bind_op (now e) (\<lambda>m.
     bind_op (gets (\<lambda>w. fst (usage_erase account (usages w)))) (\<lambda>found.
     seq_op (modify (\<lambda>w. w\<lparr>usages := snd (usage_erase account (usages w))\<rparr>))
    (bind_op (append e (Records_erased account (stamp m) (int found) by_whom)) (\<lambda>_.
     seq_op (audit e account by_whom ''records.erased'' [] None)
    (seq_op (mail e (notify_to e) ''Erase'')
    (bind_op (account_record account) (\<lambda>own.
     seq_op (mail e (ad_email own) ''Deleted'') (ret (found, stamp m)))))))))"

definition reset :: "env \<Rightarrow> ('a app_scheme, unit) op" where
  "reset e =
     seq_op (require (sandbox e) (Refusal 404 None))
    (bind_op (read_clock e) (\<lambda>_.
     modify (\<lambda>w. w\<lparr>book := init_book, ledger := [], hooks := rec_keep (\<lambda>_. False) (hooks w), sessions := rec_keep (\<lambda>_. False) (sessions w),
       uptime := uptime_clear (uptime w), codes := []\<rparr>)))"

end
