(* ===== verification/Reports.thy ===== *)
theory Reports
  imports Accounts
begin

text \<open>
  Webhook settings, the records of requests that the hubs report, the audit log, and the pages
  read from both (class \<open>App\<close> of \<open>tools/sparkpipe_pay.py\<close>). A URL arrives split into its parts;
  resolving its host and telling public addresses from private ones are parameters.
\<close>

section \<open>Webhooks\<close>

definition WEBHOOKS_PER_ACCOUNT :: nat where "WEBHOOKS_PER_ACCOUNT = 10"
definition WEBHOOK_SCHEMES :: "string list" where "WEBHOOK_SCHEMES = [''https'']"

record url =
  ur_text :: string
  ur_scheme :: string
  ur_host :: "string option"
  ur_user :: bool

record hook_body =
  hb_events :: "string list field"
  hb_url :: "url field"
  hb_email :: "string field"
  hb_slack :: "bool field"
  hb_secret :: "string field"

record net =
  net_resolve :: "string \<Rightarrow> address list option"
  net_public :: "address \<Rightarrow> bool"
  net_own :: string

definition webhook_address :: "net \<Rightarrow> string \<Rightarrow> address fallible" where
  "webhook_address n host =
     (case net_resolve n host of None \<Rightarrow> Inl (refuse 400 ''webhook_address'')
      | Some found \<Rightarrow>
          let mine = (if net_own n \<noteq> [] \<and> net_own n \<noteq> host then (case net_resolve n (net_own n) of None \<Rightarrow> [] | Some xs \<Rightarrow> xs) else [])
          in case found of [] \<Rightarrow> Inl (refuse 400 ''webhook_address'')
             | a # _ \<Rightarrow> if host = net_own n \<or> set found \<inter> set mine \<noteq> {} \<or> \<not> list_all (net_public n) found
                         then Inl (refuse 400 ''webhook_address'') else Inr a)"

definition hook_events :: "hook_body \<Rightarrow> string list fallible" where
  "hook_events body =
     (let bad = refuse 400 ''invalid_request'';
          emailed = (case hb_email body of Absent \<Rightarrow> False | Malformed \<Rightarrow> True | Given t \<Rightarrow> t \<noteq> []) in
      case hb_events body of
        Given xs \<Rightarrow> if (\<exists>x\<in>set xs. x \<notin> set EVENTS \<and> x \<noteq> ''*'') \<or> (xs = [] \<and> \<not> emailed) then Inl bad else Inr xs
      | _ \<Rightarrow> Inl bad)"

text \<open>What a hook is for: its kind, its target and its secret. \<open>made\<close> is a fresh secret.\<close>

definition hook_target :: "net \<Rightarrow> string \<Rightarrow> string \<Rightarrow> hook_body \<Rightarrow> (hook_kind \<times> string option \<times> string option) fallible" where
  "hook_target n own made body =
     (let bad = refuse 400 ''invalid_request'' in
      case hb_email body of
        Given t \<Rightarrow> bind_result (email_field (Some t)) (\<lambda>email. if email \<noteq> own then Inl bad else Inr (Email, None, None))
      | Malformed \<Rightarrow> bind_result (email_field None) (\<lambda>_. Inl bad)
      | Absent \<Rightarrow> (case hb_url body of
            Given u \<Rightarrow>
              if 2000 < length (ur_text u) \<or> ur_scheme u \<notin> set WEBHOOK_SCHEMES \<or> \<not> truthy (ur_host u) \<or> ur_user u then Inl bad
              else bind_result (webhook_address n (the (ur_host u))) (\<lambda>_.
                case hb_secret body of
                  Absent \<Rightarrow> Inr (Url, Some (ur_text u), Some made)
                | Malformed \<Rightarrow> Inl bad
                | Given s \<Rightarrow> if \<not> (16 \<le> length s \<and> length s \<le> 200) \<or> \<not> isprintable s then Inl bad else Inr (Url, Some (ur_text u), Some s))
          | _ \<Rightarrow> Inl bad))"

definition webhook_put :: "env \<Rightarrow> net \<Rightarrow> ident \<Rightarrow> hook_body \<Rightarrow> ('a world_scheme, hook \<times> string option) op" where
  "webhook_put e n account body =
     bind_op (lift (hook_events body)) (\<lambda>evs.
     seq_op (require (hb_slack body \<noteq> Malformed \<and> (hb_url body = Absent) \<noteq> (hb_email body = Absent)) (refuse 400 ''invalid_request''))
    (bind_op (account_record account) (\<lambda>own.
     bind_op (new_id e ''whsec_'') (\<lambda>made.
     bind_op (lift (hook_target n (ad_email own) made body)) (\<lambda>(kind, target, secret).
     bind_op (gets (\<lambda>w. (find (\<lambda>h. wh_kind h = kind \<and> wh_target h = target) (hooks_of account w), length (hooks_of account w)))) (\<lambda>(same, held).
     seq_op (require (same \<noteq> None \<or> held < WEBHOOKS_PER_ACCOUNT) (refuse 409 ''too_many''))
    (bind_op (case same of Some h \<Rightarrow> ret (wh_id h) | None \<Rightarrow> new_id e ''WH'') (\<lambda>ident.
     bind_op (now e) (\<lambda>m.
     (let h = \<lparr>wh_id = ident, wh_account = account, wh_kind = kind, wh_events = sort (remdups evs),
               wh_slack = (case hb_slack body of Given b \<Rightarrow> b | _ \<Rightarrow> False), wh_now = stamp m, wh_target = target, wh_secret = secret\<rparr> in
      seq_op (modify (\<lambda>w. w\<lparr>hooks := rec_put ident h (hooks w)\<rparr>))
             (ret (h, if hb_secret body = Absent then secret else None))))))))))))"

definition webhook_delete :: "ident \<Rightarrow> ident \<Rightarrow> ('a world_scheme, unit) op" where
  "webhook_delete account ident =
     bind_op (gets (\<lambda>w. rec_get ident (hooks w))) (\<lambda>found.
     seq_op (require (case found of None \<Rightarrow> False | Some h \<Rightarrow> wh_account h = account) (Refusal 404 None))
            (modify (\<lambda>w. w\<lparr>hooks := snd (rec_drop ident (hooks w))\<rparr>)))"

section \<open>Records of requests\<close>

definition RECORD_TEXT :: "(string \<times> nat) list" where
  "RECORD_TEXT = [(''request'', 64), (''account'', 32), (''member'', 32), (''key'', 32), (''fleet'', 32), (''model'', 128), (''pack'', 128),
     (''api'', 32), (''priority'', 16), (''session'', 128)]"

definition RECORD_NUMBERS :: "string list" where
  "RECORD_NUMBERS = [''status'', ''prompt_tokens'', ''cached_tokens'', ''prefill_tokens'', ''queue_ms'', ''prefill_ms'', ''ttft_ms'',
     ''output_tokens'', ''duration_ms'', ''decode_tps'', ''draft_accept'', ''cold_prefill_ms_estimate'']"

definition RECORDS_PER_REPORT :: nat where "RECORDS_PER_REPORT = 10000"

datatype jvalue = JText string | JNumber decimal | JOther

text \<open>The fields of an item by name, and its time, which \<open>RECORD_TEXT\<close> lists too.\<close>

record usage_item =
  ui_fields :: "(string, jvalue) dict"
  ui_at :: "stamp field"

fun read_texts :: "(string \<times> nat) list \<Rightarrow> (string, jvalue) dict \<Rightarrow> (string, string) dict fallible" where
  "read_texts [] item = Inr []"
| "read_texts ((name, most) # rest) item =
     bind_result (case dget item name of None \<Rightarrow> Inr []
        | Some (JText t) \<Rightarrow> bind_result (short_text (Some t) most) (\<lambda>v. Inr [(name, v)])
        | Some _ \<Rightarrow> Inl (refuse 400 ''invalid_request'')) (\<lambda>here.
     bind_result (read_texts rest item) (\<lambda>more. Inr (here @ more)))"

fun read_numbers :: "string list \<Rightarrow> (string, jvalue) dict \<Rightarrow> (string, decimal) dict fallible" where
  "read_numbers [] item = Inr []"
| "read_numbers (name # rest) item =
     bind_result (case dget item name of None \<Rightarrow> Inr []
        | Some (JNumber x) \<Rightarrow> if x < 0 then Inl (refuse 400 ''invalid_request'') else Inr [(name, x)]
        | Some _ \<Rightarrow> Inl (refuse 400 ''invalid_request'')) (\<lambda>here.
     bind_result (read_numbers rest item) (\<lambda>more. Inr (here @ more)))"

definition record_window :: "moment \<Rightarrow> moment \<Rightarrow> bool" where
  "record_window m t \<longleftrightarrow> m - DAY * RECORD_DAYS \<le> t \<and> t \<le> m + 5 * 60 * SECOND"

definition usage_record :: "book \<Rightarrow> usage_item option \<Rightarrow> moment \<Rightarrow> request_record fallible" where
  "usage_record b item m =
     (let bad = refuse 400 ''invalid_request'' in
      case item of None \<Rightarrow> Inl bad
      | Some x \<Rightarrow>
          bind_result (read_texts RECORD_TEXT (ui_fields x)) (\<lambda>texts.
          bind_result (read_numbers RECORD_NUMBERS (ui_fields x)) (\<lambda>numbers.
            if (\<exists>name\<in>{''request'', ''account'', ''fleet''}. name \<notin> set (dkeys texts)) \<or> ui_at x = Absent
               \<or> dget (accounts b) (the (dget texts ''account'')) = None then Inl bad
            else bind_result (stamp_field (case ui_at x of Given t \<Rightarrow> Some t | _ \<Rightarrow> None)) (\<lambda>t.
              let account = the (dget texts ''account'') in
              if (case dget (erased b) account of None \<Rightarrow> False | Some through \<Rightarrow> stamp t \<le> through) then Inl (refuse 409 ''erased'')
              else if \<not> record_window m t then Inl bad
              else let owner = (case dget texts ''key'' of None \<Rightarrow> None | Some k \<Rightarrow> dget (keys (market b)) k)
                   in Inr \<lparr>rq_texts = (case owner of None \<Rightarrow> texts
                         | Some r \<Rightarrow> if ''member'' \<notin> set (dkeys texts) \<and> k_account r = account then dset ''member'' (k_member r) texts else texts),
                        rq_numbers = numbers, rq_at = stamp t\<rparr>))))"

fun refused_items :: "nat \<Rightarrow> 'a fallible list \<Rightarrow> nat list" where
  "refused_items i [] = []"
| "refused_items i (r # rs) = (case r of Inl e \<Rightarrow> i # refused_items (i + 1) rs | Inr x \<Rightarrow> refused_items (i + 1) rs)"

definition found_items :: "'a fallible list \<Rightarrow> 'a list" where
  "found_items rs = List.map_filter (\<lambda>r. case r of Inl e \<Rightarrow> None | Inr x \<Rightarrow> Some x) rs"

text \<open>A report's answer: how many records were new, how many were known, and which were refused.\<close>

definition record_usage :: "env \<Rightarrow> usage_item option list option \<Rightarrow> ('a app_scheme, nat \<times> nat \<times> nat list) op" where
  "record_usage e items =
     seq_op (require (case items of None \<Rightarrow> False | Some xs \<Rightarrow> xs \<noteq> [] \<and> length xs \<le> RECORDS_PER_REPORT) (refuse 400 ''invalid_request''))
    (bind_op (read_clock e) (\<lambda>m.
     bind_op (gets (\<lambda>w. map (\<lambda>x. usage_record (book w) x m) (the items))) (\<lambda>rs.
     bind_op (gets (\<lambda>w. usage_add request_shape (found_items rs) (usages w))) (\<lambda>(added, u).
     seq_op (modify (\<lambda>w. w\<lparr>usages := u\<rparr>))
            (ret (added, length (found_items rs) - added, refused_items 0 rs))))))"

section \<open>Pages\<close>

record page_query =
  pq_until :: "moment field"
  pq_since :: "moment field"
  pq_limit :: "string option"
  pq_after :: "(stamp \<times> ident) option"

record 'r page =
  pg_since :: stamp
  pg_until :: stamp
  pg_records :: "'r list"
  pg_data :: "'r list"
  pg_more :: bool
  pg_next :: "(stamp \<times> ident) option"

definition time_field :: "moment field \<Rightarrow> moment option fallible" where
  "time_field v = (case v of Absent \<Rightarrow> Inr None | Malformed \<Rightarrow> Inl (refuse 400 ''invalid_request'') | Given t \<Rightarrow> Inr (Some t))"

definition page_limit :: "string option \<Rightarrow> nat fallible" where
  "page_limit v =
     (let limit = (if truthy v then the v else ''1000'') in
      if \<not> isdigit limit then Inl (refuse 400 ''invalid_request'')
      else bind_result (int_of_text limit) (\<lambda>n. if 1 \<le> n \<and> n \<le> 10000 then Inr (nat n) else Inl (refuse 400 ''invalid_request'')))"

definition cursor :: "'r shape \<Rightarrow> 'r \<Rightarrow> stamp \<times> ident" where
  "cursor sh r = (sh_at sh r, sh_ident sh r)"

definition page_of :: "env \<Rightarrow> 'r shape \<Rightarrow> 'r usage \<Rightarrow> ident \<Rightarrow> page_query \<Rightarrow> ('r \<Rightarrow> bool) \<Rightarrow> ('a world_scheme, 'r page) op" where
  "page_of e sh store account q matches =
     bind_op (lift (time_field (pq_until q))) (\<lambda>given_until.
     bind_op (case given_until of Some t \<Rightarrow> ret t | None \<Rightarrow> bind_op (read_clock e) (\<lambda>m. ret (m + 5 * 60 * SECOND))) (\<lambda>until.
     bind_op (lift (time_field (pq_since q))) (\<lambda>given_since.
     (let since = (case given_since of Some t \<Rightarrow> t | None \<Rightarrow> until - 7 * DAY) in
     seq_op (require (since < until \<and> until - since \<le> DAY * RECORD_DAYS) (refuse 400 ''invalid_request''))
    (bind_op (lift (page_limit (pq_limit q))) (\<lambda>limit.
     (let found = usage_query sh account since until matches store;
          rest = filter (\<lambda>r. case pq_after q of None \<Rightarrow> True | Some c \<Rightarrow> c < cursor sh r) found;
          more = limit < length rest
      in ret \<lparr>pg_since = stamp since, pg_until = stamp until, pg_records = found, pg_data = take limit rest, pg_more = more,
           pg_next = (if more then Some (cursor sh (last (take limit rest))) else None)\<rparr>)))))))"

definition requests :: "env \<Rightarrow> actor \<Rightarrow> page_query \<Rightarrow> (string, string) dict \<Rightarrow> ('a app_scheme, request_record page) op" where
  "requests e a q wanted =
     (case a of (account, member, role) \<Rightarrow>
      let names = (if role = ''member'' then dset ''member'' member wanted else wanted);
          matches = (\<lambda>r. \<forall>(name, v)\<in>set names. name \<in> {''key'', ''fleet'', ''model'', ''session'', ''member''} \<and> v \<noteq> [] \<longrightarrow> dget (rq_texts r) name = Some v) in
      bind_op (gets usages) (\<lambda>u. page_of e request_shape u account q matches))"

definition audit_list :: "env \<Rightarrow> ident \<Rightarrow> page_query \<Rightarrow> string \<Rightarrow> string \<Rightarrow> ('a world_scheme, audit_record page) op" where
  "audit_list e account q member kind =
     bind_op (gets audits) (\<lambda>u. page_of e audit_shape u account q
       (\<lambda>r. (member \<noteq> [] \<longrightarrow> au_member r = member) \<and> (kind \<noteq> [] \<longrightarrow> au_type r = kind)))"

definition TOTALS :: "string list" where
  "TOTALS = [''prompt_tokens'', ''cached_tokens'', ''prefill_tokens'', ''output_tokens'', ''prefill_ms'', ''cold_prefill_ms_estimate'']"

definition number_of :: "string \<Rightarrow> request_record \<Rightarrow> decimal" where
  "number_of name r = (case dget (rq_numbers r) name of None \<Rightarrow> 0 | Some x \<Rightarrow> x)"

text \<open>The sums before they are rounded for display.\<close>

record totals =
  tt_sums :: "(string, decimal) dict"
  tt_requests :: nat
  tt_cached_share :: decimal
  tt_decode_tps :: "decimal option"

definition usage_totals :: "request_record list \<Rightarrow> totals" where
  "usage_totals rs =
     (let sum = (\<lambda>name. sum_list (map (number_of name) rs));
          timed = filter (\<lambda>r. number_of ''decode_tps'' r \<noteq> 0 \<and> number_of ''output_tokens'' r \<noteq> 0) rs;
          decode = sum_list (map (number_of ''output_tokens'') timed);
          seconds = sum_list (map (\<lambda>r. number_of ''output_tokens'' r / number_of ''decode_tps'' r) timed)
      in \<lparr>tt_sums = map (\<lambda>name. (name, sum name)) TOTALS, tt_requests = length rs,
          tt_cached_share = (if sum ''prompt_tokens'' \<noteq> 0 then sum ''cached_tokens'' / sum ''prompt_tokens'' else 0),
          tt_decode_tps = (if seconds \<noteq> 0 then Some (decode / seconds) else None)\<rparr>)"

section \<open>Reports of the hub\<close>

definition AUDIT_LIMIT :: nat where "AUDIT_LIMIT = 4096"

definition HUB_AREAS :: "string list" where
  "HUB_AREAS = [''model'', ''models'', ''cache'', ''storage'', ''fetch'', ''run'', ''export'', ''restore'', ''pack'', ''repo'']"

definition HUB_AUDIT :: "string \<Rightarrow> bool" where
  "HUB_AUDIT t \<longleftrightarrow> before_char CHR ''.'' t \<in> set HUB_AREAS
     \<and> (case after_char CHR ''.'' t of None \<Rightarrow> False
        | Some u \<Rightarrow> 1 \<le> length u \<and> length u \<le> 40 \<and> (\<forall>c\<in>set u. (97 \<le> code_of c \<and> code_of c \<le> 122) \<or> c = CHR ''_''))"

record hub_audit_item =
  ha_type :: "string option"
  ha_fields :: "(string, jvalue) dict"
  ha_at :: "stamp field"
  ha_size :: "nat option"

definition hub_audit_record :: "book \<Rightarrow> hub_audit_item option \<Rightarrow> moment \<Rightarrow> audit_record fallible" where
  "hub_audit_record b item m =
     (let bad = refuse 400 ''invalid_request'' in
      case item of None \<Rightarrow> Inl bad
      | Some x \<Rightarrow> (case ha_type x of None \<Rightarrow> Inl bad
          | Some kind \<Rightarrow>
              if \<not> HUB_AUDIT kind then Inl bad
              else bind_result (read_texts [(''id'', 128), (''account'', 128), (''member'', 128), (''fleet'', 128)] (ha_fields x)) (\<lambda>entry.
                if ''id'' \<notin> set (dkeys entry) \<or> ''account'' \<notin> set (dkeys entry) \<or> ha_at x = Absent
                   \<or> dget (accounts b) (the (dget entry ''account'')) = None
                   \<or> (case ha_size x of None \<Rightarrow> True | Some n \<Rightarrow> AUDIT_LIMIT < n) then Inl bad
                else bind_result (stamp_field (case ha_at x of Given t \<Rightarrow> Some t | _ \<Rightarrow> None)) (\<lambda>t.
                  if \<not> record_window m t then Inl bad
                  else Inr \<lparr>au_id = ''HB'' @ the (dget entry ''id''), au_account = the (dget entry ''account''), au_at = stamp t,
                       au_member = (case dget entry ''member'' of None \<Rightarrow> [] | Some v \<Rightarrow> v), au_type = kind,
                       au_data = (case dget entry ''fleet'' of None \<Rightarrow> [] | Some v \<Rightarrow> [v])\<rparr>))))"

definition hub_audit :: "env \<Rightarrow> hub_audit_item option list option \<Rightarrow> ('a world_scheme, nat \<times> nat \<times> nat list) op" where
  "hub_audit e items =
     seq_op (require (case items of None \<Rightarrow> False | Some xs \<Rightarrow> xs \<noteq> [] \<and> length xs \<le> RECORDS_PER_REPORT) (refuse 400 ''invalid_request''))
    (bind_op (read_clock e) (\<lambda>m.
     bind_op (gets (\<lambda>w. map (\<lambda>x. hub_audit_record (book w) x m) (the items))) (\<lambda>rs.
     bind_op (gets (\<lambda>w. usage_add audit_shape (found_items rs) (audits w))) (\<lambda>(added, u).
     seq_op (modify (\<lambda>w. w\<lparr>audits := u\<rparr>))
            (ret (added, length (found_items rs) - added, refused_items 0 rs))))))"

text \<open>A refusal is the answer to its event; anything else ends the whole report.\<close>

definition answered_event :: "('s, 'b) op \<Rightarrow> ('s, 'b fallible) op" where
  "answered_event m s = (case m s of (Inl (Refusal status reason), t) \<Rightarrow> (Inr (Inl (Refusal status reason)), t)
     | (Inl x, t) \<Rightarrow> (Inl x, t) | (Inr y, t) \<Rightarrow> (Inr (Inr y), t))"

definition hub_events :: "env \<Rightarrow> hub_item list \<Rightarrow> ('a world_scheme, (string \<times> ident option) fallible list) op" where
  "hub_events e items =
     seq_op (require (1 \<le> length items \<and> length items \<le> 1000) (refuse 400 ''invalid_request''))
            (map_op (\<lambda>x. answered_event (hub_event e x)) items)"

end
