(* ===== verification/Delivery.thy ===== *)
theory Delivery
  imports Accounts
begin

text \<open>
  Background work of \<open>tools/sparkpipe_pay.py\<close>: the webhook deliveries of class \<open>Notifier\<close> with
  their retries, the class \<open>Guard\<close> that cuts streams whose holder lost the Fleet, what a health
  probe of a hub concludes, and the hourly housekeeping. What a webhook answers is the parameter
  \<open>post\<close>, a status, 0 when the request failed.
\<close>

section \<open>Webhook deliveries\<close>

definition RETRY_SECONDS :: "int list" where
  "RETRY_SECONDS = [60, 300, 1800, 7200, 21600, 43200, 86400]"

definition no_once :: "outcome \<Rightarrow> once option" where "no_once x = None"

definition finish :: "env \<Rightarrow> notice \<Rightarrow> string \<Rightarrow> nat \<Rightarrow> string \<Rightarrow> ('a world_scheme, unit) op" where
  "finish e n target attempt outcome =
     bind_op (read_clock e) (\<lambda>m. modify (\<lambda>w. w\<lparr>notifier := (notifier w)\<lparr>nf_deliveries :=
       journal_add no_once \<lparr>oc_notice = nt_id n, oc_target = target, oc_attempts = attempt + 1, oc_outcome = outcome, oc_at = stamp m\<rparr>
         (day_of (stamp m)) (nf_deliveries (notifier w))\<rparr>\<rparr>))"

definition attempt :: "env \<Rightarrow> (hook \<Rightarrow> notice \<Rightarrow> nat \<Rightarrow> nat) \<Rightarrow> notice \<Rightarrow> string \<Rightarrow> nat \<Rightarrow> ('a world_scheme, unit) op" where
  "attempt e post n target tried =
     bind_op (gets (\<lambda>w. rec_get target (hooks w))) (\<lambda>found. case found of None \<Rightarrow> finish e n target tried ''deleted''
     | Some h \<Rightarrow>
       if wh_kind h \<noteq> Url then finish e n target tried ''deleted''
       else let status = post h n tried in
         if 200 \<le> status \<and> status < 300 then finish e n target tried ''delivered''
         else if tried < length RETRY_SECONDS then schedule e n target (tried + 1) (RETRY_SECONDS ! tried * SECOND)
         else finish e n target tried (''failed '' @ nat_text status))"

definition due_key :: "delivery \<Rightarrow> duration \<times> nat" where
  "due_key d = (dl_at d, dl_count d)"

definition heappop :: "delivery list \<Rightarrow> (delivery \<times> delivery list) option" where
  "heappop hp = (case min_by due_key hp of None \<Rightarrow> None | Some d \<Rightarrow> Some (d, remove1 d hp))"

text \<open>One turn of the loop of \<open>run\<close>: nothing happens before the first delivery is due.\<close>

definition run_turn :: "env \<Rightarrow> (hook \<Rightarrow> notice \<Rightarrow> nat \<Rightarrow> nat) \<Rightarrow> ('a world_scheme, unit) op" where
  "run_turn e post =
     bind_op (read_monotonic e) (\<lambda>t.
     bind_op (gets (\<lambda>w. heappop (nf_heap (notifier w)))) (\<lambda>found. case found of None \<Rightarrow> ret ()
     | Some (d, rest) \<Rightarrow> if t < dl_at d then ret ()
         else seq_op (modify (\<lambda>w. w\<lparr>notifier := (notifier w)\<lparr>nf_heap := rest\<rparr>\<rparr>))
                     (logged (attempt e post (dl_notice d) (dl_target d) (dl_attempt d)))))"

definition sweep_target :: "env \<Rightarrow> notice \<Rightarrow> string \<Rightarrow> ('a world_scheme, unit) op" where
  "sweep_target e n target =
     bind_op (gets (\<lambda>w. target \<noteq> ''mail'' \<and> (nt_id n, target) \<notin> set (nf_known (notifier w)) \<and> rec_get target (hooks w) \<noteq> None)) (\<lambda>due.
       if due then schedule e n target 0 0 else ret ())"

definition sweep :: "env \<Rightarrow> moment \<Rightarrow> ('a world_scheme, unit) op" where
  "sweep e m =
     bind_op (gets (\<lambda>w. journal_items (Some (SWEEP_DAYS + 1)) (notices w))) (each (\<lambda>n.
       if m - DAY * int SWEEP_DAYS \<le> stamp_time (nt_now n) then each (sweep_target e n) (nt_targets n) else ret ()))"

definition known_of :: "(outcome, once) journal \<Rightarrow> (ident \<times> string) list" where
  "known_of deliveries = map (\<lambda>x. (oc_notice x, oc_target x)) (journal_items (Some (SWEEP_DAYS + 1)) deliveries)"

definition notifier_open :: "(int, outcome list) dict \<Rightarrow> notifier" where
  "notifier_open files = (let d = journal_open no_once files in \<lparr>nf_heap = [], nf_count = 0, nf_known = known_of d, nf_deliveries = d\<rparr>)"

section \<open>Housekeeping\<close>

definition NOTICE_DAYS :: int where "NOTICE_DAYS = 30"

text \<open>
  Each store is pruned at a fresh reading of the clock. The sessions are kept by one reading; the
  code reads the clock again for each of them.
\<close>

definition housekeeping :: "env \<Rightarrow> ('a app_scheme, unit) op" where
  "housekeeping e =
     seq_op (refresh (digest e))
    (seq_op (bind_op (read_clock e) (\<lambda>m. modify (\<lambda>w. w\<lparr>usages := usage_prune (day_of (stamp m)) (usages w)\<rparr>)))
    (seq_op (bind_op (read_clock e) (\<lambda>m. modify (\<lambda>w. w\<lparr>audits := usage_prune (day_of (stamp m)) (audits w)\<rparr>)))
    (seq_op (bind_op (now e) (\<lambda>m. modify (\<lambda>w. w\<lparr>notices := journal_prune (day_of (stamp m)) NOTICE_DAYS (notices w)\<rparr>)))
    (seq_op (bind_op (read_clock e) (\<lambda>m. modify (\<lambda>w. w\<lparr>notifier := (notifier w)\<lparr>nf_deliveries :=
               journal_prune (day_of (stamp m)) NOTICE_DAYS (nf_deliveries (notifier w))\<rparr>\<rparr>)))
    (seq_op (bind_op (now e) (\<lambda>m. on_uptime (uptime_prune m)))
    (seq_op (bind_op (read_clock e) (\<lambda>m. modify (\<lambda>w. w\<lparr>sessions := rec_keep (\<lambda>r. m < stamp_time (se_expires r)) (sessions w)\<rparr>)))
            (bind_op (now e) (sweep e))))))))"

section \<open>Streams watched by the guard\<close>

definition TUNNEL_CHECK :: duration where "TUNNEL_CHECK = 30 * SECOND"

text \<open>An entry holds when it is checked next and when it is cut, none for never.\<close>

record watched =
  gd_next :: duration
  gd_cut :: "duration option"

record guard =
  gd_active :: "(nat, watched) dict"
  gd_count :: nat

definition guard_watch :: "duration \<Rightarrow> guard \<Rightarrow> nat \<times> guard" where
  "guard_watch t g = (gd_count g, g\<lparr>gd_active := dset (gd_count g) \<lparr>gd_next = t + TUNNEL_CHECK, gd_cut = None\<rparr> (gd_active g), gd_count := gd_count g + 1\<rparr>)"

definition guard_done :: "nat \<Rightarrow> guard \<Rightarrow> guard" where
  "guard_done i g = g\<lparr>gd_active := ddel i (gd_active g)\<rparr>"

text \<open>\<open>check\<close> is how long the holder still has the Fleet, none when the check failed or found nothing.\<close>

definition checked :: "(nat \<Rightarrow> duration option) \<Rightarrow> duration \<Rightarrow> nat \<Rightarrow> watched \<Rightarrow> watched" where
  "checked check t i x =
     (if gd_next x \<le> t then \<lparr>gd_next = t + TUNNEL_CHECK, gd_cut = Some (case check i of None \<Rightarrow> t | Some left \<Rightarrow> t + left)\<rparr> else x)"

definition guard_entry :: "(nat \<Rightarrow> duration option) \<Rightarrow> duration \<Rightarrow> duration \<Rightarrow> nat \<Rightarrow> nat list \<times> guard \<Rightarrow> nat list \<times> guard" where
  "guard_entry check t t2 i acc =
     (case acc of (cuts, g) \<Rightarrow> (case dget (gd_active g) i of None \<Rightarrow> (cuts, g)
      | Some x \<Rightarrow>
          let y = checked check t i x; g1 = g\<lparr>gd_active := dset i y (gd_active g)\<rparr>
          in if (case gd_cut y of None \<Rightarrow> False | Some z \<Rightarrow> z \<le> t2) then (cuts @ [i], guard_done i g1) else (cuts, g1)))"

definition guard_sweep :: "(nat \<Rightarrow> duration option) \<Rightarrow> (nat \<Rightarrow> duration \<times> duration) \<Rightarrow> guard \<Rightarrow> nat list \<times> guard" where
  "guard_sweep check read g = foldl (\<lambda>acc i. guard_entry check (fst (read i)) (snd (read i)) i acc) ([], g) (dkeys (gd_active g))"

section \<open>What a probe of a hub concludes\<close>

record health =
  hl_ok :: bool
  hl_models :: "(string, bool) dict"

record control_view =
  cv_state :: "string option"
  cv_models :: "(string option \<times> bool) list"

definition hub_up :: "health option \<Rightarrow> nat \<Rightarrow> control_view option \<Rightarrow> bool" where
  "hub_up h status view =
     (case h of None \<Rightarrow> False
      | Some x \<Rightarrow>
          if status = 404 then hl_ok x
          else if status \<noteq> 200 then (\<exists>up\<in>set (dvalues (hl_models x)). up)
          else case view of None \<Rightarrow> (\<exists>up\<in>set (dvalues (hl_models x)). up)
          | Some v \<Rightarrow>
              if cv_state v = Some ''swapping'' then True
              else let resident = List.map_filter (\<lambda>(i, active). if active then i else None) (cv_models v)
                   in if resident = [] then cv_state v = Some ''idle''
                      else (\<forall>name\<in>set resident. dget (hl_models x) name = Some True))"

definition probe_health :: "health option option \<Rightarrow> (nat \<times> control_view option) option \<Rightarrow> bool" where
  "probe_health h control =
     (case h of None \<Rightarrow> False
      | Some found \<Rightarrow> (case control of None \<Rightarrow> hub_up found 0 None | Some (status, view) \<Rightarrow> hub_up found status view))"

end
