(* ===== verification/Gateway.thy ===== *)
theory Gateway
  imports Reports Delivery
begin

text \<open>
  What the HTTP handler of \<open>tools/sparkpipe_pay.py\<close> decides: which calls of the account and of the
  market an actor may make and which are audited, the ledger export, which scope a path of the API
  needs, which Fleet serves a request, what is forwarded to a hub, and the retry on another Fleet.
  Reading from and writing to sockets is left out; a hub answers or cannot be reached.
\<close>

section \<open>Calls of the account API\<close>

datatype account_action =
    Requests page_query "(string, string) dict"
  | Requests_erase
  | List_keys
  | Key_create key_body
  | Key_revoke ident
  | Key_rotate ident
  | Webhooks
  | Webhook_put hook_body
  | Webhook_delete ident
  | Members
  | Member_put "string option" string
  | Member_delete ident
  | Audit_log page_query string string

datatype account_reply =
    Requests_page "request_record page"
  | Erased nat stamp
  | Key_list "api_key list"
  | Key_made api_key string
  | Key_revoked ident
  | Key_rotated api_key string ident
  | Hook_list "hook list"
  | Hook_set hook "string option"
  | Hook_deleted ident
  | Member_list "member_view list"
  | Member_set member_view
  | Member_gone ident
  | Audit_page "audit_record page"

fun account_roles :: "account_action \<Rightarrow> string list option" where
  "account_roles Requests_erase = Some [''owner'']"
| "account_roles (Webhook_put b) = Some [''owner'', ''admin'']"
| "account_roles (Webhook_delete i) = Some [''owner'', ''admin'']"
| "account_roles (Member_put m r) = Some [''owner'']"
| "account_roles (Member_delete i) = Some [''owner'']"
| "account_roles (Audit_log q m k) = Some [''owner'', ''admin'']"
| "account_roles _ = None"

fun account_audited :: "account_reply \<Rightarrow> (string \<times> string list) option" where
  "account_audited (Key_made r key) = Some (''key.created'', [k_key r, k_member r])"
| "account_audited (Key_revoked i) = Some (''key.revoked'', [i])"
| "account_audited (Key_rotated r key old) = Some (''key.rotated'', [k_key r, old])"
| "account_audited (Hook_set h secret) = Some (''webhook.set'', wh_id h # wh_events h)"
| "account_audited (Hook_deleted i) = Some (''webhook.deleted'', [i])"
| "account_audited _ = None"

definition account_run :: "env \<Rightarrow> net \<Rightarrow> actor \<Rightarrow> account_action \<Rightarrow> ('a app_scheme, account_reply) op" where
  "account_run e n a act =
     (case a of (account, member, role) \<Rightarrow> (case act of
        Requests q wanted \<Rightarrow> bind_op (requests e a q wanted) (\<lambda>p. ret (Requests_page p))
      | Requests_erase \<Rightarrow> bind_op (erase_records e account member) (\<lambda>(k, t). ret (Erased k t))
      | List_keys \<Rightarrow> gets (\<lambda>w. Key_list (filter (\<lambda>r. k_account r = account \<and> (role \<noteq> ''member'' \<or> k_member r = member)) (dvalues (keys (st w)))))
      | Key_create body \<Rightarrow> bind_op (create_key e account body (Some member) role) (\<lambda>(r, key). ret (Key_made r key))
      | Key_revoke i \<Rightarrow> seq_op (revoke_key e account i (Some member) role) (ret (Key_revoked i))
      | Key_rotate i \<Rightarrow> bind_op (rotate_key e account i (Some member) role) (\<lambda>(r, key, t). ret (Key_rotated r key i))
      | Webhooks \<Rightarrow> gets (\<lambda>w. Hook_list (hooks_of account w))
      | Webhook_put body \<Rightarrow> bind_op (webhook_put e n account body) (\<lambda>(h, secret). ret (Hook_set h secret))
      | Webhook_delete i \<Rightarrow> seq_op (webhook_delete account i) (ret (Hook_deleted i))
      | Members \<Rightarrow> bind_op (members_list e account) (\<lambda>vs. ret (Member_list vs))
      | Member_put email r \<Rightarrow> bind_op (member_put e a email r) (\<lambda>v. ret (Member_set v))
      | Member_delete i \<Rightarrow> bind_op (member_delete e a i) (\<lambda>x. ret (Member_gone x))
      | Audit_log q m k \<Rightarrow> bind_op (audit_list e account q m k) (\<lambda>p. ret (Audit_page p))))"

definition account_call :: "env \<Rightarrow> net \<Rightarrow> actor \<Rightarrow> account_action \<Rightarrow> ('a app_scheme, account_reply) op" where
  "account_call e n a act =
     seq_op (case account_roles act of None \<Rightarrow> ret () | Some roles \<Rightarrow> require_role a roles)
    (bind_op (account_run e n a act) (\<lambda>r.
     seq_op (case account_audited r of None \<Rightarrow> ret () | Some (kind, data) \<Rightarrow> audit e (fst a) (fst (snd a)) kind data None) (ret r)))"

text \<open>Reading needs a key with \<open>account:read\<close>; everything else needs a session, and a cookie from our own pages.\<close>

fun writes :: "account_action \<Rightarrow> bool" where
  "writes (Requests q wanted) = False"
| "writes List_keys = False"
| "writes Webhooks = False"
| "writes Members = False"
| "writes (Audit_log q m k) = False"
| "writes _ = True"

definition account_api ::
    "env \<Rightarrow> cfg \<Rightarrow> net \<Rightarrow> (string \<Rightarrow> string option) \<Rightarrow> headers \<Rightarrow> address option \<Rightarrow> bool \<Rightarrow> account_action option \<Rightarrow> ('a app_scheme, account_reply) op" where
  "account_api e c n basic h ip cross_site action =
     (case action of None \<Rightarrow> raise (refuse 404 ''not_found'')
      | Some act \<Rightarrow>
          bind_op (principal_of e c basic h ip ''account:read'') (\<lambda>p.
          seq_op (require (\<not> (writes act \<and> pr_record p \<noteq> None)) (refuse 403 ''invalid_key''))
         (seq_op (require (\<not> (writes act \<and> pr_via p = ''cookie'' \<and> cross_site)) (refuse 403 ''invalid_request''))
         (seq_op (throttle e ''market'' (pr_account p))
                 (account_call e n (pr_account p, pr_member p, pr_role p) act)))))"

section \<open>Calls of the market\<close>

datatype market_action =
    Buy order_body
  | Quote_weeks ident "int option"
  | Book_hours ident "slot option" "int option"
  | Book_weeks ident "int option"
  | Join "decimal option"
  | Leave
  | Set_auto_extend ident "int option"
  | Make_key key_body
  | Revoke_key ident
  | Rotate_key ident
  | End_session ident
  | Sandbox_clock "int option"
  | Sandbox_fleet ident "bool option"
  | Sandbox_reset
  | Unknown_action

datatype market_reply =
    Bought "lot_data + order_reply"
  | Quoted plan
  | Hours_booked booking string
  | Weeks_booked plan ident
  | Joined decimal "nat option"
  | Left
  | Extend_set ident int "slot option"
  | Made_key api_key string
  | Revoked_key ident
  | Rotated_key api_key string ident
  | Session_ended ident
  | Clock_moved stamp
  | Fleet_set ident bool stamp
  | Reset_done

definition SPENDING :: "market_action \<Rightarrow> bool" where
  "SPENDING act = (case act of Book_hours f s n \<Rightarrow> True | Book_weeks f n \<Rightarrow> True | Join x \<Rightarrow> True | Set_auto_extend f n \<Rightarrow> True | _ \<Rightarrow> False)"

definition OWNER_ACTIONS :: "market_action \<Rightarrow> bool" where
  "OWNER_ACTIONS act \<longleftrightarrow> SPENDING act \<or> (case act of Buy b \<Rightarrow> True | Leave \<Rightarrow> True | _ \<Rightarrow> False)"

definition in_sandbox :: "env \<Rightarrow> ('s, 'b) op \<Rightarrow> ('s, 'b) op" where
  "in_sandbox e m = (if sandbox e then m else raise (Refusal 404 None))"

definition market_call ::
    "env \<Rightarrow> cfg \<Rightarrow> (order_data \<Rightarrow> (ident \<times> string) option) \<Rightarrow> market_action \<Rightarrow> actor \<Rightarrow> string \<Rightarrow> ('a app_scheme, market_reply) op" where
  "market_call e c create act a ip =
     (case a of (account, member, role) \<Rightarrow> (case act of
        Buy body \<Rightarrow> bind_op (app_buy e c create body account ip) (\<lambda>r. ret (Bought r))
      | Quote_weeks f n \<Rightarrow> bind_op (quote_weeks e account f n) (\<lambda>p. ret (Quoted p))
      | Book_hours f s n \<Rightarrow> bind_op (book_hours e account f s n) (\<lambda>(b, state). ret (Hours_booked b state))
      | Book_weeks f n \<Rightarrow> bind_op (book_weeks e account f n) (\<lambda>(p, i). ret (Weeks_booked p i))
      | Join x \<Rightarrow> bind_op (join e account x) (\<lambda>(l, p). ret (Joined l p))
      | Leave \<Rightarrow> bind_op (leave e account) (\<lambda>_. ret Left)
      | Set_auto_extend f n \<Rightarrow> bind_op (auto_extend e account f n) (\<lambda>(i, k, t). ret (Extend_set i k t))
      | Make_key body \<Rightarrow> bind_op (create_key e account body (Some member) role) (\<lambda>(r, key). ret (Made_key r key))
      | Revoke_key i \<Rightarrow> seq_op (revoke_key e account i (Some member) role) (ret (Revoked_key i))
      | Rotate_key i \<Rightarrow> bind_op (rotate_key e account i (Some member) role) (\<lambda>(r, key, t). ret (Rotated_key r key i))
      | End_session i \<Rightarrow> bind_op (revoke_session a i) (\<lambda>x. ret (Session_ended x))
      | Sandbox_clock n \<Rightarrow> in_sandbox e (bind_op (lift (count_field n 9600 1)) (\<lambda>k. bind_op (move_clock e k) (\<lambda>t. ret (Clock_moved t))))
      | Sandbox_fleet f up \<Rightarrow> in_sandbox e (bind_op (sandbox_fleet e f up) (\<lambda>(i, b, t). ret (Fleet_set i b t)))
      | Sandbox_reset \<Rightarrow> in_sandbox e (seq_op (reset e) (ret Reset_done))
      | Unknown_action \<Rightarrow> raise (Refusal 404 None)))"

definition market_audited :: "market_reply \<Rightarrow> (string \<times> string list) option" where
  "market_audited r = (case r of
        Hours_booked b state \<Rightarrow> Some (''booking.hours'', [bk_id b, bk_fleet b])
      | Weeks_booked p i \<Rightarrow> Some (''booking.weeks'', [i, pl_fleet p])
      | Joined l p \<Rightarrow> Some (''waitlist.lock'', [])
      | Left \<Rightarrow> Some (''waitlist.leave'', [])
      | Extend_set i k t \<Rightarrow> Some (''auto_extend.set'', [i])
      | Bought x \<Rightarrow> Some (''hc.bought'', [])
      | Made_key k key \<Rightarrow> Some (''key.created'', [k_key k, k_member k])
      | Revoked_key i \<Rightarrow> Some (''key.revoked'', [i])
      | Rotated_key k key old \<Rightarrow> Some (''key.rotated'', [k_key k, old])
      | Session_ended i \<Rightarrow> Some (''session.revoked'', [i])
      | _ \<Rightarrow> None)"

definition market_action ::
    "env \<Rightarrow> cfg \<Rightarrow> (order_data \<Rightarrow> (ident \<times> string) option) \<Rightarrow> market_action \<Rightarrow> bool \<Rightarrow> actor \<Rightarrow> string \<Rightarrow> ('a app_scheme, market_reply) op" where
  "market_action e c create act agreed a ip =
     seq_op (throttle e ''market'' ip)
    (seq_op (if OWNER_ACTIONS act then require_role a [''owner''] else ret ())
    (seq_op (if SPENDING act then require_terms e (fst a) agreed else ret ())
    (bind_op (market_call e c create act a ip) (\<lambda>r.
     seq_op (case market_audited r of None \<Rightarrow> ret () | Some (kind, data) \<Rightarrow> audit e (fst a) (fst (snd a)) kind data None) (ret r)))))"

section \<open>The ledger export\<close>

fun market_account :: "mline \<Rightarrow> ident option" where
  "market_account (Hc_lot d) = Some (ld_account d)"
| "market_account (Hc_debit account amount t lot) = Some account"
| "market_account (Booking b) = Some (bk_account b)"
| "market_account (Lock account amount t) = Some account"
| "market_account (Unlock account amount reason t) = Some account"
| "market_account (Lock_lapse account lot amount ref due t) = Some account"
| "market_account (Api_key d) = Some (kd_account d)"
| "market_account (Api_key_rotate key account new retires) = Some account"
| "market_account (Auto_extend account fleet weeks reason t) = Some account"
| "market_account (Auto_extend_wait account fleet through reason t) = Some account"
| "market_account (Failover f) = Some (fo_account f)"
| "market_account _ = None"

fun market_ids :: "mline \<Rightarrow> ident list" where
  "market_ids (Hc_lot d) = [ld_lot d, ld_ref d]"
| "market_ids (Hc_debit account amount t lot) = (case lot of None \<Rightarrow> [] | Some l \<Rightarrow> [l])"
| "market_ids (Booking b) = [bk_id b]"
| "market_ids (Lock_lapse account lot amount ref due t) = [lot, ref]"
| "market_ids (Api_key d) = [kd_key d]"
| "market_ids (Api_key_revoke key) = [key]"
| "market_ids (Api_key_rotate key account new retires) = [key]"
| "market_ids _ = []"

fun entry_account :: "entry \<Rightarrow> ident option" where
  "entry_account (Market l) = market_account l"
| "entry_account (Account d) = Some (ad_account d)"
| "entry_account (Acceptance account ko en) = Some account"
| "entry_account (Records_erased account through records by_whom) = Some account"
| "entry_account (Member_invite d) = Some (iv_account d)"
| "entry_account (Member d) = Some (mb_account d)"
| "entry_account (Member_role account member role by_whom) = Some account"
| "entry_account (Member_remove account member invite by_whom) = Some account"
| "entry_account (Order d) = Some (od_account d)"
| "entry_account (Refund r) = Some (rn_account r)"
| "entry_account (Tax_invoice order account number) = Some account"
| "entry_account (Hc_issued order account amount net) = Some account"
| "entry_account _ = None"

fun entry_ids :: "entry \<Rightarrow> ident list" where
  "entry_ids (Market l) = market_ids l"
| "entry_ids (Order d) = [od_order d]"
| "entry_ids (Invoice order invoice link) = [order, invoice]"
| "entry_ids (Invoice_failed order) = [order]"
| "entry_ids (Order_state order c) = [order]"
| "entry_ids (Toss_payment order key) = [order]"
| "entry_ids (Payment p) = [py_order p]"
| "entry_ids (Refund r) = [rn_order r]"
| "entry_ids (Tax_invoice order account number) = [order]"
| "entry_ids (Hc_issued order account amount net) = [order]"
| "entry_ids _ = []"

fun export_lines :: "ident \<Rightarrow> ident list \<Rightarrow> line list \<Rightarrow> line list" where
  "export_lines account mine [] = []"
| "export_lines account mine (l # ls) =
     (let ids = entry_ids (ln_data l);
          own = (case entry_account (ln_data l) of Some a \<Rightarrow> a = account | None \<Rightarrow> set ids \<inter> set mine \<noteq> {})
      in if own then l # export_lines account (ids @ mine) ls else export_lines account mine ls)"

definition complete_lines :: "raw list \<Rightarrow> line list" where
  "complete_lines f = List.map_filter (\<lambda>r. case r of Complete l \<Rightarrow> Some l | Incomplete \<Rightarrow> None) f"

definition ledger_export :: "ident \<Rightarrow> 'a store_scheme \<Rightarrow> string \<times> nat \<times> line list" where
  "ledger_export account w = (head (book w), count (book w), export_lines account [account] (complete_lines (ledger w)))"

section \<open>Paths of the API\<close>

definition NAME :: "string \<Rightarrow> bool" where
  "NAME t \<longleftrightarrow> t \<noteq> [] \<and> (\<forall>c\<in>set t. digit c \<or> (65 \<le> code_of c \<and> code_of c \<le> 90) \<or> (97 \<le> code_of c \<and> code_of c \<le> 122)
     \<or> c = CHR ''_'' \<or> c = CHR ''.'' \<or> c = CHR ''-'')"

definition lower_word :: "string \<Rightarrow> bool" where
  "lower_word t \<longleftrightarrow> t \<noteq> [] \<and> (\<forall>c\<in>set t. (97 \<le> code_of c \<and> code_of c \<le> 122) \<or> c = CHR ''_'')"

definition report_day :: "string \<Rightarrow> bool" where
  "report_day t \<longleftrightarrow> t \<noteq> [] \<and> (\<forall>c\<in>set t. digit c \<or> c = CHR ''-'')"

text \<open>The parts of a path between slashes; every path starts with one. The paths with \<open>.+\<close> or \<open>.*\<close> hold no line break.\<close>

definition one_line :: "string list \<Rightarrow> bool" where
  "one_line ps \<longleftrightarrow> (\<forall>p\<in>set ps. \<forall>c\<in>set p. code_of c \<noteq> 10)"

definition git_name :: "string \<Rightarrow> bool" where
  "git_name t \<longleftrightarrow> 4 < length t \<and> drop (length t - 4) t = ''.git'' \<and> NAME (take (length t - 4) t)"

fun v1_scope :: "string list \<Rightarrow> (string \<times> string option) option" where
  "v1_scope ps = (
     if ps = [''messages''] \<or> ps = [''messages'', ''count_tokens''] then Some (''inference'', None)
     else if (case ps of [r] \<Rightarrow> r = ''responses'' | [r, i] \<Rightarrow> r = ''responses'' \<and> NAME i | [r, i, x] \<Rightarrow> r = ''responses'' \<and> NAME i \<and> lower_word x | _ \<Rightarrow> False)
       then Some (''inference'', None)
     else if ps = [''chat'', ''completions''] \<or> ps = [''models''] \<or> ps = [''codex'', ''models''] \<or> ps = [''tokenize''] \<or> ps = [''detokenize'']
       then Some (''inference'', None)
     else if (case ps of [r, i] \<Rightarrow> r = ''requests'' \<and> NAME i | _ \<Rightarrow> False) then Some (''inference'', None)
     else if (case ps of [r] \<Rightarrow> r = ''batches'' | [r, i] \<Rightarrow> r = ''batches'' \<and> NAME i | _ \<Rightarrow> False) then Some (''inference'', None)
     else if ps = [''state''] \<or> ps = [''state'', ''move''] then Some (''state'', None)
     else if (case ps of [r] \<Rightarrow> r = ''cache'' | [r, x] \<Rightarrow> r = ''cache'' \<and> (x = ''warm'' \<or> x = ''pins'') | [r, x, i] \<Rightarrow> r = ''cache'' \<and> x = ''pins'' \<and> NAME i | _ \<Rightarrow> False)
       then Some (''state'', None)
     else if (case ps of [r] \<Rightarrow> r = ''packs'' | [r, i] \<Rightarrow> r = ''packs'' \<and> NAME i | [r, i, x] \<Rightarrow> r = ''packs'' \<and> NAME i \<and> x = ''refresh'' | _ \<Rightarrow> False)
       then Some (''state'', None)
     else if ps = [''models'', ''resident''] \<or> ps = [''models'', ''aliases''] then Some (''models'', Some ''state'')
     else if ps = [''drafters''] \<or> ps = [''drafters'', ''active''] then Some (''models'', Some ''state'')
     else if (case ps of [r] \<Rightarrow> r = ''custom-models'' | [r, i] \<Rightarrow> r = ''custom-models'' \<and> NAME i | _ \<Rightarrow> False) then Some (''models'', None)
     else if (case ps of [r] \<Rightarrow> r \<in> {''repos'', ''fetch''} | [r, i] \<Rightarrow> r \<in> {''repos'', ''fetch''} \<and> NAME i
                | [r, i, x] \<Rightarrow> r \<in> {''repos'', ''fetch''} \<and> NAME i \<and> x = ''resume'' | _ \<Rightarrow> False) then Some (''storage'', None)
     else if (case ps of r # rest \<Rightarrow> r = ''storage'' \<and> (rest = [] \<or> (rest \<noteq> [[]] \<and> one_line rest)) | [] \<Rightarrow> False) then Some (''storage'', None)
     else if ps = [''export''] \<or> ps = [''restore''] then Some (''storage'', None)
     else if (case ps of [r] \<Rightarrow> r \<in> {''functions'', ''runs'', ''schedules''} | [r, i] \<Rightarrow> (r = ''runs'' \<and> NAME i) \<or> (r = ''reports'' \<and> report_day i)
                | [r, i, x] \<Rightarrow> (r = ''functions'' \<and> NAME i \<and> x = ''runs'') \<or> (r = ''runs'' \<and> NAME i \<and> x = ''log'') | _ \<Rightarrow> False)
       then Some (''functions'', None)
     else None)"

definition route_scope :: "string list \<Rightarrow> (string \<times> string option) option" where
  "route_scope ps = (case ps of
       [] \<Rightarrow> None
     | area # rest \<Rightarrow>
         if area = ''v1'' then v1_scope rest
         else if ps = [''api'', ''hello''] \<or> ps = [''mcp''] then Some (''inference'', None)
         else if area = ''git'' \<and> rest \<noteq> [] \<and> git_name (hd rest) \<and> one_line (tl rest) then Some (''storage'', None)
         else None)"

definition hub_scope :: "string \<Rightarrow> string \<Rightarrow> string option" where
  "hub_scope verb path =
     (case split_on CHR ''/'' path of
        [] # ps \<Rightarrow> (case route_scope ps of None \<Rightarrow> None
          | Some (scope, read) \<Rightarrow> (case read of None \<Rightarrow> Some scope | Some r \<Rightarrow> if verb \<in> {''GET'', ''HEAD''} then Some r else Some scope))
      | _ \<Rightarrow> None)"

section \<open>Which Fleet serves a request\<close>

text \<open>The body of a request as the gateway reads it: the Fleet a chat names, or the Fleets of a move.\<close>

record hub_request =
  hr_verb :: string
  hr_path :: string
  hr_fleet :: "string option"
  hr_body :: "(string option) fallible"
  hr_move :: "(ident \<times> ident) fallible"

definition move_fleets :: "(ident \<times> ident) option \<Rightarrow> (ident \<times> ident) fallible" where
  "move_fleets v = (case v of None \<Rightarrow> Inl (refuse 400 ''invalid_request'')
     | Some (source, target) \<Rightarrow> if source = target then Inl (refuse 400 ''invalid_request'') else Inr (source, target))"

definition admitted :: "env \<Rightarrow> hub_request \<Rightarrow> ident \<Rightarrow> api_key option \<Rightarrow> ('a world_scheme, ident) op" where
  "admitted e q account record =
     (if hr_verb q = ''POST'' \<and> hr_path q = ''/v1/state/move'' then
        seq_op (require (\<not> (case record of None \<Rightarrow> False | Some r \<Rightarrow> truthy (k_fleet r))) (refuse 403 ''invalid_key''))
       (bind_op (admit_first e account None None) (\<lambda>_.
        bind_op (lift (bind_result (hr_move q) (\<lambda>x. move_fleets (Some x)))) (\<lambda>(source, target).
        admit e account record (Some source) [Some target])))
      else if hr_verb q = ''POST'' \<and> hr_path q = ''/v1/chat/completions'' then
        bind_op (admit_first e account record (hr_fleet q)) (\<lambda>fleet.
        bind_op (lift (hr_body q)) (\<lambda>named.
          case fleet of Some f \<Rightarrow> if f \<noteq> [] then ret f else admit e account record named []
          | None \<Rightarrow> admit e account record named []))
      else bind_op (admit e account record (hr_fleet q) []) (\<lambda>fleet. bind_op (lift (hr_body q)) (\<lambda>_. ret fleet)))"

section \<open>Forwarding\<close>

definition DROPPED :: "string list" where
  "DROPPED = [''connection'', ''keep-alive'', ''proxy-authenticate'', ''proxy-authorization'', ''proxy-connection'', ''te'', ''trailer'', ''trailers'',
     ''transfer-encoding'', ''upgrade'', ''host'', ''content-length'', ''expect'', ''authorization'', ''x-api-key'', ''cookie'', ''forwarded'', ''x-real-ip'']"

definition CUSTOMER_HEADERS :: "string list" where
  "CUSTOMER_HEADERS = [''x-sparkpipe-priority'', ''x-sparkpipe-source-token'']"

definition TOKEN_CHARS :: string where
  "TOKEN_CHARS = ''!#$%&*+.^_|~-'' @ [CHR 0x27, CHR 0x60]"

definition header_name :: "string \<Rightarrow> bool" where
  "header_name t \<longleftrightarrow> t \<noteq> [] \<and> (\<forall>c\<in>set t. digit c \<or> (65 \<le> code_of c \<and> code_of c \<le> 90) \<or> (97 \<le> code_of c \<and> code_of c \<le> 122) \<or> c \<in> set TOKEN_CHARS)"

definition prefixed :: "string \<Rightarrow> string \<Rightarrow> bool" where
  "prefixed p t \<longleftrightarrow> take (length p) t = p"

definition forwarded :: "string \<times> string \<Rightarrow> bool" where
  "forwarded x = (case x of (name, v) \<Rightarrow> let low = lower_text name in
     header_name name \<and> (\<forall>c\<in>set v. code_of c \<noteq> 13 \<and> code_of c \<noteq> 10) \<and> low \<notin> set DROPPED \<and> \<not> prefixed ''x-forwarded-'' low
     \<and> (\<not> prefixed ''x-sparkpipe-'' low \<or> low \<in> set CUSTOMER_HEADERS))"

fun joined_by :: "string \<Rightarrow> string list \<Rightarrow> string" where
  "joined_by sep [] = []"
| "joined_by sep [t] = t"
| "joined_by sep (t # ts) = t @ sep @ joined_by sep ts"

definition upstream_headers ::
    "string \<Rightarrow> (string \<times> string) list \<Rightarrow> ident \<Rightarrow> api_key option \<Rightarrow> ident \<Rightarrow> ident option \<Rightarrow> ident option \<Rightarrow> string \<Rightarrow> (string \<times> string) list" where
  "upstream_headers pool given account record fleet origin member role =
     (let scopes = filter (\<lambda>s. s \<in> set (ROLE_SCOPES role)) (case record of None \<Rightarrow> SCOPES | Some r \<Rightarrow> k_scopes r);
          swap = ((case record of None \<Rightarrow> True | Some r \<Rightarrow> k_allow_swap r) \<and> role \<noteq> ''member'');
          chosen = (\<exists>(name, v)\<in>set given. lower_text name = ''x-sparkpipe-priority'' \<and> v \<noteq> []) in
      filter forwarded given
      @ [(''Authorization'', ''Bearer '' @ pool), (''X-SparkPipe-Public'', ''1''), (''X-SparkPipe-Account'', account), (''X-SparkPipe-Fleet'', fleet),
         (''X-SparkPipe-Key'', case record of None \<Rightarrow> ''session'' | Some r \<Rightarrow> k_key r),
         (''X-SparkPipe-Member'', if truthy member then the member else account), (''X-SparkPipe-Role'', role),
         (''X-SparkPipe-Scopes'', joined_by '','' scopes), (''X-SparkPipe-Allow-Swap'', if swap then ''1'' else ''0'')]
      @ (case record of None \<Rightarrow> [] | Some r \<Rightarrow> if truthy (k_priority r) \<and> \<not> chosen then [(''X-SparkPipe-Priority'', the (k_priority r))] else [])
      @ (if truthy origin then [(''X-SparkPipe-Failover-From'', the origin)] else []))"

text \<open>\<open>reachable\<close> says whether the gateway can connect to the hub of a Fleet at the given try.\<close>

datatype hub_end = Forwarded ident "ident option" | Not_answering

fun hub_loop :: "nat \<Rightarrow> env \<Rightarrow> (nat \<Rightarrow> ident \<Rightarrow> bool) \<Rightarrow> (ident \<Rightarrow> bool) \<Rightarrow> ident \<Rightarrow> ident \<Rightarrow> nat \<Rightarrow> ident \<times> ident option \<Rightarrow> ('a world_scheme, hub_end) op" where
  "hub_loop 0 e reachable upstream account fleet try x = raise Exhausted"
| "hub_loop (Suc n) e reachable upstream account fleet try (served, origin) =
     (if \<not> upstream served then raise (refuse 503 ''closed'')
      else if reachable try served then ret (Forwarded served origin)
      else if truthy origin then ret Not_answering
      else bind_op (now e) (\<lambda>m.
           seq_op (observe e fleet False m ''the gateway could not connect'' True)
          (bind_op (route e account fleet) (\<lambda>y. hub_loop n e reachable upstream account fleet (try + 1) y))))"

definition still :: "env \<Rightarrow> cfg \<Rightarrow> (string \<Rightarrow> string option) \<Rightarrow> headers \<Rightarrow> ident \<Rightarrow> ident \<Rightarrow> string \<Rightarrow> address option \<Rightarrow> ident \<Rightarrow> ('a app_scheme, duration option) op" where
  "still e c basic h account fleet scope ip served =
     bind_op (answered_event (principal_of e c basic h ip scope)) (\<lambda>r. case r of
       Inl x \<Rightarrow> ret None
     | Inr p \<Rightarrow> if pr_account p \<noteq> account then ret None
         else bind_op (hold_left e account fleet) (\<lambda>left.
              if served = fleet then ret (Some left)
              else bind_op (now e) (\<lambda>m. gets (\<lambda>w. Some (min left (failover_left served m (st w)))))))"

section \<open>Chunked bodies\<close>

definition BODY_LIMIT :: nat where "BODY_LIMIT = 32 * 1024 * 1024"

text \<open>\<open>readline(1024)\<close>: up to a line break, which it includes, or 1024 bytes.\<close>

definition readline :: "string \<Rightarrow> string \<times> string" where
  "readline s = (let k = length (takeWhile (\<lambda>c. code_of c \<noteq> 10) s); n = min 1024 (min (length s) (k + 1)) in (take n s, drop n s))"

definition hex_value :: "char \<Rightarrow> nat option" where
  "hex_value c = (let n = code_of c in if 48 \<le> n \<and> n \<le> 57 then Some (n - 48) else if 65 \<le> n \<and> n \<le> 70 then Some (n - 55)
     else if 97 \<le> n \<and> n \<le> 102 then Some (n - 87) else None)"

definition chunk_size :: "string \<Rightarrow> nat option" where
  "chunk_size t = (if 1 \<le> length t \<and> length t \<le> 8 \<and> (\<forall>c\<in>set t. hex_value c \<noteq> None)
     then Some (foldl (\<lambda>n c. 16 * n + the (hex_value c)) 0 t) else None)"

definition bytes_strip :: "string \<Rightarrow> string" where
  "bytes_strip t = (let ws = (\<lambda>c. code_of c \<in> {9, 10, 11, 12, 13, 32}) in rev (dropWhile ws (rev (dropWhile ws t))))"

lemma length_readline: "s \<noteq> [] \<Longrightarrow> length (snd (readline s)) < length s"
  by (simp add: readline_def Let_def)

function chunked :: "string \<Rightarrow> string \<Rightarrow> string fallible" where
  "chunked found s =
     (let (raw, rest) = readline s in
      case chunk_size (bytes_strip (before_char CHR '';'' raw)) of
        None \<Rightarrow> Inl (refuse 400 ''invalid_request'')
      | Some n \<Rightarrow> if n = 0 then Inr found
          else if BODY_LIMIT < length found + n then Inl (refuse 413 ''invalid_request'')
          else if length rest < n then Inl (refuse 400 ''invalid_request'')
          else chunked (found @ take n rest) (snd (readline (drop n rest))))"
  by pat_completeness auto
termination
proof (relation "measure (\<lambda>(found, s). length s)", goal_cases)
  case (2 found s x raw rest n)
  have "s \<noteq> []"
  proof
    assume "s = []"
    then have "raw = []" using 2(1,2) by (simp add: readline_def Let_def)
    then show False using 2(3) by (simp add: chunk_size_def bytes_strip_def before_char_def Let_def)
  qed
  then have "length rest < length s" using length_readline [of s] 2(1,2) by (metis snd_conv)
  moreover have "length (snd (readline (drop n rest))) \<le> length (drop n rest)" by (simp add: readline_def Let_def)
  ultimately show ?case by simp
qed simp

end
