(* ===== verification/Views.thy ===== *)
theory Views
  imports Gateway
begin

text \<open>
  What \<open>tools/sparkpipe_market.py\<close> shows: the public listing of Fleets, an account's own view, the
  availability text, the status page with its uptime figures, and the state page that joins them.
  Names and prices that are copied from the settings are left out.
\<close>

section \<open>Fleets\<close>

definition first_open :: "env \<Rightarrow> mstate \<Rightarrow> fleet \<Rightarrow> moment \<Rightarrow> slot option" where
  "first_open e s fleet m =
     (let first = week_start m + WEEK in
      if fl_demo fleet \<or> \<not> fl_serving fleet \<or> busy (fl_id fleet) first (first + WEEK) s \<noteq> [] then None
      else (case check_first e s fleet first m of Inl x \<Rightarrow> None | Inr u \<Rightarrow> Some (slot_text first)))"

definition fleet_state :: "mstate \<Rightarrow> fleet \<Rightarrow> moment \<Rightarrow> string" where
  "fleet_state s fleet m =
     (if fl_demo fleet then ''demo''
      else if \<exists>b\<in>set (busy (fl_id fleet) m (m + SECOND) s). bk_kind b = Weeks then ''pinned'' else ''free'')"

record fleet_shown =
  fv_id :: ident
  fv_serving :: bool
  fv_status :: string
  fv_first_week :: "slot option"
  fv_booked :: "(slot \<times> slot) list"
  fv_maintenance :: "(slot \<times> slot) list"

definition fleet_view :: "env \<Rightarrow> mstate \<Rightarrow> fleet \<Rightarrow> moment \<Rightarrow> fleet_shown" where
  "fleet_view e s fleet m =
     \<lparr>fv_id = fl_id fleet, fv_serving = fl_serving fleet, fv_status = fleet_state s fleet m, fv_first_week = first_open e s fleet m,
      fv_booked = merged (map (\<lambda>b. (begins b, ends b)) (filter (\<lambda>b. m < ends b) (on_fleet (fl_id fleet) s))),
      fv_maintenance = merged (map (\<lambda>x. (mt_begins x, mt_ends x)) (maintained (fl_id fleet) m (m + 60 * WEEK) s))\<rparr>"

definition public_view :: "env \<Rightarrow> ('a world_scheme, stamp \<times> fleet_shown list \<times> nat) op" where
  "public_view e =
     bind_op (now e) (\<lambda>m.
     seq_op (advance e m)
            (gets (\<lambda>w. (stamp m, map (\<lambda>f. fleet_view e (st w) f m) (fleets e), length (locks (st w))))))"

definition AVAILABILITY :: "string \<Rightarrow> string" where
  "AVAILABILITY state = (if state = ''free'' then ''available'' else state)"

definition availability_text :: "env \<Rightarrow> ('a world_scheme, (ident \<times> bool \<times> string) list \<times> nat) op" where
  "availability_text e =
     bind_op (now e) (\<lambda>m.
     seq_op (advance e m)
            (gets (\<lambda>w. (map (\<lambda>f. (fl_id f, fl_serving f, AVAILABILITY (fleet_state (st w) f m))) (fleets e), length (locks (st w))))))"

section \<open>An account\<close>

record pinned =
  pn_fleet :: ident
  pn_weeks :: int
  pn_through :: slot
  pn_deadline :: slot
  pn_can_extend :: bool
  pn_auto_extend :: int
  pn_waiting :: "string option"

definition pinned_fleet :: "env \<Rightarrow> mstate \<Rightarrow> ident \<Rightarrow> moment \<Rightarrow> fleet \<Rightarrow> pinned option" where
  "pinned_fleet e s account m fleet =
     (case weeks_left account (fl_id fleet) m s of (in_hand, through) \<Rightarrow> (case through of None \<Rightarrow> None
      | Some t \<Rightarrow> Some \<lparr>pn_fleet = fl_id fleet, pn_weeks = in_hand, pn_through = slot_text t, pn_deadline = slot_text (t - DAY),
          pn_can_extend = (t - WEEK < week_start m + WEEK * int (maxWeeksAhead (pr_rules (settings e))) \<and> busy (fl_id fleet) t (t + WEEK) s = []),
          pn_auto_extend = (case dget (extends s) (account, fl_id fleet) of None \<Rightarrow> 0 | Some x \<Rightarrow> ex_weeks x),
          pn_waiting = extend_waiting account (fl_id fleet) s\<rparr>))"

definition pinned_view :: "env \<Rightarrow> mstate \<Rightarrow> ident \<Rightarrow> moment \<Rightarrow> pinned list" where
  "pinned_view e s account m = List.map_filter (pinned_fleet e s account m) (fleets e)"

record account_shown =
  av_now :: stamp
  av_balance :: decimal
  av_locked :: decimal
  av_position :: "nat option"
  av_joined :: "stamp option"
  av_lots :: "(lot \<times> decimal \<times> bool) list"
  av_bookings :: "(booking \<times> string) list"
  av_pinned :: "pinned list"
  av_refunds :: "refund_entry list"
  av_keys :: "api_key list"

definition account_view :: "env \<Rightarrow> mstate \<Rightarrow> ident \<Rightarrow> moment \<Rightarrow> account_shown" where
  "account_view e s account m =
     (let t = stamp m in
      \<lparr>av_now = t, av_balance = text_hc (balance account t s), av_locked = text_hc (locked account s), av_position = position account s,
       av_joined = map_option lk_joined (dget (locks s) account),
       av_lots = map (\<lambda>a. (heap s ! a, text_hc (lot_hc (heap s ! a)), lot_expires (heap s ! a) \<le> t)) (lots s account),
       av_bookings = map (\<lambda>b. (b, booking_state b m)) (sort_key (\<lambda>b. (begins b, bk_fleet b))
         (filter (\<lambda>b. bk_account b = account \<and> m - WEEK < ends b) (dvalues (bookings s)))),
       av_pinned = pinned_view e s account m, av_refunds = (case dget (refunds s) account of None \<Rightarrow> [] | Some rs \<Rightarrow> rs),
       av_keys = filter (\<lambda>r. k_account r = account) (dvalues (keys s))\<rparr>)"

definition view :: "env \<Rightarrow> ident \<Rightarrow> ('a world_scheme, account_shown) op" where
  "view e account = bind_op (now e) (\<lambda>m. seq_op (advance e m) (gets (\<lambda>w. account_view e (st w) account m)))"

record state_shown =
  ms_account :: account_shown
  ms_email :: string
  ms_company :: string
  ms_role :: string
  ms_terms :: bool
  ms_sessions :: "session list"

definition market_state ::
    "env \<Rightarrow> actor option \<Rightarrow> ('a app_scheme, (stamp \<times> fleet_shown list \<times> nat) \<times> state_shown option) op" where
  "market_state e found =
     bind_op (public_view e) (\<lambda>p. case found of None \<Rightarrow> ret (p, None)
     | Some (account, member, role) \<Rightarrow>
         bind_op (account_record account) (\<lambda>own.
         bind_op (view e account) (\<lambda>v.
         bind_op (gets (\<lambda>w. own_email (book w) account member)) (\<lambda>r.
         bind_op (lift r) (\<lambda>email.
         bind_op (gets (\<lambda>w. dget (accounts (book w)) account)) (\<lambda>now_own.
         bind_op (sessions_of e (account, member, role)) (\<lambda>ss.
           ret (p, Some \<lparr>ms_account = (if role = ''member'' then v\<lparr>av_keys := filter (\<lambda>k. k_member k = member) (av_keys v)\<rparr> else v),
             ms_email = email, ms_company = ad_company own, ms_role = role, ms_terms = (case now_own of None \<Rightarrow> False | Some a \<Rightarrow> accepted e a),
             ms_sessions = ss\<rparr>))))))))"

section \<open>The status page\<close>

definition UPTIME_WINDOWS :: "(string \<times> int) list" where
  "UPTIME_WINDOWS = [(''24h'', 1), (''7d'', 7), (''30d'', 30), (''90d'', 90)]"

definition span_end :: "moment \<Rightarrow> outage_span \<Rightarrow> moment" where
  "span_end m sp = (case sp_end sp of None \<Rightarrow> m | Some t \<Rightarrow> stamp_time t)"

definition down_in :: "mstate \<Rightarrow> ident \<Rightarrow> outage_span list \<Rightarrow> moment \<Rightarrow> moment \<Rightarrow> duration" where
  "down_in s fleet_id sps start m =
     sum_list (map (\<lambda>sp. let a = max (stamp_time (sp_start sp)) start; z = span_end m sp
       in overlap a z start m - sum_list (map (\<lambda>x. overlap (max a (mt_begins x)) (min z (mt_ends x)) start m) (maintained fleet_id a z s))) sps)"

text \<open>A share of uptime in percent before it is rounded to three places.\<close>

definition uptime_share :: "mstate \<Rightarrow> ident \<Rightarrow> outage_span list \<Rightarrow> stamp option \<Rightarrow> moment \<Rightarrow> int \<Rightarrow> decimal option" where
  "uptime_share s fleet_id sps first m days =
     (case first of None \<Rightarrow> None
      | Some t \<Rightarrow> let start = max (m - DAY * days) (stamp_time t)
                  in if m \<le> start then None else Some (100 * (1 - of_int (down_in s fleet_id sps start m) / of_int (m - start))))"

record incident =
  ic_start :: stamp
  ic_end :: "stamp option"
  ic_minutes :: int
  ic_cause :: string
  ic_creditable :: bool

record fleet_page =
  fp_id :: ident
  fp_status :: string
  fp_since :: "moment option"
  fp_first :: "stamp option"
  fp_uptime :: "(string \<times> decimal option) list"
  fp_incidents :: "incident list"
  fp_maintenance :: "(slot \<times> slot) list"

definition fleet_status :: "env \<Rightarrow> 'a world_scheme \<Rightarrow> fleet \<Rightarrow> outage_span list \<Rightarrow> moment \<Rightarrow> fleet_page" where
  "fleet_status e w fleet sps m =
     (let s = st w; entry = entry_of (fl_id fleet) (uptime w); first = map_option up_first entry;
          closing = maintained (fl_id fleet) m (m + SECOND) s; opened = find (\<lambda>sp. sp_end sp = None) sps;
          (state, since) =
            (if \<not> fl_serving fleet then (''not_serving'', None)
             else case closing of x # _ \<Rightarrow> (''maintenance'', Some (mt_begins x))
             | [] \<Rightarrow> (case opened of Some sp \<Rightarrow> (''down'', Some (stamp_time (sp_start sp)))
                 | None \<Rightarrow> (case entry of Some x \<Rightarrow> (''up'', max_list (map stamp_time (List.map_filter sp_end sps @ [up_first x])))
                     | None \<Rightarrow> (''unknown'', None))))
      in \<lparr>fp_id = fl_id fleet, fp_status = state, fp_since = since, fp_first = first,
          fp_uptime = map (\<lambda>(label, days). (label, uptime_share s (fl_id fleet) sps first m days)) UPTIME_WINDOWS,
          fp_incidents = map (\<lambda>sp. let d = span_end m sp - stamp_time (sp_start sp)
             in \<lparr>ic_start = sp_start sp, ic_end = sp_end sp, ic_minutes = d div (60 * SECOND), ic_cause = sp_cause sp, ic_creditable = (OUTAGE < d)\<rparr>)
             (sort_key (\<lambda>sp. - sp_start sp) sps),
          fp_maintenance = merged (map (\<lambda>x. (mt_begins x, mt_ends x)) (maintained (fl_id fleet) m (m + 60 * WEEK) s))\<rparr>)"

definition status_page :: "env \<Rightarrow> ('a world_scheme, stamp \<times> fleet_page list) op" where
  "status_page e =
     bind_op (now e) (\<lambda>m.
     seq_op (advance e m)
            (gets (\<lambda>w. let all = spans (m - (90 + 1) * DAY) (uptime w)
               in (stamp m, map (\<lambda>f. fleet_status e w f (filter (\<lambda>sp. sp_fleet sp = fl_id f) all) m) (fleets e)))))"

section \<open>The sandbox's replies\<close>

text \<open>\<open>simulate\<close> counts the tokens of the messages' texts and cuts its answer to a number of words.\<close>

definition tokens_in :: "string list \<Rightarrow> nat" where
  "tokens_in contents = max 1 (length (joined_by '' '' contents) div 4)"

definition simulate :: "string list \<Rightarrow> string list \<Rightarrow> int \<Rightarrow> string list \<times> nat \<times> nat" where
  "simulate answer contents most =
     (let out = take (nat (max 1 most)) answer in (out, tokens_in contents, length out))"

definition simulated_limit :: "int option \<Rightarrow> int" where
  "simulated_limit given = min (max (case given of None \<Rightarrow> 128 | Some n \<Rightarrow> n) 1) 512"

end
