(* ===== verification/Commands.thy ===== *)
theory Commands
  imports Views
begin

text \<open>
  The operator's commands of \<open>tools/sparkpipe_pay.py\<close>: each opens the book of its own process, does
  one operation and ends with an exit status, 2 for a request that is refused. What is printed is
  left out.
\<close>

text \<open>A refusal, or what a payment service raises where the command catches it, ends the command with a status.\<close>

definition exit_status :: "('s, 'b) op \<Rightarrow> bool \<Rightarrow> ('b \<Rightarrow> int) \<Rightarrow> ('s, int) op" where
  "exit_status m declined status s =
     (case m s of
        (Inr x, t) \<Rightarrow> (Inr (status x), t)
      | (Inl (Refusal k r), t) \<Rightarrow> (Inr 2, t)
      | (Inl (RemoteError (Some code)), t) \<Rightarrow> if declined then (Inr 2, t) else (Inl (RemoteError (Some code)), t)
      | (Inl x, t) \<Rightarrow> (Inl x, t))"

definition release_cmd :: "env \<Rightarrow> (nat \<Rightarrow> ident \<Rightarrow> coin_remote option) \<Rightarrow> ident \<Rightarrow> ('a app_scheme, int) op" where
  "release_cmd e invoice_at order_id =
     bind_op (gets (\<lambda>w. dget (orders (book w)) order_id)) (\<lambda>found.
       case found of None \<Rightarrow> ret 1
       | Some o1 \<Rightarrow> if \<not> truthy (o_invoice o1) then ret 1
           else bind_op (toss_call (\<lambda>n. invoice_at n (the (o_invoice o1)))) (\<lambda>remote. case remote of None \<Rightarrow> raise (RemoteError None)
             | Some r \<Rightarrow> if cr_status r \<noteq> ''completed'' then ret 1
                 else bind_op (settle e order_id r True) (\<lambda>issued. ret (if issued = None then 1 else 0))))"

definition maintenance_cmd :: "env \<Rightarrow> ident \<Rightarrow> int option \<Rightarrow> int option \<Rightarrow> ('a world_scheme, int) op" where
  "maintenance_cmd e fleet_id day hours = exit_status (schedule_maintenance e fleet_id day hours) False (\<lambda>_. 0)"

definition credit_cmd :: "env \<Rightarrow> string \<Rightarrow> decimal option \<Rightarrow> string \<Rightarrow> ('a world_scheme, int) op" where
  "credit_cmd e email amount note =
     bind_op (gets (\<lambda>w. dget (emails (book w)) (lower_text email))) (\<lambda>account.
       case hc_field amount of Inl x \<Rightarrow> ret 2
       | Inr credits \<Rightarrow> if \<not> truthy account \<or> strip_text note = [] then ret 2
           else bind_op (downtime_credit e (the account) credits (take 200 (strip_text note))) (\<lambda>_. ret 0))"

definition uptime_cmd :: "env \<Rightarrow> ident \<Rightarrow> stamp option \<Rightarrow> stamp option \<Rightarrow> ('a world_scheme, int \<times> outage_span list) op" where
  "uptime_cmd e fleet_id start end =
     (case (stamp_field start, stamp_field end, fleet_field e fleet_id) of
        (Inr a, Inr z, Inr f) \<Rightarrow> gets (\<lambda>w. (0, sort_key sp_start (filter (\<lambda>sp. sp_fleet sp = fleet_id \<and> sp_start sp < stamp z) (spans a (uptime w)))))
      | _ \<Rightarrow> ret (2, []))"

definition erase_cmd :: "env \<Rightarrow> string \<Rightarrow> string \<Rightarrow> ('a app_scheme, int) op" where
  "erase_cmd e email note =
     bind_op (gets (\<lambda>w. dget (emails (book w)) (lower_text email))) (\<lambda>account.
       if \<not> truthy account \<or> strip_text note = [] then ret 2
       else bind_op (erase_records e (the account) ''operator'') (\<lambda>_. ret 0))"

definition refund_cmd :: "env \<Rightarrow> toss_api \<Rightarrow> ident \<Rightarrow> string \<Rightarrow> string \<Rightarrow> string \<Rightarrow> bool \<Rightarrow> ('a app_scheme, int) op" where
  "refund_cmd e api order_id clause amount reason account =
     exit_status (refund e api order_id clause amount (take 150 (strip_text reason)) account) True (\<lambda>_. 0)"

definition swift_confirm_cmd :: "env \<Rightarrow> string \<Rightarrow> string \<Rightarrow> ('a world_scheme, int) op" where
  "swift_confirm_cmd e key amount = exit_status (swift_confirm e key (Some amount)) False (\<lambda>_. 0)"

definition swift_cancel_cmd :: "env \<Rightarrow> string \<Rightarrow> string \<Rightarrow> ('a world_scheme, int) op" where
  "swift_cancel_cmd e key reason = exit_status (swift_cancel e key (take 200 (strip_text reason))) False (\<lambda>_. 0)"

definition tax_invoice_cmd :: "env \<Rightarrow> ident \<Rightarrow> string \<Rightarrow> ('a world_scheme, int) op" where
  "tax_invoice_cmd e order_id number =
     bind_op (gets (\<lambda>w. (dget (orders (book w)) order_id, tax_invoices (book w)))) (\<lambda>(found, listed).
       case found of None \<Rightarrow> ret 2
       | Some o1 \<Rightarrow> if o1 \<notin> set listed \<or> strip_text number = [] then ret 2
           else bind_op (append e (Tax_invoice order_id (od_account o1) (take 40 (strip_text number)))) (\<lambda>_. ret 0))"

datatype command =
    Release ident
  | Maintenance_cmd ident "int option" "int option"
  | Credit string "decimal option" string
  | Refund_cmd ident string string string bool
  | Uptime ident "stamp option" "stamp option"
  | Erase_records string string
  | Tax_invoices
  | Tax_invoice_cmd ident string
  | Swift_confirm string string
  | Swift_cancel string string

definition run_command :: "env \<Rightarrow> toss_api \<Rightarrow> (nat \<Rightarrow> ident \<Rightarrow> coin_remote option) \<Rightarrow> command \<Rightarrow> ('a app_scheme, int) op" where
  "run_command e api invoice_at c =
     (case c of
        Release i \<Rightarrow> release_cmd e invoice_at i
      | Maintenance_cmd f day hours \<Rightarrow> maintenance_cmd e f day hours
      | Credit email amount note \<Rightarrow> credit_cmd e email amount note
      | Refund_cmd i clause amount reason account \<Rightarrow> refund_cmd e api i clause amount reason account
      | Uptime f start end \<Rightarrow> bind_op (uptime_cmd e f start end) (\<lambda>(k, _). ret k)
      | Erase_records email note \<Rightarrow> erase_cmd e email note
      | Tax_invoices \<Rightarrow> ret 0
      | Tax_invoice_cmd i number \<Rightarrow> tax_invoice_cmd e i number
      | Swift_confirm key amount \<Rightarrow> swift_confirm_cmd e key amount
      | Swift_cancel key reason \<Rightarrow> swift_cancel_cmd e key reason)"

text \<open>\<open>verify\<close> reads the whole ledger: it raises at the first line that does not follow the one before.\<close>

definition verify_ledger :: "(body \<Rightarrow> string) \<Rightarrow> raw list \<Rightarrow> (nat \<times> string \<times> nat \<times> nat) fallible" where
  "verify_ledger d f = (case open_book d f of (Inl x, b) \<Rightarrow> Inl x
     | (Inr u, b) \<Rightarrow> Inr (count b, head b, length (accounts b), length (orders b)))"

end
