(* ===== verification/Conservation.thy ===== *)
theory Conservation
  imports Market_State "HOL-Library.Multiset"
begin

text \<open>
  Conservation of HC: what an account owns, unlocked or locked, changes only by what a ledger
  line issues to it, spends from it or lapses. Locking and unlocking move HC without changing it.
\<close>

definition lots_total :: "ident \<Rightarrow> 'a credits_scheme \<Rightarrow> decimal" where
  "lots_total account s = sum_list (map (\<lambda>a. lot_hc (heap s ! a)) (lots s account))"

definition wealth :: "ident \<Rightarrow> 'a credits_scheme \<Rightarrow> decimal" where
  "wealth account s = lots_total account s + locked account s"

text \<open>What a line adds to an account's HC.\<close>

definition hc_change :: "ident \<Rightarrow> mstate \<Rightarrow> mline \<Rightarrow> decimal" where
  "hc_change account s l =
     (case l of
        Hc_lot d \<Rightarrow> if ld_account d = account then ld_hc d else 0
      | Hc_debit acc amount t lot \<Rightarrow>
          if acc \<noteq> account then 0 else - (if lot = None then min amount (balance account t s) else amount)
      | Booking b \<Rightarrow>
          if bk_account b \<noteq> account then 0
          else - min (bk_hc b) (if bk_source b = Waitlist then locked account s else balance account (bk_now b) s)
      | Lock_lapse acc lot amount ref due t \<Rightarrow>
          if acc \<noteq> account then 0
          else - (case dget (locks s) acc of None \<Rightarrow> 0
                  | Some lk \<Rightarrow> parts_total (filter (\<lambda>q. lot_id (heap s ! fst q) = lot) (lk_parts lk)))
      | _ \<Rightarrow> 0)"

lemma lots_total_diff:
  assumes "lots_ok s" "lots s' = lots s" "\<And>a. a < length (heap s) \<Longrightarrow> lot_hc (heap s' ! a) = lot_hc (heap s ! a) + f a"
  shows "lots_total acc s' = lots_total acc s + sum_list (map f (lots s acc))"
proof -
  have "set (lots s acc) \<subseteq> {..<length (heap s)}" using assms(1) by (simp add: lots_ok_def)
  then have "map (\<lambda>a. lot_hc (heap s' ! a)) (lots s acc) = map (\<lambda>a. lot_hc (heap s ! a) + f a) (lots s acc)"
    using assms(3) by (auto simp: subset_iff)
  then show ?thesis unfolding lots_total_def assms(2) by (simp only: sum_list_addf)
qed

lemma sum_held_lots:
  assumes "lots_ok s" "fst ` set ps \<subseteq> set (lots s acc)"
  shows "sum_list (map (held_at ps) (lots s other)) = (if other = acc then parts_total ps else 0)"
proof (cases "other = acc")
  case True
  then show ?thesis using sum_held_at [OF _ assms(2)] assms(1) by (simp add: lots_ok_def)
next
  case False
  then have dis: "set (lots s other) \<inter> set (lots s acc) = {}" using assms(1) by (simp add: lots_ok_def)
  have "map (held_at ps) (lots s other) = map (\<lambda>_. 0) (lots s other)"
  proof (rule map_cong [OF refl])
    fix a assume "a \<in> set (lots s other)"
    then have "a \<notin> fst ` set ps" using dis assms(2) by auto
    then show "held_at ps a = 0" by (rule held_at_notin)
  qed
  then show ?thesis using False by (simp only: sum_list_0 if_False)
qed

lemma take_from_nothing: "x \<le> 0 \<Longrightarrow> take_from h as x t = ([], h)"
  by (cases as) auto

lemma lots_total_take:
  assumes "credits_ok s" "take_hc acc x t s = (ts, s')"
  shows "lots_total other s' = lots_total other s - (if other = acc then max 0 (min x (balance acc t s)) else 0)"
    "lots s' = lots s" "locks s' = locks s" "parts_total ts = max 0 (min x (balance acc t s))"
proof -
  have ok: "lots_ok s" "amounts_ok s" using assms(1) by (simp_all add: credits_ok_def)
  obtain h' where h': "s' = s\<lparr>heap := h'\<rparr>"
    "\<forall>a<length (heap s). lot_hc (h' ! a) = lot_hc (heap s ! a) - held_at ts a" "fst ` set ts \<subseteq> set (lots s acc)"
    by (rule take_hc_spec [OF ok(1) assms(2)]) blast
  have as: "distinct (lots s acc)" "set (lots s acc) \<subseteq> {..<length (heap s)}" using ok(1) by (simp_all add: lots_ok_def)
  have tf: "take_from (heap s) (lots s acc) x t = (ts, heap s')"
    using assms(2) by (auto simp: take_hc_def split: prod.splits)
  have nn: "\<forall>a\<in>set (lots s acc). 0 \<le> lot_hc (heap s ! a)" using ok(2) as(2) by (auto simp: amounts_ok_def)
  show pt: "parts_total ts = max 0 (min x (balance acc t s))"
  proof (cases "0 \<le> x")
    case True
    then show ?thesis using take_from_total [OF tf as nn] balance_nonneg [OF assms(1), of acc t] by (simp add: balance_available)
  next
    case False
    then show ?thesis using tf by (simp add: take_from_nothing)
  qed
  have "lots_total other s' = lots_total other s + sum_list (map (\<lambda>a. - held_at ts a) (lots s other))"
    by (rule lots_total_diff [OF ok(1)]) (use h' in simp_all)
  also have "sum_list (map (\<lambda>a. - held_at ts a) (lots s other)) = - sum_list (map (held_at ts) (lots s other))"
    by (simp add: uminus_sum_list_map comp_def)
  finally show "lots_total other s' = lots_total other s - (if other = acc then max 0 (min x (balance acc t s)) else 0)"
    unfolding sum_held_lots [OF ok(1) h'(3)] by (simp add: pt)
  show "lots s' = lots s" "locks s' = locks s" by (simp_all add: h'(1))
qed

lemma wealth_take:
  assumes "credits_ok s" "take_hc acc x t s = (ts, s')"
  shows "wealth other s' = wealth other s - (if other = acc then max 0 (min x (balance acc t s)) else 0)"
  using lots_total_take [OF assms] by (simp add: wealth_def locked_def)

lemma wealth_release:
  assumes "credits_ok s" "dget (locks s) acc = Some lk" "\<forall>q\<in>set ps. 0 < snd q" "fst ` set ps \<subseteq> fst ` set (lk_parts lk)"
  shows "wealth other (release_parts acc ps s) = wealth other s - (if other = acc then parts_total (lk_parts lk) - parts_total ps else 0)"
proof -
  have ok: "lots_ok s" "locks_ok s" using assms(1) by (simp_all add: credits_ok_def)
  have sub: "fst ` set ps \<subseteq> set (lots s acc)" using assms(4) locks_ok_part [OF ok(2) assms(2)] by force
  have "lots_total other (release_parts acc ps s) = lots_total other s + sum_list (map (held_at ps) (lots s other))"
    by (rule lots_total_diff [OF ok(1)]) (simp_all add: release_parts_def give_back_hc)
  then show ?thesis using sum_held_lots [OF ok(1) sub] assms(2)
    by (simp add: wealth_def locked_def release_parts_def)
qed

lemma wealth_frame:
  "heap s' = heap s \<Longrightarrow> lots s' = lots s \<Longrightarrow> locks s' = locks s \<Longrightarrow> wealth acc s' = wealth acc s"
  by (simp add: wealth_def lots_total_def locked_def)

lemma wealth_fields [simp]:
  "wealth acc (s\<lparr>bookings := a\<rparr>) = wealth acc (s :: mstate)"
  "wealth acc (s\<lparr>keys := b\<rparr>) = wealth acc s"
  "wealth acc (s\<lparr>key_hashes := c\<rparr>) = wealth acc s"
  "wealth acc (s\<lparr>refunds := d\<rparr>) = wealth acc s"
  "wealth acc (s\<lparr>maintenances := f\<rparr>) = wealth acc s"
  "wealth acc (s\<lparr>round_done := g\<rparr>) = wealth acc s"
  "wealth acc (s\<lparr>offset := h\<rparr>) = wealth acc s"
  "wealth acc (s\<lparr>seq := i\<rparr>) = wealth acc s"
  "wealth acc (s\<lparr>extends := j\<rparr>) = wealth acc s"
  "wealth acc (s\<lparr>rebuilds := k\<rparr>) = wealth acc s"
  "wealth acc (s\<lparr>downtimes := l\<rparr>) = wealth acc s"
  "wealth acc (s\<lparr>downtime_hours := m\<rparr>) = wealth acc s"
  "wealth acc (s\<lparr>failovers := n\<rparr>) = wealth acc s"
  by (rule wealth_frame; simp)+

lemma wealth_lock:
  assumes "credits_ok s"
  shows "wealth other (lock_hc acc x t n s) = wealth other s"
proof -
  obtain ts s' where tk: "take_hc acc x t s = (ts, s')" by fastforce
  note total = lots_total_take [OF assms tk]
  have "locks s' = locks s" "lots_total other (s'\<lparr>locks := d\<rparr>) = lots_total other s'" for d
    using total by (simp_all add: lots_total_def)
  then show ?thesis using total
    by (simp add: lock_hc_def tk wealth_def locked_def Let_def split: option.splits)
qed

lemma wealth_issue:
  assumes "lots_ok s"
  shows "wealth other (issue_lot acc l s) = wealth other s + (if other = acc then lot_hc l else 0)"
proof -
  let ?h = "heap s @ [l]"
  have old: "map (\<lambda>a. lot_hc (?h ! a)) (lots s b) = map (\<lambda>a. lot_hc (heap s ! a)) (lots s b)" for b
    using assms by (auto simp: lots_ok_def nth_append subset_iff)
  have "sum_list (map f (sort_key k xs)) = sum_list (map f xs)" for f :: "nat \<Rightarrow> decimal" and k :: "nat \<Rightarrow> stamp \<times> stamp" and xs
    by (metis mset_map mset_sort sum_mset_sum_list)
  then have "lots_total other (issue_lot acc l s) = lots_total other s + (if other = acc then lot_hc l else 0)"
    unfolding lots_total_def issue_lot_def Let_def using old by (simp del: map_eq_conv)
  then show ?thesis by (simp add: wealth_def locked_def issue_lot_def Let_def)
qed

lemma wealth_adjust:
  assumes "lots_ok s" "a \<in> set (lots s acc)"
  shows "wealth other (s\<lparr>heap := adjust a x (heap s)\<rparr>) = wealth other s + (if other = acc then x else 0)"
proof -
  have a: "a < length (heap s)" using assms by (auto simp: lots_ok_def)
  have "lots_total other (s\<lparr>heap := adjust a x (heap s)\<rparr>) = lots_total other s + sum_list (map (held_at [(a, x)]) (lots s other))"
    by (rule lots_total_diff [OF assms(1)]) (use a in \<open>auto simp: adjust_hc\<close>)
  then show ?thesis using sum_held_lots [OF assms(1), of "[(a, x)]" acc other] assms(2)
    by (simp add: wealth_def locked_def)
qed

lemma parts_total_filter: "parts_total (filter P ps) = parts_total ps - parts_total (filter (\<lambda>q. \<not> P q) ps)"
  using sum_list_filter_split [of snd ps P] by (simp add: parts_total_def)

lemma wealth_booking:
  assumes "credits_ok s" "0 \<le> bk_hc b" "on_booking b s = (Inr (), s')"
  shows "wealth acc s' = wealth acc s + hc_change acc s (Booking b)"
proof (cases "bk_source b")
  case Balance
  let ?s = "s\<lparr>bookings := dset (bk_id b) b (bookings s)\<rparr>"
  obtain ts where tk: "take_hc (bk_account b) (bk_hc b) (bk_now b) ?s = (ts, s')"
    using assms(3) Balance by (simp add: on_booking_def op_simps) (metis prod.collapse)
  have bal: "balance (bk_account b) (bk_now b) ?s = balance (bk_account b) (bk_now b) s" by (simp add: balance_def)
  have "0 \<le> balance (bk_account b) (bk_now b) s" by (rule balance_nonneg [OF assms(1)])
  then show ?thesis using wealth_take [OF _ tk, of acc] assms(1,2) Balance
    by (auto simp: bal hc_change_def max_def min_def)
next
  case Waitlist
  then obtain lk where lk: "dget (locks s) (bk_account b) = Some lk"
    using assms(3) by (auto simp: on_booking_def op_simps pop_lock_step split: option.splits)
  let ?s = "s\<lparr>bookings := dset (bk_id b) b (bookings s)\<rparr>"
  have pos: "\<forall>q\<in>set (lk_parts lk). 0 < snd q"
    using locks_ok_part [OF _ lk] assms(1) by (auto simp: credits_ok_def)
  have s': "s' = release_parts (bk_account b) (spend (lk_parts lk) (bk_hc b)) ?s"
    using assms(3) Waitlist lk by (simp add: on_booking_def op_simps pop_lock_step return_parts_def release_parts_def)
  have "0 \<le> parts_total (lk_parts lk)" using pos by (intro parts_total_nonneg) (auto intro: less_imp_le)
  then show ?thesis
    using wealth_release [of ?s "bk_account b" lk "spend (lk_parts lk) (bk_hc b)" acc] assms(1) lk spend_spec [OF pos assms(2)] Waitlist
    by (cases "bk_account b = acc") (auto simp: s' hc_change_def locked_def max_def min_def)
qed

lemma wealth_lapse:
  assumes "on_lock_lapse acc lot x ref due t s = (Inr (), s')"
  shows "wealth other s' = wealth other s + hc_change other s (Lock_lapse acc lot x ref due t)"
proof -
  obtain lk where lk: "dget (locks s) acc = Some lk"
    using assms by (auto simp: on_lock_lapse_def op_simps split: option.splits)
  let ?keep = "filter (\<lambda>q. lot_id (heap s ! fst q) \<noteq> lot) (lk_parts lk)"
  have eq: "heap s' = heap s" "lots s' = lots s"
    "locks s' = (if ?keep = [] then ddel acc (locks s) else dset acc (lk\<lparr>lk_parts := ?keep\<rparr>) (locks s))"
    using assms lk by (auto simp: on_lock_lapse_def op_simps Let_def)
  have "locked other s' = (if other = acc then parts_total ?keep else locked other s)"
    by (simp add: locked_def eq(3))
  moreover have "lots_total other s' = lots_total other s" by (simp add: lots_total_def eq)
  ultimately show ?thesis
    using parts_total_filter [of "\<lambda>q. lot_id (heap s ! fst q) \<noteq> lot" "lk_parts lk"] lk
    by (simp add: wealth_def hc_change_def locked_def)
qed

lemma wealth_debit:
  assumes "credits_ok s" "on_hc_debit acc x t lot s = (Inr (), s')" "0 \<le> x"
  shows "wealth other s' = wealth other s + hc_change other s (Hc_debit acc x t lot)"
proof (cases lot)
  case None
  obtain ts where tk: "take_hc acc x t s = (ts, s')"
    using assms(2) None by (simp add: on_hc_debit_def op_simps) (metis prod.collapse)
  then show ?thesis using wealth_take [OF assms(1) tk, of other] balance_nonneg [OF assms(1), of acc t] assms(3) None
    by (auto simp: hc_change_def max_def min_def)
next
  case (Some i)
  then obtain a where a: "find_lot acc i s = Some a" "s' = s\<lparr>heap := adjust a (- x) (heap s)\<rparr>"
    using assms(2) by (auto simp: on_hc_debit_def op_simps split: option.splits)
  then have "a \<in> set (lots s acc)" by (auto simp: find_lot_def find_Some_iff)
  then show ?thesis using wealth_adjust [of s a acc other "- x"] assms(1) a(2) Some
    by (simp add: hc_change_def credits_ok_def)
qed

definition amount_ok :: "mline \<Rightarrow> bool" where
  "amount_ok l = (case l of Booking b \<Rightarrow> 0 \<le> bk_hc b | Hc_debit acc x t lot \<Rightarrow> 0 \<le> x | _ \<Rightarrow> True)"

lemma dispatch_wealth:
  assumes "credits_ok s" "amount_ok l" "dispatch l s = (Inr (), s')"
  shows "wealth acc s' = wealth acc s + hc_change acc s l"
proof (cases l)
  case (Hc_lot d)
  have "wealth acc s' = wealth acc (issue_lot (ld_account d) (lot_of d) s)"
    using assms(3) by (auto simp: Hc_lot on_hc_lot_def op_simps split: option.splits if_splits)
  then show ?thesis using wealth_issue [of s acc "ld_account d" "lot_of d"] assms(1) by (simp add: Hc_lot hc_change_def credits_ok_def)
next
  case (Booking b)
  then show ?thesis using wealth_booking assms by (simp add: amount_ok_def)
next
  case (Lock_lapse a b c d f g)
  then show ?thesis using wealth_lapse assms(3) by simp
next
  case (Hc_debit a b c d)
  then show ?thesis using wealth_debit assms by (simp add: amount_ok_def)
next
  case (Lock a x t)
  then show ?thesis using wealth_lock [OF assms(1)] assms(3) by (auto simp: on_lock_def op_simps hc_change_def)
next
  case (Unlock a x r t)
  then obtain lk where lk: "dget (locks s) a = Some lk" "s' = release_parts a (lk_parts lk) s"
    using assms(3) by (auto simp: on_unlock_def op_simps pop_lock_step return_parts_def release_parts_def split: option.splits)
  have "\<forall>q\<in>set (lk_parts lk). 0 < snd q" using locks_ok_part [OF _ lk(1)] assms(1) by (auto simp: credits_ok_def)
  then show ?thesis using wealth_release [OF assms(1) lk(1), of "lk_parts lk" acc] by (simp add: lk(2) Unlock hc_change_def)
qed (use assms(3) in \<open>auto simp: hc_change_def op_simps on_round_def on_api_key_def on_api_key_revoke_def on_api_key_rotate_def
       on_maintenance_def on_maintenance_done_def on_clock_def on_auto_extend_def on_auto_extend_wait_def on_downtime_def
       on_failover_def on_failover_end_def change_step split: option.splits\<close>)

lemma hc_change_seq [simp]: "hc_change acc (s\<lparr>seq := n\<rparr>) l = hc_change acc s l"
  by (cases l) (simp_all add: hc_change_def balance_def locked_def split: option.splits)

lemma apply_line_wealth:
  assumes "credits_ok s" "amount_ok l" "apply_line n l s = (Inr (), s')"
  shows "wealth acc s' = wealth acc s + hc_change acc s l"
  using dispatch_wealth [of "s\<lparr>seq := n\<rparr>" l s' acc] assms by (simp add: apply_line_def op_simps)

section \<open>Histories\<close>

text \<open>The states a ledger whose lines are sound can lead to.\<close>

inductive history :: "mstate \<Rightarrow> bool" where
  start: "history init_state"
| line: "history s \<Longrightarrow> line_ok s l \<Longrightarrow> apply_line n l s = (r, s') \<Longrightarrow> history s'"

inductive_cases history_elim: "history s"

lemma history_credits_ok: "history s \<Longrightarrow> credits_ok s"
proof (induction rule: history.induct)
  case (line s l n r s')
  then show ?case using apply_line_credits_ok [of s l n] by simp
qed simp

section \<open>Properties\<close>

text \<open>
  In every state a ledger of sound lines leads to, the lots of an account are in the order in
  which they lapse and belong to no other account, no lot and no balance is negative, and a lot
  never holds more, together with what is locked of it, than was issued.
\<close>

theorem history_sound:
  assumes "history s"
  shows "credits_ok s \<and> 0 \<le> balance acc t s \<and> 0 \<le> locked acc s
     \<and> (\<forall>a<length (heap s). 0 \<le> lot_hc (heap s ! a) \<and> lot_hc (heap s ! a) + locks_at (locks s) a \<le> lot_first (heap s ! a))"
proof -
  have ok: "credits_ok s" by (rule history_credits_ok [OF assms])
  have "0 \<le> locked acc s"
  proof (cases "dget (locks s) acc")
    case (Some lk)
    then have "\<forall>q\<in>set (lk_parts lk). 0 < snd q" using ok locks_ok_part by (fastforce simp: credits_ok_def)
    then have "0 \<le> parts_total (lk_parts lk)" by (intro parts_total_nonneg) (auto intro: less_imp_le)
    then show ?thesis using Some by (simp add: locked_def)
  qed (simp add: locked_def)
  then show ?thesis using ok balance_nonneg [OF ok] by (simp add: credits_ok_def amounts_ok_def)
qed

definition first_lot :: lot_data where
  "first_lot = \<lparr>ld_lot = ''LT1'', ld_account = ''AC1'', ld_hc = 200, ld_expires = 1000, ld_source = ''purchase'', ld_ref = ''SP1'', ld_now = 10,
     ld_fleet = None, ld_hours = [], ld_note = None\<rparr>"

lemma first_lot_applies: "apply_line 1 (Hc_lot first_lot) init_state = (Inr (), snd (apply_line 1 (Hc_lot first_lot) init_state))"
  by (simp add: apply_line_def on_hc_lot_def op_simps first_lot_def)

lemma first_lot_history: "history (snd (apply_line 1 (Hc_lot first_lot) init_state))"
  by (rule history.line [OF history.start _ first_lot_applies]) (simp add: line_ok_def first_lot_def)

theorem history_sound_witness:
  "credits_ok (snd (apply_line 1 (Hc_lot first_lot) init_state)) \<and> 0 \<le> balance ''AC1'' 20 (snd (apply_line 1 (Hc_lot first_lot) init_state))
     \<and> 0 \<le> locked ''AC1'' (snd (apply_line 1 (Hc_lot first_lot) init_state))"
  using history_sound [OF first_lot_history] by blast

text \<open>
  C1. HC are conserved: a ledger line changes what an account owns, unlocked and locked together,
  by exactly what the line issues to it, spends from it or lets lapse; locking and unlocking
  change nothing.
\<close>

theorem hc_conserved:
  assumes "credits_ok s" "amount_ok l" "apply_line n l s = (Inr (), s')"
  shows "wealth acc s' = wealth acc s + hc_change acc s l"
  by (rule apply_line_wealth [OF assms])

theorem hc_conserved_witness:
  "wealth ''AC1'' (snd (apply_line 1 (Hc_lot first_lot) init_state)) = wealth ''AC1'' init_state + hc_change ''AC1'' init_state (Hc_lot first_lot)"
  by (rule hc_conserved [OF _ _ first_lot_applies]) (simp_all add: amount_ok_def)

end
