(* ===== verification/Queue.thy ===== *)
theory Queue
  imports Text_Fields
begin

text \<open>
  The node queue (\<open>tools/spark_queue.py\<close>): tasks wait for nodes of the fleet, are claimed when
  nothing that is held conflicts with them, run as one control group per node, and are stopped at
  their deadline. A task, a manual reservation and a tracked service are Python dictionaries with
  the same keys; all three are the record \<open>task\<close>. What the nodes answer (a census of their units,
  memory and ports, and the state of a task's control group) is an argument. A command runs in a
  transaction: when it raises, the stored state stays as it was.
\<close>

section \<open>State\<close>

definition JOB_MEMORY_MIB_DEFAULT :: int where "JOB_MEMORY_MIB_DEFAULT = 8192"
definition NODE_MEMORY_MIB_MAX :: int where "NODE_MEMORY_MIB_MAX = 114688"
definition HOST_HEADROOM_MIB :: int where "HOST_HEADROOM_MIB = 8192"
definition MIB :: int where "MIB = 1024 * 1024"

record persistent_unit =
  pu_id :: string
  pu_nodes :: "string list"
  pu_host_bytes :: int
  pu_invocation :: string
  pu_group :: string
  pu_key :: string

record task =
  tk_id :: string
  tk_nodes :: "string list"
  tk_resources :: "string option"
  tk_ports :: "(int \<times> int) list"
  tk_memory :: "int option"
  tk_device :: int
  tk_released :: "string list"
  tk_state :: string
  tk_attempt :: "string option"
  tk_cmd :: string
  tk_per_node :: bool
  tk_priority :: int
  tk_kind :: string
  tk_after :: "string list"
  tk_ttl :: "decimal option"
  tk_submitted :: decimal
  tk_deadline :: decimal
  tk_exit :: "int option"
  tk_unknown :: nat
  tk_error :: "string option"
  tk_failed :: "string list"
  tk_acquired :: decimal
  tk_unit :: "string option"
  tk_scope :: "string option"
  tk_host_bytes :: int
  tk_invocation :: "string option"
  tk_group :: string
  tk_admission :: "persistent_unit list"

record qstate =
  q_jobs :: "task list"
  q_results :: "task list"
  q_manual :: "task list"
  q_persistent :: "task list"
  q_fences :: "string list"
  q_dispatcher_at :: decimal

definition ACTIVE :: "string list" where "ACTIVE = [''launching'', ''running'', ''stopping'']"

definition active :: "task \<Rightarrow> bool" where
  "active t \<longleftrightarrow> tk_state t \<in> set ACTIVE"

definition blank_task :: task where
  "blank_task = \<lparr>tk_id = [], tk_nodes = [], tk_resources = None, tk_ports = [], tk_memory = None, tk_device = 0, tk_released = [], tk_state = [],
     tk_attempt = None, tk_cmd = [], tk_per_node = False, tk_priority = 5, tk_kind = ''run'', tk_after = [], tk_ttl = None, tk_submitted = 0,
     tk_deadline = 0, tk_exit = None, tk_unknown = 0, tk_error = None, tk_failed = [], tk_acquired = 0, tk_unit = None, tk_scope = None,
     tk_host_bytes = 0, tk_invocation = None, tk_group = [], tk_admission = []\<rparr>"

definition transaction :: "(qstate, 'b) op \<Rightarrow> (qstate, 'b) op" where
  "transaction m s = (case m s of (Inl x, t) \<Rightarrow> (Inl x, s) | (Inr y, t) \<Rightarrow> (Inr y, t))"

section \<open>Checks of what a command is given\<close>

definition validate_ttl :: "decimal option \<Rightarrow> decimal fallible" where
  "validate_ttl v = (case v of None \<Rightarrow> Inl SystemExit | Some x \<Rightarrow> if 0 < x \<and> x \<le> 15 then Inr x else Inl SystemExit)"

definition alnum :: "char \<Rightarrow> bool" where
  "alnum c \<longleftrightarrow> digit c \<or> (65 \<le> code_of c \<and> code_of c \<le> 90) \<or> (97 \<le> code_of c \<and> code_of c \<le> 122)"

definition valid_name :: "string \<Rightarrow> string fallible" where
  "valid_name v = (case v of [] \<Rightarrow> Inl SystemExit
     | c # cs \<Rightarrow> if alnum c \<and> length cs \<le> 79 \<and> (\<forall>x\<in>set cs. alnum x \<or> x \<in> set ''_.-'') then Inr v else Inl SystemExit)"

definition node_alias :: "string \<Rightarrow> bool" where
  "node_alias n \<longleftrightarrow> length n = 6 \<and> take 5 n = ''spark'' \<and> (digit (n ! 5) \<or> (97 \<le> code_of (n ! 5) \<and> code_of (n ! 5) \<le> 102))"

fun parse_ports :: "(int \<times> int) list \<Rightarrow> (int \<times> int) list \<Rightarrow> (int \<times> int) list fallible" where
  "parse_ports ports [] = Inr ports"
| "parse_ports ports ((lo, hi) # rest) =
     (if \<not> (1024 \<le> lo \<and> lo \<le> hi \<and> hi \<le> 65535) \<or> (\<exists>(a, b)\<in>set ports. lo \<le> b \<and> a \<le> hi) then Inl SystemExit
      else parse_ports (ports @ [(lo, hi)]) rest)"

definition or_system :: "string option \<Rightarrow> string" where
  "or_system v = (case v of None \<Rightarrow> ''system'' | Some t \<Rightarrow> t)"

definition owner_key :: "task \<Rightarrow> string" where
  "owner_key t = or_system (tk_scope t) @ '':'' @ (case tk_unit t of Some u \<Rightarrow> u
     | None \<Rightarrow> ''sparkqueue-'' @ (case tk_attempt t of None \<Rightarrow> [] | Some a \<Rightarrow> a) @ ''.service'')"

section \<open>Conflicts and memory\<close>

definition holding :: "task \<Rightarrow> string list" where
  "holding t = filter (\<lambda>n. n \<notin> set (tk_released t)) (tk_nodes t)"

definition resources_of :: "task \<Rightarrow> string" where
  "resources_of t = (case tk_resources t of None \<Rightarrow> ''gpu'' | Some r \<Rightarrow> r)"

definition ports_meet :: "task \<Rightarrow> task \<Rightarrow> bool" where
  "ports_meet x y \<longleftrightarrow> (\<exists>(a, b)\<in>set (tk_ports x). \<exists>(c, d)\<in>set (tk_ports y). a \<le> d \<and> c \<le> b)"

definition conflicts :: "task \<Rightarrow> task \<Rightarrow> bool" where
  "conflicts x y \<longleftrightarrow> (\<exists>n\<in>set (holding x). n \<in> set (holding y)) \<and>
     (ports_meet x y \<or> ''exclusive'' \<in> {resources_of x, resources_of y}
      \<or> (''gpu'' \<in> {resources_of x, resources_of y} \<and> {resources_of x, resources_of y} \<subseteq> {''gpu'', ''gpu-shared''}))"

definition memory_of :: "task \<Rightarrow> int" where
  "memory_of t = (case tk_memory t of None \<Rightarrow> 0 | Some m \<Rightarrow> m)"

definition memory_on :: "string \<Rightarrow> task list \<Rightarrow> int" where
  "memory_on n owners = sum_list (map memory_of (filter (\<lambda>o1. n \<in> set (holding o1)) owners))"

definition memory_available :: "task \<Rightarrow> task list \<Rightarrow> bool" where
  "memory_available t owners \<longleftrightarrow>
     (\<forall>n\<in>set (tk_nodes t). memory_on n owners + (case tk_memory t of None \<Rightarrow> JOB_MEMORY_MIB_DEFAULT | Some m \<Rightarrow> m) \<le> NODE_MEMORY_MIB_MAX)"

section \<open>The census of a node\<close>

record unit_fields =
  uf_load :: "string option"
  uf_active :: "string option"
  uf_group :: string
  uf_maximum :: "int option"
  uf_nonreclaimable :: "int option"
  uf_invocation :: "string option"

record gpu_process =
  gp_pid :: nat
  gp_group :: string
  gp_used :: "int option"

record census =
  ce_error :: "string option"
  ce_gpus :: "string list"
  ce_units :: "(string, unit_fields) dict"
  ce_attempts :: "string list"
  ce_processes :: "gpu_process list"
  ce_total :: int
  ce_available :: int
  ce_ports :: "int list"

record owned =
  og_group :: string
  og_device :: int
  og_used :: int
  og_budget :: int
  og_host :: int

definition under :: "string \<Rightarrow> string \<Rightarrow> bool" where
  "under grp parent \<longleftrightarrow> grp = parent \<or> take (length parent + 1) grp = parent @ ''/''"

text \<open>One owner on a node: its memory is reserved; \<open>Inl\<close> is why the node cannot be shared.\<close>

definition admit_owner :: "census \<Rightarrow> task \<Rightarrow> int \<times> int \<times> owned list \<Rightarrow> string + (int \<times> int \<times> owned list)" where
  "admit_owner r o1 acc =
     (case acc of (reserved, unused, groups) \<Rightarrow>
      let budget = memory_of o1; found = dget (ce_units r) (owner_key o1) in
      if budget \<le> 0 then Inl ''no budget''
      else if found = None \<and> tk_state o1 = ''launching'' \<and> (case tk_attempt o1 of None \<Rightarrow> True | Some a \<Rightarrow> a \<notin> set (ce_attempts r))
      then Inr (reserved + budget, unused + budget, groups)
      else case found of None \<Rightarrow> Inl ''not active''
      | Some u \<Rightarrow>
          if uf_load u \<noteq> Some ''loaded'' \<or> uf_active u \<notin> {Some ''active'', Some ''activating''} then Inl ''not active''
          else (case (uf_maximum u, uf_nonreclaimable u) of
            (Some maximum, Some current) \<Rightarrow>
              if maximum \<le> 0 \<or> \<lceil>of_int maximum / (of_int MIB :: rat)\<rceil> \<noteq> budget - tk_device o1 \<or> current < 0
                 \<or> take 1 (uf_group u) \<noteq> ''/'' \<or> uf_group u = ''/'' then Inl ''mismatch''
              else if (case tk_invocation o1 of None \<Rightarrow> False | Some i \<Rightarrow> i \<noteq> [] \<and> (uf_invocation u \<noteq> Some i \<or> tk_group o1 \<noteq> uf_group u))
              then Inl ''identity''
              else if uf_group u \<in> set (map og_group groups) then Inl ''duplicate''
              else Inr (reserved + budget, unused,
                   groups @ [\<lparr>og_group = uf_group u, og_device = tk_device o1, og_used = 0, og_budget = budget, og_host = current div MIB\<rparr>])
          | _ \<Rightarrow> Inl ''no bound''))"

fun admit_owners :: "census \<Rightarrow> task list \<Rightarrow> int \<times> int \<times> owned list \<Rightarrow> string + (int \<times> int \<times> owned list)" where
  "admit_owners r [] acc = Inr acc"
| "admit_owners r (o1 # rest) acc = (case admit_owner r o1 acc of Inl x \<Rightarrow> Inl x | Inr acc' \<Rightarrow> admit_owners r rest acc')"

fun charge_processes :: "gpu_process list \<Rightarrow> owned list \<Rightarrow> string + owned list" where
  "charge_processes [] groups = Inr groups"
| "charge_processes (p # ps) groups =
     (if length (filter (\<lambda>g. under (gp_group p) (og_group g)) groups) \<noteq> 1 then Inl ''unaccounted''
      else case gp_used p of None \<Rightarrow> Inl ''unavailable''
      | Some used \<Rightarrow> if used < 0 then Inl ''unavailable''
          else charge_processes ps (map (\<lambda>g. if under (gp_group p) (og_group g) then g\<lparr>og_used := og_used g + used\<rparr> else g) groups))"

definition node_admission :: "task \<Rightarrow> task list \<Rightarrow> string \<Rightarrow> census option \<Rightarrow> string option" where
  "node_admission t owners node found =
     (case found of None \<Rightarrow> Some ''no census''
      | Some r \<Rightarrow>
        if ce_error r \<noteq> None then ce_error r
        else if ce_gpus r \<noteq> [''NVIDIA GB10''] then Some ''not a GB10''
        else (case admit_owners r (filter (\<lambda>o1. node \<in> set (holding o1)) owners) (0, 0, []) of
            Inl x \<Rightarrow> Some x
          | Inr (reserved, unused, groups) \<Rightarrow> (case charge_processes (ce_processes r) groups of
              Inl x \<Rightarrow> Some x
            | Inr charged \<Rightarrow>
                if \<exists>g\<in>set charged. og_device g < og_used g then Some ''over budget''
                else let idle = unused + sum_list (map (\<lambda>g. max 0 (og_budget g - max (og_host g) (og_used g))) charged);
                         budget = memory_of t; capacity = min NODE_MEMORY_MIB_MAX (ce_total r - HOST_HEADROOM_MIB)
                     in if capacity < reserved + budget \<or> ce_available r - HOST_HEADROOM_MIB < idle + budget then Some ''insufficient memory''
                        else if \<exists>(a, b)\<in>set (tk_ports t). \<exists>p\<in>set (ce_ports r). a \<le> p \<and> p \<le> b then Some ''port in use''
                        else None)))"

definition shared_admission :: "task \<Rightarrow> task list \<Rightarrow> (string, census) dict \<Rightarrow> string option" where
  "shared_admission t owners observations =
     foldl (\<lambda>found node. if found = None then node_admission t owners node (dget observations node) else found) None (tk_nodes t)"

section \<open>What the nodes report about a task\<close>

datatype action = Stop | Launch | Poll

record reply =
  rp_unknown :: bool
  rp_load :: "string option"
  rp_active :: "string option"
  rp_sub :: "string option"
  rp_status :: int
  rp_result :: "string option"

definition terminal :: "reply \<Rightarrow> bool" where
  "terminal r \<longleftrightarrow> \<not> rp_unknown r \<and> (rp_load r = Some ''not-found'' \<or> rp_active r \<in> {Some ''inactive'', Some ''failed''} \<or> rp_sub r = Some ''exited'')"

definition stopped :: "action \<times> reply \<Rightarrow> bool" where
  "stopped x = (case x of (a, r) \<Rightarrow> a = Stop \<and> \<not> rp_unknown r \<and> (rp_load r = Some ''not-found'' \<or> rp_active r \<in> {Some ''inactive'', Some ''failed''}))"

definition finish_task :: "task \<Rightarrow> int \<Rightarrow> task" where
  "finish_task t code = t\<lparr>tk_state := ''finished'', tk_exit := Some code\<rparr>"

definition operation_of :: "decimal \<Rightarrow> task \<Rightarrow> action" where
  "operation_of now t = (if tk_state t = ''stopping'' \<or> tk_deadline t \<le> now then Stop else if tk_state t = ''launching'' then Launch else Poll)"

text \<open>The replies for an attempt, node by node.\<close>

definition grouped :: "decimal \<Rightarrow> (task \<Rightarrow> string \<Rightarrow> action \<Rightarrow> reply) \<Rightarrow> task list \<Rightarrow> (string, (string, action \<times> reply) dict) dict" where
  "grouped now answer snap =
     foldl (\<lambda>d t. foldl (\<lambda>d n. case tk_attempt t of None \<Rightarrow> d
         | Some a \<Rightarrow> dset a (dset n (operation_of now t, answer t n (operation_of now t)) (case dget d a of None \<Rightarrow> [] | Some x \<Rightarrow> x)) d) d (tk_nodes t))
       [] (filter active snap)"

definition stop_task :: "(string, action \<times> reply) dict \<Rightarrow> task \<Rightarrow> task + task" where
  "stop_task results t =
     (let released = map fst (filter (\<lambda>(n, x). stopped x) results); code = (case tk_exit t of None \<Rightarrow> 124 | Some c \<Rightarrow> c);
          t1 = t\<lparr>tk_state := ''stopping'', tk_exit := Some code, tk_released := released\<rparr>
      in if length released = length (tk_nodes t) then Inl (finish_task t1 code) else Inr t1)"

definition follow_task :: "(string, action \<times> reply) dict \<Rightarrow> task \<Rightarrow> task" where
  "follow_task results t =
     (let rs = map (\<lambda>(n, a, r). r) results in
      if \<exists>r\<in>set rs. rp_unknown r then
        (if 2 \<le> tk_unknown t + 1 then t\<lparr>tk_unknown := tk_unknown t + 1, tk_state := ''stopping'', tk_exit := Some 75\<rparr>
         else t\<lparr>tk_unknown := tk_unknown t + 1\<rparr>)
      else let t1 = t\<lparr>tk_unknown := 0\<rparr>;
               missing = (\<exists>r\<in>set rs. rp_load r = Some ''not-found'');
               failed = (\<exists>r\<in>set rs. rp_active r = Some ''failed'' \<or> (terminal r \<and> rp_status r \<noteq> 0))
           in if missing \<or> failed then t1\<lparr>tk_state := ''stopping'', tk_exit := Some (if \<exists>r\<in>set rs. rp_result r = Some ''timeout'' then 124 else 1)\<rparr>
              else if \<forall>r\<in>set rs. terminal r then t1\<lparr>tk_state := ''stopping'', tk_exit := Some 0\<rparr>
              else t1\<lparr>tk_state := ''running''\<rparr>)"

text \<open>\<open>Inl\<close> is a task that finished.\<close>

definition reconcile_task :: "decimal \<Rightarrow> (string, (string, action \<times> reply) dict) dict \<Rightarrow> task \<Rightarrow> task + task" where
  "reconcile_task now d t =
     (case (case tk_attempt t of None \<Rightarrow> None | Some a \<Rightarrow> dget d a) of None \<Rightarrow> Inr t
      | Some results \<Rightarrow> if tk_state t = ''stopping'' \<or> tk_deadline t \<le> now then stop_task results t else Inr (follow_task results t))"

definition reconcile_queue :: "decimal \<Rightarrow> decimal \<Rightarrow> (task \<Rightarrow> string \<Rightarrow> action \<Rightarrow> reply) \<Rightarrow> task list \<Rightarrow> qstate \<Rightarrow> qstate" where
  "reconcile_queue asked now answer snap s =
     (let rs = map (reconcile_task now (grouped asked answer snap)) (q_jobs s)
      in s\<lparr>q_jobs := List.map_filter (\<lambda>x. case x of Inl f \<Rightarrow> None | Inr t \<Rightarrow> Some t) rs,
           q_results := q_results s @ List.map_filter (\<lambda>x. case x of Inl f \<Rightarrow> Some f | Inr t \<Rightarrow> None) rs\<rparr>)"

section \<open>Claiming\<close>

definition held_by :: "qstate \<Rightarrow> task list" where
  "held_by s = filter active (q_jobs s) @ q_manual s @ q_persistent s"

definition run_ttl :: "decimal \<Rightarrow> task \<Rightarrow> decimal fallible" where
  "run_ttl default_ttl t = validate_ttl (case tk_ttl t of None \<Rightarrow> Some default_ttl | Some x \<Rightarrow> if x = 0 then Some default_ttl else Some x)"

record scan =
  sc_jobs :: "task list"
  sc_results :: "task list"
  sc_failed :: "string list"
  sc_candidates :: "task list"

definition scan_task :: "decimal \<Rightarrow> string list \<Rightarrow> string list \<Rightarrow> task \<Rightarrow> scan \<Rightarrow> scan" where
  "scan_task default_ttl succeeded unavailable t c =
     (let keep = (\<lambda>x. c\<lparr>sc_jobs := sc_jobs c @ [x]\<rparr>) in
      if tk_state t \<notin> {''queued'', ''blocked''} then keep t
      else let deps = sort (remdups (filter (\<lambda>d. d \<in> set (sc_failed c)) (tk_after t))) in
      if deps \<noteq> [] then c\<lparr>sc_results := sc_results c @ [finish_task (t\<lparr>tk_failed := deps\<rparr>) 125], sc_failed := tk_id t # sc_failed c\<rparr>
      else if tk_kind t \<noteq> ''run'' then keep t
      else case run_ttl default_ttl t of
        Inl x \<Rightarrow> keep (t\<lparr>tk_state := ''invalid''\<rparr>)
      | Inr ttl \<Rightarrow>
          if strip_text (tk_cmd t) = [] \<or> \<not> (length (tk_nodes t) = 1 \<or> tk_per_node t) then keep (t\<lparr>tk_state := ''invalid''\<rparr>)
          else let t1 = t\<lparr>tk_ttl := Some ttl\<rparr> in
            if (\<exists>d\<in>set (tk_after t). d \<notin> set succeeded) \<or> (\<exists>n\<in>set (tk_nodes t). n \<in> set unavailable) then keep t1
            else c\<lparr>sc_jobs := sc_jobs c @ [t1], sc_candidates := sc_candidates c @ [t1]\<rparr>)"

definition candidate_key :: "decimal \<Rightarrow> task \<Rightarrow> int \<times> decimal" where
  "candidate_key now t = (if 7200 < now - tk_submitted t then 0 else tk_priority t, tk_submitted t)"

definition meets :: "task \<Rightarrow> task \<Rightarrow> bool" where
  "meets x y \<longleftrightarrow> (\<exists>n\<in>set (tk_nodes x). n \<in> set (tk_nodes y))"

definition unit_of :: "task \<Rightarrow> persistent_unit" where
  "unit_of o1 = \<lparr>pu_id = tk_id o1, pu_nodes = tk_nodes o1, pu_host_bytes = tk_host_bytes o1,
     pu_invocation = (case tk_invocation o1 of None \<Rightarrow> [] | Some i \<Rightarrow> i), pu_group = tk_group o1, pu_key = owner_key o1\<rparr>"

text \<open>\<open>fresh\<close> gives each claimed task its attempt; the tasks refused in this pass wait and block those after them.\<close>

definition launched :: "decimal \<Rightarrow> (task \<Rightarrow> string) \<Rightarrow> task list \<Rightarrow> task \<Rightarrow> task" where
  "launched now fresh persistent t = t\<lparr>tk_error := None, tk_admission := map unit_of (filter (meets t) persistent), tk_state := ''launching'',
     tk_attempt := Some (fresh t), tk_deadline := now + (case tk_ttl t of None \<Rightarrow> 0 | Some x \<Rightarrow> x) * 60\<rparr>"

definition needs_census :: "task \<Rightarrow> task list \<Rightarrow> bool" where
  "needs_census t owners \<longleftrightarrow> tk_resources t = Some ''gpu-shared'' \<or> (\<exists>o1\<in>set owners. tk_resources o1 = Some ''gpu-shared'' \<and> meets t o1)"

fun pick :: "decimal \<Rightarrow> (task \<Rightarrow> string) \<Rightarrow> (string, census) dict \<Rightarrow> task list \<Rightarrow> task list \<Rightarrow> task list \<Rightarrow> task list \<Rightarrow> task list \<times> task list" where
  "pick now fresh obs persistent owners waiting [] = ([], [])"
| "pick now fresh obs persistent owners waiting (t # ts) =
     (if (\<exists>x\<in>set (owners @ waiting). conflicts t x) \<or> \<not> memory_available t owners
      then pick now fresh obs persistent owners (waiting @ [t]) ts
      else case (if needs_census t owners then shared_admission t owners obs else None) of
        Some reason \<Rightarrow> (case pick now fresh obs persistent owners (waiting @ [t]) ts of (claimed, refused) \<Rightarrow> (claimed, t\<lparr>tk_error := Some reason\<rparr> # refused))
      | None \<Rightarrow>
          let t1 = launched now fresh persistent t in
          (case pick now fresh obs persistent (owners @ [t1]) waiting ts of (claimed, refused) \<Rightarrow> (t1 # claimed, refused)))"

definition replace_tasks :: "task list \<Rightarrow> task list \<Rightarrow> task list" where
  "replace_tasks new ts = map (\<lambda>t. case find (\<lambda>x. tk_id x = tk_id t) new of None \<Rightarrow> t | Some x \<Rightarrow> x) ts"

definition unexpired :: "decimal \<Rightarrow> task \<Rightarrow> bool" where
  "unexpired now h \<longleftrightarrow> now < tk_acquired h + (case tk_ttl h of None \<Rightarrow> 0 | Some x \<Rightarrow> x) * 60"

definition scan_queue :: "decimal \<Rightarrow> qstate \<Rightarrow> scan" where
  "scan_queue default_ttl s =
     (let owners = held_by s;
          unavailable = q_fences s @ concat (map holding (filter (\<lambda>o1. tk_state o1 = ''stopping'') owners))
      in foldl (\<lambda>c t. scan_task default_ttl (map tk_id (filter (\<lambda>r. tk_exit r = Some 0) (q_results s))) unavailable t c)
           \<lparr>sc_jobs = [], sc_results = q_results s, sc_failed = map tk_id (filter (\<lambda>r. tk_exit r \<noteq> Some 0) (q_results s)), sc_candidates = []\<rparr>
           (q_jobs s))"

definition claim :: "decimal \<Rightarrow> decimal \<Rightarrow> (task \<Rightarrow> string) \<Rightarrow> (string, census) dict \<Rightarrow> qstate \<Rightarrow> task list \<times> qstate" where
  "claim now default_ttl fresh obs s0 =
     (let s = s0\<lparr>q_manual := filter (unexpired now) (q_manual s0)\<rparr>; c = scan_queue default_ttl s;
          (claimed, refused) = pick now fresh obs (q_persistent s) (held_by s) [] (sort_key (candidate_key now) (sc_candidates c))
      in (claimed, s\<lparr>q_jobs := replace_tasks (claimed @ refused) (sc_jobs c), q_results := sc_results c\<rparr>))"

section \<open>Commands\<close>

record add_args =
  aa_id :: string
  aa_nodes :: "string list"
  aa_cmd :: string
  aa_kind :: string
  aa_per_node :: bool
  aa_ttl :: "decimal option"
  aa_resources :: string
  aa_memory :: "int option"
  aa_device :: "int option"
  aa_ports :: "(int \<times> int) list"
  aa_priority :: int
  aa_after :: "string list"

definition memory_args :: "add_args \<Rightarrow> (int \<times> int) fallible" where
  "memory_args a =
     (if aa_memory a = None \<and> aa_resources a = ''gpu-shared'' then Inl SystemExit
      else let memory = (case aa_memory a of None \<Rightarrow> JOB_MEMORY_MIB_DEFAULT | Some m \<Rightarrow> m) in
        if aa_resources a = ''gpu-shared'' then
          (case aa_device a of None \<Rightarrow> Inl SystemExit
           | Some d \<Rightarrow> if d \<le> 0 \<or> memory - d < 64 then Inl SystemExit else Inr (memory, d))
        else (if aa_device a \<noteq> None then Inl SystemExit else Inr (memory, 0)))"

definition cmd_add :: "decimal \<Rightarrow> add_args \<Rightarrow> (qstate, unit) op" where
  "cmd_add now a =
     bind_op (lift (valid_name (aa_id a))) (\<lambda>ident.
     seq_op (require (distinct (aa_nodes a) \<and> list_all node_alias (aa_nodes a)) SystemExit)
    (seq_op (require (\<not> (1 < length (aa_nodes a) \<and> aa_kind a = ''run'' \<and> \<not> aa_per_node a)) SystemExit)
    (seq_op (require (\<not> (aa_kind a = ''run'' \<and> strip_text (aa_cmd a) = [])) SystemExit)
    (bind_op (lift (validate_ttl (Some (case aa_ttl a of None \<Rightarrow> 3 | Some x \<Rightarrow> x)))) (\<lambda>ttl.
     bind_op (lift (memory_args a)) (\<lambda>(memory, device).
     bind_op (lift (parse_ports [] (aa_ports a))) (\<lambda>ports.
     seq_op (require (64 \<le> memory \<and> memory \<le> NODE_MEMORY_MIB_MAX) SystemExit)
    (transaction
      (bind_op (gets (\<lambda>s. map tk_id (q_jobs s @ q_results s))) (\<lambda>known.
       seq_op (require (ident \<notin> set known) SystemExit)
      (seq_op (require (distinct (aa_after a) \<and> set (aa_after a) \<subseteq> set known) SystemExit)
              (modify (\<lambda>s. s\<lparr>q_jobs := q_jobs s @ [blank_task\<lparr>tk_id := ident, tk_nodes := aa_nodes a, tk_cmd := aa_cmd a, tk_resources := Some (aa_resources a),
                 tk_ttl := Some ttl, tk_memory := Some memory, tk_device := device, tk_ports := ports, tk_per_node := aa_per_node a,
                 tk_priority := aa_priority a, tk_kind := aa_kind a, tk_after := aa_after a, tk_state := ''queued'', tk_submitted := now\<rparr>]\<rparr>)))))))))))))"

definition cmd_done :: "string \<Rightarrow> int \<Rightarrow> (qstate, unit) op" where
  "cmd_done ident code =
     transaction (bind_op (gets (\<lambda>s. find (\<lambda>t. tk_id t = ident) (q_jobs s))) (\<lambda>found. case found of None \<Rightarrow> raise SystemExit
     | Some t \<Rightarrow>
       if tk_state t = ''legacy-review'' then raise SystemExit
       else if active t
       then modify (\<lambda>s. s\<lparr>q_jobs := replace_tasks [t\<lparr>tk_state := ''stopping'', tk_exit := Some code\<rparr>] (q_jobs s)\<rparr>)
       else modify (\<lambda>s. s\<lparr>q_jobs := remove1 t (q_jobs s), q_results := q_results s @ [finish_task t code]\<rparr>)))"

definition cmd_cancel :: "string \<Rightarrow> (qstate, unit) op" where
  "cmd_cancel ident = cmd_done ident 125"

definition cmd_reserve :: "decimal \<Rightarrow> string \<Rightarrow> string \<Rightarrow> string \<Rightarrow> decimal option \<Rightarrow> (qstate, unit) op" where
  "cmd_reserve now node holder resources ttl =
     bind_op (lift (validate_ttl ttl)) (\<lambda>minutes.
     seq_op (require (node_alias node) SystemExit)
    (transaction (let hold = blank_task\<lparr>tk_id := ''manual:'' @ holder, tk_nodes := [node], tk_resources := Some resources, tk_acquired := now,
        tk_ttl := Some minutes\<rparr> in
      bind_op (gets (\<lambda>s. node \<in> set (q_fences s) \<or> (\<exists>x\<in>set (held_by s). conflicts hold x))) (\<lambda>taken.
      seq_op (require (\<not> taken) SystemExit) (modify (\<lambda>s. s\<lparr>q_manual := q_manual s @ [hold]\<rparr>))))))"

definition cmd_release :: "string option \<Rightarrow> string option \<Rightarrow> (qstate, unit) op" where
  "cmd_release node ident =
     transaction (modify (\<lambda>s. s\<lparr>q_manual := filter (\<lambda>h. \<not> ((case node of None \<Rightarrow> False | Some n \<Rightarrow> n \<noteq> [] \<and> n \<in> set (tk_nodes h))
        \<or> (case ident of None \<Rightarrow> False | Some i \<Rightarrow> i \<noteq> [] \<and> i = tk_id h))) (q_manual s)\<rparr>))"

definition service_name :: "string \<Rightarrow> bool" where
  "service_name u \<longleftrightarrow> 8 < length u \<and> drop (length u - 8) u = ''.service'' \<and> (\<forall>c\<in>set u. alnum c \<or> c \<in> set ''_.@-'')"

definition cmd_track :: "(string \<Rightarrow> task \<Rightarrow> unit_fields option) \<Rightarrow> string \<Rightarrow> string \<Rightarrow> string \<Rightarrow> int \<Rightarrow> (int \<times> int) list \<Rightarrow> (qstate, unit) op" where
  "cmd_track observe node scope unit_name device given =
     seq_op (require (node_alias node \<and> service_name unit_name) SystemExit)
    (bind_op (lift (parse_ports [] given)) (\<lambda>ports.
     (let o1 = blank_task\<lparr>tk_id := ''persistent:'' @ node @ '':'' @ scope @ '':'' @ unit_name, tk_nodes := [node], tk_resources := Some ''gpu-shared'',
                tk_unit := Some unit_name, tk_scope := Some scope, tk_ports := ports\<rparr> in
      case observe node o1 of None \<Rightarrow> raise SystemExit
      | Some u \<Rightarrow> (case (uf_maximum u, uf_invocation u) of
          (Some maximum, Some invocation) \<Rightarrow>
            (let host = \<lceil>of_int maximum / (of_int MIB :: rat)\<rceil> in
            seq_op (require (uf_load u = Some ''loaded'' \<and> uf_active u = Some ''active'' \<and> invocation \<noteq> [] \<and> take 1 (uf_group u) = ''/'' \<and> uf_group u \<noteq> ''/''
                      \<and> 0 < maximum \<and> maximum \<le> NODE_MEMORY_MIB_MAX * MIB) SystemExit)
           (seq_op (require (0 < device \<and> host + device \<le> NODE_MEMORY_MIB_MAX) SystemExit)
           (transaction (let full = o1\<lparr>tk_memory := Some (host + device), tk_device := device, tk_host_bytes := maximum,
                                 tk_invocation := Some invocation, tk_group := uf_group u\<rparr> in
              bind_op (gets (\<lambda>s. (\<exists>t\<in>set (q_jobs s). active t \<and> owner_key t = owner_key full \<and> node \<in> set (tk_nodes t))
                   \<or> (\<exists>x\<in>set (q_persistent s). tk_id x = tk_id full \<and> find (\<lambda>y. tk_id y = tk_id full) (q_persistent s) \<noteq> Some full))) (\<lambda>clash.
              seq_op (require (\<not> clash) SystemExit)
                     (modify (\<lambda>s. s\<lparr>q_persistent := filter (\<lambda>x. tk_id x \<noteq> tk_id full) (q_persistent s) @ [full]\<rparr>)))))))
        | _ \<Rightarrow> raise SystemExit))))"

definition cmd_untrack :: "(string \<Rightarrow> task \<Rightarrow> census) \<Rightarrow> string \<Rightarrow> (qstate, unit) op" where
  "cmd_untrack observe ident =
     bind_op (gets (\<lambda>s. find (\<lambda>x. tk_id x = ident) (q_persistent s))) (\<lambda>found. case found of None \<Rightarrow> raise SystemExit
     | Some o1 \<Rightarrow>
       (case tk_nodes o1 of [] \<Rightarrow> raise SystemExit
        | node # _ \<Rightarrow>
          (let r = observe node o1; u = dget (ce_units r) (owner_key o1) in
           seq_op (require (ce_error r = None
                     \<and> (case u of None \<Rightarrow> False | Some x \<Rightarrow> uf_load x = Some ''not-found'' \<or> uf_active x \<in> {Some ''inactive'', Some ''failed''})
                     \<and> \<not> (\<exists>p\<in>set (ce_processes r). under (gp_group p) (tk_group o1))) SystemExit)
                  (transaction (modify (\<lambda>s. s\<lparr>q_persistent := filter (\<lambda>x. x \<noteq> o1) (q_persistent s)\<rparr>))))))"

definition cmd_preflight :: "string list \<Rightarrow> int \<Rightarrow> int \<Rightarrow> (int \<times> int) list \<Rightarrow> (string, census) dict \<Rightarrow> (qstate, (string \<times> string) list) op" where
  "cmd_preflight nodes memory device given obs =
     seq_op (require (distinct nodes \<and> list_all node_alias nodes) SystemExit)
    (seq_op (require (64 \<le> memory \<and> memory \<le> NODE_MEMORY_MIB_MAX \<and> 0 < device \<and> device \<le> memory - 64) SystemExit)
    (bind_op (lift (parse_ports [] given)) (\<lambda>ports.
     bind_op (gets (\<lambda>s. List.map_filter (\<lambda>node.
        let t = blank_task\<lparr>tk_id := ''preflight'', tk_nodes := [node], tk_state := ''queued'', tk_resources := Some ''gpu-shared'', tk_memory := Some memory,
                  tk_device := device, tk_ports := ports\<rparr>
        in map_option (Pair node) (if node \<in> set (q_fences s) then Some ''fenced''
             else if \<exists>x\<in>set (held_by s). conflicts t x then Some ''conflict'' else shared_admission t (held_by s) obs)) nodes)) (\<lambda>errors.
     seq_op (require (errors = []) SystemExit) (ret errors)))))"

text \<open>
  One pass of the dispatcher: follow what runs, claim what can start, launch it. Each reading of
  the clock and each round of questions to the nodes is an argument.
\<close>

record pass =
  ps_times :: "decimal \<times> decimal \<times> decimal \<times> decimal \<times> decimal \<times> decimal"
  ps_first :: "task \<Rightarrow> string \<Rightarrow> action \<Rightarrow> reply"
  ps_census :: "qstate \<Rightarrow> (string, census) dict"
  ps_fresh :: "task \<Rightarrow> string"
  ps_second :: "task \<Rightarrow> string \<Rightarrow> action \<Rightarrow> reply"

definition cmd_dispatch :: "decimal option \<Rightarrow> pass \<Rightarrow> (qstate, nat) op" where
  "cmd_dispatch ttl_arg p =
     bind_op (lift (validate_ttl ttl_arg)) (\<lambda>ttl.
     (case ps_times p of (t1, t2, t3, t4, t5, t6) \<Rightarrow>
     seq_op (modify (\<lambda>s. reconcile_queue t1 t2 (ps_first p) (q_jobs s) s))
    (bind_op (gets (\<lambda>s. claim t3 ttl (ps_fresh p) (ps_census p s) s)) (\<lambda>(claimed, s1).
     seq_op (modify (\<lambda>_. if claimed = [] then s1 else reconcile_queue t4 t5 (ps_second p) claimed s1))
    (seq_op (modify (\<lambda>s. s\<lparr>q_dispatcher_at := t6\<rparr>)) (ret (length claimed)))))))"

text \<open>Reading the files of the first version of the queue: what ran then must be looked at by the operator.\<close>

definition migrate :: "task list \<Rightarrow> task list \<Rightarrow> task list \<Rightarrow> string list \<Rightarrow> qstate" where
  "migrate old done_tasks holds fences =
     \<lparr>q_jobs = map (\<lambda>t. if tk_state t = ''running'' then t\<lparr>tk_state := ''legacy-review''\<rparr> else t) old, q_results = done_tasks,
      q_manual = filter (\<lambda>h. take 7 (tk_id h) = ''manual:'') holds, q_persistent = [],
      q_fences = remdups (fences @ concat (map tk_nodes (filter (\<lambda>t. tk_state t = ''running'') old))), q_dispatcher_at = 0\<rparr>"

end
