(* ===== verification/Queue_Safety.thy ===== *)
theory Queue_Safety
  imports Queue "HOL-Library.Multiset"
begin

text \<open>
  What the node queue guarantees: tasks that hold nodes never conflict, memory fits each node, a
  task starts only after what it depends on succeeded and ends only when every node confirmed
  that it stopped, and ids stay unique through every command and pass of the dispatcher.
\<close>

section \<open>Conflicts\<close>

lemma conflicts_sym: "conflicts x y = conflicts y x"
proof -
  have "ports_meet x y = ports_meet y x" unfolding ports_meet_def by (auto simp: case_prod_unfold)
  moreover have "{resources_of x, resources_of y} = {resources_of y, resources_of x}" by auto
  ultimately show ?thesis unfolding conflicts_def by auto
qed

lemma launched_fields [simp]:
  "tk_id (launched now fresh ps t) = tk_id t" "holding (launched now fresh ps t) = holding t" "tk_nodes (launched now fresh ps t) = tk_nodes t"
  "memory_of (launched now fresh ps t) = memory_of t" "active (launched now fresh ps t)" "tk_after (launched now fresh ps t) = tk_after t"
  by (simp_all add: launched_def holding_def memory_of_def active_def ACTIVE_def)

lemma conflicts_launched [simp]:
  "conflicts (launched now fresh ps t) y = conflicts t y" "conflicts y (launched now fresh ps t) = conflicts y t"
  by (simp_all add: conflicts_def launched_def holding_def ports_meet_def resources_of_def)

definition apart_from :: "task list \<Rightarrow> task \<Rightarrow> bool" where
  "apart_from xs t \<longleftrightarrow> (\<forall>x\<in>set xs. \<not> conflicts t x)"

lemma pick_cases:
  assumes "pick now fresh obs ps owners waiting (t # ts) = (claimed, refused)"
  obtains (waits) "pick now fresh obs ps owners (waiting @ [t]) ts = (claimed, refused)"
  | (refused) reason rs where "pick now fresh obs ps owners (waiting @ [t]) ts = (claimed, rs)" "refused = t\<lparr>tk_error := Some reason\<rparr> # rs"
  | (claims) cs where "pick now fresh obs ps (owners @ [launched now fresh ps t]) waiting ts = (cs, refused)"
      "claimed = launched now fresh ps t # cs" "apart_from (owners @ waiting) t" "memory_available t owners"
proof (cases "(\<exists>x\<in>set (owners @ waiting). conflicts t x) \<or> \<not> memory_available t owners")
  case True
  then show thesis using assms waits by simp
next
  case free: False
  show thesis
  proof (cases "if needs_census t owners then shared_admission t owners obs else None")
    case (Some reason)
    obtain cs rs where p: "pick now fresh obs ps owners (waiting @ [t]) ts = (cs, rs)" by fastforce
    have "claimed = cs" "refused = t\<lparr>tk_error := Some reason\<rparr> # rs" using assms free Some p by simp_all
    then show thesis using refused p by simp
  next
    case None
    obtain cs rs where p: "pick now fresh obs ps (owners @ [launched now fresh ps t]) waiting ts = (cs, rs)" by fastforce
    have "claimed = launched now fresh ps t # cs" "refused = rs" using assms free None p by (simp_all add: Let_def)
    then show thesis using claims p free by (simp add: apart_from_def)
  qed
qed

text \<open>What a round of picking leaves: the claimed tasks conflict neither with what is held nor with each other, and fit.\<close>

lemma pick_apart:
  "pick now fresh obs ps owners waiting ts = (claimed, refused) \<Longrightarrow>
     (\<forall>t\<in>set claimed. apart_from owners t) \<and> sorted_wrt (\<lambda>x y. \<not> conflicts x y) claimed"
proof (induction ts arbitrary: owners waiting claimed refused)
  case (Cons t ts)
  from Cons.prems show ?case
  proof (cases rule: pick_cases)
    case (claims cs)
    then show ?thesis using Cons.IH [OF claims(1)] conflicts_sym by (auto simp: apart_from_def)
  qed (use Cons.IH in blast)+
qed simp

lemma pick_claimed:
  "pick now fresh obs ps owners waiting ts = (claimed, refused) \<Longrightarrow> \<forall>c\<in>set claimed. \<exists>t\<in>set ts. c = launched now fresh ps t"
proof (induction ts arbitrary: owners waiting claimed refused)
  case (Cons t ts)
  from Cons.prems show ?case
  proof (cases rule: pick_cases)
    case (claims cs)
    then show ?thesis using Cons.IH [OF claims(1)] by auto
  qed (use Cons.IH in \<open>auto 0 4\<close>)
qed simp

lemma pick_refused:
  "pick now fresh obs ps owners waiting ts = (claimed, refused) \<Longrightarrow> \<forall>r\<in>set refused. \<exists>t\<in>set ts. \<exists>reason. r = t\<lparr>tk_error := Some reason\<rparr>"
proof (induction ts arbitrary: owners waiting claimed refused)
  case (Cons t ts)
  from Cons.prems show ?case
  proof (cases rule: pick_cases)
    case waits
    then show ?thesis using Cons.IH [OF waits] by auto
  next
    case (refused reason rs)
    then show ?thesis using Cons.IH [OF refused(1)] by auto
  next
    case (claims cs)
    then show ?thesis using Cons.IH [OF claims(1)] by auto
  qed
qed simp

lemma pick_ids:
  "pick now fresh obs ps owners waiting ts = (claimed, refused) \<Longrightarrow> mset (map tk_id (claimed @ refused)) \<subseteq># mset (map tk_id ts)"
proof (induction ts arbitrary: owners waiting claimed refused)
  case (Cons t ts)
  from Cons.prems show ?case
  proof (cases rule: pick_cases)
    case waits
    then show ?thesis using subset_mset.order_trans [OF Cons.IH [OF waits] mset_subset_eq_add_right [of _ "{#tk_id t#}"]] by simp
  next
    case (refused reason rs)
    then show ?thesis using Cons.IH [OF refused(1)] by simp
  next
    case (claims cs)
    then show ?thesis using Cons.IH [OF claims(1)] by simp
  qed
qed simp

section \<open>Memory\<close>

lemma memory_on_append: "memory_on n (xs @ ys) = memory_on n xs + memory_on n ys"
  by (simp add: memory_on_def)

lemma memory_on_single: "memory_on n [t] = (if n \<in> set (holding t) then memory_of t else 0)"
  by (simp add: memory_on_def)

lemma memory_on_mset: "mset xs = mset ys \<Longrightarrow> memory_on n xs = memory_on n ys"
proof -
  assume "mset xs = mset ys"
  then have "mset (map memory_of (filter (\<lambda>o1. n \<in> set (holding o1)) xs)) = mset (map memory_of (filter (\<lambda>o1. n \<in> set (holding o1)) ys))"
    by (simp add: mset_filter)
  then show ?thesis unfolding memory_on_def by (metis sum_mset_sum_list)
qed

text \<open>A task that was added has a budget of its own.\<close>

definition budgeted :: "task \<Rightarrow> bool" where
  "budgeted t \<longleftrightarrow> (case tk_memory t of None \<Rightarrow> False | Some m \<Rightarrow> 0 \<le> m)"

lemma budgeted_memory: "budgeted t \<Longrightarrow> tk_memory t = Some (memory_of t) \<and> 0 \<le> memory_of t"
  by (auto simp: budgeted_def memory_of_def split: option.splits)

lemma memory_on_distinct: "distinct xs \<Longrightarrow> memory_on n xs = sum memory_of {x \<in> set xs. n \<in> set (holding x)}"
  by (simp add: memory_on_def sum_list_distinct_conv_sum_set)

lemma sum_le_sum_list: "(\<And>x. x \<in> set xs \<Longrightarrow> 0 \<le> f x) \<Longrightarrow> sum f (set xs) \<le> (sum_list (map f xs) :: int)"
  by (induction xs) (auto simp: sum.insert_if add_increasing)

text \<open>What is drawn from other lists, once each, takes no more memory than they do.\<close>

lemma memory_on_subset:
  assumes "distinct xs" "set xs \<subseteq> set ys" "\<And>y. y \<in> set ys \<Longrightarrow> 0 \<le> memory_of y"
  shows "memory_on n xs \<le> memory_on n ys"
proof -
  have "memory_on n xs \<le> sum memory_of {y \<in> set ys. n \<in> set (holding y)}"
    unfolding memory_on_distinct [OF assms(1)] by (rule sum_mono2) (use assms in auto)
  also have "\<dots> \<le> memory_on n ys"
    using sum_le_sum_list [of "filter (\<lambda>o1. n \<in> set (holding o1)) ys" memory_of] assms(3) by (simp add: memory_on_def)
  finally show ?thesis .
qed

lemma pick_memory:
  "pick now fresh obs ps owners waiting ts = (claimed, refused) \<Longrightarrow> \<forall>t\<in>set ts. budgeted t \<Longrightarrow> memory_on n owners \<le> NODE_MEMORY_MIB_MAX \<Longrightarrow>
     memory_on n (owners @ claimed) \<le> NODE_MEMORY_MIB_MAX"
proof (induction ts arbitrary: owners waiting claimed refused)
  case (Cons t ts)
  from Cons.prems(1) show ?case
  proof (cases rule: pick_cases)
    case (claims cs)
    have m: "tk_memory t = Some (memory_of t)" using Cons.prems(2) budgeted_memory by simp
    have fit: "n \<in> set (holding t) \<Longrightarrow> memory_on n owners + memory_of t \<le> NODE_MEMORY_MIB_MAX"
      using claims(4) m by (auto simp: memory_available_def holding_def)
    then have "memory_on n (owners @ [launched now fresh ps t]) \<le> NODE_MEMORY_MIB_MAX"
      using Cons.prems(3) by (simp add: memory_on_append memory_on_single)
    then show ?thesis using Cons.IH [OF claims(1)] Cons.prems(2) by (simp add: claims(2))
  qed (use Cons in auto)
qed simp

section \<open>Scanning\<close>

definition ids :: "task list \<Rightarrow> string list" where
  "ids ts = map tk_id ts"

lemma ids_append [simp]: "ids (xs @ ys) = ids xs @ ids ys"
  by (simp add: ids_def)

text \<open>What the scan makes of the tasks: every id stays, in the jobs or in the results, and what is active is left alone.\<close>

lemma scan_task_ids:
  "mset (ids (sc_jobs (scan_task ttl ok un t c) @ sc_results (scan_task ttl ok un t c))) = mset (ids (sc_jobs c @ sc_results c)) + {#tk_id t#}"
  by (simp add: scan_task_def Let_def ids_def finish_task_def split: sum.splits)

lemma scan_task_active:
  "filter active (sc_jobs (scan_task ttl ok un t c)) = filter active (sc_jobs c) @ (if active t then [t] else [])"
  by (auto simp: scan_task_def Let_def active_def ACTIVE_def split: sum.splits)

text \<open>A candidate is one of the jobs: not active, everything it waits for has succeeded, and none of its nodes is unavailable.\<close>

definition ready :: "string list \<Rightarrow> string list \<Rightarrow> task list \<Rightarrow> task \<Rightarrow> bool" where
  "ready ok un ts c \<longleftrightarrow> \<not> active c \<and> set (tk_after c) \<subseteq> set ok \<and> set (tk_nodes c) \<inter> set un = {} \<and> (\<exists>t\<in>set ts. \<exists>x. c = t\<lparr>tk_ttl := x\<rparr>)"

lemma ready_mono: "ready ok un ts c \<Longrightarrow> set ts \<subseteq> set us \<Longrightarrow> ready ok un us c"
  by (auto simp: ready_def)

lemma scan_task_candidates:
  "sc_candidates (scan_task ttl ok un t c) = sc_candidates c
   \<or> (\<exists>x. sc_candidates (scan_task ttl ok un t c) = sc_candidates c @ [x] \<and> ready ok un [t] x \<and> sc_jobs (scan_task ttl ok un t c) = sc_jobs c @ [x])"
  by (auto simp: scan_task_def Let_def ready_def active_def ACTIVE_def split: sum.splits)

lemma scan_task_jobs: "set (sc_jobs c) \<subseteq> set (sc_jobs (scan_task ttl ok un t c))"
  by (auto simp: scan_task_def Let_def split: sum.splits)

text \<open>The scan of a list of tasks, by induction from its end.\<close>

lemma scan_tasks:
  defines "scan \<equiv> \<lambda>ttl ok un c ts. foldl (\<lambda>c t. scan_task ttl ok un t c) c ts"
  shows scan_ids: "mset (ids (sc_jobs (scan ttl ok un c ts) @ sc_results (scan ttl ok un c ts))) = mset (ids (sc_jobs c @ sc_results c)) + mset (ids ts)"
    and scan_active: "filter active (sc_jobs (scan ttl ok un c ts)) = filter active (sc_jobs c) @ filter active ts"
proof -
  show "mset (ids (sc_jobs (scan ttl ok un c ts) @ sc_results (scan ttl ok un c ts))) = mset (ids (sc_jobs c @ sc_results c)) + mset (ids ts)"
    unfolding scan_def by (induction ts rule: rev_induct) (simp_all del: ids_append add: scan_task_ids, simp_all add: ids_def)
  show "filter active (sc_jobs (scan ttl ok un c ts)) = filter active (sc_jobs c) @ filter active ts"
    unfolding scan_def by (induction ts rule: rev_induct) (simp_all add: scan_task_active)
qed

lemma scan_candidates:
  assumes "sc_candidates c0 = []"
  shows "\<forall>x\<in>set (sc_candidates (foldl (\<lambda>c t. scan_task ttl ok un t c) c0 ts)).
           ready ok un ts x \<and> x \<in> set (sc_jobs (foldl (\<lambda>c t. scan_task ttl ok un t c) c0 ts))"
proof (induction ts rule: rev_induct)
  case (snoc t ts)
  let ?c = "foldl (\<lambda>c t. scan_task ttl ok un t c) c0 ts"
  have old: "\<forall>x\<in>set (sc_candidates ?c). ready ok un (ts @ [t]) x \<and> x \<in> set (sc_jobs (scan_task ttl ok un t ?c))"
    using snoc scan_task_jobs [of ?c ttl ok un t] by (auto intro: ready_mono [where ts = ts])
  from scan_task_candidates [of ttl ok un t ?c] show ?case
  proof
    assume "\<exists>x. sc_candidates (scan_task ttl ok un t ?c) = sc_candidates ?c @ [x] \<and> ready ok un [t] x \<and> sc_jobs (scan_task ttl ok un t ?c) = sc_jobs ?c @ [x]"
    then obtain x where x: "sc_candidates (scan_task ttl ok un t ?c) = sc_candidates ?c @ [x]" "ready ok un [t] x" "sc_jobs (scan_task ttl ok un t ?c) = sc_jobs ?c @ [x]"
      by blast
    have "ready ok un (ts @ [t]) x" using x(2) by (rule ready_mono) simp
    then show ?thesis using old x(1,3) by simp
  qed (use old in simp)
qed (simp add: assms)

section \<open>Claiming\<close>

interpretation held: exclusion conflicts
  by unfold_locales (simp add: conflicts_sym)

text \<open>What holds a node on behalf of somebody: the active tasks and the manual reservations.\<close>

definition holders :: "qstate \<Rightarrow> task list" where
  "holders s = filter active (q_jobs s) @ q_manual s"

lemma find_task: "find (\<lambda>x. tk_id x = i) new = Some y \<Longrightarrow> y \<in> set new \<and> tk_id y = i"
  by (auto simp: find_Some_iff)

lemma set_replace_tasks: "set (replace_tasks new ts) \<subseteq> set new \<union> set ts"
proof
  fix x
  assume "x \<in> set (replace_tasks new ts)"
  then obtain t where t: "t \<in> set ts" "x = (case find (\<lambda>y. tk_id y = tk_id t) new of None \<Rightarrow> t | Some y \<Rightarrow> y)"
    by (auto simp: replace_tasks_def)
  show "x \<in> set new \<union> set ts"
    by (cases "find (\<lambda>y. tk_id y = tk_id t) new") (use t find_task in auto)
qed

lemma ids_replace_tasks [simp]: "ids (replace_tasks new ts) = ids ts"
  unfolding replace_tasks_def ids_def by (induction ts) (auto split: option.splits dest: find_task)

lemma scan_queue_facts:
  assumes "scan_queue ttl s = c"
  shows scan_queue_active: "filter active (sc_jobs c) = filter active (q_jobs s)"
    and scan_queue_ids: "mset (ids (sc_jobs c @ sc_results c)) = mset (ids (q_jobs s @ q_results s))"
    and scan_queue_ready: "\<forall>x\<in>set (sc_candidates c). ready (map tk_id (filter (\<lambda>r. tk_exit r = Some 0) (q_results s)))
           (q_fences s @ concat (map holding (filter (\<lambda>o1. tk_state o1 = ''stopping'') (held_by s)))) (q_jobs s) x \<and> x \<in> set (sc_jobs c)"
proof -
  show "filter active (sc_jobs c) = filter active (q_jobs s)"
    unfolding assms [symmetric] scan_queue_def Let_def by (simp only: scan_active) simp
  show "mset (ids (sc_jobs c @ sc_results c)) = mset (ids (q_jobs s @ q_results s))"
    unfolding assms [symmetric] scan_queue_def Let_def by (simp only: scan_ids) (simp add: ids_def)
  show "\<forall>x\<in>set (sc_candidates c). ready (map tk_id (filter (\<lambda>r. tk_exit r = Some 0) (q_results s)))
           (q_fences s @ concat (map holding (filter (\<lambda>o1. tk_state o1 = ''stopping'') (held_by s)))) (q_jobs s) x \<and> x \<in> set (sc_jobs c)"
    unfolding assms [symmetric] scan_queue_def Let_def by (rule scan_candidates) simp
qed

lemma claimE:
  assumes "claim now ttl fresh obs s0 = (claimed, s)"
  obtains s1 refused where "s1 = s0\<lparr>q_manual := filter (unexpired now) (q_manual s0)\<rparr>"
    "pick now fresh obs (q_persistent s1) (held_by s1) [] (sort_key (candidate_key now) (sc_candidates (scan_queue ttl s1))) = (claimed, refused)"
    "s = s1\<lparr>q_jobs := replace_tasks (claimed @ refused) (sc_jobs (scan_queue ttl s1)), q_results := sc_results (scan_queue ttl s1)\<rparr>"
proof -
  let ?s1 = "s0\<lparr>q_manual := filter (unexpired now) (q_manual s0)\<rparr>"
  obtain cl refused where p: "pick now fresh obs (q_persistent ?s1) (held_by ?s1) [] (sort_key (candidate_key now) (sc_candidates (scan_queue ttl ?s1))) = (cl, refused)"
    by fastforce
  have "claim now ttl fresh obs s0 =
      (cl, ?s1\<lparr>q_jobs := replace_tasks (cl @ refused) (sc_jobs (scan_queue ttl ?s1)), q_results := sc_results (scan_queue ttl ?s1)\<rparr>)"
    unfolding claim_def Let_def p by simp
  then have "claimed = cl" "s = ?s1\<lparr>q_jobs := replace_tasks (cl @ refused) (sc_jobs (scan_queue ttl ?s1)), q_results := sc_results (scan_queue ttl ?s1)\<rparr>"
    using assms by simp_all
  then show thesis using that [OF refl] p by metis
qed

text \<open>A candidate was waiting in the queue; only its time limit may have been filled in.\<close>

lemma claimed_task:
  assumes "claim now ttl fresh obs s0 = (claimed, s)" and "c \<in> set claimed"
  obtains t where "ready (map tk_id (filter (\<lambda>r. tk_exit r = Some 0) (q_results s0)))
      (q_fences s0 @ concat (map holding (filter (\<lambda>o1. tk_state o1 = ''stopping'') (held_by (s0\<lparr>q_manual := filter (unexpired now) (q_manual s0)\<rparr>))))) (q_jobs s0) t"
    "c = launched now fresh (q_persistent s0) t"
  using assms(1)
proof (rule claimE)
  fix s1 refused
  assume s1: "s1 = s0\<lparr>q_manual := filter (unexpired now) (q_manual s0)\<rparr>"
    and p: "pick now fresh obs (q_persistent s1) (held_by s1) [] (sort_key (candidate_key now) (sc_candidates (scan_queue ttl s1))) = (claimed, refused)"
  obtain t where t: "t \<in> set (sc_candidates (scan_queue ttl s1))" "c = launched now fresh (q_persistent s1) t"
    using pick_claimed [OF p] assms(2) by auto
  show thesis using that [of t] scan_queue_ready [OF refl, of ttl s1] t by (simp add: s1)
qed

lemma claim_active:
  assumes "claim now ttl fresh obs s0 = (claimed, s)"
  shows "set (filter active (q_jobs s)) \<subseteq> set (filter active (q_jobs s0)) \<union> set claimed"
  using assms
proof (rule claimE)
  fix s1 refused
  assume s1: "s1 = s0\<lparr>q_manual := filter (unexpired now) (q_manual s0)\<rparr>"
    and p: "pick now fresh obs (q_persistent s1) (held_by s1) [] (sort_key (candidate_key now) (sc_candidates (scan_queue ttl s1))) = (claimed, refused)"
    and s: "s = s1\<lparr>q_jobs := replace_tasks (claimed @ refused) (sc_jobs (scan_queue ttl s1)), q_results := sc_results (scan_queue ttl s1)\<rparr>"
  have "\<not> active r" if "r \<in> set refused" for r
    using pick_refused [OF p] that scan_queue_ready [OF refl, of ttl s1] by (fastforce simp: ready_def active_def)
  then have "set (filter active (q_jobs s)) \<subseteq> set (filter active (sc_jobs (scan_queue ttl s1))) \<union> set claimed"
    using set_replace_tasks [of "claimed @ refused" "sc_jobs (scan_queue ttl s1)"] by (auto simp: s)
  then show ?thesis by (simp only: scan_queue_active [OF refl]) (simp add: s1)
qed

lemma claim_ids:
  assumes "claim now ttl fresh obs s0 = (claimed, s)"
  shows "mset (ids (q_jobs s @ q_results s)) = mset (ids (q_jobs s0 @ q_results s0))"
  using assms
proof (rule claimE)
  fix s1 refused
  assume s1: "s1 = s0\<lparr>q_manual := filter (unexpired now) (q_manual s0)\<rparr>"
    and s: "s = s1\<lparr>q_jobs := replace_tasks (claimed @ refused) (sc_jobs (scan_queue ttl s1)), q_results := sc_results (scan_queue ttl s1)\<rparr>"
  have "ids (q_jobs s @ q_results s) = ids (sc_jobs (scan_queue ttl s1) @ sc_results (scan_queue ttl s1))"
    by (simp add: s)
  then show ?thesis using scan_queue_ids [OF refl, of ttl s1] by (simp add: s1)
qed

lemma claim_held:
  assumes "claim now ttl fresh obs s0 = (claimed, s)"
  shows "sorted_wrt (\<lambda>x y. \<not> conflicts x y) claimed"
    and "t \<in> set claimed \<Longrightarrow> x \<in> set (filter active (q_jobs s0) @ q_manual s @ q_persistent s) \<Longrightarrow> \<not> conflicts t x"
    and "q_manual s = filter (unexpired now) (q_manual s0)" and "q_persistent s = q_persistent s0" and "q_fences s = q_fences s0"
proof -
  obtain s1 refused where s1: "s1 = s0\<lparr>q_manual := filter (unexpired now) (q_manual s0)\<rparr>"
    and p: "pick now fresh obs (q_persistent s1) (held_by s1) [] (sort_key (candidate_key now) (sc_candidates (scan_queue ttl s1))) = (claimed, refused)"
    and s: "s = s1\<lparr>q_jobs := replace_tasks (claimed @ refused) (sc_jobs (scan_queue ttl s1)), q_results := sc_results (scan_queue ttl s1)\<rparr>"
    using assms by (rule claimE)
  show "sorted_wrt (\<lambda>x y. \<not> conflicts x y) claimed" using pick_apart [OF p] by simp
  show "t \<in> set claimed \<Longrightarrow> x \<in> set (filter active (q_jobs s0) @ q_manual s @ q_persistent s) \<Longrightarrow> \<not> conflicts t x"
    using pick_apart [OF p] by (auto simp: apart_from_def held_by_def s1 s)
  show "q_manual s = filter (unexpired now) (q_manual s0)" "q_persistent s = q_persistent s0" "q_fences s = q_fences s0"
    by (simp_all add: s s1)
qed

lemma claim_holders:
  assumes "exclusive conflicts (set (holders s0))" and "claim now ttl fresh obs s0 = (claimed, s)"
  shows "exclusive conflicts (set (holders s))"
proof -
  note facts = claim_held [OF assms(2)]
  have old: "exclusive conflicts (set (filter active (q_jobs s0) @ q_manual s))"
    by (rule exclusive_subset [OF assms(1)]) (auto simp: holders_def facts(3))
  have "exclusive conflicts (set claimed \<union> set (filter active (q_jobs s0) @ q_manual s))"
    by (rule held.exclusive_union [OF held.exclusive_sorted_wrt [OF facts(1)] old]) (rule facts(2), assumption, auto)
  moreover have "set (holders s) \<subseteq> set claimed \<union> set (filter active (q_jobs s0) @ q_manual s)"
    using claim_active [OF assms(2)] by (auto simp: holders_def)
  ultimately show ?thesis by (rule exclusive_subset)
qed

text \<open>
  C5. Claiming keeps the nodes exclusive: when no two of the active tasks and manual reservations
  conflict before a round of claims (on a common node one of them is exclusive, both want the GPU,
  or their ports meet), no two of them conflict after it, and what was claimed conflicts with no
  tracked service either.
\<close>

theorem claim_exclusive:
  assumes "exclusive conflicts (set (holders s0))" and "claim now ttl fresh obs s0 = (claimed, s)"
  shows "exclusive conflicts (set (holders s)) \<and> (\<forall>t\<in>set claimed. \<forall>p\<in>set (q_persistent s). \<not> conflicts t p)"
  using claim_holders [OF assms] claim_held(2) [OF assms(2)] by simp

definition sample_task :: "string \<Rightarrow> string list \<Rightarrow> string \<Rightarrow> task" where
  "sample_task ident nodes st = blank_task\<lparr>tk_id := ident, tk_nodes := nodes, tk_resources := Some ''gpu'', tk_memory := Some 8192, tk_cmd := ''true'',
     tk_per_node := True, tk_ttl := Some 3, tk_state := st, tk_attempt := (if st = ''queued'' then None else Some ident), tk_deadline := 200\<rparr>"

definition sample_queue :: qstate where
  "sample_queue = \<lparr>q_jobs = [sample_task ''a'' [''spark0''] ''running'', sample_task ''b'' [''spark1''] ''queued'', sample_task ''c'' [''spark0''] ''queued''],
     q_results = [], q_manual = [], q_persistent = [], q_fences = [], q_dispatcher_at = 0\<rparr>"

lemma sample_queue_claim: "map tk_id (fst (claim 100 3 tk_id [] sample_queue)) = [''b'']"
  by code_simp

lemma sample_queue_exclusive: "exclusive conflicts (set (holders sample_queue))"
  by (simp add: holders_def sample_queue_def sample_task_def active_def ACTIVE_def exclusive_def)

theorem claim_exclusive_witness:
  "exclusive conflicts (set (holders (snd (claim 100 3 tk_id [] sample_queue)))) \<and> map tk_id (fst (claim 100 3 tk_id [] sample_queue)) = [''b'']"
  using claim_exclusive [OF sample_queue_exclusive surjective_pairing] sample_queue_claim by blast

text \<open>
  C30. Claiming never overcommits a node: when every task has a budget and the budgets of what holds
  a node (active tasks, reservations, tracked services) add up to at most 114688 MiB, they still do
  after a round of claims.
\<close>

theorem claim_memory:
  assumes "claim now ttl fresh obs s0 = (claimed, s)" and "distinct (ids (q_jobs s0 @ q_results s0))"
    and "\<And>t. t \<in> set (q_jobs s0) \<Longrightarrow> budgeted t" and "memory_on n (held_by (s0\<lparr>q_manual := filter (unexpired now) (q_manual s0)\<rparr>)) \<le> NODE_MEMORY_MIB_MAX"
  shows "memory_on n (held_by s) \<le> NODE_MEMORY_MIB_MAX"
proof -
  obtain s1 refused where s1: "s1 = s0\<lparr>q_manual := filter (unexpired now) (q_manual s0)\<rparr>"
    and p: "pick now fresh obs (q_persistent s1) (held_by s1) [] (sort_key (candidate_key now) (sc_candidates (scan_queue ttl s1))) = (claimed, refused)"
    using assms(1) by (rule claimE)
  have cand: "\<forall>t\<in>set (sc_candidates (scan_queue ttl s1)). budgeted t"
  proof
    fix c
    assume "c \<in> set (sc_candidates (scan_queue ttl s1))"
    then obtain t x where "t \<in> set (q_jobs s0)" "c = t\<lparr>tk_ttl := x\<rparr>"
      using scan_queue_ready [OF refl, of ttl s1] by (auto simp: ready_def s1)
    then show "budgeted c" using assms(3) [of t] by (simp add: budgeted_def)
  qed
  have all: "memory_on n (held_by s1 @ claimed) \<le> NODE_MEMORY_MIB_MAX"
    by (rule pick_memory [OF p]) (use cand assms(4) in \<open>simp_all add: s1\<close>)
  have claimed: "budgeted c" if "c \<in> set claimed" for c
    using pick_claimed [OF p] cand that by (fastforce simp: budgeted_def launched_def)
  have "distinct (ids (q_jobs s @ q_results s))" using claim_ids [OF assms(1)] assms(2) by (metis mset_eq_imp_distinct_iff)
  then have "distinct (filter active (q_jobs s))" by (simp add: ids_def distinct_map)
  then have "memory_on n (filter active (q_jobs s)) \<le> memory_on n (filter active (q_jobs s0) @ claimed)"
    by (rule memory_on_subset) (use claim_active [OF assms(1)] claimed assms(3) budgeted_memory in auto)
  then show ?thesis using all claim_held(3,4) [OF assms(1)] by (simp add: held_by_def memory_on_append s1)
qed

theorem claim_memory_witness:
  "memory_on ''spark1'' (held_by (snd (claim 100 3 tk_id [] sample_queue))) \<le> NODE_MEMORY_MIB_MAX \<and> map tk_id (fst (claim 100 3 tk_id [] sample_queue)) = [''b'']"
proof
  show "memory_on ''spark1'' (held_by (snd (claim 100 3 tk_id [] sample_queue))) \<le> NODE_MEMORY_MIB_MAX"
  proof (rule claim_memory [OF surjective_pairing])
    show "distinct (ids (q_jobs sample_queue @ q_results sample_queue))" by code_simp
    show "budgeted t" if "t \<in> set (q_jobs sample_queue)" for t using that by (auto simp: sample_queue_def sample_task_def budgeted_def)
    show "memory_on ''spark1'' (held_by (sample_queue\<lparr>q_manual := filter (unexpired 100) (q_manual sample_queue)\<rparr>)) \<le> NODE_MEMORY_MIB_MAX" by code_simp
  qed
qed (rule sample_queue_claim)

text \<open>
  C31. A task is started only when it may be: everything it waits for is in the results with exit
  status 0, none of its nodes is fenced, and none is still held by a task that is being stopped.
\<close>

theorem claim_ready:
  assumes "claim now ttl fresh obs s0 = (claimed, s)" and "c \<in> set claimed"
  shows "(\<forall>d\<in>set (tk_after c). \<exists>r\<in>set (q_results s0). tk_id r = d \<and> tk_exit r = Some 0)
    \<and> (\<forall>n\<in>set (tk_nodes c). n \<notin> set (q_fences s0) \<and> (\<forall>t\<in>set (q_jobs s0). tk_state t = ''stopping'' \<longrightarrow> n \<notin> set (holding t)))"
  using assms
proof (rule claimed_task)
  fix t
  assume "ready (map tk_id (filter (\<lambda>r. tk_exit r = Some 0) (q_results s0)))
      (q_fences s0 @ concat (map holding (filter (\<lambda>o1. tk_state o1 = ''stopping'') (held_by (s0\<lparr>q_manual := filter (unexpired now) (q_manual s0)\<rparr>))))) (q_jobs s0) t"
    and "c = launched now fresh (q_persistent s0) t"
  then show ?thesis by (fastforce simp: ready_def held_by_def active_def ACTIVE_def)
qed

theorem claim_ready_witness:
  "\<exists>c. fst (claim 100 3 tk_id [] sample_queue) = [c] \<and> tk_id c = ''b'' \<and> list_all (\<lambda>n. n \<notin> set (q_fences sample_queue)) (tk_nodes c)"
proof -
  obtain c where c: "fst (claim 100 3 tk_id [] sample_queue) = [c]" "tk_id c = ''b''" using sample_queue_claim by auto
  then show ?thesis using claim_ready [OF surjective_pairing, of c 100 3 tk_id "[]" sample_queue] by (simp add: list_all_iff)
qed

end
