(* ===== verification/Queue_Runs.thy ===== *)
theory Queue_Runs
  imports Queue_Safety
begin

text \<open>
  The node queue over time. The commands and the two halves of a dispatcher pass are the steps of a
  transition system, in any order, since each runs in a transaction of its own and the questions
  to the nodes are asked between them; what holds in every state the queue can reach is proved by
  rule induction. A task finishes only when every one of its nodes confirmed that it stopped.
\<close>

section \<open>What the nodes answered\<close>

text \<open>An answer under an attempt comes from an active task of the snapshot with this attempt.\<close>

definition origin :: "decimal \<Rightarrow> (task \<Rightarrow> string \<Rightarrow> action \<Rightarrow> reply) \<Rightarrow> task list \<Rightarrow> string \<Rightarrow> string \<times> action \<times> reply \<Rightarrow> bool" where
  "origin now answer snap a p \<longleftrightarrow> (\<exists>t\<in>set snap. active t \<and> tk_attempt t = Some a \<and> fst p \<in> set (tk_nodes t)
     \<and> snd p = (operation_of now t, answer t (fst p) (operation_of now t)))"

definition recorded :: "decimal \<Rightarrow> (task \<Rightarrow> string \<Rightarrow> action \<Rightarrow> reply) \<Rightarrow> task list \<Rightarrow> (string, (string, action \<times> reply) dict) dict \<Rightarrow> bool" where
  "recorded now answer snap d \<longleftrightarrow> (\<forall>a res. dget d a = Some res \<longrightarrow> distinct (dkeys res) \<and> (\<forall>p\<in>set res. origin now answer snap a p))"

lemma distinct_dset: "distinct (dkeys d) \<Longrightarrow> distinct (dkeys (dset k v d))"
  by (simp add: dkeys_dset)

lemma recorded_add:
  assumes "recorded now answer snap d" "t \<in> set snap" "active t" "tk_attempt t = Some a" "n \<in> set (tk_nodes t)"
  shows "recorded now answer snap (dset a (dset n (operation_of now t, answer t n (operation_of now t)) (case dget d a of None \<Rightarrow> [] | Some x \<Rightarrow> x)) d)"
proof -
  define old where "old = (case dget d a of None \<Rightarrow> [] | Some x \<Rightarrow> x)"
  define v where "v = (operation_of now t, answer t n (operation_of now t))"
  have old: "distinct (dkeys old) \<and> (\<forall>p\<in>set old. origin now answer snap a p)"
    using assms(1) by (cases "dget d a") (simp_all add: recorded_def old_def)
  have "origin now answer snap a (n, v)" using assms(2-5) by (auto simp: origin_def v_def)
  moreover have "p = (n, v) \<or> p \<in> set old" if "p \<in> set (dset n v old)" for p using subsetD [OF set_dset_subset that] by (simp only: insert_iff)
  moreover have "distinct (dkeys (dset n v old))" using old by (intro distinct_dset) simp
  ultimately have "distinct (dkeys (dset n v old)) \<and> (\<forall>p\<in>set (dset n v old). origin now answer snap a p)" using old by blast
  then show ?thesis using assms(1) unfolding old_def [symmetric] v_def [symmetric] by (simp add: recorded_def)
qed

lemma grouped_recorded: "recorded now answer snap (grouped now answer snap)"
  unfolding grouped_def
proof (rule foldl_keeps)
  fix t d
  assume "t \<in> set (filter active snap)" "recorded now answer snap d"
  then show "recorded now answer snap (foldl (\<lambda>d n. case tk_attempt t of None \<Rightarrow> d
         | Some a \<Rightarrow> dset a (dset n (operation_of now t, answer t n (operation_of now t)) (case dget d a of None \<Rightarrow> [] | Some x \<Rightarrow> x)) d) d (tk_nodes t))"
  proof (cases "tk_attempt t")
    case (Some a)
    show ?thesis
      by (rule foldl_keeps) (use \<open>t \<in> set (filter active snap)\<close> \<open>recorded now answer snap d\<close> Some in \<open>simp_all add: recorded_add\<close>)
  qed (rule foldl_keeps, simp_all)
qed (simp add: recorded_def)

text \<open>
  C21. A task ends only when every one of its nodes confirmed, to a request to stop it, that its
  control group is gone: a task that finishes in a reconciliation was stopping or past its
  deadline, and from each of its nodes came an answer to a stop request that says so. (Attempts
  are fresh identifiers: two tasks of the snapshot with the same attempt have the same nodes.)
\<close>

theorem reconcile_finishes:
  assumes "reconcile_task now (grouped asked answer snap) t = Inl f" and "distinct (tk_nodes t)"
    and "\<And>x. x \<in> set snap \<Longrightarrow> tk_attempt x = tk_attempt t \<Longrightarrow> tk_nodes x = tk_nodes t"
  shows "(tk_state t = ''stopping'' \<or> tk_deadline t \<le> now) \<and> tk_state f = ''finished''
    \<and> (\<forall>n\<in>set (tk_nodes t). \<exists>x\<in>set snap. tk_attempt x = tk_attempt t \<and> operation_of asked x = Stop \<and> stopped (Stop, answer x n Stop))"
proof -
  obtain a res where a: "tk_attempt t = Some a" "dget (grouped asked answer snap) a = Some res"
    and due: "tk_state t = ''stopping'' \<or> tk_deadline t \<le> now" and f: "stop_task res t = Inl f"
    using assms(1) by (auto simp: reconcile_task_def split: option.splits if_splits)
  have res: "distinct (dkeys res)" "\<forall>p\<in>set res. origin asked answer snap a p"
    using grouped_recorded [of asked answer snap] a(2) by (auto simp: recorded_def)
  let ?released = "map fst (filter (\<lambda>(n, x). stopped x) res)"
  have len: "length ?released = length (tk_nodes t)" and fin: "tk_state f = ''finished''"
    using f by (auto simp: stop_task_def Let_def finish_task_def split: if_splits)
  have "distinct ?released" using res(1) by (simp add: distinct_map_filter)
  moreover have "set ?released \<subseteq> set (tk_nodes t)" using res(2) assms(3) a(1) by (fastforce simp: origin_def)
  ultimately have all: "set ?released = set (tk_nodes t)"
    using len assms(2) by (metis card_subset_eq distinct_card finite_set)
  have "\<exists>x\<in>set snap. tk_attempt x = tk_attempt t \<and> operation_of asked x = Stop \<and> stopped (Stop, answer x n Stop)" if n: "n \<in> set (tk_nodes t)" for n
  proof -
    obtain x where x: "(n, x) \<in> set res" "stopped x" using n all by fastforce
    then obtain y where "y \<in> set snap" "tk_attempt y = Some a" "x = (operation_of asked y, answer y n (operation_of asked y))"
      using res(2) by (auto simp: origin_def)
    moreover from this have "operation_of asked y = Stop" using x(2) by (simp add: stopped_def)
    ultimately show ?thesis using x(2) a(1) by auto
  qed
  then show ?thesis using due fin by blast
qed

definition gone :: reply where
  "gone = \<lparr>rp_unknown = False, rp_load = Some ''not-found'', rp_active = None, rp_sub = None, rp_status = 0, rp_result = None\<rparr>"

definition silent :: reply where
  "silent = gone\<lparr>rp_unknown := True, rp_load := None\<rparr>"

theorem reconcile_finishes_witness:
  "\<exists>f. reconcile_task 300 (grouped 300 (\<lambda>t n a. gone) [sample_task ''a'' [''spark0''] ''running'']) (sample_task ''a'' [''spark0''] ''running'') = Inl f
     \<and> tk_state f = ''finished''"
proof -
  let ?t = "sample_task ''a'' [''spark0''] ''running''"
  have "isl (reconcile_task 300 (grouped 300 (\<lambda>t n a. gone) [?t]) ?t)"
    by (simp add: reconcile_task_def grouped_def stop_task_def stopped_def gone_def operation_of_def Let_def sample_task_def blank_task_def active_def ACTIVE_def)
  then obtain f where f: "reconcile_task 300 (grouped 300 (\<lambda>t n a. gone) [?t]) ?t = Inl f" unfolding isl_def by blast
  have "tk_state f = ''finished''"
    by (rule conjunct1 [OF conjunct2 [OF reconcile_finishes [OF f]]]) (simp_all add: sample_task_def)
  then show ?thesis using f by blast
qed

section \<open>Reconciling\<close>

text \<open>
  What reconciling relies on of the nodes: a node that confirmed the stop of a task confirms it
  again whenever it is asked to stop it.
\<close>

definition still_stopped :: "decimal \<Rightarrow> (string, (string, action \<times> reply) dict) dict \<Rightarrow> task \<Rightarrow> bool" where
  "still_stopped now d t \<longleftrightarrow> (case (case tk_attempt t of None \<Rightarrow> None | Some a \<Rightarrow> dget d a) of None \<Rightarrow> True
     | Some results \<Rightarrow> set (tk_released t) \<subseteq> {n. \<exists>x. (n, x) \<in> set results \<and> stopped x} \<or> \<not> (tk_state t = ''stopping'' \<or> tk_deadline t \<le> now))"

lemma conflicts_mono:
  assumes "conflicts x' y'" "set (holding x') \<subseteq> set (holding x)" "set (holding y') \<subseteq> set (holding y)"
    "tk_ports x' = tk_ports x" "tk_ports y' = tk_ports y" "tk_resources x' = tk_resources x" "tk_resources y' = tk_resources y"
  shows "conflicts x y"
proof -
  have "ports_meet x' y' = ports_meet x y" "resources_of x' = resources_of x" "resources_of y' = resources_of y"
    using assms(4-) by (simp_all add: ports_meet_def resources_of_def)
  then show ?thesis using assms(1-3) unfolding conflicts_def by auto
qed

text \<open>What a task keeps while it is followed: who it is, and what it asks for; it only gives nodes back.\<close>

definition follows :: "task \<Rightarrow> task \<Rightarrow> bool" where
  "follows t u \<longleftrightarrow> tk_id u = tk_id t \<and> tk_attempt u = tk_attempt t \<and> tk_memory u = tk_memory t \<and> tk_nodes u = tk_nodes t
     \<and> tk_ports u = tk_ports t \<and> tk_resources u = tk_resources t"

lemma follow_task_follows: "follows t (follow_task res t)" "active t \<Longrightarrow> active (follow_task res t)"
  "tk_released (follow_task res t) = tk_released t"
  by (simp_all add: follow_task_def Let_def follows_def active_def ACTIVE_def)

lemma reconcile_task_Inr:
  assumes "reconcile_task now d t = Inr u"
  shows "follows t u" and "active t \<Longrightarrow> active u" and "tk_attempt t = None \<Longrightarrow> u = t"
    and "still_stopped now d t \<Longrightarrow> set (holding u) \<subseteq> set (holding t)"
proof -
  have stop: "follows t u \<and> active u \<and> tk_released u = map fst (filter (\<lambda>(n, x). stopped x) res)" if "stop_task res t = Inr u" for res
    using that by (auto simp: stop_task_def Let_def follows_def active_def ACTIVE_def split: if_splits)
  have follow: "follows t u \<and> (active t \<longrightarrow> active u) \<and> tk_released u = tk_released t" if "u = follow_task res t" for res
    unfolding that by (simp add: follow_task_follows)
  have "follows t t" by (simp add: follows_def)
  then show "follows t u" "active t \<Longrightarrow> active u" "tk_attempt t = None \<Longrightarrow> u = t"
    using assms stop follow by (auto simp: reconcile_task_def split: option.splits if_splits)
  then have nodes: "tk_nodes u = tk_nodes t" by (simp add: follows_def)
  assume still: "still_stopped now d t"
  have "set (tk_released t) \<subseteq> set (tk_released u)"
  proof (cases "case tk_attempt t of None \<Rightarrow> None | Some a \<Rightarrow> dget d a")
    case (Some res)
    then show ?thesis
    proof (cases "tk_state t = ''stopping'' \<or> tk_deadline t \<le> now")
      case True
      then have "stop_task res t = Inr u" using assms Some by (simp add: reconcile_task_def)
      then have "tk_released u = map fst (filter (\<lambda>(n, x). stopped x) res)" using stop by blast
      moreover have "set (tk_released t) \<subseteq> {n. \<exists>x. (n, x) \<in> set res \<and> stopped x}" using still Some True by (simp add: still_stopped_def)
      ultimately show ?thesis by force
    next
      case False
      then have u: "u = follow_task res t" using assms Some by (simp add: reconcile_task_def)
      show ?thesis using follow [OF u] by simp
    qed
  qed (use assms in \<open>simp add: reconcile_task_def\<close>)
  then show "set (holding u) \<subseteq> set (holding t)" using nodes by (auto simp: holding_def)
qed

lemma reconcile_task_Inl: "reconcile_task now d t = Inl f \<Longrightarrow> tk_id f = tk_id t"
  by (auto simp: reconcile_task_def stop_task_def Let_def finish_task_def split: option.splits if_splits)

section \<open>The states the queue reaches\<close>

text \<open>What holds throughout: ids are unique, every task has a budget, one that was launched is active, and no two holders conflict.\<close>

definition queue_ok :: "qstate \<Rightarrow> bool" where
  "queue_ok s \<longleftrightarrow> distinct (ids (q_jobs s @ q_results s)) \<and> (\<forall>t\<in>set (q_jobs s). budgeted t \<and> (tk_attempt t = None \<or> active t))
     \<and> (\<forall>h\<in>set (q_manual s). \<not> active h) \<and> exclusive conflicts (set (holders s))"

lemma queue_okD:
  assumes "queue_ok s"
  shows "distinct (ids (q_jobs s @ q_results s))" "t \<in> set (q_jobs s) \<Longrightarrow> budgeted t"
    "t \<in> set (q_jobs s) \<Longrightarrow> tk_attempt t = None \<or> active t" "exclusive conflicts (set (holders s))"
  using assms by (auto simp: queue_ok_def)

lemma atomic_transaction [atomic_intros]: "atomic_op (transaction m)"
  by (auto simp: atomic_op_def transaction_def split: prod.splits sum.splits)

lemma atomicD: "atomic_op m \<Longrightarrow> m s = (Inl e, t) \<Longrightarrow> t = s"
  by (simp add: atomic_op_def)

lemma atomic_commands:
  "atomic_op (cmd_add now a)" "atomic_op (cmd_done ident code)" "atomic_op (cmd_reserve now node holder res ttl)" "atomic_op (cmd_release n i)"
  "atomic_op (cmd_track watch node scope u dev given)" "atomic_op (cmd_untrack census_of ident)"
  unfolding cmd_add_def cmd_done_def cmd_reserve_def cmd_release_def cmd_track_def cmd_untrack_def
  by (auto intro!: atomic_intros simp: Let_def split: prod.split option.split list.split)

text \<open>The state a transaction returns with is the one its body returned with.\<close>

lemma transaction_Inr: "transaction m s = (Inr y, t) \<longleftrightarrow> m s = (Inr y, t)"
  by (auto simp: transaction_def split: prod.splits sum.splits)

lemmas run_elims = op_elims leaf_elims transaction_Inr

lemma cmd_add_state:
  assumes "cmd_add now a s = (Inr u, s')"
  obtains t where "s' = s\<lparr>q_jobs := q_jobs s @ [t]\<rparr>" "tk_id t \<notin> set (ids (q_jobs s @ q_results s))" "budgeted t" "tk_attempt t = None" "\<not> active t"
proof -
  have "\<exists>t. s' = s\<lparr>q_jobs := q_jobs s @ [t]\<rparr> \<and> tk_id t \<notin> set (ids (q_jobs s @ q_results s)) \<and> budgeted t \<and> tk_attempt t = None \<and> \<not> active t"
    using assms unfolding cmd_add_def
    by (clarsimp simp: run_elims) (intro exI conjI, rule refl, auto simp: ids_def budgeted_def active_def ACTIVE_def blank_task_def)
  then show thesis using that by blast
qed

lemma queue_ok_add: "queue_ok s \<Longrightarrow> queue_ok (snd (cmd_add now a s))"
proof (rule atomic_cases [OF atomic_commands(1), where s = s])
  fix y
  assume ok: "queue_ok s" and run: "cmd_add now a s = (Inr y, snd (cmd_add now a s))"
  from run show ?thesis
  proof (rule cmd_add_state)
    fix t
    assume t: "snd (cmd_add now a s) = s\<lparr>q_jobs := q_jobs s @ [t]\<rparr>" "tk_id t \<notin> set (ids (q_jobs s @ q_results s))" "budgeted t" "tk_attempt t = None" "\<not> active t"
    then show ?thesis using ok unfolding t(1) by (auto simp: queue_ok_def holders_def ids_def)
  qed
qed simp

lemma cmd_reserve_state:
  assumes "cmd_reserve now node holder res ttl s = (Inr u, s')"
  obtains h where "s' = s\<lparr>q_manual := q_manual s @ [h]\<rparr>" "\<not> active h" "\<And>x. x \<in> set (held_by s) \<Longrightarrow> \<not> conflicts h x"
  using assms unfolding cmd_reserve_def by (auto simp: run_elims Let_def active_def ACTIVE_def blank_task_def)

lemma queue_ok_reserve: "queue_ok s \<Longrightarrow> queue_ok (snd (cmd_reserve now node holder res ttl s))"
proof (rule atomic_cases [OF atomic_commands(3), where s = s])
  fix y
  assume ok: "queue_ok s" and run: "cmd_reserve now node holder res ttl s = (Inr y, snd (cmd_reserve now node holder res ttl s))"
  from run show ?thesis
  proof (rule cmd_reserve_state)
    fix h
    assume h: "snd (cmd_reserve now node holder res ttl s) = s\<lparr>q_manual := q_manual s @ [h]\<rparr>" "\<not> active h" "\<And>x. x \<in> set (held_by s) \<Longrightarrow> \<not> conflicts h x"
    have "exclusive conflicts (insert h (set (holders s)))"
      by (rule held.exclusive_insert [OF queue_okD(4) [OF ok]]) (rule h(3), auto simp: holders_def held_by_def)
    then show ?thesis using ok h(2) unfolding h(1) by (simp add: queue_ok_def holders_def)
  qed
qed simp

lemma queue_ok_manual: "queue_ok s \<Longrightarrow> queue_ok (s\<lparr>q_manual := filter P (q_manual s)\<rparr>)"
  by (auto simp: queue_ok_def holders_def intro: exclusive_subset)

lemma queue_ok_persistent: "queue_ok (s\<lparr>q_persistent := ps\<rparr>) = queue_ok s"
  by (simp add: queue_ok_def holders_def)

lemma queue_ok_release: "queue_ok s \<Longrightarrow> queue_ok (snd (cmd_release node ident s))"
  by (simp add: cmd_release_def transaction_def modify_def queue_ok_manual)

lemma keeps_transaction [keeps_intros]: "keeps I m \<Longrightarrow> keeps I (transaction m)"
  by (auto simp: keeps_def transaction_def split: prod.splits sum.splits)

lemma keeps_persistent [keeps_intros]: "keeps queue_ok (modify (\<lambda>s. s\<lparr>q_persistent := f s\<rparr>))"
  by (rule keeps_modify) (simp add: queue_ok_persistent)

lemma queue_ok_track: "keeps queue_ok (cmd_track watch node scope u dev given)"
  unfolding cmd_track_def Let_def by (auto intro!: keeps_intros split: option.split)

lemma queue_ok_untrack: "keeps queue_ok (cmd_untrack census_of ident)"
  unfolding cmd_untrack_def Let_def by (auto intro!: keeps_intros split: option.split list.split)

text \<open>Tasks that become others of the same id, one by one.\<close>

lemma queue_ok_jobs:
  assumes ok: "queue_ok s" and j: "q_jobs s' = map f (q_jobs s)" and rest: "q_results s' = q_results s" "q_manual s' = q_manual s"
    and f: "\<And>t. t \<in> set (q_jobs s) \<Longrightarrow> follows t (f t) \<and> (active (f t) \<longleftrightarrow> active t) \<and> set (holding (f t)) \<subseteq> set (holding t)"
  shows "queue_ok s'"
proof -
  have "ids (q_jobs s') = ids (q_jobs s)" using f by (simp add: j ids_def follows_def)
  moreover have "budgeted (f t) = budgeted t" "tk_attempt (f t) = tk_attempt t" if "t \<in> set (q_jobs s)" for t
    using f [OF that] by (simp_all add: follows_def budgeted_def)
  moreover have "exclusive conflicts (set (holders s'))"
  proof -
    let ?g = "\<lambda>t. if active t then f t else t"
    have man: "\<forall>h\<in>set (q_manual s). \<not> active h" using ok by (simp add: queue_ok_def)
    have "set (holders s') = ?g ` set (holders s)"
      using f man by (auto simp: holders_def j rest image_iff)
    moreover have "conflicts x y" if "x \<in> set (holders s)" "y \<in> set (holders s)" "conflicts (?g x) (?g y)" for x y
      by (rule conflicts_mono [OF that(3)]) (use f man that(1,2) in \<open>auto simp: follows_def holders_def\<close>)
    ultimately show ?thesis using held.exclusive_image [OF queue_okD(4) [OF ok], of ?g] by simp
  qed
  ultimately show ?thesis using ok f by (simp add: queue_ok_def rest j)
qed

text \<open>Tasks that leave the queue for the results.\<close>

lemma queue_ok_finished:
  assumes "queue_ok s" and "mset (ids (jobs @ results)) = mset (ids (q_jobs s @ q_results s))" and "set jobs \<subseteq> set (q_jobs s)"
  shows "queue_ok (s\<lparr>q_jobs := jobs, q_results := results\<rparr>)"
proof -
  have "distinct (ids (jobs @ results))" using assms(1,2) unfolding queue_ok_def by (metis mset_eq_imp_distinct_iff)
  moreover have "exclusive conflicts (set (filter active jobs @ q_manual s))"
    by (rule exclusive_subset [OF queue_okD(4) [OF assms(1)]]) (use assms(3) in \<open>auto simp: holders_def\<close>)
  ultimately show ?thesis using assms(1,3) by (auto simp: queue_ok_def holders_def)
qed

lemma queue_ok_done: "queue_ok s \<Longrightarrow> queue_ok (snd (cmd_done ident code s))"
proof (cases "find (\<lambda>t. tk_id t = ident) (q_jobs s)")
  case (Some t)
  assume ok: "queue_ok s"
  have t: "t \<in> set (q_jobs s)" using find_task [OF Some] by simp
  let ?t = "t\<lparr>tk_state := ''stopping'', tk_exit := Some code\<rparr>"
  have same: "x = t" if "x \<in> set (q_jobs s)" "tk_id x = tk_id t" for x
    using queue_okD(1) [OF ok] that t by (auto simp: ids_def distinct_map inj_on_def)
  have stopping: "queue_ok (s\<lparr>q_jobs := replace_tasks [?t] (q_jobs s)\<rparr>)" if "active t"
  proof (rule queue_ok_jobs [OF ok])
    show "follows x (if tk_id t = tk_id x then ?t else x) \<and> (active (if tk_id t = tk_id x then ?t else x) \<longleftrightarrow> active x)
        \<and> set (holding (if tk_id t = tk_id x then ?t else x)) \<subseteq> set (holding x)" if "x \<in> set (q_jobs s)" for x
      using same [OF that] \<open>active t\<close> by (auto simp: follows_def active_def ACTIVE_def holding_def)
  qed (simp_all add: replace_tasks_def)
  have finished: "queue_ok (s\<lparr>q_jobs := remove1 t (q_jobs s), q_results := q_results s @ [finish_task t code]\<rparr>)"
    by (rule queue_ok_finished [OF ok]) (use t in \<open>simp_all add: ids_def finish_task_def set_remove1_subset image_mset_Diff insert_DiffM\<close>)
  show ?thesis using stopping finished ok Some by (simp add: cmd_done_def transaction_def op_simps)
qed (simp add: cmd_done_def transaction_def op_simps)

lemma map_filter_Inr:
  "List.map_filter (\<lambda>x. case x of Inl f \<Rightarrow> None | Inr t \<Rightarrow> Some t) (map r ts) = map (\<lambda>t. projr (r t)) (filter (\<lambda>t. \<not> isl (r t)) ts)"
  by (induction ts) (auto simp: List.map_filter_simps split: sum.splits)

lemma map_filter_Inl:
  "List.map_filter (\<lambda>x. case x of Inl f \<Rightarrow> Some f | Inr t \<Rightarrow> None) (map r ts) = map (\<lambda>t. projl (r t)) (filter (\<lambda>t. isl (r t)) ts)"
  by (induction ts) (auto simp: List.map_filter_simps split: sum.splits)

lemma queue_ok_reconcile:
  assumes ok: "queue_ok s" and still: "\<And>t. t \<in> set (q_jobs s) \<Longrightarrow> still_stopped now (grouped asked answer snap) t"
  shows "queue_ok (reconcile_queue asked now answer snap s)"
proof -
  define r where "r = reconcile_task now (grouped asked answer snap)"
  let ?s1 = "s\<lparr>q_jobs := filter (\<lambda>t. \<not> isl (r t)) (q_jobs s), q_results := q_results s @ map (\<lambda>t. projl (r t)) (filter (\<lambda>t. isl (r t)) (q_jobs s))\<rparr>"
  have fin: "ids (map (\<lambda>t. projl (r t)) (filter (\<lambda>t. isl (r t)) ts)) = ids (filter (\<lambda>t. isl (r t)) ts)" for ts
    using reconcile_task_Inl by (induction ts) (auto simp: ids_def isl_def r_def)
  have part: "mset (ids (filter (\<lambda>t. \<not> isl (r t)) ts)) + mset (ids (filter (\<lambda>t. isl (r t)) ts)) = mset (ids ts)" for ts
    by (induction ts) (auto simp: ids_def)
  have ok1: "queue_ok ?s1"
    by (rule queue_ok_finished [OF ok]) (use part [of "q_jobs s"] in \<open>auto simp: fin ac_simps\<close>)
  have run: "q_jobs (reconcile_queue asked now answer snap s) = map (\<lambda>t. projr (r t)) (q_jobs ?s1)"
    "q_results (reconcile_queue asked now answer snap s) = q_results ?s1"
    by (simp_all add: reconcile_queue_def Let_def r_def [symmetric] map_filter_Inr map_filter_Inl)
  have steps: "follows t (projr (r t)) \<and> (active (projr (r t)) \<longleftrightarrow> active t) \<and> set (holding (projr (r t))) \<subseteq> set (holding t)"
    if "t \<in> set (q_jobs ?s1)" for t
  proof -
    have t: "t \<in> set (q_jobs s)" and u: "reconcile_task now (grouped asked answer snap) t = Inr (projr (r t))"
      using that by (auto simp: r_def isl_def)
    note facts = reconcile_task_Inr [OF u]
    show ?thesis using facts(1,2,3) facts(4) [OF still [OF t]] queue_okD(3) [OF ok t] by auto
  qed
  have "q_manual (reconcile_queue asked now answer snap s) = q_manual ?s1" by (simp add: reconcile_queue_def Let_def)
  from ok1 run(1,2) this steps show ?thesis by (rule queue_ok_jobs)
qed

text \<open>The scan changes neither the budget of a task nor whether it was launched.\<close>

definition kept :: "task list \<Rightarrow> task \<Rightarrow> bool" where
  "kept ts x \<longleftrightarrow> (\<exists>t\<in>set ts. tk_memory x = tk_memory t \<and> tk_attempt x = tk_attempt t \<and> (active x \<longleftrightarrow> active t))"

lemma scan_task_kept: "\<forall>x\<in>set (sc_jobs (scan_task ttl ok un t c)). x \<in> set (sc_jobs c) \<or> kept [t] x"
  by (auto simp: scan_task_def Let_def kept_def active_def ACTIVE_def split: sum.splits)

lemma scan_queue_kept: "\<forall>x\<in>set (sc_jobs (scan_queue ttl s)). kept (q_jobs s) x"
  unfolding scan_queue_def Let_def
proof (rule foldl_keeps)
  fix t and c :: scan
  assume "t \<in> set (q_jobs s)" "\<forall>x\<in>set (sc_jobs c). kept (q_jobs s) x"
  then show "\<forall>x\<in>set (sc_jobs (scan_task ttl (map tk_id (filter (\<lambda>r. tk_exit r = Some 0) (q_results s)))
      (q_fences s @ concat (map holding (filter (\<lambda>o1. tk_state o1 = ''stopping'') (held_by s)))) t c)). kept (q_jobs s) x"
    using scan_task_kept by (fastforce simp: kept_def)
qed simp

lemma queue_ok_claim:
  assumes "queue_ok s0"
  shows "queue_ok (snd (claim now ttl fresh obs s0))"
proof -
  obtain claimed s where run: "claim now ttl fresh obs s0 = (claimed, s)" by fastforce
  obtain s1 refused where s1: "s1 = s0\<lparr>q_manual := filter (unexpired now) (q_manual s0)\<rparr>"
    and p: "pick now fresh obs (q_persistent s1) (held_by s1) [] (sort_key (candidate_key now) (sc_candidates (scan_queue ttl s1))) = (claimed, refused)"
    and s: "s = s1\<lparr>q_jobs := replace_tasks (claimed @ refused) (sc_jobs (scan_queue ttl s1)), q_results := sc_results (scan_queue ttl s1)\<rparr>"
    using run by (rule claimE)
  have old: "budgeted x \<and> (tk_attempt x = None \<or> active x)" if "kept (q_jobs s1) x" for x
    using that assms by (auto simp: kept_def queue_ok_def s1 budgeted_def)
  have cand: "kept (q_jobs s1) x \<and> \<not> active x" if "x \<in> set (sc_candidates (scan_queue ttl s1))" for x
    using scan_queue_ready [OF refl, of ttl s1] scan_queue_kept [of ttl s1] that by (auto simp: ready_def)
  have "budgeted x \<and> (tk_attempt x = None \<or> active x)" if x: "x \<in> set (q_jobs s)" for x
  proof -
    consider "x \<in> set claimed" | "x \<in> set refused" | "x \<in> set (sc_jobs (scan_queue ttl s1))"
      using x set_replace_tasks [of "claimed @ refused" "sc_jobs (scan_queue ttl s1)"] by (auto simp: s)
    then show ?thesis
    proof cases
      case 1
      then obtain t where t: "t \<in> set (sc_candidates (scan_queue ttl s1))" "x = launched now fresh (q_persistent s1) t"
        using pick_claimed [OF p] by auto
      have "budgeted t" using old cand [OF t(1)] by simp
      then show ?thesis by (simp add: t(2)) (simp add: budgeted_def launched_def)
    next
      case 2
      then obtain t reason where t: "t \<in> set (sc_candidates (scan_queue ttl s1))" "x = t\<lparr>tk_error := Some reason\<rparr>"
        using pick_refused [OF p] by auto
      have "budgeted t \<and> (tk_attempt t = None \<or> active t)" using old cand [OF t(1)] by blast
      then show ?thesis by (simp add: t(2) budgeted_def active_def)
    next
      case 3
      then show ?thesis using old scan_queue_kept by blast
    qed
  qed
  moreover have "distinct (ids (q_jobs s @ q_results s))"
    using claim_ids [OF run] queue_okD(1) [OF assms] by (metis mset_eq_imp_distinct_iff)
  moreover have "exclusive conflicts (set (holders s))"
    by (rule claim_holders [OF queue_okD(4) [OF assms] run])
  ultimately show ?thesis using assms run by (auto simp: queue_ok_def claim_held(3) [OF run])
qed

text \<open>
  The steps of the queue. Reconciling works on a snapshot taken earlier, so any list of tasks may be
  the snapshot; a pass of the dispatcher is reconciling, claiming and reconciling again, with
  commands between them.
\<close>

inductive queue_step :: "qstate \<Rightarrow> qstate \<Rightarrow> bool" where
  add: "queue_step s (snd (cmd_add now a s))"
| complete: "queue_step s (snd (cmd_done ident code s))"
| reserve: "queue_step s (snd (cmd_reserve now node holder res ttl s))"
| release: "queue_step s (snd (cmd_release n i s))"
| track: "queue_step s (snd (cmd_track watch node scope u dev given s))"
| untrack: "queue_step s (snd (cmd_untrack census_of ident s))"
| reconcile: "(\<And>t. t \<in> set (q_jobs s) \<Longrightarrow> still_stopped now (grouped asked answer snap) t) \<Longrightarrow> queue_step s (reconcile_queue asked now answer snap s)"
| claim: "queue_step s (snd (claim now ttl fresh obs s))"

lemma queue_step_ok: "queue_step s t \<Longrightarrow> queue_ok s \<Longrightarrow> queue_ok t"
  by (induction rule: queue_step.induct)
    (simp_all add: queue_ok_add queue_ok_done queue_ok_reserve queue_ok_release keepsD [OF queue_ok_track] keepsD [OF queue_ok_untrack] queue_ok_reconcile queue_ok_claim)

lemma queue_reach_ok: "queue_step\<^sup>*\<^sup>* s t \<Longrightarrow> queue_ok s \<Longrightarrow> queue_ok t"
  by (induction rule: rtranclp_induct) (simp_all add: queue_step_ok)

abbreviation empty_queue :: qstate where "empty_queue \<equiv> migrate [] [] [] []"

lemma queue_ok_empty: "queue_ok empty_queue"
  by (simp add: queue_ok_def migrate_def holders_def ids_def)

text \<open>
  C10. The queue is safe in every state it reaches: starting empty, after any sequence of commands,
  reconciliations and claims, task ids are unique and no two of the active tasks and manual
  reservations conflict on a node, provided that a node that confirmed a stop confirms it again
  when it is asked again.
\<close>

theorem queue_reaches_safe:
  assumes "queue_step\<^sup>*\<^sup>* empty_queue s"
  shows "distinct (map tk_id (q_jobs s @ q_results s)) \<and> exclusive conflicts (set (holders s))"
  using queue_reach_ok [OF assms queue_ok_empty] by (simp add: queue_ok_def ids_def)

theorem queue_reaches_safe_witness:
  "exclusive conflicts (set (holders (snd (claim 100 3 tk_id [] (snd (cmd_reserve 50 ''spark0'' ''me'' ''gpu'' (Some 3) empty_queue))))))"
  by (rule queue_reaches_safe [THEN conjunct2]) (blast intro: rtranclp.rtrancl_into_rtrancl queue_step.claim queue_step.reserve)


text \<open>
  A command that is refused changes nothing: when adding, completing, reserving, tracking or
  untracking raises, the stored queue is what it was.
\<close>

theorem refused_command_unchanged:
  "(cmd_add now a s = (Inl e, t) \<longrightarrow> t = s) \<and> (cmd_done ident code s = (Inl e, t) \<longrightarrow> t = s)
   \<and> (cmd_reserve now node holder res ttl s = (Inl e, t) \<longrightarrow> t = s)
   \<and> (cmd_track watch node scope u dev given s = (Inl e, t) \<longrightarrow> t = s) \<and> (cmd_untrack census_of ident s = (Inl e, t) \<longrightarrow> t = s)"
  by (intro conjI impI) (erule atomicD [rotated], rule atomic_commands)+

theorem refused_command_unchanged_witness:
  "cmd_done ''x'' 0 empty_queue = (Inl SystemExit, empty_queue) \<and> (\<exists>t. cmd_done ''x'' 0 empty_queue = (Inl SystemExit, t) \<and> t = empty_queue)"
proof -
  have run: "fst (cmd_done ''x'' 0 empty_queue) = Inl SystemExit" by (simp add: cmd_done_def transaction_def migrate_def op_simps)
  then obtain t where t: "cmd_done ''x'' 0 empty_queue = (Inl SystemExit, t)" by (metis prod.collapse)
  then have "t = empty_queue" using refused_command_unchanged by blast
  then show ?thesis using t by blast
qed

end
