(* ===== verification/Market_Runs.thy ===== *)
theory Market_Runs
  imports Keys Samples
begin

text \<open>
  The market as it runs: a small calculus for what holds when an operation returns, and with it
  that every operation of the market keeps its state sound. Sound means that the process has read
  the whole ledger, that the lots and locks are well-formed, and that every booking has a price
  and a rate that are not negative and ends after it starts.
\<close>

section \<open>What holds when an operation returns\<close>

definition returns :: "('s \<Rightarrow> bool) \<Rightarrow> ('s, 'a) op \<Rightarrow> ('a \<Rightarrow> 's \<Rightarrow> bool) \<Rightarrow> bool" where
  "returns P m Q \<longleftrightarrow> (\<forall>s x t. P s \<longrightarrow> m s = (Inr x, t) \<longrightarrow> Q x t)"

lemma returnsD: "returns P m Q \<Longrightarrow> P s \<Longrightarrow> m s = (Inr x, t) \<Longrightarrow> Q x t"
  by (auto simp: returns_def)

lemma returns_bind: "returns P m Q \<Longrightarrow> (\<And>x. returns (Q x) (f x) R) \<Longrightarrow> returns P (bind_op m f) R"
  unfolding returns_def bind_op_Inr by blast

lemma returns_seq: "returns P m (\<lambda>_. Q) \<Longrightarrow> returns Q n R \<Longrightarrow> returns P (seq_op m n) R"
  unfolding returns_def seq_op_Inr by blast

lemma returns_gets: "(\<And>s. P s \<Longrightarrow> Q (g s) s) \<Longrightarrow> returns P (gets g) Q"
  by (simp add: returns_def gets_def)

lemma returns_weaken: "returns P m Q \<Longrightarrow> (\<And>s. P' s \<Longrightarrow> P s) \<Longrightarrow> (\<And>x s. Q x s \<Longrightarrow> Q' x s) \<Longrightarrow> returns P' m Q'"
  unfolding returns_def by blast

lemma returns_pure: "returns P (ret x) (\<lambda>_. P)" "returns P (raise e) Q" "returns P (lift r) (\<lambda>y s. P s \<and> r = Inr y)"
  "returns P (require b e) (\<lambda>_ s. P s \<and> b)"
  by (auto simp: returns_def ret_def raise_def lift_def require_def split: if_splits)

abbreviation preserves :: "('s \<Rightarrow> bool) \<Rightarrow> ('s, 'a) op \<Rightarrow> bool" where
  "preserves I m \<equiv> returns I m (\<lambda>_. I)"

named_theorems preserves_intros "how preservation on return composes"

lemma preserves_compose [preserves_intros]:
  "preserves I m \<Longrightarrow> (\<And>x. preserves I (f x)) \<Longrightarrow> preserves I (bind_op m f)"
  "preserves I a \<Longrightarrow> preserves I n \<Longrightarrow> preserves I (seq_op a n)"
  using returns_bind [of I m "\<lambda>_. I" f "\<lambda>_. I"] returns_seq [of I a I n "\<lambda>_. I"] by blast+

lemma preserves_pure [preserves_intros]:
  "preserves I (ret x)" "preserves I (raise e)" "preserves I (lift r)" "preserves I (require b e)" "preserves I (gets g)"
  by (auto simp: returns_def ret_def raise_def lift_def require_def gets_def split: if_splits)

lemma preserves_each [preserves_intros]: "(\<And>x. x \<in> set xs \<Longrightarrow> preserves I (f x)) \<Longrightarrow> preserves I (each f xs)"
  by (induction xs) (auto intro!: preserves_intros)

lemma preserves_map_op [preserves_intros]: "(\<And>x. x \<in> set xs \<Longrightarrow> preserves I (f x)) \<Longrightarrow> preserves I (map_op f xs)"
  by (induction xs) (auto intro!: preserves_intros)

lemma preserves_if [preserves_intros]: "(b \<Longrightarrow> preserves I m) \<Longrightarrow> (\<not> b \<Longrightarrow> preserves I n) \<Longrightarrow> preserves I (if b then m else n)"
  by simp

lemma preserves_option [preserves_intros]:
  "(v = None \<Longrightarrow> preserves I m) \<Longrightarrow> (\<And>x. v = Some x \<Longrightarrow> preserves I (f x)) \<Longrightarrow> preserves I (case v of None \<Rightarrow> m | Some x \<Rightarrow> f x)"
  by (cases v) auto

lemma preserves_prod [preserves_intros]: "(\<And>x y. v = (x, y) \<Longrightarrow> preserves I (f x y)) \<Longrightarrow> preserves I (case v of (x, y) \<Rightarrow> f x y)"
  by (cases v) auto

text \<open>Reading a value and going on with it, with what the state says about it.\<close>

lemma preserves_gets:
  assumes "\<And>s. I s \<Longrightarrow> preserves I (f (g s))"
  shows "preserves I (bind_op (gets g) f)"
  unfolding returns_def
proof (intro allI impI)
  fix s x t
  assume s: "I s" and "bind_op (gets g) f s = (Inr x, t)"
  then have "f (g s) s = (Inr x, t)" by (simp add: op_simps)
  then show "I t" using returnsD [OF assms [OF s] s] by blast
qed

lemma preserves_lift: "(\<And>x. r = Inr x \<Longrightarrow> preserves I (f x)) \<Longrightarrow> preserves I (bind_op (lift r) f)"
  by (cases r) (simp_all add: returns_def op_simps)

lemma preserves_require: "(b \<Longrightarrow> preserves I m) \<Longrightarrow> preserves I (seq_op (require b e) m)"
  by (cases b) (simp_all add: returns_def op_simps)

section \<open>Sound states\<close>

definition booking_ok :: "booking \<Rightarrow> bool" where
  "booking_ok b \<longleftrightarrow> 0 \<le> bk_hc b \<and> bk_start b < bk_end b \<and> 0 \<le> bk_rate b"

definition bookings_ok :: "mstate \<Rightarrow> bool" where
  "bookings_ok s \<longleftrightarrow> (\<forall>b\<in>set (dvalues (bookings s)). booking_ok b)"

text \<open>Entries are found under their own id, and an auto-extend setting keeps at least a Week ahead.\<close>

definition keyed :: "('v \<Rightarrow> 'k) \<Rightarrow> ('k, 'v) dict \<Rightarrow> bool" where
  "keyed f d \<longleftrightarrow> distinct (dkeys d) \<and> (\<forall>x\<in>set d. f (snd x) = fst x)"

definition dicts_ok :: "mstate \<Rightarrow> bool" where
  "dicts_ok s \<longleftrightarrow> keyed mt_id (maintenances s) \<and> keyed fo_id (failovers s) \<and> distinct (dkeys (extends s))
     \<and> (\<forall>x\<in>set (dvalues (extends s)). 1 \<le> ex_weeks x)"

definition sound :: "'a world_scheme \<Rightarrow> bool" where
  "sound w \<longleftrightarrow> synced w \<and> credits_ok (st w) \<and> bookings_ok (st w) \<and> dicts_ok (st w)"

text \<open>The lines an operation may write in any sound state.\<close>

definition written_ok :: "mline \<Rightarrow> bool" where
  "written_ok l = (case l of Hc_lot d \<Rightarrow> 0 \<le> ld_hc d | Booking b \<Rightarrow> booking_ok b | Hc_debit account amount t lot \<Rightarrow> lot = None
     | Auto_extend account fleet weeks reason t \<Rightarrow> 0 \<le> weeks | _ \<Rightarrow> True)"

lemma written_ok_line: "written_ok l \<Longrightarrow> line_ok s l"
  by (cases l) (auto simp: written_ok_def line_ok_def booking_ok_def)

text \<open>What the credits of a state leave alone, and what a line does to the other fields.\<close>

lemma release_frame [simp]:
  fixes s :: mstate
  shows "bookings (release_parts acc ps s) = bookings s" "maintenances (release_parts acc ps s) = maintenances s"
    "failovers (release_parts acc ps s) = failovers s" "extends (release_parts acc ps s) = extends s"
    "downtimes (release_parts acc ps s) = downtimes s" "round_done (release_parts acc ps s) = round_done s"
  by (simp_all add: release_parts_def)

lemma take_frame [simp]:
  fixes s :: mstate
  shows "bookings (snd (take_hc acc x t s)) = bookings s" "maintenances (snd (take_hc acc x t s)) = maintenances s"
    "failovers (snd (take_hc acc x t s)) = failovers s" "extends (snd (take_hc acc x t s)) = extends s"
    "downtimes (snd (take_hc acc x t s)) = downtimes s" "round_done (snd (take_hc acc x t s)) = round_done s"
    "locks (snd (take_hc acc x t s)) = locks s"
  by (simp_all add: take_hc_def split: prod.splits)

lemma lock_frame [simp]:
  fixes s :: mstate
  shows "bookings (lock_hc acc x t n s) = bookings s" "maintenances (lock_hc acc x t n s) = maintenances s"
    "failovers (lock_hc acc x t n s) = failovers s" "extends (lock_hc acc x t n s) = extends s"
    "downtimes (lock_hc acc x t n s) = downtimes s" "round_done (lock_hc acc x t n s) = round_done s"
  using take_frame [of acc x t s] by (cases "take_hc acc x t s"; simp add: lock_hc_def Let_def)+

lemma issue_frame [simp]:
  fixes s :: mstate
  shows "bookings (issue_lot acc l s) = bookings s" "maintenances (issue_lot acc l s) = maintenances s"
    "failovers (issue_lot acc l s) = failovers s" "extends (issue_lot acc l s) = extends s"
    "downtimes (issue_lot acc l s) = downtimes s" "round_done (issue_lot acc l s) = round_done s" "locks (issue_lot acc l s) = locks s"
  by (simp_all add: issue_lot_def Let_def)

lemmas handlers = on_hc_lot_def on_hc_debit_def on_booking_def on_lock_def on_unlock_def on_lock_lapse_def on_round_def
  on_api_key_def on_api_key_revoke_def on_api_key_rotate_def on_maintenance_def on_maintenance_done_def on_clock_def on_auto_extend_def
  on_auto_extend_wait_def on_downtime_def on_failover_def on_failover_end_def change_step pop_lock_def return_parts_def

lemma apply_line_bookings:
  assumes "apply_line n l s = (Inr (), s')"
  shows "bookings s' = (case l of Booking b \<Rightarrow> dset (bk_id b) b (bookings s) | _ \<Rightarrow> bookings s)"
  using assms by (cases l) (auto simp: apply_line_def op_simps handlers Let_def split: option.splits if_splits paid_from.splits)

lemma apply_line_maintenances:
  assumes "apply_line n l s = (Inr (), s')"
  shows "maintenances s' = (case l of Maintenance x \<Rightarrow> dset (mt_id x) (x\<lparr>mt_done := False\<rparr>) (maintenances s)
    | Maintenance_done i c \<Rightarrow> dset i ((the (dget (maintenances s) i))\<lparr>mt_done := True\<rparr>) (maintenances s) | _ \<Rightarrow> maintenances s)"
    "\<And>i c. l = Maintenance_done i c \<Longrightarrow> dget (maintenances s) i \<noteq> None"
  using assms by (cases l; auto simp: apply_line_def op_simps handlers Let_def split: option.splits if_splits paid_from.splits)+

lemma apply_line_failovers:
  assumes "apply_line n l s = (Inr (), s')"
  shows "failovers s' = (case l of Failover f \<Rightarrow> dset (fo_id f) (f\<lparr>fo_end := None\<rparr>) (failovers s)
    | Failover_end i t r \<Rightarrow> dset i ((the (dget (failovers s) i))\<lparr>fo_end := Some t, fo_reason := Some r\<rparr>) (failovers s) | _ \<Rightarrow> failovers s)"
    "\<And>i t r. l = Failover_end i t r \<Longrightarrow> dget (failovers s) i \<noteq> None"
  using assms by (cases l; auto simp: apply_line_def op_simps handlers Let_def split: option.splits if_splits paid_from.splits)+

lemma apply_line_extends:
  assumes "apply_line n l s = (Inr (), s')"
  shows "extends s' = (case l of Auto_extend a f weeks r t \<Rightarrow>
        if weeks \<noteq> 0 then dset (a, f) \<lparr>ex_weeks = weeks, ex_now = t, ex_through = None, ex_waiting = None\<rparr> (extends s) else ddel (a, f) (extends s)
    | Auto_extend_wait a f through r t \<Rightarrow>
        dset (a, f) ((the (dget (extends s) (a, f)))\<lparr>ex_through := Some through, ex_waiting := Some r\<rparr>) (extends s) | _ \<Rightarrow> extends s)"
    "\<And>a f through r t. l = Auto_extend_wait a f through r t \<Longrightarrow> dget (extends s) (a, f) \<noteq> None"
  using assms by (cases l; auto simp: apply_line_def op_simps handlers Let_def split: option.splits if_splits paid_from.splits)+

lemma keyed_dset: "keyed f d \<Longrightarrow> f v = k \<Longrightarrow> keyed f (dset k v d)"
  using set_dset_subset [of k v d] by (auto simp: keyed_def distinct_update)

lemma keyed_get: "keyed f d \<Longrightarrow> dget d k = Some v \<Longrightarrow> f v = k"
  by (auto simp: keyed_def dest!: dget_in_set)

lemma dvalues_dset_all: "\<forall>x\<in>set (dvalues d). P x \<Longrightarrow> P v \<Longrightarrow> \<forall>x\<in>set (dvalues (dset k v d)). P x"
proof
  fix x
  assume "\<forall>x\<in>set (dvalues d). P x" "P v" "x \<in> set (dvalues (dset k v d))"
  then show "P x" using dvalues_dset_cases [of x k v d] by blast
qed

lemma bookings_ok_dset:
  assumes "bookings_ok s" "booking_ok b" "bookings s' = dset k b (bookings s)"
  shows "bookings_ok s'"
  unfolding bookings_ok_def assms(3) by (rule dvalues_dset_all [OF assms(1) [unfolded bookings_ok_def] assms(2)])

lemma apply_line_dicts_ok:
  assumes "dicts_ok s" "written_ok l" "apply_line n l s = (Inr (), s')"
  shows "dicts_ok s'"
proof -
  have m: "keyed mt_id (maintenances s')"
    using assms(1) apply_line_maintenances [OF assms(3)]
    by (cases l) (auto simp: dicts_ok_def intro!: keyed_dset dest: keyed_get)
  have f: "keyed fo_id (failovers s')"
    using assms(1) apply_line_failovers [OF assms(3)]
    by (cases l) (auto simp: dicts_ok_def intro!: keyed_dset dest: keyed_get)
  have d: "distinct (dkeys (extends s'))"
    using assms(1) apply_line_extends(1) [OF assms(3)] by (cases l) (auto simp: dicts_ok_def distinct_update distinct_delete)
  have w: "\<forall>x\<in>set (dvalues (extends s)). 1 \<le> ex_weeks x" using assms(1) by (simp add: dicts_ok_def)
  have "\<forall>x\<in>set (dvalues (extends s')). 1 \<le> ex_weeks x"
  proof (cases l)
    case (Auto_extend a fl weeks r t)
    show ?thesis
    proof (cases "weeks = 0")
      case True
      then show ?thesis using apply_line_extends(1) [OF assms(3)] w set_ddel_subset [of "(a, fl)" "extends s"] by (auto simp: Auto_extend)
    next
      case False
      then have "1 \<le> weeks" using assms(2) by (simp add: Auto_extend written_ok_def)
      have "extends s' = dset (a, fl) \<lparr>ex_weeks = weeks, ex_now = t, ex_through = None, ex_waiting = None\<rparr> (extends s)"
        using apply_line_extends(1) [OF assms(3)] False by (simp add: Auto_extend)
      then show ?thesis by (simp only:) (rule dvalues_dset_all [OF w], use \<open>1 \<le> weeks\<close> in simp)
    qed
  next
    case (Auto_extend_wait a fl through r t)
    then obtain x where x: "dget (extends s) (a, fl) = Some x" using apply_line_extends(2) [OF assms(3)] by auto
    then have "1 \<le> ex_weeks x" using w by (force dest: dget_in_set)
    have "extends s' = dset (a, fl) (x\<lparr>ex_through := Some through, ex_waiting := Some r\<rparr>) (extends s)"
      using apply_line_extends(1) [OF assms(3)] by (simp add: Auto_extend_wait x)
    then show ?thesis by (simp only:) (rule dvalues_dset_all [OF w], use \<open>1 \<le> ex_weeks x\<close> in simp)
  qed (use apply_line_extends(1) [OF assms(3)] w in simp_all)
  then show ?thesis using m f d by (simp add: dicts_ok_def)
qed

lemma append_market_sound [preserves_intros]:
  assumes "written_ok l"
  shows "preserves sound (append_market e l)"
  unfolding returns_def
proof (intro allI impI)
  fix w x w'
  assume w: "sound w" and run: "append_market e l w = (Inr x, w')"
  then have sy: "synced w" "credits_ok (st w)" "bookings_ok (st w)" "dicts_ok (st w)" by (simp_all add: sound_def)
  from run have "append_market e l w = (Inr (), w')" by simp
  then show "sound w'"
  proof (rule append_market_Inr [OF sy(1)])
    fix n
    assume a: "apply_line n l (st w) = (Inr (), st w')" and s': "synced w'"
    have "credits_ok (st w')" using apply_line_credits_ok [OF sy(2) written_ok_line [OF assms], of n] a by simp
    moreover have "bookings_ok (st w')"
    proof (cases "\<exists>b. l = Booking b")
      case True
      then obtain b where b: "l = Booking b" by blast
      show ?thesis by (rule bookings_ok_dset [OF sy(3)]) (use apply_line_bookings [OF a] assms in \<open>simp_all add: b written_ok_def\<close>)
    next
      case False
      then have "bookings (st w') = bookings (st w)" using apply_line_bookings [OF a] by (cases l) simp_all
      then show ?thesis using sy(3) by (simp add: bookings_ok_def)
    qed
    ultimately show ?thesis using s' apply_line_dicts_ok [OF sy(4) assms a] by (simp add: sound_def)
  qed
qed

lemma returns_quiet: "quiet m \<Longrightarrow> preserves sound m"
  unfolding returns_def by (auto simp: sound_def synced_def dest: quiet_result)

lemma preserves_reads [preserves_intros]:
  "preserves sound (now e)" "preserves sound (read_clock e)" "preserves sound (new_id e p)" "preserves sound (notices_sent mark)"
  "preserves sound (mail e to subject)" "preserves sound (tell e acc kind data m once mailed)" "preserves sound (audit e acc member kind parts given)"
  "preserves sound (notify e acc kind data m once mailed)"
  by (rule returns_quiet, intro keeps_intros)+

section \<open>Prices are not negative\<close>

text \<open>What the published settings must satisfy: no rate and no price is negative and no discount exceeds the whole price.\<close>

definition settings_ok :: "env \<Rightarrow> bool" where
  "settings_ok e \<longleftrightarrow> 0 \<le> hourHC (pr_rules (settings e)) \<and> 0 \<le> weekHC (pr_rules (settings e))
     \<and> (\<forall>f\<in>set (pr_fleets (settings e)). 0 \<le> fl_rate f) \<and> (\<forall>d\<in>set (discounts (pr_rules (settings e))). snd d \<le> 1)"

lemma discount_le: "settings_ok e \<Longrightarrow> discount (pr_rules (settings e)) n \<le> 1"
proof -
  assume ok: "settings_ok e"
  show ?thesis
    using max_list_Some [of "map snd (filter (\<lambda>(weeks, off). weeks \<le> n) (discounts (pr_rules (settings e))))"] ok
    by (auto simp: discount_def settings_ok_def split: option.splits)
qed

lemma fleets_rate: "settings_ok e \<Longrightarrow> f \<in> set (fleets e) \<Longrightarrow> 0 \<le> fl_rate f"
  by (auto simp: fleets_def settings_ok_def fleet_listing.defs)

lemma fleet_field_Inr: "fleet_field e value = Inr f \<Longrightarrow> f \<in> set (fleets e) \<and> fl_id f = value"
  unfolding fleet_field_def by (auto simp: find_Some_iff split: option.splits)

lemma fleet_field_rate: "settings_ok e \<Longrightarrow> fleet_field e value = Inr f \<Longrightarrow> 0 \<le> fl_rate f"
  using fleets_rate fleet_field_Inr by blast

lemma week_price_nonneg:
  "settings_ok e \<Longrightarrow> 0 \<le> fl_rate f \<Longrightarrow> 0 \<le> weeks \<Longrightarrow> 0 \<le> week_price (pr_rules (settings e)) f weeks (discount (pr_rules (settings e)) n)"
  using discount_le [of e n] by (auto simp: week_price_def settings_ok_def intro!: hc_nonneg mult_nonneg_nonneg)

lemma hour_price_nonneg:
  assumes "settings_ok e" "0 \<le> fl_rate fleet" "start \<le> end" "hour_price e s account fleet start end m = Inr price"
  shows "0 \<le> price"
  using assms hour_price_Inr(7) [OF assms(4)]
  by (auto simp: settings_ok_def HOUR_def intro!: hc_nonneg mult_nonneg_nonneg divide_nonneg_pos pos_imp_zdiv_nonneg_iff [THEN iffD2])

section \<open>The events\<close>

lemma text_hc_nonneg [simp]: "0 \<le> x \<Longrightarrow> 0 \<le> text_hc x"
  by (simp add: text_hc_def hc_nonneg)

lemma slot_time_less: "slot_time a < slot_time b \<longleftrightarrow> a < b"
  by (simp add: slot_time_def HOUR_def)

lemma default_extend_sound [preserves_intros]: "preserves sound (default_extend e account fleet_id m)"
  unfolding default_extend_def by (intro preserves_intros) (simp add: written_ok_def DEFAULT_WEEKS_AHEAD_def)

lemma pay_sound:
  assumes "0 \<le> price" "0 \<le> fl_rate fleet" "slot_text start < slot_text end"
  shows "preserves sound (pay e account fleet kind start end price m xt)"
  unfolding pay_def by (intro preserves_intros) (simp add: written_ok_def booking_ok_def assms)

lemma confirmed_sound [preserves_intros]: "preserves sound (confirmed e ident m)"
  unfolding confirmed_def by (intro preserves_intros)

lemma market_lot_sound: "0 \<le> credits \<Longrightarrow> preserves sound (market_lot e account credits source ref m note xt)"
  unfolding market_lot_def Let_def by (intro preserves_intros) (simp add: written_ok_def lot_entry_def)

lemma moved_sound [preserves_intros]: "preserves sound (moved e places m actors)"
  unfolding moved_def by (intro preserves_intros)

lemma lapse_account_sound [preserves_intros]: "preserves sound (lapse_account e t account)"
  unfolding lapse_account_def Let_def by (intro preserves_intros) (simp_all add: written_ok_def)

lemma lapse_accounts_sound [preserves_intros]: "preserves sound (lapse_accounts e t as)"
  by (induction as) (simp_all add: preserves_intros)

lemma lapse_sound [preserves_intros]: "preserves sound (lapse e t)"
  unfolding lapse_def by (intro preserves_intros)

lemma grant_sound:
  assumes "settings_ok e" "f \<in> set (fleets e)" "affordable (pr_rules (settings e)) s account f sunday = Some found"
  shows "preserves sound (grant e account f found sunday)"
proof -
  obtain weeks off price where f: "found = (weeks, off, price)" by (cases found) auto
  note a = affordable_Some [OF assms(3) [unfolded f]]
  have rate: "0 \<le> fl_rate f" by (rule fleets_rate [OF assms(1,2)])
  have price: "0 \<le> price" using week_price_nonneg [OF assms(1) rate] a(1,3) by (simp add: offer_price_def)
  have "slot_text (sunday + DAY) < slot_text (sunday + DAY + WEEK * weeks)"
    using slot_text_shift [of "sunday + DAY" "168 * weeks"] a(1) by (simp add: WEEK_hours ac_simps)
  then show ?thesis
    unfolding grant_def f Let_def prod.case by (intro preserves_intros) (simp add: written_ok_def booking_ok_def rate price)
qed

lemma allocate_fleets_sound:
  assumes "settings_ok e" "set fs \<subseteq> set (fleets e)"
  shows "preserves (sound :: 'a world_scheme \<Rightarrow> bool) (allocate_fleets e sunday fs waiting granted)"
  using assms(2)
proof (induction fs arbitrary: waiting granted)
  case (Cons f fs)
  show ?case unfolding allocate_fleets.simps
  proof (rule preserves_gets)
    fix w :: "'a world_scheme"
    show "preserves (sound :: 'a world_scheme \<Rightarrow> bool) (case candidate e f waiting sunday (st w) of None \<Rightarrow> allocate_fleets e sunday fs waiting granted
        | Some (account, found) \<Rightarrow> seq_op (grant e account f found sunday) (allocate_fleets e sunday fs (remove1 account waiting) (account # granted)))"
    proof (cases "candidate e f waiting sunday (st w)")
      case (Some p)
      obtain account found where p: "p = (account, found)" by (cases p)
      have "affordable (pr_rules (settings e)) (st w) account f sunday = Some found"
        using Some by (auto simp: candidate_def p Let_def split: if_splits option.splits)
      then have "preserves (sound :: 'a world_scheme \<Rightarrow> bool) (seq_op (grant e account f found sunday) (allocate_fleets e sunday fs (remove1 account waiting) (account # granted)))"
        using Cons by (intro preserves_compose(2) grant_sound [OF assms(1)] Cons.IH) simp_all
      then show ?thesis by (simp add: Some p)
    qed (use Cons in simp)
  qed
qed (simp add: preserves_intros)

lemma allocate_sound: "settings_ok e \<Longrightarrow> preserves sound (allocate e sunday)"
  unfolding allocate_def by (intro preserves_intros allocate_fleets_sound) (simp_all add: written_ok_def)

lemma maintenance_owed_nonneg:
  assumes "bookings_ok s" "(account, credits) \<in> set (maintenance_owed found s)"
  shows "0 \<le> credits"
proof -
  let ?f = "\<lambda>d b. owed_add (bk_account b) (bk_rate b * of_int (overlap (begins b) (ends b) (mt_begins found) (mt_ends found) div HOUR)) d"
  have "\<forall>x\<in>set (dvalues (foldl ?f [] (busy (mt_fleet found) (mt_begins found) (mt_ends found) s))). 0 \<le> x"
  proof (rule foldl_keeps)
    fix b and d :: "(ident, decimal) dict"
    assume b: "b \<in> set (busy (mt_fleet found) (mt_begins found) (mt_ends found) s)" and d: "\<forall>x\<in>set (dvalues d). (0 :: decimal) \<le> x"
    have "0 \<le> bk_rate b" using b assms(1) by (auto simp: set_busy on_fleet_def bookings_ok_def booking_ok_def)
    moreover have "0 \<le> overlap (begins b) (ends b) (mt_begins found) (mt_ends found) div HOUR"
      by (auto simp: overlap_def HOUR_def intro!: div_int_pos_iff [THEN iffD2])
    ultimately have "0 \<le> bk_rate b * of_int (overlap (begins b) (ends b) (mt_begins found) (mt_ends found) div HOUR)" by simp
    moreover have "0 \<le> (case dget d (bk_account b) of None \<Rightarrow> 0 | Some y \<Rightarrow> y)"
      using d dget_in_set by (fastforce split: option.splits)
    ultimately show "\<forall>x\<in>set (dvalues (?f d b)). 0 \<le> x"
      unfolding owed_add_def by (intro dvalues_dset_all d add_nonneg_nonneg)
  qed simp
  then show ?thesis using assms(2) by (force simp: maintenance_owed_def)
qed

lemma credit_maintenance_sound: "preserves sound (credit_maintenance e ident)"
  unfolding credit_maintenance_def
  by (rule preserves_compose, rule preserves_pure, rule preserves_option, rule preserves_pure, rule preserves_gets, intro preserves_intros market_lot_sound)
    (auto simp: written_ok_def sound_def dest: maintenance_owed_nonneg)

lemma outage_owed_nonneg:
  assumes "bookings_ok s" "(account, credits, hours) \<in> set (outage_owed s fleet_id first through)"
  shows "0 \<le> credits"
proof -
  have one: "\<forall>x\<in>set (dvalues (foldl (owe_hour m) d bs)). 0 \<le> fst x"
    if "\<forall>x\<in>set (dvalues d). (0 :: decimal) \<le> fst x" "set bs \<subseteq> set (dvalues (bookings s))" for m d bs
  proof (rule foldl_keeps)
    fix b and d :: owed_hours
    assume b: "b \<in> set bs" and d: "\<forall>x\<in>set (dvalues d). 0 \<le> fst x"
    have "0 \<le> bk_rate b" using b that(2) assms(1) by (auto simp: bookings_ok_def booking_ok_def)
    moreover have "0 \<le> fst (case dget d (bk_account b) of None \<Rightarrow> (0, []) | Some v \<Rightarrow> v)"
      using d dget_in_set by (fastforce split: option.splits)
    ultimately show "\<forall>x\<in>set (dvalues (owe_hour m d b)). 0 \<le> fst x"
      unfolding owe_hour_def Let_def case_prod_beta by (intro dvalues_dset_all d) (simp add: add_nonneg_nonneg)
  qed (rule that(1))
  have "\<forall>x\<in>set (dvalues (outage_owed s fleet_id first through)). 0 \<le> fst x"
    unfolding outage_owed_def
  proof (rule foldl_keeps)
    fix m and d :: owed_hours
    assume d: "\<forall>x\<in>set (dvalues d). 0 \<le> fst x"
    have "set (busy fleet_id m (m + HOUR) s) \<subseteq> set (dvalues (bookings s))" by (auto simp: set_busy on_fleet_def)
    then show "\<forall>x\<in>set (dvalues (if (fleet_id, slot_text m) \<notin> set (downtime_hours s) \<and> maintained fleet_id m (m + HOUR) s = []
        then foldl (owe_hour m) d (busy fleet_id m (m + HOUR) s) else d)). 0 \<le> fst x"
      using one [OF d, of "busy fleet_id m (m + HOUR) s" m] d by (simp split: if_split)
  qed simp
  then show ?thesis using assms(2) by force
qed

lemma credit_outage_sound: "preserves sound (credit_outage e sp m over)"
  unfolding credit_outage_def Let_def
  by (rule preserves_compose, rule preserves_pure, rule preserves_gets, intro preserves_intros market_lot_sound)
    (auto simp: written_ok_def sound_def dest: outage_owed_nonneg)

lemma end_failover_sound: "preserves sound (end_failover e x)"
  unfolding end_failover_def by (intro preserves_intros) (simp add: written_ok_def)

lemma stop_extend_sound: "preserves sound (stop_extend e account fleet_id reason m)"
  unfolding stop_extend_def by (intro preserves_intros) (simp add: written_ok_def)

lemma deadline_sound: "preserves sound (deadline e x)"
  unfolding deadline_def by (intro preserves_intros) (auto split: sum.split exn.split intro!: preserves_intros)

section \<open>The loop\<close>

text \<open>An extension that is due carries a plan with a price and a period.\<close>

definition event_ok :: "event \<Rightarrow> bool" where
  "event_ok ev = (case ev of Extension account fleet_id (Do_extend plan m blocked) \<Rightarrow> 0 \<le> pl_price plan \<and> pl_first plan < pl_end plan | _ \<Rightarrow> True)"

definition action_ok :: "ext_action \<Rightarrow> bool" where
  "action_ok a = (case a of Stop_extend reason m \<Rightarrow> True | Do_extend plan m blocked \<Rightarrow> 0 \<le> pl_price plan \<and> pl_first plan < pl_end plan)"

lemma week_plan_ok:
  assumes "settings_ok e" "0 \<le> fl_rate fleet" "1 \<le> weeks" "week_plan e s account fleet weeks m = Inr plan"
  shows "0 \<le> pl_price plan \<and> pl_first plan < pl_end plan"
proof -
  note p = week_plan_Inr [OF assms(4)]
  have "slot_time (pl_first plan) < slot_time (pl_end plan)" using p(3,4) assms(3) by (simp add: WEEK_def DAY_def HOUR_def)
  then have "pl_first plan < pl_end plan" by (simp add: slot_time_less)
  moreover have "0 \<le> pl_price plan" using week_price_nonneg [OF assms(1,2)] p(8,9) assms(3) by simp
  ultimately show ?thesis by simp
qed

text \<open>What a due extension rests on: where the holder's Weeks end, the plan, and what blocks it.\<close>

lemma extend_step_Do:
  assumes "extend_step e w m account fleet_id setting = Inr (Some (t, Do_extend plan t' blocked))"
  obtains through fleet weeks where "through_of account fleet_id (st w) = Some through" "t' = t" "stamp_time (ex_now setting) < through"
    "through \<le> m + WEEK * ex_weeks setting" "t = max (through - WEEK * ex_weeks setting) (stamp_time (ex_now setting)) \<or> t = m \<and> m < through"
    "fleet_field e fleet_id = Inr fleet" "1 \<le> weeks" "week_plan e (st w) account fleet weeks t = Inr plan"
    "blocked = None \<or> blocked = Some (if terms_current e account w then ''insufficient_hc'' else ''terms'') \<and> blocked \<noteq> waiting_for setting through"
proof -
  note run = assms [unfolded extend_step_def Let_def]
  obtain through where thr: "through_of account fleet_id (st w) = Some through" using run by (cases "through_of account fleet_id (st w)") simp_all
  let ?ex = "stamp_time (ex_now setting)" and ?waiting = "waiting_for setting through"
  let ?due = "max (through - WEEK * ex_weeks setting) ?ex"
  have c: "\<not> through \<le> ?ex" "\<not> m < ?due" "(if through \<le> m then ?waiting else None) = None"
    using run by (simp_all add: thr split: if_splits option.splits)
  define t0 where "t0 = (if ?waiting \<noteq> None then m else ?due)"
  define weeks where "weeks = max 1 ((week_start t0 + WEEK * (1 + ex_weeks setting) - through) div WEEK)"
  let ?blocked = "\<lambda>plan. if \<not> terms_current e account w then Some ''terms''
            else if balance account (stamp t0) (st w) < pl_price plan then Some ''insufficient_hc'' else None"
  obtain fleet where f: "fleet_field e fleet_id = Inr fleet"
    and body: "(case week_plan e (st w) account fleet weeks t0 of
        Inl (Refusal status reason) \<Rightarrow> Inr (Some (t0, Stop_extend (case reason of None \<Rightarrow> ''refused'' | Some r \<Rightarrow> r) t0))
      | Inl ex \<Rightarrow> Inl ex
      | Inr plan \<Rightarrow> (if ?blocked plan \<noteq> None \<and> ?blocked plan = ?waiting then Inr None
          else Inr (Some (t0, Do_extend plan t0 (?blocked plan))))) = Inr (Some (t, Do_extend plan t' blocked))"
    using run unfolding thr option.case if_not_P [OF c(1)] if_not_P [OF c(2)] c(3) bind_result_Inr t0_def [symmetric] weeks_def [symmetric] by blast
  have p: "week_plan e (st w) account fleet weeks t0 = Inr plan"
  proof (cases "week_plan e (st w) account fleet weeks t0")
    case (Inl x)
    then show ?thesis using body by (cases x) simp_all
  next
    case (Inr q)
    have "q = plan" using body unfolding Inr sum.case by (simp split: if_splits)
    then show ?thesis using Inr by (simp only:)
  qed
  have r: "t0 = t" "t' = t" "blocked = ?blocked plan" "?blocked plan \<noteq> None \<longrightarrow> ?blocked plan \<noteq> ?waiting"
    using body unfolding p sum.case by (auto split: if_splits)
  show thesis
  proof (rule that [OF thr r(2) _ _ _ f])
    show "1 \<le> weeks" by (simp add: weeks_def)
    show "week_plan e (st w) account fleet weeks t = Inr plan" using p r(1) by simp
    show "t = ?due \<or> t = m \<and> m < through" using c(3) r(1) by (auto simp: t0_def split: if_splits)
    show "blocked = None \<or> blocked = Some (if terms_current e account w then ''insufficient_hc'' else ''terms'') \<and> blocked \<noteq> ?waiting"
      using r(3,4) by (auto split: if_splits)
  qed (use c in simp_all)
qed

lemma extend_step_ok:
  assumes "settings_ok e" "extend_step e w m account fleet_id setting = Inr (Some (t, action))"
  shows "action_ok action"
proof (cases action)
  case (Do_extend plan t' blocked)
  show ?thesis
  proof (rule extend_step_Do [OF assms(2) [unfolded Do_extend]])
    fix fleet weeks
    assume f: "fleet_field e fleet_id = Inr fleet" and w: "1 \<le> weeks" and p: "week_plan e (st w) account fleet weeks t = Inr plan"
    have "0 \<le> pl_price plan \<and> pl_first plan < pl_end plan"
      by (rule week_plan_ok [OF assms(1) fleet_field_rate [OF assms(1) f] w p])
    then show ?thesis by (simp add: action_ok_def Do_extend)
  qed
qed (simp add: action_ok_def)

lemma extend_steps_ok:
  "settings_ok e \<Longrightarrow> extend_steps e w m xs = Inr found \<Longrightarrow> \<forall>x\<in>set found. action_ok (snd (snd (snd x)))"
proof (induction xs arbitrary: found)
  case (Cons x xs)
  obtain account fleet_id setting where x: "x = ((account, fleet_id), setting)" by (cases x) auto
  obtain step rest where step: "extend_step e w m account fleet_id setting = Inr step" and rest: "extend_steps e w m xs = Inr rest"
    and found: "found = (case step of None \<Rightarrow> rest | Some (t, action) \<Rightarrow> (t, account, fleet_id, action) # rest)"
    using Cons.prems(2) by (auto simp: x bind_result_Inr)
  have ih: "\<forall>x\<in>set rest. action_ok (snd (snd (snd x)))" by (rule Cons.IH [OF Cons.prems(1) rest])
  show ?case
  proof (cases step)
    case (Some p)
    then show ?thesis using ih extend_step_ok [OF Cons.prems(1)] step found by (cases p) auto
  qed (use ih found in simp)
qed simp

lemma extend_at_ok:
  assumes "settings_ok e" "extend_at e w m = Inr (Some (t, account, fleet_id, action))"
  shows "action_ok action"
proof -
  obtain found where found: "extend_steps e w m (sort_key fst (extends (st w))) = Inr found"
    and first: "min_by (\<lambda>(t, account, fleet_id, action). (t, account, fleet_id)) found = Some (t, account, fleet_id, action)"
    using assms(2) by (auto simp: extend_at_def bind_result_Inr)
  have "(t, account, fleet_id, action) \<in> set found" using min_by_Some [OF first] by simp
  then show ?thesis using extend_steps_ok [OF assms(1) found] by fastforce
qed

lemma deadlines_sound [preserves_intros]: "preserves sound (deadlines m ps)"
proof (induction m ps rule: deadlines.induct)
  case (2 m account fleet_id through rest)
  then show ?case by (cases "deadline_mark m through") (auto simp: Let_def intro!: preserves_intros)
qed (simp add: preserves_intros)

lemma deadline_at_sound [preserves_intros]: "preserves sound (deadline_at m)"
  unfolding deadline_at_def by (intro preserves_intros)

lemma due_events_sound [preserves_intros]: "preserves sound (due_events e m)"
  unfolding due_events_def by (intro preserves_intros)

lemma due_events_Inr:
  "due_events e m w = (Inr events, w') \<longleftrightarrow>
     (\<exists>due extension. deadline_at m w = (Inr due, w') \<and> extend_at e w' m = Inr extension \<and>
        events = (case lapse_at (st w) m of None \<Rightarrow> [] | Some t \<Rightarrow> [(stamp_time t, 0, Lapse_locks t)])
          @ (case round_at (st w) m of None \<Rightarrow> [] | Some t \<Rightarrow> [(t, 1, Allocate_round t)])
          @ (case maintenance_at (st w) m of None \<Rightarrow> [] | Some (t, ident) \<Rightarrow> [(t, 2, Credit_maintenance ident)])
          @ (case outage_at w' m of None \<Rightarrow> [] | Some x \<Rightarrow> [(fst x, 3, Credit_outage x)])
          @ (case failover_end_at e w' m of None \<Rightarrow> [] | Some x \<Rightarrow> [(fst x, 4, End_failover x)])
          @ (case extension of None \<Rightarrow> [] | Some (t, account, fleet_id, action) \<Rightarrow> [(t, 5, Extension account fleet_id action)])
          @ (case due of None \<Rightarrow> [] | Some x \<Rightarrow> [(fst x, 6, Deadline_notice x)]))"
  unfolding due_events_def bind_op_Inr leaf_elims by (simp add: bind_op_Inr leaf_elims) blast

lemma in_case_option:
  "(t, n, ev) \<in> set (case v of None \<Rightarrow> [] | Some y \<Rightarrow> [(f y, k, g y)]) \<longleftrightarrow> (\<exists>y. v = Some y \<and> t = f y \<and> n = k \<and> ev = g y)"
  by (cases v) auto

lemma in_case_pair:
  "(t, n, ev) \<in> set (case v of None \<Rightarrow> [] | Some (a, b) \<Rightarrow> [(f a b, k, g a b)]) \<longleftrightarrow> (\<exists>a b. v = Some (a, b) \<and> t = f a b \<and> n = k \<and> ev = g a b)"
  by (cases v) auto

lemma due_events_ok:
  assumes "settings_ok e" "due_events e m w = (Inr events, w')" "(t, n, Extension account fleet_id action) \<in> set events"
  shows "action_ok action"
proof -
  obtain extension where ext: "extend_at e w' m = Inr extension"
    and "(t, n, Extension account fleet_id action) \<in> set (case extension of None \<Rightarrow> []
       | Some (t, account, fleet_id, action) \<Rightarrow> [(t, 5, Extension account fleet_id action)])"
    using assms(2,3) unfolding due_events_Inr
    by (elim exE conjE) (simp add: in_case_option in_case_pair)
  then have "extension = Some (t, account, fleet_id, action)" by (auto split: option.splits)
  then show ?thesis using extend_at_ok [OF assms(1)] ext by blast
qed

lemma extend_sound:
  assumes "0 \<le> pl_price plan" "pl_first plan < pl_end plan" "0 \<le> fl_rate fleet"
  shows "preserves sound (Advance.extend e account fleet plan m blocked)"
  unfolding Advance.extend_def using assms by (intro preserves_intros pay_sound) (simp_all add: written_ok_def)

lemma run_extension_sound:
  assumes "settings_ok e" "event_ok (Extension account fleet_id action)"
  shows "preserves sound (run_extension e account fleet_id action)"
proof (cases action)
  case (Do_extend plan m blocked)
  show ?thesis unfolding run_extension_def Do_extend ext_action.case
    by (rule preserves_lift) (use assms(2) fleet_field_rate [OF assms(1)] in \<open>auto simp: event_ok_def Do_extend intro: extend_sound\<close>)
qed (simp add: run_extension_def stop_extend_sound)

lemma run_event_sound: "settings_ok e \<Longrightarrow> event_ok ev \<Longrightarrow> preserves sound (run_event e ev)"
  by (cases ev) (simp_all add: lapse_sound allocate_sound credit_maintenance_sound credit_outage_sound end_failover_sound run_extension_sound deadline_sound
      split: prod.split)

lemma advance_loop_sound: "settings_ok e \<Longrightarrow> preserves (sound :: 'a world_scheme \<Rightarrow> bool) (advance_loop n e m)"
proof (induction n)
  case (Suc n)
  show ?case unfolding returns_def
  proof (intro allI impI)
    fix w w' :: "'a world_scheme" and x
    assume w: "sound w" and run: "advance_loop (Suc n) e m w = (Inr x, w')"
    obtain events w1 where d: "due_events e m w = (Inr events, w1)"
      and rest: "(case first_event events of None \<Rightarrow> ret () | Some ev \<Rightarrow> seq_op (run_event e ev) (advance_loop n e m)) w1 = (Inr x, w')"
      using run by (auto simp: bind_op_Inr)
    have w1: "sound w1" by (rule returnsD [OF due_events_sound w d])
    show "sound w'"
    proof (cases "first_event events")
      case (Some ev)
      then obtain t k where ev: "(t, k, ev) \<in> set events" by (auto simp: first_event_def dest!: min_by_Some)
      have ok: "event_ok ev"
        using due_events_ok [OF Suc.prems d, of t k] ev by (cases ev) (auto simp: event_ok_def action_ok_def split: ext_action.splits)
      obtain w2 where "run_event e ev w1 = (Inr (), w2)" "advance_loop n e m w2 = (Inr x, w')"
        using rest by (auto simp: Some seq_op_Inr)
      then show ?thesis using returnsD [OF run_event_sound [OF Suc.prems ok] w1] returnsD [OF Suc.IH [OF Suc.prems]] by blast
    qed (use rest w1 in \<open>simp add: op_simps\<close>)
  qed
qed (simp add: preserves_intros)

lemma advance_sound: "settings_ok e \<Longrightarrow> preserves sound (advance e m)"
  unfolding advance_def by (rule advance_loop_sound)

section \<open>The operations\<close>

text \<open>What an operation starts with: it reads the clock and runs what is due.\<close>

lemma now_advance_sound:
  "settings_ok e \<Longrightarrow> (\<And>m. preserves sound (f m)) \<Longrightarrow> preserves sound (bind_op (now e) (\<lambda>m. seq_op (advance e m) (f m)))"
  by (intro preserves_intros advance_sound)

lemma count_field_Inr: "count_field v most least = Inr n \<Longrightarrow> least \<le> n \<and> n \<le> most"
  by (auto simp: count_field_def split: option.splits if_splits)

lemma weeks_request_Inr:
  "weeks_request e fleet_id weeks = Inr (fleet, n) \<Longrightarrow> fleet_field e fleet_id = Inr fleet \<and> 1 \<le> n"
  by (auto simp: weeks_request_def bind_result_Inr dest: count_field_Inr)

lemma book_hours_sound:
  assumes "settings_ok e"
  shows "preserves sound (book_hours e account fleet_id start hours)"
  unfolding book_hours_def
proof (rule preserves_lift, rule preserves_lift, rule preserves_lift, rule now_advance_sound [OF assms], rule preserves_gets, rule preserves_lift)
  fix fleet a n m price and w :: "'a world_scheme"
  assume f: "fleet_field e fleet_id = Inr fleet" and n: "count_field hours 168 1 = Inr n"
    and p: "hour_price e (st w) account fleet a (a + HOUR * n) m = Inr price"
  have n1: "1 \<le> n" using count_field_Inr [OF n] by simp
  have rate: "0 \<le> fl_rate fleet" by (rule fleet_field_rate [OF assms f])
  have "0 \<le> price" by (rule hour_price_nonneg [OF assms rate _ p]) (use n1 in \<open>simp add: HOUR_def\<close>)
  moreover have "slot_text a < slot_text (a + HOUR * n)" using slot_text_shift [of a n] n1 by (simp add: mult.commute)
  ultimately show "preserves (sound :: 'a world_scheme \<Rightarrow> bool)
      (bind_op (pay e account fleet Hours a (a + HOUR * n) price m \<lparr>xt_hours = Some n, xt_weeks = None, xt_discount = None, xt_auto = False\<rparr>)
        (\<lambda>ident. seq_op (confirmed e ident m) (booking_view ident m)))"
    using rate unfolding booking_view_def by (intro preserves_intros pay_sound)
qed

lemma book_weeks_sound:
  assumes "settings_ok e"
  shows "preserves sound (book_weeks e account fleet_id weeks)"
  unfolding book_weeks_def
proof (rule preserves_lift, rule preserves_prod, rule now_advance_sound [OF assms], rule preserves_gets, rule preserves_lift)
  fix x fleet n m plan and w :: "'a world_scheme"
  assume "weeks_request e fleet_id weeks = Inr x" "x = (fleet, n)" and p: "week_plan e (st w) account fleet n m = Inr plan"
  then have f: "fleet_field e fleet_id = Inr fleet" "1 \<le> n" using weeks_request_Inr by auto
  have rate: "0 \<le> fl_rate fleet" by (rule fleet_field_rate [OF assms f(1)])
  have ok: "0 \<le> pl_price plan \<and> pl_first plan < pl_end plan" by (rule week_plan_ok [OF assms rate f(2) p])
  show "preserves (sound :: 'a world_scheme \<Rightarrow> bool)
      (bind_op (pay e account fleet Weeks (slot_time (pl_first plan)) (slot_time (pl_end plan)) (pl_price plan) m
          \<lparr>xt_hours = None, xt_weeks = Some n, xt_discount = Some (pl_discount plan), xt_auto = False\<rparr>)
        (\<lambda>ident. seq_op (confirmed e ident m) (ret (plan, ident))))"
    using rate ok by (intro preserves_intros pay_sound) simp_all
qed

lemma auto_extend_sound: "settings_ok e \<Longrightarrow> preserves sound (auto_extend e account fleet_id weeks_ahead)"
  unfolding auto_extend_def
  by (rule preserves_lift, rule preserves_lift, intro preserves_intros advance_sound) (auto simp: written_ok_def dest: count_field_Inr)

lemma join_sound: "settings_ok e \<Longrightarrow> preserves sound (join e account lock)"
  unfolding join_def by (intro preserves_intros advance_sound) (simp_all add: written_ok_def)

lemma leave_sound: "settings_ok e \<Longrightarrow> preserves sound (leave e account)"
  unfolding leave_def by (intro preserves_intros advance_sound) (simp_all add: written_ok_def)

lemma issue_sound:
  assumes "0 \<le> credits"
  shows "preserves sound (buy e account credits)" "preserves sound (issue e account credits order)" "preserves sound (credit e account credits note)"
    "preserves sound (downtime_credit e account credits note)"
  unfolding buy_def issue_def credit_def downtime_credit_def by (intro preserves_intros market_lot_sound assms)+

lemma route_sound: "settings_ok e \<Longrightarrow> preserves sound (route e account fleet_id)"
  unfolding route_def by (intro preserves_intros advance_sound) (auto split: list.split intro!: preserves_intros simp: written_ok_def)

lemma schedule_maintenance_sound: "settings_ok e \<Longrightarrow> preserves sound (schedule_maintenance e fleet_id day hours)"
  unfolding schedule_maintenance_def Let_def by (intro preserves_intros advance_sound) (simp_all add: written_ok_def)

lemma tick_sound: "settings_ok e \<Longrightarrow> preserves sound (tick e)"
  unfolding tick_def by (intro preserves_intros advance_sound)

lemma move_clock_sound: "settings_ok e \<Longrightarrow> preserves sound (move_clock e hours)"
  unfolding move_clock_def by (intro preserves_intros advance_sound) (simp add: written_ok_def)

lemma observe_sound [preserves_intros]: "preserves sound (observe e fleet up m detail watch)"
  unfolding observe_def on_uptime_def Let_def
  by (rule returns_quiet, intro keeps_intros quiet_modify) simp_all

lemma sandbox_fleet_sound: "settings_ok e \<Longrightarrow> preserves sound (sandbox_fleet e fleet_id up)"
  unfolding sandbox_fleet_def by (intro preserves_intros advance_sound)

lemma pair_loss_lot:
  "preserves sound (bind_op (gets (\<lambda>w. (dget (rebuilds (st w)) ref,
        filter (\<lambda>b. bk_account b = account \<and> begins b \<le> lost \<and> lost < ends b) (on_fleet fleet (st w))))) (\<lambda>(before, cover).
     bind_op (case before of Some d \<Rightarrow> ret d
              | None \<Rightarrow> (case cover of [] \<Rightarrow> raise (refuse 409 ''not_held'')
                         | b # _ \<Rightarrow> market_lot e account (bk_rate b * REBUILD_HOURS) ''rebuild'' ref m None None)) (f before)))"
  if "\<And>before d. preserves sound (f before d)"
proof (rule preserves_gets, rule preserves_prod, rule preserves_compose [OF _ that])
  fix w :: "'a world_scheme" and before :: "lot_data option" and cover
  assume "sound w" "(dget (rebuilds (st w)) ref, filter (\<lambda>b. bk_account b = account \<and> begins b \<le> lost \<and> lost < ends b) (on_fleet fleet (st w))) = (before, cover)"
  then have "\<forall>b\<in>set cover. 0 \<le> bk_rate b" by (auto simp: sound_def bookings_ok_def booking_ok_def on_fleet_def)
  then show "preserves (sound :: 'a world_scheme \<Rightarrow> bool) (case before of Some d \<Rightarrow> ret d
      | None \<Rightarrow> (case cover of [] \<Rightarrow> raise (refuse 409 ''not_held'') | b # _ \<Rightarrow> market_lot e account (bk_rate b * REBUILD_HOURS) ''rebuild'' ref m None None))"
    by (auto split: option.split list.split intro!: preserves_intros market_lot_sound simp: REBUILD_HOURS_def)
qed

lemma pair_loss_sound: "settings_ok e \<Longrightarrow> preserves sound (pair_loss e r)"
  unfolding pair_loss_def Let_def by ((rule pair_loss_lot | rule preserves_intros advance_sound | assumption)+)

lemma keys_sound:
  assumes "settings_ok e"
  shows "preserves sound (create_key e account body member role)" "preserves sound (revoke_key e account found member role)"
    "preserves sound (rotate_key e account found member role)"
proof -
  have new: "preserves sound (new_key e account opts m old owner)" for opts m old owner
    unfolding new_key_def by (intro preserves_intros) (simp add: written_ok_def)
  show "preserves sound (create_key e account body member role)" "preserves sound (revoke_key e account found member role)"
    "preserves sound (rotate_key e account found member role)"
    unfolding create_key_def revoke_key_def rotate_key_def Let_def by (intro preserves_intros new; simp add: written_ok_def)+
qed

section \<open>Runs\<close>

text \<open>
  A run of the market: operations of customers, the gateway, the hub and the operator, one after the
  other, each returning. An operation that is refused leaves behind what the clock made due, which
  is the step \<open>tick\<close>.
\<close>

inductive market_step :: "env \<Rightarrow> world \<Rightarrow> world \<Rightarrow> bool" for e where
  tick: "tick e w = (Inr x, w') \<Longrightarrow> market_step e w w'"
| hours: "book_hours e account fleet_id start n w = (Inr booked, w') \<Longrightarrow> market_step e w w'"
| weeks: "book_weeks e account fleet_id k w = (Inr planned, w') \<Longrightarrow> market_step e w w'"
| extension: "auto_extend e account fleet_id k w = (Inr setting, w') \<Longrightarrow> market_step e w w'"
| joined: "join e account amount w = (Inr place, w') \<Longrightarrow> market_step e w w'"
| left: "leave e account w = (Inr place, w') \<Longrightarrow> market_step e w w'"
| issued: "0 \<le> credits \<Longrightarrow> issue e account credits order w = (Inr lot, w') \<Longrightarrow> market_step e w w'"
| credited: "0 \<le> credits \<Longrightarrow> downtime_credit e account credits note w = (Inr lot, w') \<Longrightarrow> market_step e w w'"
| routed: "route e account fleet_id w = (Inr origin, w') \<Longrightarrow> market_step e w w'"
| lost: "pair_loss e report w = (Inr rebuilt, w') \<Longrightarrow> market_step e w w'"
| maintained: "schedule_maintenance e fleet_id day n w = (Inr window, w') \<Longrightarrow> market_step e w w'"
| observed: "observe e fleet_id up m detail watch w = (Inr x, w') \<Longrightarrow> market_step e w w'"
| key_made: "create_key e account body member role w = (Inr made, w') \<Longrightarrow> market_step e w w'"
| key_revoked: "revoke_key e account key member role w = (Inr x, w') \<Longrightarrow> market_step e w w'"
| key_rotated: "rotate_key e account key member role w = (Inr rotated, w') \<Longrightarrow> market_step e w w'"

lemma market_step_sound: "market_step e w w' \<Longrightarrow> settings_ok e \<Longrightarrow> sound w \<Longrightarrow> sound w'"
  by (induction rule: market_step.induct)
    (auto dest: returnsD [OF tick_sound] returnsD [OF book_hours_sound] returnsD [OF book_weeks_sound] returnsD [OF auto_extend_sound]
      returnsD [OF join_sound] returnsD [OF leave_sound] returnsD [OF issue_sound(2)] returnsD [OF issue_sound(4)] returnsD [OF route_sound]
      returnsD [OF pair_loss_sound] returnsD [OF schedule_maintenance_sound] returnsD [OF observe_sound]
      returnsD [OF keys_sound(1)] returnsD [OF keys_sound(2)] returnsD [OF keys_sound(3)])

lemma market_run_sound: "(market_step e)\<^sup>*\<^sup>* w w' \<Longrightarrow> settings_ok e \<Longrightarrow> sound w \<Longrightarrow> sound w'"
  by (induction rule: rtranclp_induct) (auto dest: market_step_sound)

lemma sound_empty: "sound empty_world"
  using synced_empty_world by (simp add: sound_def bookings_ok_def empty_world_def store.defs empty_store_def init_book_def init_state_def
      credits_ok_init [unfolded init_state_def] dicts_ok_def keyed_def)


lemma sample_settings_ok: "settings_ok sample_env"
  by code_simp

definition sample_credited :: world where
  "sample_credited = snd (issue sample_env ''AC1'' 200 ''SP1'' empty_world)"

definition sample_booked :: world where
  "sample_booked = snd (book_hours sample_env ''AC1'' ''F1'' (Some (slot_text sample_start + 2)) (Some 3) sample_credited)"

lemma sample_credited_ok: "\<not> isl (fst (issue sample_env ''AC1'' 200 ''SP1'' empty_world))"
  by code_simp

lemma sample_booked_ok: "\<not> isl (fst (book_hours sample_env ''AC1'' ''F1'' (Some (slot_text sample_start + 2)) (Some 3) sample_credited))"
  by code_simp

lemma returned: "\<not> isl (fst p) \<Longrightarrow> \<exists>x. p = (Inr x, snd p)"
  by (cases p; cases "fst p") auto

lemma sample_run: "(market_step sample_env)\<^sup>*\<^sup>* empty_world sample_booked"
proof -
  obtain d where d: "issue sample_env ''AC1'' 200 ''SP1'' empty_world = (Inr d, sample_credited)"
    using returned [OF sample_credited_ok] by (auto simp: sample_credited_def)
  obtain x where x: "book_hours sample_env ''AC1'' ''F1'' (Some (slot_text sample_start + 2)) (Some 3) sample_credited = (Inr x, sample_booked)"
    using returned [OF sample_booked_ok] by (auto simp: sample_booked_def)
  have "market_step sample_env empty_world sample_credited" by (rule market_step.issued [OF _ d]) simp
  moreover have "market_step sample_env sample_credited sample_booked" by (rule market_step.hours [OF x])
  ultimately show ?thesis by (meson r_into_rtranclp rtranclp_trans)
qed




section \<open>What a booking does\<close>

interpretation booked: exclusion "\<lambda>b c. \<not> clear_of b c"
  by unfold_locales (simp add: clear_of_sym)

lemma no_clash_exclusive: "no_clash s \<Longrightarrow> exclusive (\<lambda>b c. \<not> clear_of b c) (set (dvalues (bookings s)))"
  unfolding no_clash_def by (rule booked.exclusive_sorted_wrt) simp

lemma quiet_confirmed: "quiet (confirmed e ident m)"
  unfolding confirmed_def by (intro keeps_intros)

lemma busy_clear: "busy (bk_fleet b) (begins b) (ends b) s = [] \<Longrightarrow> c \<in> set (dvalues (bookings s)) \<Longrightarrow> clear_of b c"
  by (auto simp: busy_Nil clear_of_def)

text \<open>What paying for a period that is free means for the market.\<close>

definition paid_for :: "booking \<Rightarrow> moment \<Rightarrow> mstate \<Rightarrow> mstate \<Rightarrow> bool" where
  "paid_for b m s s' \<longleftrightarrow> bookings s' = dset (bk_id b) b (bookings s) \<and> (\<forall>c\<in>set (dvalues (bookings s)). clear_of b c)
     \<and> bk_hc b \<le> balance (bk_account b) (stamp m) s \<and> balance (bk_account b) (stamp m) s' = balance (bk_account b) (stamp m) s - bk_hc b
     \<and> (\<forall>other t. other \<noteq> bk_account b \<longrightarrow> balance other t s' = balance other t s)"

lemma pay_paid_for:
  assumes "sound w" "0 \<le> price" "pay e account fleet kind start end price m xt w = (Inr ident, w')"
    "slot_time (slot_text start) = start" "slot_time (slot_text end) = end" "busy (fl_id fleet) start end (st w) = []"
  shows "paid_for (paid_booking ident account fleet kind start end price m xt) m (st w) (st w')"
proof -
  let ?b = "paid_booking ident account fleet kind start end price m xt"
  have s: "synced w" "credits_ok (st w)" using assms(1) by (simp_all add: sound_def)
  have b: "bk_id ?b = ident" "bk_account ?b = account" "bk_hc ?b = text_hc price" "bk_fleet ?b = fl_id fleet" "begins ?b = start" "ends ?b = end"
    using assms(4,5) by (simp_all add: paid_booking_def begins_def ends_def)
  have "text_hc price \<le> price" using hc_le [OF assms(2)] by (simp add: text_hc_def)
  then show ?thesis unfolding paid_for_def b
    using pay_Inr(3,4,7,8) [OF s assms(2,3)] busy_clear [of ?b "st w"] assms(6) by (auto simp: b)
qed


lemma sample_credited_sound: "sound sample_credited"
  using market_run_sound [of sample_env empty_world sample_credited] sample_settings_ok sound_empty
    market_step.issued [of 200 sample_env "''AC1''" "''SP1''" empty_world _ sample_credited] returned [OF sample_credited_ok]
  by (force simp: sample_credited_def)



definition sample_pinned :: world where
  "sample_pinned = snd (book_weeks sample_env ''AC1'' ''F3'' (Some 1) sample_credited)"

lemma sample_pinned_ok: "\<not> isl (fst (book_weeks sample_env ''AC1'' ''F3'' (Some 1) sample_credited))"
  by code_simp


end
