(* ===== verification/Completion.thy ===== *)
theory Completion
  imports Market_Runs
begin

text \<open>
  No operation of the market is cut off: finding the events that are due and running one of them
  returns or raises an exception of the code, never \<open>Exhausted\<close>. Only the bound on the number of
  turns of the event loop can give that.
\<close>

section \<open>Operations that return or raise\<close>

definition completes :: "('s, 'a) op \<Rightarrow> bool" where
  "completes m \<longleftrightarrow> (\<forall>s. fst (m s) \<noteq> Inl Exhausted)"

named_theorems completes_intros "operations that are not cut off"

lemma completes_bind [completes_intros]:
  assumes "completes m" and "\<And>x. completes (f x)"
  shows "completes (bind_op m f)"
  unfolding completes_def
proof
  fix s
  show "fst (bind_op m f s) \<noteq> Inl Exhausted"
    using assms unfolding completes_def by (cases "m s"; cases "fst (m s)") (auto simp: bind_op_def, metis fst_conv)
qed

lemma completes_gets: "(\<And>s. completes (f (g s))) \<Longrightarrow> completes (bind_op (gets g) f)"
  by (simp add: completes_def op_simps)

lemma completes_seq [completes_intros]: "completes m \<Longrightarrow> completes n \<Longrightarrow> completes (seq_op m n)"
  by (simp add: seq_op_def completes_bind)

lemma completes_basic [completes_intros]:
  "completes (ret x)" "completes (gets g)" "completes (modify f)"
  "ex \<noteq> Exhausted \<Longrightarrow> completes (raise ex)" "ex \<noteq> Exhausted \<Longrightarrow> completes (require b ex)" "r \<noteq> Inl Exhausted \<Longrightarrow> completes (lift r)"
  by (simp_all add: completes_def op_simps)

lemma completes_each [completes_intros]: "(\<And>x. completes (f x)) \<Longrightarrow> completes (each f xs)"
  by (induction xs) (simp_all add: completes_intros)

lemma completes_map_op [completes_intros]: "(\<And>x. completes (f x)) \<Longrightarrow> completes (map_op f xs)"
  by (induction xs) (simp_all add: completes_intros)

lemma completes_if [completes_intros]: "completes m \<Longrightarrow> completes n \<Longrightarrow> completes (if b then m else n)"
  by simp

lemma completes_option [completes_intros]: "completes m \<Longrightarrow> (\<And>x. completes (f x)) \<Longrightarrow> completes (case v of None \<Rightarrow> m | Some x \<Rightarrow> f x)"
  by (cases v) auto

lemma completes_prod [completes_intros]: "(\<And>x y. completes (f x y)) \<Longrightarrow> completes (case v of (x, y) \<Rightarrow> f x y)"
  by (cases v) auto

lemma completes_reads [completes_intros]:
  "completes (read_clock e)" "completes (read_monotonic e)" "completes (new_id e p)" "completes (notices_sent mark)"
  by (simp_all add: completes_def read_clock_def read_monotonic_def new_id_def notices_sent_def split: prod.split)

lemma completes_change [completes_intros]: "completes (change get put k f)"
  unfolding change_def by (intro completes_intros) simp

lemma completes_on_market [completes_intros]: "completes m \<Longrightarrow> completes (on_market m)"
  by (auto simp: completes_def on_market_def split: prod.split) (metis fst_conv)

lemma completes_on_book [completes_intros]: "completes m \<Longrightarrow> completes (on_book m)"
  by (auto simp: completes_def on_book_def split: prod.split) (metis fst_conv)

lemma completes_apply_line [completes_intros]: "completes (apply_line n l)"
proof -
  have pop: "completes (pop_lock acc)" for acc unfolding pop_lock_def by (intro completes_intros) simp
  have b: "completes (case k of Waitlist \<Rightarrow> m | Balance \<Rightarrow> m')" if "completes m" "completes m'" for k and m m' :: "(mstate, unit) op"
    using that by (cases k) simp_all
  have "completes (dispatch l)"
    by (cases l)
      (simp_all add: handlers completes_intros pop b split del: if_split del: change_step)
  then show ?thesis unfolding apply_line_def by (intro completes_intros)
qed

lemma completes_apply_book [completes_intros]: "completes (apply_book line)"
proof -
  have o: "completes (update_order ex i f)" if "ex \<noteq> Exhausted" for ex i f
    using that unfolding update_order_def by (intro completes_intros)
  have "completes (apply_entry n t x)" for n t x
    by (cases x) (simp_all add: completes_intros o)
  then show ?thesis unfolding apply_book_def by (intro completes_intros)
qed

lemma completes_append [completes_intros]: "completes (append_market e l)"
proof -
  have r: "completes (read_line d x)" for d x
    unfolding read_line_def by (cases x) (simp_all add: completes_intros)
  have "completes (each (read_line d) xs)" for d xs by (intro completes_intros r)
  then have "completes (catch_up_book d f)" for d f by (simp add: completes_def catch_up_book_def)
  then have c: "completes (on_book (catch_up_book d f))" for d f by (intro completes_intros)
  have "completes (catch_up d)" for d unfolding completes_def catch_up_def using c [unfolded completes_def] by blast
  then show ?thesis unfolding append_market_def append_def append_entry_def by (intro completes_intros)
qed

lemma completes_effects [completes_intros]:
  "completes (mail e to subject)" "completes (schedule e n t a d)" "completes (now e)"
  unfolding mail_def schedule_def now_def by (intro completes_intros)+

lemma completes_notices [completes_intros]:
  "completes (notify e acc kind data m once mailed)" "completes (tell e acc kind data m once mailed)" "completes (audit e acc member kind parts given)"
  unfolding tell_def notify_def notified_def audit_def Let_def by (intro completes_intros)+

lemma completes_lots [completes_intros]:
  "completes (market_lot e account credits source ref m note xt)" "completes (default_extend e account fleet_id m)" "completes (moved e places m actors)"
  "completes (confirmed e ident m)"
  unfolding market_lot_def default_extend_def moved_def confirmed_def Let_def by (intro completes_intros; simp)+

lemma completes_lapse [completes_intros]: "completes (lapse e t)"
proof -
  have "completes (lapse_account e t a)" for a
    unfolding lapse_account_def Let_def by (intro completes_intros) simp
  then have "completes (lapse_accounts e t as)" for as by (induction as) (auto intro!: completes_intros)
  then show ?thesis unfolding lapse_def by (intro completes_intros)
qed

lemma completes_allocate [completes_intros]: "completes (allocate e sunday)"
proof -
  have g: "completes (grant e account fleet found sunday)" for account fleet found
    unfolding grant_def Let_def by (intro completes_intros)
  have "completes (allocate_fleets e sunday fs waiting granted)" for fs waiting granted
    by (induction fs arbitrary: waiting granted) (auto intro!: completes_intros g)
  then show ?thesis unfolding allocate_def by (intro completes_intros)
qed

lemma completes_credits [completes_intros]:
  "completes (credit_maintenance e ident)" "completes (credit_outage e sp m over)" "completes (end_failover e x)"
  unfolding credit_maintenance_def credit_outage_def end_failover_def Let_def by (intro completes_intros; simp)+

lemma fleet_field_refuses [simp]: "fleet_field e f \<noteq> Inl Exhausted"
  by (simp add: fleet_field_def split: option.split)

lemma week_plan_refuses [simp]: "week_plan e s account fleet weeks m \<noteq> Inl Exhausted"
proof -
  have "check_first e s fleet first m \<noteq> Inl Exhausted" for first by (auto simp: check_first_def Let_def)
  then show ?thesis by (auto simp: week_plan_def Let_def bind_result_def split: prod.split sum.split)
qed

lemma completes_extension [completes_intros]: "completes (run_extension e account fleet_id action)"
proof -
  have "completes (pay e account fleet kind start end price m xt)" for fleet kind start "end" price m xt
    unfolding pay_def by (intro completes_intros) simp_all
  then have "completes (Advance.extend e account fleet plan m blocked)" for fleet plan m blocked
    unfolding Advance.extend_def by (intro completes_intros)
  moreover have "completes (stop_extend e account fleet_id reason m)" for reason m
    unfolding stop_extend_def by (intro completes_intros)
  ultimately show ?thesis unfolding run_extension_def by (cases action) (auto intro!: completes_intros)
qed

lemma completes_deadline [completes_intros]: "completes (deadline e x)"
proof -
  have "completes (case r of Inr plan \<Rightarrow> ret (Some (pl_price plan)) | Inl (Refusal status reason) \<Rightarrow> ret None | Inl ex \<Rightarrow> raise ex)"
    if "r \<noteq> Inl Exhausted" for r
    using that by (cases r; cases "projl r") (auto simp: completes_intros)
  note price = this
  show ?thesis unfolding deadline_def
    by ((rule completes_prod)+, rule completes_bind, rule completes_basic, simp, rule completes_gets, unfold prod.case, rule completes_bind,
        rule price, simp, rule completes_intros)
qed

lemma completes_run_event: "completes (run_event e ev)"
  by (cases ev) (auto simp: completes_intros intro!: completes_prod completes_credits)

lemma extend_at_refuses: "extend_at e w m \<noteq> Inl Exhausted"
proof -
  have one: "extend_step e w m account fleet_id setting \<noteq> Inl Exhausted" for account fleet_id setting
    unfolding extend_step_def Let_def
    by (auto simp: bind_result_def split: option.split sum.split exn.split if_split dest: sym [of "Inl Exhausted"])
  then have "extend_steps e w m xs \<noteq> Inl Exhausted" for xs
  proof (induction xs)
    case (Cons x xs)
    obtain account fleet_id setting where x: "x = ((account, fleet_id), setting)" by (cases x) auto
    show ?case using one [of account fleet_id setting] Cons unfolding x extend_steps.simps
      by (cases "extend_step e w m account fleet_id setting"; cases "extend_steps e w m xs") auto
  qed simp
  then show ?thesis by (cases "extend_steps e w m (sort_key fst (extends (st w)))") (auto simp: extend_at_def)
qed

lemma completes_due_events: "completes (due_events e m)"
proof -
  have d: "completes (deadlines m xs)" for xs
  proof (induction m xs rule: deadlines.induct)
    case (2 m account fleet_id through rest)
    then show ?case by (cases "deadline_mark m through") (auto simp: Let_def intro!: completes_intros)
  qed (simp add: completes_intros)
  show ?thesis unfolding due_events_def deadline_at_def
    by (rule completes_gets, unfold prod.case, rule completes_bind, intro completes_intros d, rule completes_gets, unfold prod.case,
        intro completes_intros) (rule extend_at_refuses)
qed

end
