(* ===== verification/Market_Ranks.thy ===== *)
theory Market_Ranks
  imports Completion
begin

text \<open>
  What each event of the market's loop makes smaller: the parts of locked HC, the Sundays still to
  come before the moment, the maintenance still to credit, the credits of outages still to give,
  the failovers in force, and the Weeks the auto-extend settings may still ask for. An event never
  makes a rank before its own larger.
\<close>

section \<open>What holds of the market's state, notices and records aside\<close>

definition standing :: "uptime_store \<Rightarrow> (ident, acct) dict \<Rightarrow> (mstate \<Rightarrow> bool) \<Rightarrow> 'a world_scheme \<Rightarrow> bool" where
  "standing U A P w \<longleftrightarrow> synced w \<and> uptime w = U \<and> accounts (book w) = A \<and> P (st w)"

lemma preserves_keeps: "keeps I m \<Longrightarrow> preserves I m"
  unfolding keeps_def returns_def by (metis snd_conv)

lemma keeps_standing [keeps_intros]:
  "keeps (standing U A P) (read_clock e)" "keeps (standing U A P) (read_monotonic e)" "keeps (standing U A P) (new_id e p)"
  "keeps (standing U A P) (notices_sent mark)" "keeps (standing U A P) (mail e to subject)"
  by (auto simp: keeps_def standing_def synced_def read_clock_def read_monotonic_def new_id_def notices_sent_def mail_def op_simps split: prod.split)

lemma keeps_standing_schedule [keeps_intros]: "keeps (standing U A P) (schedule e n t a d)"
  unfolding schedule_def by (intro keeps_intros keeps_modify) (simp add: standing_def synced_def)

lemma keeps_standing_effects [keeps_intros]:
  "keeps (standing U A P) (now e)" "keeps (standing U A P) (notify e acc kind data m once mailed)" "keeps (standing U A P) (audit e acc member kind parts given)"
  unfolding now_def notify_def notified_def audit_def Let_def by (intro keeps_intros keeps_modify; simp add: standing_def synced_def)+

lemma standing_calm [preserves_intros]:
  "preserves (standing U A P) (now e)" "preserves (standing U A P) (new_id e p)" "preserves (standing U A P) (mail e to subject)"
  "preserves (standing U A P) (tell e acc kind data m once mailed)" "preserves (standing U A P) (audit e acc member kind parts given)"
  "preserves (standing U A P) (notices_sent mark)"
  unfolding tell_def by (rule preserves_keeps, intro keeps_intros)+

lemma standing_moved [preserves_intros]: "preserves (standing U A P) (moved e places m actors)"
  unfolding moved_def by (intro preserves_intros)

lemma standing_append:
  assumes "\<And>n s s'. P s \<Longrightarrow> apply_line n l s = (Inr (), s') \<Longrightarrow> Q s'"
  shows "returns (standing U A P) (append_market e l) (\<lambda>_. standing U A Q)"
  unfolding returns_def
proof (intro allI impI)
  fix w x w'
  assume w: "standing U A P w" and run: "append_market e l w = (Inr x, w')"
  have sy: "synced w" using w by (simp add: standing_def)
  from run have "append_market e l w = (Inr (), w')" by simp
  then show "standing U A Q w'"
    by (rule append_market_Inr [OF sy]) (use w assms in \<open>auto simp: standing_def\<close>)
qed

lemma standing_gets: "(\<And>w. standing U A P w \<Longrightarrow> returns (standing U A P) (f (g w)) Q) \<Longrightarrow> returns (standing U A P) (bind_op (gets g) f) Q"
  unfolding returns_def by (auto simp: op_simps)

lemma returns_each: "preserves I (each f xs)" if "\<And>x. x \<in> set xs \<Longrightarrow> preserves I (f x)"
  using that by (rule preserves_each)

section \<open>What a line leaves alone\<close>

lemma apply_line_frame:
  assumes "apply_line n l s = (Inr (), s')"
  shows "(case l of Lock a x t \<Rightarrow> True | Unlock a x r t \<Rightarrow> True | Lock_lapse a i x r d t \<Rightarrow> True | Booking b \<Rightarrow> bk_source b = Waitlist | _ \<Rightarrow> False)
      \<or> locks s' = locks s"
    "round_done s' = (case l of Round t \<Rightarrow> Some t | _ \<Rightarrow> round_done s)"
    "downtimes s' = (case l of Downtime d \<Rightarrow> dset (dt_id d) d (downtimes s) | _ \<Rightarrow> downtimes s)"
  using assms by (cases l; auto simp: apply_line_def op_simps handlers Let_def split: option.splits if_splits paid_from.splits)+

section \<open>Locked parts\<close>

definition parts_rank :: "(ident, lock) dict \<Rightarrow> nat" where
  "parts_rank d = sum_list (map (\<lambda>lk. 1 + length (lk_parts lk)) (dvalues d))"

lemma parts_rank_simps [simp]: "parts_rank [] = 0" "parts_rank (x # d) = 1 + length (lk_parts (snd x)) + parts_rank d"
  by (simp_all add: parts_rank_def)

lemma parts_rank_ddel: "parts_rank (ddel k d) \<le> parts_rank d"
  by (induction d) auto

lemma parts_rank_ddel_less: "dget d k \<noteq> None \<Longrightarrow> parts_rank (ddel k d) < parts_rank d"
proof (induction d)
  case (Cons x d)
  then show ?case using parts_rank_ddel [of k d] by (cases "fst x = k") auto
qed simp

lemma parts_rank_dset: "dget d k = Some lk \<Longrightarrow> parts_rank (dset k v d) + length (lk_parts lk) = parts_rank d + length (lk_parts v)"
  by (induction d) auto

lemma lapse_line_rank:
  assumes "apply_line n (Lock_lapse a i x r due t) s = (Inr (), s')"
  shows "parts_rank (locks s') \<le> parts_rank (locks s)" "heap s' = heap s"
    "dget (locks s) a = Some lk \<Longrightarrow> q \<in> set (lk_parts lk) \<Longrightarrow> lot_id (heap s ! fst q) = i \<Longrightarrow> parts_rank (locks s') < parts_rank (locks s)"
proof -
  obtain lk where lk: "dget (locks s) a = Some lk"
    using assms by (auto simp: apply_line_def op_simps on_lock_lapse_def split: option.splits)
  define ps where "ps = filter (\<lambda>q. lot_id (heap s ! fst q) \<noteq> i) (lk_parts lk)"
  have l: "locks s' = (if ps = [] then ddel a (locks s) else dset a (lk\<lparr>lk_parts := ps\<rparr>) (locks s))" and h: "heap s' = heap s"
    using assms lk by (auto simp: apply_line_def op_simps on_lock_lapse_def Let_def ps_def)
  show "heap s' = heap s" by (rule h)
  have del: "parts_rank (ddel a (locks s)) < parts_rank (locks s)" by (rule parts_rank_ddel_less) (simp add: lk)
  have len: "length ps \<le> length (lk_parts lk)" by (simp add: ps_def)
  show "parts_rank (locks s') \<le> parts_rank (locks s)"
    using del parts_rank_dset [OF lk, of "lk\<lparr>lk_parts := ps\<rparr>"] len by (auto simp: l)
  show "parts_rank (locks s') < parts_rank (locks s)"
    if "dget (locks s) a = Some lk'" "q \<in> set (lk_parts lk')" "lot_id (heap s ! fst q) = i" for lk' q
  proof -
    have "length ps < length (lk_parts lk)" unfolding ps_def by (rule length_filter_less [of q]) (use that lk in auto)
    then show ?thesis using del parts_rank_dset [OF lk, of "lk\<lparr>lk_parts := ps\<rparr>"] by (auto simp: l)
  qed
qed

lemma unlock_line_rank:
  assumes "apply_line n (Unlock a x r t) s = (Inr (), s')"
  shows "parts_rank (locks s') < parts_rank (locks s)"
  using assms parts_rank_ddel_less [of "locks s" a]
  by (auto simp: apply_line_def op_simps on_unlock_def pop_lock_def return_parts_def split: option.splits)

lemma lapsed_parts_values:
  assumes "v \<in> set (dvalues (lapsed_parts h t ps))"
  shows "\<exists>q\<in>set ps. fst q = fst v"
proof -
  let ?f = "\<lambda>d (a, part). if lot_expires (h ! a) \<le> t
         then dset (lot_id (h ! a)) (a, (case dget d (lot_id (h ! a)) of None \<Rightarrow> 0 | Some q \<Rightarrow> snd q) + part) d else d"
  have "\<forall>v\<in>set (dvalues (foldl ?f [] ps)). \<exists>q\<in>set ps. fst q = fst v"
  proof (rule foldl_keeps)
    fix x and d :: "(ident, part) dict"
    assume x: "x \<in> set ps" and d: "\<forall>v\<in>set (dvalues d). \<exists>q\<in>set ps. fst q = fst v"
    show "\<forall>v\<in>set (dvalues (?f d x)). \<exists>q\<in>set ps. fst q = fst v"
    proof (cases "lot_expires (h ! fst x) \<le> t")
      case True
      have "\<forall>v\<in>set (dvalues (dset (lot_id (h ! fst x)) (fst x, (case dget d (lot_id (h ! fst x)) of None \<Rightarrow> 0 | Some q \<Rightarrow> snd q) + snd x) d)).
          \<exists>q\<in>set ps. fst q = fst v"
        by (rule dvalues_dset_all [OF d]) (use x in auto)
      then show ?thesis using True by (simp add: case_prod_beta)
    qed (use d in \<open>simp add: case_prod_beta\<close>)
  qed simp
  then show ?thesis using assms unfolding lapsed_parts_def by (rule bspec)
qed

lemma lapsed_parts_some:
  assumes "q \<in> set ps" "lot_expires (h ! fst q) \<le> t"
  shows "lapsed_parts h t ps \<noteq> []"
proof -
  let ?f = "\<lambda>d (a, part). if lot_expires (h ! a) \<le> t
         then dset (lot_id (h ! a)) (a, (case dget d (lot_id (h ! a)) of None \<Rightarrow> 0 | Some q \<Rightarrow> snd q) + part) d else d"
  have keep: "d \<noteq> [] \<Longrightarrow> foldl ?f d xs \<noteq> []" for d :: "(ident, part) dict" and xs
    by (rule foldl_keeps) (auto split: prod.split)
  obtain as bs where ps: "ps = as @ q # bs" using assms(1) by (auto simp: in_set_conv_decomp)
  have "?f (foldl ?f [] as) q \<noteq> []" using assms(2) by (auto split: prod.split)
  then show ?thesis using keep unfolding lapsed_parts_def ps by simp
qed

text \<open>Until a part lapses nothing changes; once one has, the rank is smaller.\<close>

definition lapsing :: "(ident, lock) dict \<Rightarrow> lot list \<Rightarrow> mstate \<Rightarrow> bool" where
  "lapsing L h s \<longleftrightarrow> parts_rank (locks s) < parts_rank L \<or> locks s = L \<and> heap s = h"

abbreviation fewer :: "(ident, lock) dict \<Rightarrow> mstate \<Rightarrow> bool" where
  "fewer L s \<equiv> parts_rank (locks s) < parts_rank L"

lemma lapsing_append:
  "preserves (standing U A (fewer L)) (append_market e (Lock_lapse a i x r due t))"
  "returns (standing U A (lapsing L h)) (append_market e (Unlock a x reason t)) (\<lambda>_. standing U A (fewer L))"
  "dget L a = Some lk \<Longrightarrow> q \<in> set (lk_parts lk) \<Longrightarrow> lot_id (h ! fst q) = i \<Longrightarrow>
     returns (standing U A (lapsing L h)) (append_market e (Lock_lapse a i x r due t)) (\<lambda>_. standing U A (fewer L))"
  by (rule standing_append; auto simp: lapsing_def dest: lapse_line_rank unlock_line_rank)+

lemma returns_option:
  "(v = None \<Longrightarrow> returns P m Q) \<Longrightarrow> (\<And>x. v = Some x \<Longrightarrow> returns P (f x) Q) \<Longrightarrow> returns P (case v of None \<Rightarrow> m | Some x \<Rightarrow> f x) Q"
  by (cases v) auto

lemma each_lapses:
  assumes "dget L a = Some lk" "\<forall>v\<in>set xs. \<exists>q\<in>set (lk_parts lk). fst q = fst v" "xs \<noteq> []"
  shows "returns (standing U A (lapsing L h)) (each (\<lambda>(b, part). bind_op (gets (g b part))
      (\<lambda>due. append_market e (Lock_lapse a (lot_id (h ! b)) (x part) (r b) due t))) xs) (\<lambda>_. standing U A (fewer L))"
proof -
  obtain b part ys where xs: "xs = (b, part) # ys" using assms(3) by (cases xs) auto
  obtain q where q: "q \<in> set (lk_parts lk)" "fst q = b" using assms(2) by (auto simp: xs)
  show ?thesis unfolding xs each.simps prod.case
  proof (rule returns_seq)
    show "returns (standing U A (lapsing L h)) (bind_op (gets (g b part)) (\<lambda>due. append_market e (Lock_lapse a (lot_id (h ! b)) (x part) (r b) due t)))
        (\<lambda>_. standing U A (fewer L))"
      by (rule standing_gets, rule lapsing_append(3) [OF assms(1) q(1)]) (simp add: q(2))
  qed (intro preserves_intros lapsing_append(1))
qed

lemma fewer_lapsing: "standing U A (fewer L) w \<Longrightarrow> standing U A (lapsing L h) w"
  by (simp add: standing_def lapsing_def)

lemma unlock_fewer: "preserves (standing U A (fewer L)) (append_market e (Unlock a x reason t))"
  by (rule returns_weaken [OF lapsing_append(2)]) (auto intro: fewer_lapsing)

lemma lapse_account_fewer: "preserves (standing U A (fewer L)) (lapse_account e t a)"
  unfolding lapse_account_def Let_def by (intro preserves_intros lapsing_append(1) unlock_fewer)

lemma lapse_account_first:
  fixes w w' :: "'a world_scheme"
  assumes "standing U A (\<lambda>s. locks s = L \<and> heap s = h) w" "lapse_account e t a w = (Inr n, w')"
  shows "standing U A (lapsing L h) w'"
    "dget L a = Some lk \<Longrightarrow> q \<in> set (lk_parts lk) \<Longrightarrow> lot_expires (h ! fst q) \<le> t \<Longrightarrow> standing U A (fewer L) w'"
proof -
  have st: "locks (st w) = L" "heap (st w) = h" and w: "standing U A (lapsing L h) w" using assms(1) by (auto simp: standing_def lapsing_def)
  obtain l where l: "dget L a = Some l" using assms(2) by (cases "dget L a") (auto simp: lapse_account_def op_elims leaf_elims st)
  define lapsed where "lapsed = dvalues (lapsed_parts h t (lk_parts l))"
  define final :: "lock option \<times> decimal \<Rightarrow> ('a world_scheme, nat) op" where "final = (\<lambda>(still, amount). seq_op (if still \<noteq> None \<and> amount < weekHC (pr_rules (settings e))
       then append_market e (Unlock a (text_hc amount) ''below'' t) else ret ()) (ret (length lapsed)))"
  obtain w1 where e1: "each (\<lambda>(b, part). bind_op (gets (\<lambda>w. refund_due (book w) (h ! b) part)) (\<lambda>due.
         append_market e (Lock_lapse a (lot_id (h ! b)) (text_hc part) (lot_ref (h ! b)) due t))) lapsed w = (Inr (), w1)"
    and e2: "bind_op (gets (\<lambda>w. (dget (locks (st w)) a, locked a (st w)))) final w1 = (Inr n, w')"
    using assms(2) unfolding lapse_account_def final_def lapsed_def by (auto simp: op_elims gets_Inr st l Let_def)
  have f: "preserves (standing U A (fewer L)) (bind_op (gets (\<lambda>w. (dget (locks (st w)) a, locked a (st w)))) final)"
    unfolding final_def by (intro preserves_intros unlock_fewer)
  have some: "standing U A (fewer L) w'" if "lapsed \<noteq> []"
  proof -
    have "\<forall>v\<in>set lapsed. \<exists>q\<in>set (lk_parts l). fst q = fst v" unfolding lapsed_def using lapsed_parts_values by blast
    then have "standing U A (fewer L) w1" using returnsD [OF each_lapses [OF l _ that] w e1] by blast
    then show ?thesis by (rule returnsD [OF f _ e2])
  qed
  show "standing U A (lapsing L h) w'"
  proof (cases "lapsed = []")
    case True
    then have w1: "w1 = w" using e1 by (simp add: op_simps)
    have "preserves (standing U A (lapsing L h)) (append_market e (Unlock a x reason t))" for x reason
      by (rule returns_weaken [OF lapsing_append(2)]) (auto intro: fewer_lapsing)
    then have g: "preserves (standing U A (lapsing L h)) (bind_op (gets (\<lambda>w. (dget (locks (st w)) a, locked a (st w)))) final)"
      unfolding final_def by (intro preserves_intros)
    show ?thesis by (rule returnsD [OF g w e2 [unfolded w1]])
  qed (intro fewer_lapsing some)
  show "standing U A (fewer L) w'" if "dget L a = Some lk" "q \<in> set (lk_parts lk)" "lot_expires (h ! fst q) \<le> t"
    by (rule some) (use lapsed_parts_some [OF that(2,3)] that(1) l in \<open>simp add: lapsed_def\<close>)
qed

lemma lapse_account_lapsing: "preserves (standing U A (lapsing L h)) (lapse_account e t a)"
  unfolding returns_def
proof (intro allI impI)
  fix w x w'
  assume w: "standing U A (lapsing L h) w" and run: "lapse_account e t a w = (Inr x, w')"
  show "standing U A (lapsing L h) w'"
  proof (cases "fewer L (st w)")
    case True
    then have "standing U A (fewer L) w" using w by (simp add: standing_def)
    then show ?thesis using returnsD [OF lapse_account_fewer _ run] by (blast intro: fewer_lapsing)
  next
    case False
    then have "standing U A (\<lambda>s. locks s = L \<and> heap s = h) w" using w by (simp add: standing_def lapsing_def)
    then show ?thesis by (rule lapse_account_first(1) [OF _ run])
  qed
qed

lemma lapse_account_expired:
  assumes "dget L a = Some lk" "q \<in> set (lk_parts lk)" "lot_expires (h ! fst q) \<le> t"
  shows "returns (standing U A (lapsing L h)) (lapse_account e t a) (\<lambda>_. standing U A (fewer L))"
  unfolding returns_def
proof (intro allI impI)
  fix w x w'
  assume w: "standing U A (lapsing L h) w" and run: "lapse_account e t a w = (Inr x, w')"
  show "standing U A (fewer L) w'"
  proof (cases "fewer L (st w)")
    case True
    then have "standing U A (fewer L) w" using w by (simp add: standing_def)
    then show ?thesis by (rule returnsD [OF lapse_account_fewer _ run])
  next
    case False
    then have "standing U A (\<lambda>s. locks s = L \<and> heap s = h) w" using w by (simp add: standing_def lapsing_def)
    then show ?thesis by (rule lapse_account_first(2) [OF _ run assms])
  qed
qed

lemma lapse_accounts_fewer: "preserves (standing U A (fewer L)) (lapse_accounts e t as)"
  by (induction as) (auto intro!: preserves_intros lapse_account_fewer)

lemma lapse_accounts_rank:
  assumes "a \<in> set as" "dget L a = Some lk" "q \<in> set (lk_parts lk)" "lot_expires (h ! fst q) \<le> t"
  shows "returns (standing U A (lapsing L h) :: 'a world_scheme \<Rightarrow> bool) (lapse_accounts e t as) (\<lambda>_. standing U A (fewer L))"
  using assms(1)
proof (induction as)
  case (Cons b as)
  show ?case
  proof (cases "a = b")
    case True
    show ?thesis unfolding lapse_accounts.simps
      by (rule returns_bind [OF lapse_account_expired [OF assms(2-4) [unfolded True]]])
        (intro preserves_intros lapse_accounts_fewer)
  next
    case False
    then have ih: "returns (standing U A (lapsing L h) :: 'a world_scheme \<Rightarrow> bool) (lapse_accounts e t as) (\<lambda>_. standing U A (fewer L))" using Cons by simp
    show ?thesis unfolding lapse_accounts.simps
      by (rule returns_bind [OF lapse_account_lapsing], rule returns_bind [OF ih]) (rule preserves_intros)
  qed
qed simp

lemma lapse_rank:
  assumes "lapse_at s m = Some t" "distinct (dkeys (locks s))"
  shows "returns (standing U A (\<lambda>x. x = s)) (lapse e t) (\<lambda>_. standing U A (fewer (locks s)))"
proof -
  have "t \<in> set (filter (\<lambda>t. t \<le> stamp m) (map (\<lambda>q. lot_expires (heap s ! fst q)) (locked_parts s)))"
    using assms(1) least_of_Some unfolding lapse_at_def by blast
  then obtain q lk a where q: "(a, lk) \<in> set (locks s)" "q \<in> set (lk_parts lk)" "lot_expires (heap s ! fst q) \<le> t"
    by (auto simp: locked_parts_def)
  have a: "dget (locks s) a = Some lk" "a \<in> set (dkeys (locks s))" using q(1) assms(2) by (auto intro: dget_Some_mem rev_image_eqI)
  show ?thesis unfolding lapse_def
  proof (rule standing_gets, unfold prod.case, rule returns_bind)
    fix w :: "'a world_scheme"
    assume "standing U A (\<lambda>x. x = s) w"
    then have w: "dkeys (locks (st w)) = dkeys (locks s)" by (simp add: standing_def)
    show "returns (standing U A (\<lambda>x. x = s) :: 'a world_scheme \<Rightarrow> bool) (lapse_accounts e t (dkeys (locks (st w)))) (\<lambda>_. standing U A (fewer (locks s)))"
      unfolding w by (rule returns_weaken [OF lapse_accounts_rank [OF a(2,1) q(2,3)]]) (simp_all add: standing_def lapsing_def)
  qed (intro preserves_intros)
qed

section \<open>Rounds\<close>

lemma booking_line_rank:
  assumes "apply_line n (Booking b) s = (Inr (), s')"
  shows "parts_rank (locks s') \<le> parts_rank (locks s)"
  using assms parts_rank_ddel [of "bk_account b" "locks s"]
  by (cases "bk_source b") (auto simp: apply_line_def op_simps on_booking_def pop_lock_def return_parts_def split: option.splits)

abbreviation most :: "nat \<Rightarrow> mstate \<Rightarrow> bool" where
  "most k s \<equiv> parts_rank (locks s) \<le> k"

lemma most_append [preserves_intros]:
  "preserves (standing U A (most k)) (append_market e (Booking b))"
  "preserves (standing U A (most k)) (append_market e (Auto_extend a f weeks r t))"
  by (rule standing_append, erule le_trans [OF booking_line_rank], assumption)
    (rule standing_append, auto dest: apply_line_frame(1))

lemma allocate_fleets_most: "preserves (standing U A (most k) :: 'a world_scheme \<Rightarrow> bool) (allocate_fleets e sunday fs waiting granted)"
proof -
  have g: "preserves (standing U A (most k) :: 'a world_scheme \<Rightarrow> bool) (grant e account fleet found sunday)" for account fleet found
    unfolding grant_def default_extend_def Let_def by (intro preserves_intros)
  show ?thesis by (induction fs arbitrary: waiting granted) (auto intro!: preserves_intros g)
qed

lemma allocate_rank:
  "returns (standing U A (most k)) (allocate e sunday) (\<lambda>_. standing U A (\<lambda>s. most k s \<and> round_done s = Some (stamp sunday)))"
proof -
  have r: "returns (standing U A (most k)) (append_market e (Round (stamp sunday)))
      (\<lambda>_. standing U A (\<lambda>s. most k s \<and> round_done s = Some (stamp sunday)))"
    by (rule standing_append) (auto dest: apply_line_frame)
  show ?thesis unfolding allocate_def
    by (rule standing_gets, unfold prod.case, rule returns_bind [OF allocate_fleets_most], rule returns_seq [OF r], intro preserves_intros)
qed

text \<open>The Sundays left: first whether there was a round at all, then the time since the last one.\<close>

definition first_round :: "mstate \<Rightarrow> nat" where
  "first_round s = (if round_done s = None then 1 else 0)"

definition round_rank :: "moment \<Rightarrow> mstate \<Rightarrow> nat" where
  "round_rank m s = (case round_done s of None \<Rightarrow> 0 | Some r \<Rightarrow> nat (m - stamp_time r))"

lemma sunday_whole: "round_at s m = Some sunday \<Longrightarrow> stamp_time (stamp sunday) = sunday"
proof -
  assume "round_at s m = Some sunday"
  then obtain since where "sunday = sunday_after since" by (auto simp: round_at_def Let_def split: option.splits if_splits)
  then have "sunday = week_start sunday + 6 * DAY" using sunday_after_spec(3) by simp
  moreover have "week_start sunday = slot_text (week_start sunday) * 3600 * SECOND"
    using week_start_hours [of sunday] by (simp add: slot_time_def HOUR_def)
  ultimately have "sunday = (slot_text (week_start sunday) * 3600 + 6 * 24 * 3600) * SECOND" by (simp add: DAY_def HOUR_def distrib_right)
  then show ?thesis by (metis stamp_stamp_time stamp_time_def)
qed

lemma round_rank_less:
  assumes "round_at s m = Some sunday" "round_done s' = Some (stamp sunday)"
  shows "first_round s' < first_round s \<or> first_round s' = first_round s \<and> round_rank m s' < round_rank m s"
proof (cases "round_done s")
  case (Some r)
  then show ?thesis using round_at_Some(1,3) [OF assms(1)] sunday_whole [OF assms(1)] assms(2)
    by (simp add: first_round_def round_rank_def nat_less_eq_zless)
qed (use assms(2) in \<open>simp add: first_round_def\<close>)

section \<open>Maintenance, outages and failovers\<close>

text \<open>The fields the later events leave alone.\<close>

type_synonym fields = "(ident, lock) dict \<times> stamp option \<times> (ident, maintenance) dict \<times> (ident, downtime) dict \<times> (ident, failover) dict"

definition fields_of :: "mstate \<Rightarrow> fields" where
  "fields_of s = (locks s, round_done s, maintenances s, downtimes s, failovers s)"

abbreviation fixed :: "fields \<Rightarrow> mstate \<Rightarrow> bool" where
  "fixed v s \<equiv> fields_of s = v"

lemma lot_line_fields: "apply_line n (Hc_lot d) s = (Inr (), s') \<Longrightarrow> fields_of s' = fields_of s"
  by (auto dest: apply_line_frame apply_line_maintenances(1) apply_line_failovers(1) simp: fields_of_def)

lemma fixed_lot [preserves_intros]: "preserves (standing U A (fixed v)) (market_lot e account credits source ref m note xt)"
proof -
  have "preserves (standing U A (fixed v)) (append_market e (Hc_lot d))" for d
    by (rule standing_append) (simp add: lot_line_fields)
  then show ?thesis unfolding market_lot_def Let_def by (intro preserves_intros)
qed

lemma count_dset_less:
  "dget d k = Some x \<Longrightarrow> P x \<Longrightarrow> \<not> P y \<Longrightarrow> length (filter P (dvalues (dset k y d))) < length (filter P (dvalues d))"
  by (induction d) (auto split: if_splits)

lemma keyed_value: "keyed f d \<Longrightarrow> x \<in> set (dvalues d) \<Longrightarrow> dget d (f x) = Some x"
  by (force simp: keyed_def intro: dget_Some_mem)

definition maintenance_rank :: "(ident, maintenance) dict \<Rightarrow> nat" where
  "maintenance_rank d = length (filter (\<lambda>x. \<not> mt_done x) (dvalues d))"

definition failover_rank :: "(ident, failover) dict \<Rightarrow> nat" where
  "failover_rank d = length (filter (\<lambda>f. fo_ends f = None) (dvalues d))"

lemma maintenance_rank_less:
  assumes "maintenance_at s m = Some (t, i)" "keyed mt_id (maintenances s)"
  shows "maintenance_rank (dset i ((the (dget (maintenances s) i))\<lparr>mt_done := True\<rparr>) (maintenances s)) < maintenance_rank (maintenances s)"
proof -
  obtain x where x: "x \<in> set (dvalues (maintenances s))" "\<not> mt_done x" "i = mt_id x"
    using least_of_Some [OF assms(1) [unfolded maintenance_at_def]] by auto
  have "dget (maintenances s) i = Some x" using keyed_value [OF assms(2) x(1)] by (simp add: x(3))
  then show ?thesis unfolding maintenance_rank_def by (rule count_dset_less) (simp_all add: x(2))
qed

lemma credit_maintenance_rank:
  "returns (standing U A (fixed (L, R, M, D, F))) (credit_maintenance e i)
     (\<lambda>_. standing U A (fixed (L, R, dset i ((the (dget M i))\<lparr>mt_done := True\<rparr>) M, D, F)))"
proof -
  have d: "returns (standing U A (fixed (L, R, M, D, F))) (append_market e (Maintenance_done i c))
     (\<lambda>_. standing U A (fixed (L, R, dset i ((the (dget M i))\<lparr>mt_done := True\<rparr>) M, D, F)))" for c
    by (rule standing_append) (auto dest: apply_line_frame apply_line_maintenances(1) apply_line_failovers(1) simp: fields_of_def)
  show ?thesis unfolding credit_maintenance_def
    by (rule standing_gets, rule returns_option, rule returns_pure, rule standing_gets, rule returns_seq [OF preserves_each],
        intro preserves_intros, rule returns_seq [OF d], intro preserves_intros)
qed

lemma end_failover_rank:
  "returns (standing U A (fixed (L, R, M, D, F))) (end_failover e (t, i, reason))
     (\<lambda>_. standing U A (fixed (L, R, M, D, dset i ((the (dget F i))\<lparr>fo_end := Some (stamp t), fo_reason := Some reason\<rparr>) F)))"
proof -
  have d: "returns (standing U A (fixed (L, R, M, D, F))) (append_market e (Failover_end i (stamp t) reason))
     (\<lambda>_. standing U A (fixed (L, R, M, D, dset i ((the (dget F i))\<lparr>fo_end := Some (stamp t), fo_reason := Some reason\<rparr>) F)))"
    by (rule standing_append) (auto dest: apply_line_frame apply_line_maintenances(1) apply_line_failovers(1) simp: fields_of_def)
  show ?thesis unfolding end_failover_def prod.case
    by (rule standing_gets, rule returns_option, rule returns_pure, rule returns_seq [OF d], intro preserves_intros)
qed

lemma failover_rank_less:
  assumes "failover_end_at e w m = Some (t, i, reason)" "keyed fo_id (failovers (st w))"
  shows "failover_rank (dset i ((the (dget (failovers (st w)) i))\<lparr>fo_end := Some (stamp t), fo_reason := Some reason\<rparr>) (failovers (st w)))
     < failover_rank (failovers (st w))"
proof -
  obtain f where f: "f \<in> set (active_failovers (st w))" "failover_over e w m f = Some (t, i, reason)"
    using least_of_Some [OF assms(1) [unfolded failover_end_at_def]] by (auto simp: set_map_filter_Some)
  then have x: "f \<in> set (dvalues (failovers (st w)))" "fo_ends f = None" "i = fo_id f"
    by (auto simp: active_failovers_def failover_over_def Let_def split: if_splits option.splits)
  have "dget (failovers (st w)) i = Some f" using keyed_value [OF assms(2) x(1)] by (simp add: x(3))
  then show ?thesis unfolding failover_rank_def by (rule count_dset_less) (simp_all add: x(2), simp add: fo_ends_def)
qed

text \<open>
  For an outage that is over one credit is left until its end is recorded; one that goes on is
  credited once a day.
\<close>

definition over_by :: "moment \<Rightarrow> outage_span \<Rightarrow> moment option" where
  "over_by m sp = (case sp_end sp of None \<Rightarrow> None | Some t \<Rightarrow> if stamp_time t \<le> m then Some (stamp_time t) else None)"

definition span_rank :: "moment \<Rightarrow> (ident, downtime) dict \<Rightarrow> outage_span \<Rightarrow> nat" where
  "span_rank m d sp = (case over_by m sp of
       Some t \<Rightarrow> (case dget d (sp_span sp) of None \<Rightarrow> 1 | Some x \<Rightarrow> if dt_end x = None then 1 else 0)
     | None \<Rightarrow> (case dget d (sp_span sp) of None \<Rightarrow> nat (m - stamp_time (sp_start sp)) | Some x \<Rightarrow> nat (m - stamp_time (dt_now x))))"

definition outage_rank :: "moment \<Rightarrow> uptime_store \<Rightarrow> (ident, downtime) dict \<Rightarrow> nat" where
  "outage_rank m u d = sum_list (map (span_rank m d) (spans (m - 30 * DAY) u))"

lemma stamp_time_less: "a + SECOND \<le> b \<Longrightarrow> a < stamp_time (stamp b)"
  using less_div_times [of SECOND b] by (simp add: stamp_def stamp_time_def SECOND_def)

lemma span_rank_less:
  assumes "outage_of s m sp = Some (t, i, sp', over)" "dt_end x = map_option stamp over" "dt_now x = stamp t"
  shows "span_rank m (dset (sp_span sp) x (downtimes s)) sp < span_rank m (downtimes s) sp" "sp' = sp"
proof -
  note run = assms(1) [unfolded outage_of_def Let_def over_by_def [symmetric]]
  have over: "over = over_by m sp" "sp' = sp" "t \<le> m"
    using run by (auto split: if_splits option.splits)
  show "sp' = sp" by (rule over)
  show "span_rank m (dset (sp_span sp) x (downtimes s)) sp < span_rank m (downtimes s) sp"
  proof (cases "over_by m sp")
    case None
    have t: "(case dget (downtimes s) (sp_span sp) of None \<Rightarrow> stamp_time (sp_start sp) | Some d \<Rightarrow> stamp_time (dt_now d)) + SECOND \<le> t"
      using run unfolding None option.case by (auto simp: OUTAGE_def OUTAGE_PASS_def durations split: if_splits option.splits)
    show ?thesis using stamp_time_less [OF t] stamp_time_stamp_le [of t] over(3)
      by (auto simp: span_rank_def None assms(3) nat_less_eq_zless split: option.splits)
  next
    case (Some z)
    then show ?thesis using run by (auto simp: span_rank_def assms(2) over split: if_splits option.splits)
  qed
qed

lemma sum_list_less:
  "x \<in> set xs \<Longrightarrow> f x < (g x :: nat) \<Longrightarrow> (\<And>y. y \<in> set xs \<Longrightarrow> f y \<le> g y) \<Longrightarrow> sum_list (map f xs) < sum_list (map g xs)"
proof (induction xs)
  case (Cons y ys)
  have le: "sum_list (map f ys) \<le> sum_list (map g ys)" by (rule sum_list_le_map) (use Cons.prems(3) in simp)
  show ?case
  proof (cases "x = y")
    case False
    then have "sum_list (map f ys) < sum_list (map g ys)" using Cons by auto
    then show ?thesis using Cons.prems(3) [of y] by simp
  qed (use le Cons.prems(2) in simp)
qed simp

lemma outage_rank_less:
  assumes "outage_at w m = Some (t, i, sp, over)" "distinct (map sp_span (spans (m - 30 * DAY) (uptime w)))"
    "dt_end x = map_option stamp over" "dt_now x = stamp t"
  shows "outage_rank m (uptime w) (dset (sp_span sp) x (downtimes (st w))) < outage_rank m (uptime w) (downtimes (st w))"
  unfolding outage_rank_def
proof (rule sum_list_less)
  obtain sp' where sp': "sp' \<in> set (spans (m - 30 * DAY) (uptime w))" "outage_of (st w) m sp' = Some (t, i, sp, over)"
    using min_by_Some [OF assms(1) [unfolded outage_at_def]] by (auto simp: set_map_filter_Some)
  note less = span_rank_less [OF sp'(2) assms(3,4)]
  show sp: "sp \<in> set (spans (m - 30 * DAY) (uptime w))" using sp'(1) less(2) by simp
  show "span_rank m (dset (sp_span sp) x (downtimes (st w))) sp < span_rank m (downtimes (st w)) sp" using less by simp
  show "span_rank m (dset (sp_span sp) x (downtimes (st w))) y \<le> span_rank m (downtimes (st w)) y" if y: "y \<in> set (spans (m - 30 * DAY) (uptime w))" for y
  proof (cases "y = sp")
    case False
    then have "sp_span y \<noteq> sp_span sp" using assms(2) sp y by (metis distinct_map inj_onD)
    then have "dget (dset (sp_span sp) x (downtimes (st w))) (sp_span y) = dget (downtimes (st w)) (sp_span y)" by simp
    then show ?thesis by (simp only: span_rank_def)
  qed (use less in simp)
qed

lemma credit_outage_rank:
  "returns (standing U A (fixed (L, R, M, D, F))) (credit_outage e sp m over)
     (\<lambda>_. standing U A (\<lambda>s. \<exists>x. dt_end x = map_option stamp over \<and> dt_now x = stamp m \<and> fixed (L, R, M, dset (sp_span sp) x D, F) s))"
proof -
  have d: "returns (standing U A (fixed (L, R, M, D, F))) (append_market e (Downtime x))
     (\<lambda>_. standing U A (\<lambda>s. \<exists>x. dt_end x = map_option stamp over \<and> dt_now x = stamp m \<and> fixed (L, R, M, dset (sp_span sp) x D, F) s))"
    if "dt_id x = sp_span sp" "dt_end x = map_option stamp over" "dt_now x = stamp m" for x
    by (rule standing_append, rule exI [of _ x])
      (use that in \<open>auto dest: apply_line_frame apply_line_maintenances(1) apply_line_failovers(1) simp: fields_of_def\<close>)
  have lots: "preserves (standing U A (fixed (L, R, M, D, F))) (map_op (\<lambda>(account, credits, hours).
      market_lot e account credits ''downtime'' (sp_span sp) m None (Some (f, hours))) owed)" for f owed
    by (intro preserves_intros)
  show ?thesis unfolding credit_outage_def Let_def
    by (rule standing_gets, rule standing_gets, rule returns_bind [OF lots], rule returns_seq [OF preserves_each],
        intro preserves_intros, rule returns_seq [OF d], simp_all add: preserves_intros)
qed

section \<open>Extensions\<close>

lemma max_list_eqI: "x \<in> set xs \<Longrightarrow> (\<And>y. y \<in> set xs \<Longrightarrow> y \<le> x) \<Longrightarrow> max_list xs = Some (x :: 'b :: linorder)"
proof -
  assume x: "x \<in> set xs" "\<And>y. y \<in> set xs \<Longrightarrow> y \<le> x"
  then obtain z where z: "max_list xs = Some z" by (cases "max_list xs") auto
  then have "z = x" using max_list_Some [OF z] x by (intro antisym) auto
  then show ?thesis using z by simp
qed

lemma weeks_left_through_of:
  assumes "through_of account f s = Some through" "t < through"
  shows "snd (weeks_left account f t s) = Some through"
  using max_list_Some [OF assms(1) [unfolded through_of_def]] assms(2)
  unfolding weeks_left_def Let_def snd_conv by (intro max_list_eqI) auto

lemma through_of_new:
  assumes "bookings s' = dset i b (bookings s)" "i \<notin> set (dkeys (bookings s))" "bk_kind b = Weeks"
  shows "through_of (bk_account b) (bk_fleet b) s = Some through \<Longrightarrow> through \<le> ends b \<Longrightarrow> through_of (bk_account b) (bk_fleet b) s' = Some (ends b)"
    "(account, f) \<noteq> (bk_account b, bk_fleet b) \<Longrightarrow> through_of account f s' = through_of account f s"
proof -
  have v: "dvalues (bookings s') = dvalues (bookings s) @ [b]" using dset_new [OF assms(2)] by (simp add: assms(1))
  have w: "weeks_of a g s' = weeks_of a g s @ (if bk_account b = a \<and> bk_fleet b = g then [b] else [])" for a g
    by (auto simp: weeks_of_def on_fleet_def v assms(3))
  show "through_of account f s' = through_of account f s" if "(account, f) \<noteq> (bk_account b, bk_fleet b)"
    using that by (auto simp: through_of_def w)
  show "through_of (bk_account b) (bk_fleet b) s' = Some (ends b)"
    if "through_of (bk_account b) (bk_fleet b) s = Some through" "through \<le> ends b"
    unfolding through_of_def w using max_list_Some [OF that(1) [unfolded through_of_def]] that(2) by (intro max_list_eqI) auto
qed

definition wait_reason :: "env \<Rightarrow> ident \<Rightarrow> 'a world_scheme \<Rightarrow> string" where
  "wait_reason e account w = (if terms_current e account w then ''insufficient_hc'' else ''terms'')"

definition setting_rank :: "env \<Rightarrow> moment \<Rightarrow> 'a world_scheme \<Rightarrow> (ident \<times> ident) \<times> extension \<Rightarrow> nat" where
  "setting_rank e m w x = (case x of ((account, f), setting) \<Rightarrow> Suc (case through_of account f (st w) of None \<Rightarrow> 0
     | Some through \<Rightarrow> 2 * nat (m + WEEK * (1 + ex_weeks setting) - through)
         + (if waiting_for setting through = Some (wait_reason e account w) then 0 else 1)))"

definition extension_rank :: "env \<Rightarrow> moment \<Rightarrow> 'a world_scheme \<Rightarrow> nat" where
  "extension_rank e m w = sum_list (map (setting_rank e m w) (extends (st w)))"

abbreviation held_as :: "fields \<Rightarrow> (ident, booking) dict \<Rightarrow> (ident \<times> ident, extension) dict \<Rightarrow> mstate \<Rightarrow> bool" where
  "held_as v B E s \<equiv> fields_of s = v \<and> bookings s = B \<and> extends s = E"

lemma held_as_append:
  "returns (standing U A (held_as v B E)) (append_market e (Auto_extend_wait a f through r t))
     (\<lambda>_. standing U A (held_as v B (dset (a, f) ((the (dget E (a, f)))\<lparr>ex_through := Some through, ex_waiting := Some r\<rparr>) E)))"
  "returns (standing U A (held_as v B E)) (append_market e (Auto_extend a f 0 r' t)) (\<lambda>_. standing U A (held_as v B (ddel (a, f) E)))"
  "bk_source b = Balance \<Longrightarrow> returns (standing U A (held_as v B E)) (append_market e (Booking b)) (\<lambda>_. standing U A (held_as v (dset (bk_id b) b B) E))"
  by (rule standing_append,
      auto dest: apply_line_frame apply_line_maintenances(1) apply_line_failovers(1) apply_line_extends(1) apply_line_bookings simp: fields_of_def)+

lemma stop_extend_rank:
  "returns (standing U A (held_as v B E)) (stop_extend e account f reason m) (\<lambda>_. standing U A (held_as v B (ddel (account, f) E)))"
  unfolding stop_extend_def by (rule standing_gets, rule returns_seq [OF held_as_append(2)], intro preserves_intros)

lemma wait_rank:
  "returns (standing U A (held_as v B E)) (Advance.extend e account fleet plan m (Some reason))
     (\<lambda>_. standing U A (held_as v B (dset (account, fl_id fleet)
        ((the (dget E (account, fl_id fleet)))\<lparr>ex_through := Some (pl_first plan), ex_waiting := Some reason\<rparr>) E)))"
  unfolding Advance.extend_def option.case by (rule returns_seq [OF held_as_append(1)], intro preserves_intros)

lemma pay_extension:
  assumes "standing U A (held_as v B E) w" "dget E (account, fl_id fleet) \<noteq> None"
    "pay e account fleet kind start end price m xt w = (Inr i, w')"
  shows "i = ''BK'' @ token e (draws w)"
    "standing U A (held_as v (dset i (paid_booking i account fleet kind start end price m xt) B) E) w'"
proof -
  let ?b = "paid_booking i account fleet kind start end price m xt"
  obtain w1 w2 where i: "new_id e ''BK'' w = (Inr i, w1)" and a: "append_market e (Booking ?b) w1 = (Inr (), w2)"
    and d: "(if kind = Weeks \<and> snd (weeks_left account (fl_id fleet) m (st w)) = None then default_extend e account (fl_id fleet) m else ret ()) w2 = (Inr (), w')"
    using assms(3) unfolding pay_def paid_booking_def by (auto simp: op_elims gets_Inr ret_Inr)
  show "i = ''BK'' @ token e (draws w)" using i by (auto simp: new_id_def)
  have b: "bk_source ?b = Balance" "bk_id ?b = i" by (simp_all add: paid_booking_def)
  have w1: "standing U A (held_as v B E) w1" by (rule returnsD [OF standing_calm(2) assms(1) i])
  have w2: "standing U A (held_as v (dset i ?b B) E) w2" using returnsD [OF held_as_append(3) [OF b(1)] w1 a] by (simp add: b(2))
  have "w' = w2" using d assms(2) w2 by (auto simp: default_extend_def op_simps standing_def split: if_splits)
  then show "standing U A (held_as v (dset i ?b B) E) w'" using w2 by simp
qed

lemma sum_dset: "dget d k = Some v \<Longrightarrow> sum_list (map g (dset k v' d)) + g (k, v) = sum_list (map g d) + (g (k, v') :: nat)"
  by (induction d) auto

lemma sum_ddel: "dget d k = Some v \<Longrightarrow> sum_list (map g (ddel k d)) + g (k, v) \<le> (sum_list (map g d) :: nat)"
proof (induction d)
  case (Cons x d)
  have "sum_list (map g (ddel k d)) \<le> sum_list (map g d)" by (induction d) auto
  then show ?case using Cons by (cases x) auto
qed simp

lemma setting_rank_cong:
  assumes "bookings (st w') = bookings (st w)" "accounts (book w') = accounts (book w)"
  shows "setting_rank e m w' = setting_rank e m w"
proof
  have t: "through_of a f (st w') = through_of a f (st w)" for a f by (simp add: through_of_def weeks_of_def on_fleet_def assms(1))
  have r: "wait_reason e a w' = wait_reason e a w" for a by (simp add: wait_reason_def terms_current_def assms(2))
  show "setting_rank e m w' x = setting_rank e m w x" for x unfolding setting_rank_def t r ..
qed

lemma extend_at_step:
  assumes "extend_at e w m = Inr (Some (t, account, f, action))"
  obtains setting where "((account, f), setting) \<in> set (extends (st w))" "extend_step e w m account f setting = Inr (Some (t, action))"
proof -
  have steps: "\<exists>setting. ((account, f), setting) \<in> set xs \<and> extend_step e w m account f setting = Inr (Some (t, action))"
    if "extend_steps e w m xs = Inr found" "(t, account, f, action) \<in> set found" for xs found
    using that
  proof (induction xs arbitrary: found)
    case (Cons x xs)
    obtain a g s where x: "x = ((a, g), s)" by (cases x) auto
    obtain step rest where step: "extend_step e w m a g s = Inr step" and rest: "extend_steps e w m xs = Inr rest"
      and found: "found = (case step of None \<Rightarrow> rest | Some (t, action) \<Rightarrow> (t, a, g, action) # rest)"
      using Cons.prems(1) by (auto simp: x bind_result_Inr)
    show ?case
    proof (cases "(t, account, f, action) \<in> set rest")
      case True
      then show ?thesis using Cons.IH [OF rest] by auto
    next
      case False
      then have "step = Some (t, action) \<and> a = account \<and> g = f" using Cons.prems(2) by (auto simp: found split: option.splits)
      then show ?thesis using step by (auto simp: x)
    qed
  qed simp
  obtain found where found: "extend_steps e w m (sort_key fst (extends (st w))) = Inr found"
    and first: "min_by (\<lambda>(t, account, fleet_id, action). (t, account, fleet_id)) found = Some (t, account, f, action)"
    using assms by (auto simp: extend_at_def bind_result_Inr)
  show thesis using steps [OF found] min_by_Some [OF first] that by auto
qed

lemma plan_through:
  assumes "week_plan e s account fleet weeks t = Inr plan" "through_of account (fl_id fleet) s = Some through" "t < through"
  shows "pl_first plan = slot_text through" "slot_time (pl_end plan) = through + WEEK * weeks"
proof -
  have p: "plan_first account fleet t s = through" by (simp add: plan_first_def weeks_left_through_of [OF assms(2,3)])
  show "slot_time (pl_end plan) = through + WEEK * weeks" using week_plan_Inr(4) [OF assms(1)] p by simp
  have "slot_time (pl_first plan) = through" using week_plan_Inr(3) [OF assms(1)] p by simp
  then show "pl_first plan = slot_text through" by auto
qed

lemma stop_rank_less:
  assumes "standing U A (held_as v (bookings (st w)) (ddel (account, f) (extends (st w)))) w'" "A = accounts (book w)"
    "dget (extends (st w)) (account, f) = Some setting"
  shows "extension_rank e m w' < extension_rank e m w"
proof -
  have g: "setting_rank e m w' = setting_rank e m w" by (rule setting_rank_cong) (use assms(1,2) in \<open>auto simp: standing_def\<close>)
  have "extends (st w') = ddel (account, f) (extends (st w))" using assms(1) by (simp add: standing_def)
  then show ?thesis using sum_ddel [OF assms(3), of "setting_rank e m w"] by (simp add: extension_rank_def g setting_rank_def)
qed

lemma wait_rank_less:
  assumes "standing U A (held_as v (bookings (st w)) (dset (account, f) (setting\<lparr>ex_through := Some (slot_text through), ex_waiting := Some reason\<rparr>)
      (extends (st w)))) w'" "A = accounts (book w)"
    "dget (extends (st w)) (account, f) = Some setting" "through_of account f (st w) = Some through"
    "reason = wait_reason e account w" "waiting_for setting through \<noteq> Some reason"
  shows "extension_rank e m w' < extension_rank e m w"
proof -
  let ?s = "setting\<lparr>ex_through := Some (slot_text through), ex_waiting := Some reason\<rparr>"
  have g: "setting_rank e m w' = setting_rank e m w" by (rule setting_rank_cong) (use assms(1,2) in \<open>auto simp: standing_def\<close>)
  have "extends (st w') = dset (account, f) ?s (extends (st w))" using assms(1) by (simp add: standing_def)
  moreover have "setting_rank e m w ((account, f), ?s) < setting_rank e m w ((account, f), setting)"
    using assms(4-6) by (simp add: setting_rank_def) (simp add: waiting_for_def)
  ultimately show ?thesis using sum_dset [OF assms(3), of "setting_rank e m w" ?s] by (simp add: extension_rank_def g)
qed

lemma pay_rank_less:
  assumes "standing U A (held_as v (dset i b (bookings (st w))) (extends (st w))) w'" "A = accounts (book w)" "distinct (dkeys (extends (st w)))"
    "dget (extends (st w)) (bk_account b, bk_fleet b) = Some setting" "through_of (bk_account b) (bk_fleet b) (st w) = Some through"
    "i \<notin> set (dkeys (bookings (st w)))" "bk_kind b = Weeks" "through \<le> m + WEEK * ex_weeks setting" "through + WEEK \<le> ends b"
  shows "extension_rank e m w' < extension_rank e m w"
proof -
  have s: "bookings (st w') = dset i b (bookings (st w))" "extends (st w') = extends (st w)" "accounts (book w') = accounts (book w)"
    using assms(1,2) by (simp_all add: standing_def)
  note new = through_of_new [OF s(1) assms(6,7)]
  have pos: "0 < WEEK" by (simp add: durations)
  let ?x = "((bk_account b, bk_fleet b), setting)"
  have r: "wait_reason e a w' = wait_reason e a w" for a by (simp add: wait_reason_def terms_current_def s(3))
  have "through_of (bk_account b) (bk_fleet b) (st w') = Some (ends b)" by (rule new(1) [OF assms(5)]) (use assms(9) pos in linarith)
  moreover define n n' where "n = nat (m + WEEK * (1 + ex_weeks setting) - through)" and "n' = nat (m + WEEK * (1 + ex_weeks setting) - ends b)"
  moreover have "n' < n" unfolding n_def n'_def
    by (rule iffD2 [OF zless_nat_conj]) (use assms(8,9) pos in \<open>simp add: distrib_left, linarith\<close>)
  ultimately have less: "setting_rank e m w' ?x < setting_rank e m w ?x"
    by (simp add: setting_rank_def assms(5) n_def [symmetric] n'_def [symmetric])
  have same: "setting_rank e m w' y = setting_rank e m w y" if y: "y \<in> set (extends (st w))" "y \<noteq> ?x" for y
  proof -
    obtain a f x where yx: "y = ((a, f), x)" by (cases y) auto
    have "dget (extends (st w)) (a, f) = Some x" by (rule dget_Some_mem [OF assms(3)]) (use y yx in simp)
    then have "(a, f) \<noteq> (bk_account b, bk_fleet b)" using y(2) assms(4) by (auto simp: yx)
    from new(2) [OF this] show ?thesis by (simp only: yx setting_rank_def prod.case r)
  qed
  have "sum_list (map (setting_rank e m w') (extends (st w))) < sum_list (map (setting_rank e m w) (extends (st w)))"
    by (rule sum_list_less [of ?x]) (use dget_in_set [OF assms(4)] less same in \<open>auto simp: le_less\<close>)
  then show ?thesis by (simp add: extension_rank_def s(2))
qed

lemma extension_paid:
  fixes w w' :: "'a world_scheme"
  assumes run: "Advance.extend e account fleet plan t None w = (Inr (), w')" and sync: "synced w" and E: "distinct (dkeys (extends (st w)))"
    and get: "dget (extends (st w)) (account, fl_id fleet) = Some setting" and thr: "through_of account (fl_id fleet) (st w) = Some through"
    and new: "''BK'' @ token e (draws w) \<notin> set (dkeys (bookings (st w)))" and le: "through \<le> m + WEEK * ex_weeks setting"
    and plan: "slot_time (pl_end plan) = through + WEEK * weeks" and weeks: "1 \<le> weeks"
  shows "fields_of (st w') = fields_of (st w) \<and> uptime w' = uptime w \<and> extension_rank e m w' < extension_rank e m w"
proof -
  let ?B = "bookings (st w)" and ?E = "extends (st w)" and ?v = "fields_of (st w)" and ?A = "accounts (book w)"
  let ?xt = "\<lparr>xt_hours = None, xt_weeks = Some (pl_weeks plan), xt_discount = Some (pl_discount plan), xt_auto = True\<rparr>"
  have w: "standing (uptime w) ?A (held_as ?v ?B ?E) w" by (simp add: standing_def sync)
  obtain i w1 where pay: "pay e account fleet Weeks (slot_time (pl_first plan)) (slot_time (pl_end plan)) (pl_price plan) t ?xt w = (Inr i, w1)"
    and rest: "seq_op (confirmed e i t) (audit e account ''system'' ''booking.auto'' [i, fl_id fleet] (Some t)) w1 = (Inr (), w')"
    using run by (auto simp: Advance.extend_def bind_op_Inr)
  define b where "b = paid_booking i account fleet Weeks (slot_time (pl_first plan)) (slot_time (pl_end plan)) (pl_price plan) t ?xt"
  have b: "bk_account b = account" "bk_fleet b = fl_id fleet" "bk_kind b = Weeks" "ends b = through + WEEK * weeks"
    by (simp_all add: b_def paid_booking_def ends_def) (simp add: plan [symmetric])
  have dg: "dget ?E (account, fl_id fleet) \<noteq> None" by (simp add: get)
  note pi = pay_extension [OF w dg pay, folded b_def]
  have "preserves (standing (uptime w) ?A (held_as ?v (dset i b ?B) ?E) :: 'a world_scheme \<Rightarrow> bool)
      (seq_op (confirmed e i t) (audit e account ''system'' ''booking.auto'' [i, fl_id fleet] (Some t)))"
    unfolding confirmed_def by (intro preserves_intros)
  from returnsD [OF this pi(2) rest] have w': "standing (uptime w) ?A (held_as ?v (dset i b ?B) ?E) w'" .
  have wk: "through + WEEK \<le> through + WEEK * weeks" using mult_left_mono [of 1 weeks WEEK] weeks by (simp add: durations)
  have "extension_rank e m w' < extension_rank e m w"
    by (rule pay_rank_less [OF w' refl E, unfolded b pi(1), OF get thr new refl le wk])
  then show ?thesis using w' by (simp add: standing_def)
qed

lemma extension_event:
  fixes w w' :: "'a world_scheme"
  assumes "extend_at e w m = Inr (Some (t, account, f, action))" "dicts_ok (st w)" "synced w"
    "''BK'' @ token e (draws w) \<notin> set (dkeys (bookings (st w)))" "run_extension e account f action w = (Inr (), w')"
  shows "fields_of (st w') = fields_of (st w) \<and> uptime w' = uptime w \<and> extension_rank e m w' < extension_rank e m w"
proof -
  let ?B = "bookings (st w)" and ?E = "extends (st w)" and ?v = "fields_of (st w)" and ?A = "accounts (book w)"
  obtain setting where mem: "((account, f), setting) \<in> set ?E" and step: "extend_step e w m account f setting = Inr (Some (t, action))"
    by (rule extend_at_step [OF assms(1)])
  have E: "distinct (dkeys ?E)" "1 \<le> ex_weeks setting" using assms(2) mem by (force simp: dicts_ok_def)+
  have get: "dget ?E (account, f) = Some setting" by (rule dget_Some_mem [OF E(1) mem])
  have w: "standing (uptime w) ?A (held_as ?v ?B ?E) w" by (simp add: standing_def assms(3))
  have fin: ?thesis if "standing (uptime w) ?A (held_as ?v B E) w'" "extension_rank e m w' < extension_rank e m w" for B E
    using that by (auto simp: standing_def)
  show ?thesis
  proof (cases action)
    case (Stop_extend reason t')
    have "standing (uptime w) ?A (held_as ?v ?B (ddel (account, f) ?E)) w'"
      by (rule returnsD [OF stop_extend_rank w]) (use assms(5) in \<open>simp add: run_extension_def Stop_extend\<close>)
    then show ?thesis by (intro fin stop_rank_less [OF _ refl get])
  next
    case (Do_extend plan t' blocked)
    show ?thesis
    proof (rule extend_step_Do [OF step [unfolded Do_extend]])
      fix through fleet weeks
      assume thr: "through_of account f (st w) = Some through" and t': "t' = t" and ex: "stamp_time (ex_now setting) < through"
        and le: "through \<le> m + WEEK * ex_weeks setting"
        and due: "t = max (through - WEEK * ex_weeks setting) (stamp_time (ex_now setting)) \<or> t = m \<and> m < through"
        and ff: "fleet_field e f = Inr fleet" and weeks: "1 \<le> weeks" and plan: "week_plan e (st w) account fleet weeks t = Inr plan"
        and bl: "blocked = None \<or> blocked = Some (if terms_current e account w then ''insufficient_hc'' else ''terms'')
            \<and> blocked \<noteq> waiting_for setting through"
      have id: "fl_id fleet = f" using fleet_field_Inr [OF ff] by simp
      have pos: "0 < WEEK" by (simp add: durations)
      have "0 < WEEK * ex_weeks setting" using E(2) pos by simp
      then have "t < through" using due ex by auto
      note p = plan_through [OF plan thr [folded id] this]
      have run: "Advance.extend e account fleet plan t blocked w = (Inr (), w')"
        using assms(5) by (simp add: run_extension_def Do_extend ff op_simps t')
      show ?thesis
      proof (cases blocked)
        case (Some reason)
        have "standing (uptime w) ?A (held_as ?v ?B (dset (account, f) (setting\<lparr>ex_through := Some (slot_text through), ex_waiting := Some reason\<rparr>) ?E)) w'"
          using returnsD [OF wait_rank w run [unfolded Some]] by (simp add: id get p(1))
        then show ?thesis by (intro fin wait_rank_less [OF _ refl get thr]) (use bl Some in \<open>auto simp: wait_reason_def\<close>)
      next
        case None
        show ?thesis
          by (rule extension_paid [OF run [unfolded None] assms(3) E(1) _ _ assms(4) le p(2) weeks]) (simp_all add: id get thr)
      qed
    qed
  qed
qed

end
