(* ===== verification/Market_Ends.thy ===== *)
theory Market_Ends
  imports Market_Ranks
begin

text \<open>
  The event loop of the market ends, and leaves nothing due: the ranks of \<open>Market_Ranks\<close> and the
  number of deadlines not yet told decrease lexicographically with every event, whatever the order
  in which the events come up, as long as the ids of new bookings are new and no two recorded
  outages share their id.
\<close>

section \<open>Deadlines\<close>

abbreviation marks :: "'a world_scheme \<Rightarrow> once set" where
  "marks w \<equiv> set (jr_once (notices w))"

lemma sent_marks:
  "fst (sent f mark j) \<longleftrightarrow> mark \<in> set (jr_once (snd (sent f mark j)))" "set (jr_once j) \<subseteq> set (jr_once (snd (sent f mark j)))"
proof -
  have "set (jr_once j) \<subseteq> set (jr_once (foldl (\<lambda>j d. journal_catch_up f d j) j ds))" for ds
    by (rule foldl_keeps) (auto simp: journal_catch_up_def dest: subsetD [OF read_new_fields(3)])
  then show "fst (sent f mark j) \<longleftrightarrow> mark \<in> set (jr_once (snd (sent f mark j)))" "set (jr_once j) \<subseteq> set (jr_once (snd (sent f mark j)))"
    by (simp_all add: sent_def Let_def)
qed

lemma notices_sent_Inr:
  assumes "notices_sent mark w = (Inr b, w')"
  shows "marks w \<subseteq> marks w'" "\<not> b \<Longrightarrow> mark \<notin> marks w"
  using assms sent_marks [where f = nt_once and mark = mark and j = "notices w"]
  by (auto simp: notices_sent_def split: prod.splits)

lemma deadlines_Inr:
  "deadlines m xs w = (Inr found, w') \<Longrightarrow> marks w \<subseteq> marks w' \<and> (\<forall>(t, a, f, through, hours, once)\<in>set found.
     ((a, f), through) \<in> set xs \<and> deadline_mark m through = Some hours \<and> once = Deadline_once a f (slot_text (through - DAY)) hours
     \<and> once \<notin> marks w)"
proof (induction m xs arbitrary: w w' found rule: deadlines.induct)
  case (2 m account fleet_id through rest)
  show ?case
  proof (cases "deadline_mark m through")
    case None
    then show ?thesis using 2(1) [OF None, of w found w'] 2(3) by fastforce
  next
    case (Some hours)
    let ?once = "Deadline_once account fleet_id (slot_text (through - DAY)) hours"
    obtain b w1 more where b: "notices_sent ?once w = (Inr b, w1)" and more: "deadlines m rest w1 = (Inr more, w')"
      and found: "found = (if b then more else (through - DAY - HOUR * hours, account, fleet_id, through, hours, ?once) # more)"
      using 2(3) by (auto simp: Some Let_def op_elims leaf_elims)
    note ih = 2(2) [OF Some refl refl more] and s = notices_sent_Inr [OF b]
    show ?thesis using ih s Some by (fastforce simp: found split: if_splits)
  qed
qed (simp add: op_simps)

definition untold :: "moment \<Rightarrow> once set \<Rightarrow> (ident \<times> ident) \<times> moment \<Rightarrow> bool" where
  "untold m told x = (case x of ((a, f), through) \<Rightarrow> (case deadline_mark m through of None \<Rightarrow> False
     | Some hours \<Rightarrow> Deadline_once a f (slot_text (through - DAY)) hours \<notin> told))"

definition deadline_rank :: "moment \<Rightarrow> 'a world_scheme \<Rightarrow> nat" where
  "deadline_rank m w = length (filter (untold m (marks w)) (pins (st w) m))"

lemma deadline_at_Inr:
  assumes "deadline_at m w = (Inr due, w')"
  shows "marks w \<subseteq> marks w'" "due = Some (t, a, f, through, hours, once) \<Longrightarrow> ((a, f), through) \<in> set (pins (st w) m) \<and> untold m (marks w) ((a, f), through)
     \<and> deadline_mark m through = Some hours \<and> once = Deadline_once a f (slot_text (through - DAY)) hours"
proof -
  obtain found where d: "deadlines m (sort_key fst (pins (st w) m)) w = (Inr found, w')"
    and due: "due = min_by (\<lambda>(t, account, fleet_id, through, hours, once). (t, account, fleet_id, through, hours)) found"
    using assms by (auto simp: deadline_at_def op_elims leaf_elims)
  note r = deadlines_Inr [OF d]
  show "marks w \<subseteq> marks w'" using r by blast
  show "((a, f), through) \<in> set (pins (st w) m) \<and> untold m (marks w) ((a, f), through)
     \<and> deadline_mark m through = Some hours \<and> once = Deadline_once a f (slot_text (through - DAY)) hours"
    if "due = Some (t, a, f, through, hours, once)"
  proof -
    have "(t, a, f, through, hours, once) \<in> set found" using min_by_Some [OF that [unfolded due]] by blast
    then show ?thesis using r by (fastforce simp: untold_def)
  qed
qed

lemma deadline_rank_less:
  assumes "st w' = st w" "marks w \<subseteq> marks w'" "((a, f), through) \<in> set (pins (st w) m)" "untold m (marks w) ((a, f), through)"
    "deadline_mark m through = Some hours" "Deadline_once a f (slot_text (through - DAY)) hours \<in> marks w'"
  shows "deadline_rank m w' < deadline_rank m w"
proof -
  let ?P = "untold m (marks w)" and ?Q = "untold m (marks w')"
  have "?Q x \<Longrightarrow> ?P x" for x using assms(2) by (auto simp: untold_def split: prod.splits option.splits)
  then have "filter ?Q (pins (st w) m) = filter ?Q (filter ?P (pins (st w) m))" by (auto simp: filter_filter intro: filter_cong)
  also have "length \<dots> < length (filter ?P (pins (st w) m))"
    by (rule length_filter_less [of "((a, f), through)"]) (use assms(3-6) in \<open>auto simp: untold_def\<close>)
  finally show ?thesis by (simp add: deadline_rank_def assms(1))
qed

lemma notified_notices: "keeps (\<lambda>w. notices w = j) (notified e n)"
  unfolding notified_def schedule_def mail_def read_monotonic_def [abs_def]
  by (intro keeps_intros keeps_modify) (simp_all add: keeps_def)

lemma tell_marks:
  assumes "tell e account kind data m (Some once) mailed w = (Inr (), w')"
  shows "once \<in> marks w'" "marks w \<subseteq> marks w'"
proof -
  obtain n d w1 where n: "nt_once n = Some once" "notices w1 = journal_add nt_once n d (notices w)" and r: "notified e n w1 = (Inr (), w')"
    using assms unfolding tell_def notify_def Let_def by (auto simp: op_elims leaf_elims new_id_def) (erule that [rotated 2]; simp)
  have "notices w' = journal_add nt_once n d (notices w)" using keeps_result [OF notified_notices n(2) r] by simp
  then show "once \<in> marks w'" "marks w \<subseteq> marks w'"
    using journal_add_fields(2) [of "notices w" nt_once n d] journal_add_fields(3) [of nt_once n once d "notices w"] n(1) by simp_all
qed

lemma deadline_event:
  "returns (\<lambda>w. N \<subseteq> marks w) (deadline e (t, a, f, through, hours, once)) (\<lambda>_ w. once \<in> marks w \<and> N \<subseteq> marks w)"
proof -
  have told: "returns (\<lambda>w. N \<subseteq> marks w) (tell e a kind data t (Some once) mailed) (\<lambda>_ w. once \<in> marks w \<and> N \<subseteq> marks w)"
    for kind data mailed
    unfolding returns_def by (auto dest: tell_marks)
  have price: "preserves (\<lambda>w. N \<subseteq> marks w)
      (case r of Inr plan \<Rightarrow> ret (Some (pl_price plan)) | Inl (Refusal status reason) \<Rightarrow> ret None | Inl ex \<Rightarrow> raise ex)" for r
    by (cases r; cases "projl r") (auto simp: preserves_intros)
  show ?thesis unfolding deadline_def prod.case
    by (rule returns_bind [OF preserves_pure(3)], rule returns_bind [OF preserves_pure(5)], unfold case_prod_beta,
        rule returns_bind [OF price], rule told)
qed

section \<open>New bookings have new ids\<close>

definition minted :: "env \<Rightarrow> 'a world_scheme \<Rightarrow> bool" where
  "minted e w \<longleftrightarrow> synced w \<and> inj (token e) \<and> (\<forall>n\<ge>draws w. ''BK'' @ token e n \<notin> set (dkeys (bookings (st w))))"

lemma keeps_minted [keeps_intros]:
  "keeps (minted e) (read_clock e')" "keeps (minted e) (read_monotonic e')" "keeps (minted e) (new_id e' p)"
  "keeps (minted e) (notices_sent mark)" "keeps (minted e) (mail e' to subject)"
  by (auto simp: keeps_def minted_def synced_def read_clock_def read_monotonic_def new_id_def notices_sent_def mail_def op_simps split: prod.split)

lemma keeps_minted_schedule [keeps_intros]: "keeps (minted e) (schedule e' n t a d)"
  unfolding schedule_def by (intro keeps_intros keeps_modify) (simp add: minted_def synced_def)

lemma keeps_minted_effects [keeps_intros]:
  "keeps (minted e) (now e')" "keeps (minted e) (notify e' acc kind data m once mailed)" "keeps (minted e) (audit e' acc member kind parts given)"
  unfolding now_def notify_def notified_def audit_def Let_def by (intro keeps_intros keeps_modify; simp add: minted_def synced_def)+

lemma minted_calm [preserves_intros]:
  "preserves (minted e) (now e')" "preserves (minted e) (new_id e' p)" "preserves (minted e) (mail e' to subject)"
  "preserves (minted e) (tell e' acc kind data m once mailed)" "preserves (minted e) (audit e' acc member kind parts given)"
  "preserves (minted e) (notices_sent mark)"
  unfolding tell_def by (rule preserves_keeps, intro keeps_intros)+

lemma minted_append:
  assumes "case l of Booking b \<Rightarrow> bk_id b = ''BK'' @ token e k | _ \<Rightarrow> True"
  shows "returns (\<lambda>w. minted e w \<and> k < draws w) (append_market e' l) (\<lambda>_. minted e)"
  unfolding returns_def
proof (intro allI impI, elim conjE)
  fix w x w'
  assume w: "minted e w" "k < draws w" and run: "append_market e' l w = (Inr x, w')"
  have sy: "synced w" using w(1) by (simp add: minted_def)
  from run have "append_market e' l w = (Inr (), w')" by simp
  then show "minted e w'"
  proof (rule append_market_Inr [OF sy])
    fix n
    assume a: "apply_line n l (st w) = (Inr (), st w')" and s': "synced w'" and d: "draws w' = draws w"
    have inj: "inj (token e)" using w(1) by (simp add: minted_def)
    have "set (dkeys (bookings (st w'))) \<subseteq> set (dkeys (bookings (st w))) \<union> {''BK'' @ token e k}"
      using apply_line_bookings [OF a] assms by (cases l) (auto simp: dkeys_dset split: if_splits)
    note sub = subsetD [OF this]
    have "''BK'' @ token e n \<notin> set (dkeys (bookings (st w')))" if "draws w \<le> n" for n
    proof
      assume "''BK'' @ token e n \<in> set (dkeys (bookings (st w')))"
      then have "''BK'' @ token e n \<in> set (dkeys (bookings (st w))) \<or> token e n = token e k" using sub [of "''BK'' @ token e n"] by auto
      moreover have "''BK'' @ token e n \<notin> set (dkeys (bookings (st w)))" using w(1) that by (simp add: minted_def)
      ultimately show False using injD [OF inj, of n k] w(2) that by auto
    qed
    then show ?thesis using s' inj d by (simp add: minted_def)
  qed
qed

lemma minted_line [preserves_intros]:
  assumes "case l of Booking b \<Rightarrow> False | _ \<Rightarrow> True"
  shows "preserves (minted e) (append_market e' l)"
  unfolding returns_def
proof (intro allI impI)
  fix w x w'
  assume w: "minted e w" and run: "append_market e' l w = (Inr x, w')"
  have sy: "synced w" using w by (simp add: minted_def)
  from run have "append_market e' l w = (Inr (), w')" by simp
  then show "minted e w'"
  proof (rule append_market_Inr [OF sy])
    fix n
    assume a: "apply_line n l (st w) = (Inr (), st w')" and s': "synced w'" and d: "draws w' = draws w"
    have "bookings (st w') = bookings (st w)" using apply_line_bookings [OF a] assms by (cases l) simp_all
    then show ?thesis using w s' d by (simp add: minted_def)
  qed
qed

lemma minted_new_id: "returns (minted e) (new_id e ''BK'') (\<lambda>i w. \<exists>k. i = ''BK'' @ token e k \<and> minted e w \<and> k < draws w)"
  unfolding returns_def by (auto simp: new_id_def minted_def synced_def)

lemma minted_booking:
  assumes "bk_id b = i" "preserves (minted e) m"
  shows "returns (\<lambda>w. \<exists>k. i = ''BK'' @ token e k \<and> minted e w \<and> k < draws w) (seq_op (append_market e' (Booking b)) m) (\<lambda>_. minted e)"
proof (rule returns_seq [OF _ assms(2)])
  show "returns (\<lambda>w. \<exists>k. i = ''BK'' @ token e k \<and> minted e w \<and> k < draws w) (append_market e' (Booking b)) (\<lambda>_. minted e)"
    unfolding returns_def using returnsD [OF minted_append [where l = "Booking b"]] assms(1) by fastforce
qed

lemma minted_effects [preserves_intros]:
  "preserves (minted e) (market_lot e' account credits source ref m note xt)" "preserves (minted e) (default_extend e' account fleet_id m)"
  "preserves (minted e) (moved e' places m actors)" "preserves (minted e) (confirmed e' ident m)"
  unfolding market_lot_def default_extend_def moved_def confirmed_def Let_def by (intro preserves_intros; simp)+

lemma minted_pay [preserves_intros]: "preserves (minted e) (pay e account fleet kind start end price m xt)"
  unfolding pay_def
  by (rule preserves_compose(1) [OF preserves_pure(5)], rule preserves_compose(2) [OF preserves_pure(4)], rule preserves_compose(1) [OF preserves_pure(5)],
      rule returns_bind [OF minted_new_id], rule minted_booking) (simp, intro preserves_intros)

lemma minted_grant [preserves_intros]: "preserves (minted e) (grant e account fleet found sunday)"
  unfolding grant_def Let_def
  by (rule preserves_prod, rule preserves_prod, rule preserves_compose(1) [OF preserves_pure(5)], rule returns_bind [OF minted_new_id],
      rule minted_booking) (simp, intro preserves_intros)

lemma minted_lapse [preserves_intros]: "preserves (minted e) (lapse e t)"
proof -
  have "preserves (minted e) (lapse_account e t a)" for a
    unfolding lapse_account_def Let_def by (intro preserves_intros) simp_all
  then have "preserves (minted e) (lapse_accounts e t as)" for as by (induction as) (auto intro!: preserves_intros)
  then show ?thesis unfolding lapse_def by (intro preserves_intros)
qed

lemma minted_allocate [preserves_intros]: "preserves (minted e) (allocate e sunday)"
proof -
  have "preserves (minted e) (allocate_fleets e sunday fs waiting granted)" for fs waiting granted
    by (induction fs arbitrary: waiting granted) (auto intro!: preserves_intros)
  then show ?thesis unfolding allocate_def by (intro preserves_intros) simp_all
qed

lemma minted_credits [preserves_intros]:
  "preserves (minted e) (credit_maintenance e ident)" "preserves (minted e) (credit_outage e sp m over)" "preserves (minted e) (end_failover e x)"
  unfolding credit_maintenance_def credit_outage_def end_failover_def Let_def by (intro preserves_intros; simp)+

lemma minted_extension [preserves_intros]: "preserves (minted e) (run_extension e account fleet_id action)"
  unfolding run_extension_def stop_extend_def Advance.extend_def by (cases action) (auto intro!: preserves_intros)

lemma minted_deadline [preserves_intros]: "preserves (minted e) (deadline e x)"
  unfolding deadline_def by (intro preserves_intros) (auto split: sum.split exn.split intro!: preserves_intros)

lemma minted_run_event: "preserves (minted e) (run_event e ev)"
  by (cases ev) (auto intro!: preserves_intros)

lemma deadline_at_preserves:
  assumes "\<And>mark. preserves I (notices_sent mark)"
  shows "preserves I (deadline_at m)"
proof -
  have "preserves I (deadlines m xs)" for xs
  proof (induction m xs rule: deadlines.induct)
    case (2 m account fleet_id through rest)
    then show ?case by (cases "deadline_mark m through") (auto simp: Let_def intro!: preserves_intros assms)
  qed (simp add: preserves_intros)
  then show ?thesis unfolding deadline_at_def by (intro preserves_intros)
qed

lemma due_events_preserves:
  assumes "\<And>mark. preserves I (notices_sent mark)"
  shows "preserves I (due_events e m)"
  unfolding due_events_def by (intro preserves_intros deadline_at_preserves assms)

lemma minted_due: "preserves (minted e) (due_events e' m)"
  by (rule due_events_preserves) (rule minted_calm)

section \<open>Every event makes the rank smaller\<close>

definition ranks :: "env \<Rightarrow> moment \<Rightarrow> ('a world_scheme \<Rightarrow> nat) list" where
  "ranks e m = [\<lambda>w. parts_rank (locks (st w)), \<lambda>w. first_round (st w), \<lambda>w. round_rank m (st w), \<lambda>w. maintenance_rank (maintenances (st w)),
     \<lambda>w. outage_rank m (uptime w) (downtimes (st w)), \<lambda>w. failover_rank (failovers (st w)), extension_rank e m, deadline_rank m]"

text \<open>What the loop needs of a state.\<close>

definition loop_ready :: "env \<Rightarrow> moment \<Rightarrow> 'a world_scheme \<Rightarrow> bool" where
  "loop_ready e m w \<longleftrightarrow> sound w \<and> minted e w \<and> distinct (map sp_span (spans (m - 30 * DAY) (uptime w)))"

text \<open>Looking for what is due changes nothing but what is known of the notices sent.\<close>

abbreviation alike :: "'a world_scheme \<Rightarrow> 'a world_scheme \<Rightarrow> bool" where
  "alike w \<equiv> standing (uptime w) (accounts (book w)) (\<lambda>s. s = st w)"

lemma due_events_alike:
  assumes "synced w" "due_events e m w = (Inr events, w1)"
  shows "alike w w1"
proof (rule returnsD [OF due_events_preserves _ assms(2)])
  show "preserves (alike w) (notices_sent mark)" for mark by (rule standing_calm)
  show "alike w w" by (simp add: standing_def assms(1))
qed

lemma alike_fixed: "alike w w1 \<Longrightarrow> standing (uptime w) (accounts (book w)) (fixed (locks (st w), round_done (st w), maintenances (st w),
    downtimes (st w), failovers (st w))) w1"
  by (simp add: standing_def fields_of_def)

lemmas rank_simps = standing_def fields_of_def ranks_def first_round_def round_rank_def

lemma lapse_decreases:
  assumes "alike w w1" "lapse_at (st w) m = Some z" "distinct (dkeys (locks (st w)))" "lapse e z w1 = (Inr (), w2)"
  shows "uptime w2 = uptime w \<and> (w2, w) \<in> measures (ranks e m)"
  using returnsD [OF lapse_rank [OF assms(2,3)] assms(1,4)] by (simp add: rank_simps)

lemma allocate_decreases:
  assumes "alike w w1" "round_at (st w) m = Some sunday" "allocate e sunday w1 = (Inr (), w2)"
  shows "uptime w2 = uptime w \<and> (w2, w) \<in> measures (ranks e m)"
proof -
  have "standing (uptime w) (accounts (book w)) (most (parts_rank (locks (st w)))) w1" using assms(1) by (simp add: standing_def)
  from returnsD [OF allocate_rank this assms(3)]
  have r: "uptime w2 = uptime w" "most (parts_rank (locks (st w))) (st w2)" "round_done (st w2) = Some (stamp sunday)" by (simp_all add: standing_def)
  then show ?thesis using round_rank_less [OF assms(2) r(3)] by (auto simp: ranks_def)
qed

lemma maintenance_decreases:
  assumes "alike w w1" "maintenance_at (st w) m = Some (z, i)" "dicts_ok (st w)" "credit_maintenance e i w1 = (Inr (), w2)"
  shows "uptime w2 = uptime w \<and> (w2, w) \<in> measures (ranks e m)"
proof -
  have k: "keyed mt_id (maintenances (st w))" using assms(3) by (simp add: dicts_ok_def)
  show ?thesis using returnsD [OF credit_maintenance_rank alike_fixed [OF assms(1)] assms(4)] maintenance_rank_less [OF assms(2) k]
    by (simp add: rank_simps)
qed

lemma outage_decreases:
  assumes "alike w w1" "outage_at w1 m = Some (z, i, sp, over)" "distinct (map sp_span (spans (m - 30 * DAY) (uptime w)))"
    "credit_outage e sp z over w1 = (Inr (), w2)"
  shows "uptime w2 = uptime w \<and> (w2, w) \<in> measures (ranks e m)"
proof -
  obtain x where x: "dt_end x = map_option stamp over" "dt_now x = stamp z" and w2: "uptime w2 = uptime w"
      "fixed (locks (st w), round_done (st w), maintenances (st w), dset (sp_span sp) x (downtimes (st w)), failovers (st w)) (st w2)"
    using returnsD [OF credit_outage_rank alike_fixed [OF assms(1)] assms(4)] by (auto simp: standing_def)
  have "outage_rank m (uptime w) (dset (sp_span sp) x (downtimes (st w))) < outage_rank m (uptime w) (downtimes (st w))"
    using outage_rank_less [OF assms(2) _ x] assms(1,3) by (simp add: standing_def)
  then show ?thesis using w2 by (simp add: rank_simps)
qed

lemma failover_decreases:
  assumes "alike w w1" "failover_end_at e w1 m = Some (z, i, reason)" "dicts_ok (st w)" "end_failover e (z, i, reason) w1 = (Inr (), w2)"
  shows "uptime w2 = uptime w \<and> (w2, w) \<in> measures (ranks e m)"
proof -
  have k: "keyed fo_id (failovers (st w1))" "st w1 = st w" using assms(1,3) by (simp_all add: dicts_ok_def standing_def)
  show ?thesis using returnsD [OF end_failover_rank alike_fixed [OF assms(1)] assms(4)] failover_rank_less [OF assms(2) k(1)]
    by (simp add: rank_simps k(2))
qed

lemma extension_decreases:
  assumes "alike w w1" "extend_at e w1 m = Inr (Some (z, account, f, action))" "dicts_ok (st w)" "minted e w1"
    "run_extension e account f action w1 = (Inr (), w2)"
  shows "uptime w2 = uptime w \<and> (w2, w) \<in> measures (ranks e m)"
proof -
  have s: "st w1 = st w" "synced w1" "uptime w1 = uptime w" "accounts (book w1) = accounts (book w)" using assms(1) by (simp_all add: standing_def)
  have new: "''BK'' @ token e (draws w1) \<notin> set (dkeys (bookings (st w1)))" using assms(4) by (simp add: minted_def)
  have "extension_rank e m w1 = extension_rank e m w" unfolding extension_rank_def using setting_rank_cong [of w1 w e m] s by simp
  then show ?thesis using extension_event [OF assms(2) _ s(2) new assms(5)] assms(3) by (simp add: s rank_simps)
qed

lemma deadline_decreases:
  assumes "alike w w1" "deadline_at m w = (Inr (Some y), w1)" "synced w" "deadline e y w1 = (Inr (), w2)"
  shows "uptime w2 = uptime w \<and> (w2, w) \<in> measures (ranks e m)"
proof -
  obtain z a f through hours once where y: "y = (z, a, f, through, hours, once)" by (cases y) auto
  note q = deadline_at_Inr(1) [OF assms(2)] deadline_at_Inr(2) [OF assms(2), of z a f through hours once]
  have "preserves (alike w) (deadline e y)"
    unfolding deadline_def by (intro preserves_intros) (auto split: sum.split exn.split intro!: preserves_intros)
  from returnsD [OF this assms(1,4)] have w2: "st w2 = st w" "uptime w2 = uptime w" "accounts (book w2) = accounts (book w)"
    by (simp_all add: standing_def)
  have "once \<in> marks w2 \<and> marks w \<subseteq> marks w2" using returnsD [OF deadline_event q(1)] assms(4) by (simp add: y)
  then have "deadline_rank m w2 < deadline_rank m w" using q(2) w2(1) by (intro deadline_rank_less [of w2 w a f through m hours]) (auto simp: y)
  moreover have "extension_rank e m w2 = extension_rank e m w" unfolding extension_rank_def using setting_rank_cong [of w2 w e m] w2 by simp
  ultimately show ?thesis using w2 by (simp add: rank_simps)
qed

text \<open>Which test found an event that is due.\<close>

lemma due_events_cases:
  assumes "due_events e m w = (Inr events, w1)" "(t, k, ev) \<in> set events"
  shows "case ev of Lapse_locks z \<Rightarrow> lapse_at (st w) m = Some z | Allocate_round z \<Rightarrow> round_at (st w) m = Some z
    | Credit_maintenance i \<Rightarrow> (\<exists>z. maintenance_at (st w) m = Some (z, i)) | Credit_outage y \<Rightarrow> outage_at w1 m = Some y
    | End_failover y \<Rightarrow> failover_end_at e w1 m = Some y | Extension a f action \<Rightarrow> (\<exists>z. extend_at e w1 m = Inr (Some (z, a, f, action)))
    | Deadline_notice y \<Rightarrow> deadline_at m w = (Inr (Some y), w1)"
proof -
  obtain x extension where dl: "deadline_at m w = (Inr x, w1)" and ext: "extend_at e w1 m = Inr extension"
    and events: "(t, k, ev) \<in> set ((case lapse_at (st w) m of None \<Rightarrow> [] | Some t \<Rightarrow> [(stamp_time t, 0, Lapse_locks t)])
          @ (case round_at (st w) m of None \<Rightarrow> [] | Some t \<Rightarrow> [(t, 1, Allocate_round t)])
          @ (case maintenance_at (st w) m of None \<Rightarrow> [] | Some (t, ident) \<Rightarrow> [(t, 2, Credit_maintenance ident)])
          @ (case outage_at w1 m of None \<Rightarrow> [] | Some x \<Rightarrow> [(fst x, 3, Credit_outage x)])
          @ (case failover_end_at e w1 m of None \<Rightarrow> [] | Some x \<Rightarrow> [(fst x, 4, End_failover x)])
          @ (case extension of None \<Rightarrow> [] | Some (t, account, fleet_id, action) \<Rightarrow> [(t, 5, Extension account fleet_id action)])
          @ (case x of None \<Rightarrow> [] | Some x \<Rightarrow> [(fst x, 6, Deadline_notice x)]))"
    using assms unfolding due_events_Inr by (elim exE conjE) blast
  show ?thesis
    using events dl ext unfolding set_append Un_iff
    by (elim disjE) (cases "lapse_at (st w) m"; cases "round_at (st w) m"; cases "maintenance_at (st w) m"; auto split: option.splits)+
qed

lemma event_rank:
  assumes ok: "loop_ready e m w" and due: "due_events e m w = (Inr events, w1)" and ev: "(t, k, ev) \<in> set events"
    and run: "run_event e ev w1 = (Inr (), w2)"
  shows "uptime w2 = uptime w \<and> (w2, w) \<in> measures (ranks e m)"
proof -
  have s: "synced w" "credits_ok (st w)" "dicts_ok (st w)" and sp: "distinct (map sp_span (spans (m - 30 * DAY) (uptime w)))"
    using ok by (simp_all add: loop_ready_def sound_def)
  have d: "distinct (dkeys (locks (st w)))" using s(2) by (simp add: credits_ok_def locks_ok_def)
  note al = due_events_alike [OF s(1) due] and c = due_events_cases [OF due ev]
  have new: "minted e w1" by (rule returnsD [OF minted_due _ due]) (use ok in \<open>simp add: loop_ready_def\<close>)
  show ?thesis
  proof (cases ev)
    case (Lapse_locks z)
    then show ?thesis using lapse_decreases [OF al _ d] c run by simp
  next
    case (Allocate_round z)
    then show ?thesis using allocate_decreases [OF al] c run by simp
  next
    case (Credit_maintenance i)
    then show ?thesis using maintenance_decreases [OF al _ s(3)] c run by auto
  next
    case (Credit_outage y)
    then show ?thesis using outage_decreases [OF al _ sp] c run by (cases y) auto
  next
    case (End_failover y)
    then show ?thesis using failover_decreases [OF al _ s(3)] c run by (cases y) auto
  next
    case (Extension a f action)
    then show ?thesis using extension_decreases [OF al _ s(3) new] c run by auto
  next
    case (Deadline_notice y)
    then show ?thesis using deadline_decreases [OF al _ s(1)] c run by simp
  qed
qed

section \<open>The loop\<close>

lemma event_ready:
  assumes "settings_ok e" "loop_ready e m w" "due_events e m w = (Inr events, w1)" "(t, k, ev) \<in> set events" "run_event e ev w1 = (Inr (), w2)"
  shows "loop_ready e m w2"
proof -
  have w: "sound w" "minted e w" using assms(2) by (simp_all add: loop_ready_def)
  have w1: "sound w1" "minted e w1"
    by (rule returnsD [OF due_events_sound w(1) assms(3)], rule returnsD [OF minted_due w(2) assms(3)])
  have "event_ok ev"
    using due_events_ok [OF assms(1,3)] assms(4) by (cases ev) (auto simp: event_ok_def action_ok_def split: ext_action.splits)
  then have "sound w2" by (rule returnsD [OF run_event_sound [OF assms(1)] w1(1) assms(5)])
  moreover have "minted e w2" by (rule returnsD [OF minted_run_event w1(2) assms(5)])
  ultimately show ?thesis using assms(2) event_rank [OF assms(2-5)] by (simp add: loop_ready_def)
qed

lemma first_event_Some: "first_event events = Some ev \<Longrightarrow> \<exists>t k. (t, k, ev) \<in> set events"
  by (auto simp: first_event_def dest!: min_by_Some)

lemma advance_loop_ends:
  fixes w :: "'a world_scheme"
  assumes "settings_ok e" "loop_ready e m w"
  shows "\<exists>n r. fst r \<noteq> Inl Exhausted \<and> (\<forall>k\<ge>n. advance_loop k e m w = r)"
  using assms(2)
proof (induction w rule: wf_induct_rule [OF wf_measures [of "ranks e m"]])
  case (1 w)
  have stop: ?case if "fst r \<noteq> Inl Exhausted" "\<And>n. advance_loop (Suc n) e m w = r" for r
    by (intro exI [of _ "Suc 0"] exI [of _ r] conjI that(1) allI impI) (metis that(2) Suc_le_D)
  obtain result w1 where due: "due_events e m w = (result, w1)" by fastforce
  show ?case
  proof (cases result)
    case (Inl x)
    moreover have "x \<noteq> Exhausted" using completes_due_events [of e m] due Inl by (auto simp: completes_def dest!: spec [of _ w])
    ultimately show ?thesis using due by (intro stop [of "(Inl x, w1)"]) (simp_all add: op_simps)
  next
    case (Inr events)
    show ?thesis
    proof (cases "first_event events")
      case None
      then show ?thesis using due Inr by (intro stop [of "(Inr (), w1)"]) (simp_all add: op_simps)
    next
      case (Some ev)
      then obtain t k where ev: "(t, k, ev) \<in> set events" using first_event_Some by blast
      obtain result2 w2 where run: "run_event e ev w1 = (result2, w2)" by fastforce
      show ?thesis
      proof (cases result2)
        case (Inl x)
        moreover have "x \<noteq> Exhausted" using completes_run_event [of e ev] run Inl by (auto simp: completes_def dest!: spec [of _ w1])
        ultimately show ?thesis using due Inr Some run by (intro stop [of "(Inl x, w2)"]) (simp_all add: op_simps)
      next
        case (Inr u)
        have d: "due_events e m w = (Inr events, w1)" using due \<open>result = Inr events\<close> by simp
        have r: "run_event e ev w1 = (Inr (), w2)" using run Inr by simp
        have "loop_ready e m w2" by (rule event_ready [OF assms(1) 1(2) d ev r])
        then obtain n r' where r': "fst r' \<noteq> Inl Exhausted" "\<And>k. n \<le> k \<Longrightarrow> advance_loop k e m w2 = r'"
          using 1(1) event_rank [OF 1(2) d ev r] by blast
        have "advance_loop (Suc k) e m w = advance_loop k e m w2" for k using d r Some by (simp add: op_simps)
        then have "\<forall>k\<ge>Suc n. advance_loop k e m w = r'" using r'(2) by (metis Suc_le_D Suc_le_mono)
        then show ?thesis using r'(1) by blast
      qed
    qed
  qed
qed

section \<open>What is left when the loop returns\<close>

lemma advance_loop_last:
  assumes "advance_loop k e m w = (Inr (), w')"
  shows "\<exists>v. due_events e m v = (Inr [], w')"
  using assms
proof (induction k arbitrary: w)
  case (Suc k)
  obtain events w1 where d: "due_events e m w = (Inr events, w1)"
    and rest: "(case first_event events of None \<Rightarrow> ret () | Some ev \<Rightarrow> seq_op (run_event e ev) (advance_loop k e m)) w1 = (Inr (), w')"
    using Suc.prems by (auto simp: bind_op_Inr)
  show ?case
  proof (cases "first_event events")
    case None
    then have "events = []" "w' = w1" using rest by (simp_all add: first_event_def op_simps)
    then show ?thesis using d by blast
  qed (use rest Suc.IH in \<open>auto simp: seq_op_Inr\<close>)
qed (simp add: op_simps)

lemma nothing_due:
  assumes "due_events e m v = (Inr [], w)"
  shows "lapse_at (st w) m = None" "round_at (st w) m = None" "maintenance_at (st w) m = None" "outage_at w m = None" "failover_end_at e w m = None"
    "extend_at e w m = Inr None"
proof -
  have "preserves (\<lambda>x. st x = st v) (due_events e m)"
    by (rule due_events_preserves) (auto simp: returns_def notices_sent_def split: prod.splits)
  from returnsD [OF this _ assms] have s: "st w = st v" by simp
  obtain due extension where "deadline_at m v = (Inr due, w)" "extend_at e w m = Inr extension" and
    "[] = (case lapse_at (st v) m of None \<Rightarrow> [] | Some t \<Rightarrow> [(stamp_time t, 0 :: nat, Lapse_locks t)])
          @ (case round_at (st v) m of None \<Rightarrow> [] | Some t \<Rightarrow> [(t, 1, Allocate_round t)])
          @ (case maintenance_at (st v) m of None \<Rightarrow> [] | Some (t, ident) \<Rightarrow> [(t, 2, Credit_maintenance ident)])
          @ (case outage_at w m of None \<Rightarrow> [] | Some x \<Rightarrow> [(fst x, 3, Credit_outage x)])
          @ (case failover_end_at e w m of None \<Rightarrow> [] | Some x \<Rightarrow> [(fst x, 4, End_failover x)])
          @ (case extension of None \<Rightarrow> [] | Some (t, account, fleet_id, action) \<Rightarrow> [(t, 5, Extension account fleet_id action)])
          @ (case due of None \<Rightarrow> [] | Some x \<Rightarrow> [(fst x, 6, Deadline_notice x)])"
    using assms unfolding due_events_Inr by (elim exE conjE) blast
  then show "lapse_at (st w) m = None" "round_at (st w) m = None" "maintenance_at (st w) m = None" "outage_at w m = None" "failover_end_at e w m = None"
    "extend_at e w m = Inr None"
    by (auto simp: s split: option.splits)
qed

lemma no_lapse: "lapse_at s m = None \<Longrightarrow> q \<in> set (locked_parts s) \<Longrightarrow> m < stamp_time (lot_expires (heap s ! fst q))"
  by (auto simp: lapse_at_def filter_empty_conv stamp_le_iff not_le)

lemma no_round:
  assumes "round_at s m = None" "lk \<in> set (dvalues (locks s))" "week_start sunday = sunday - 6 * DAY" "stamp_time (lk_joined lk) < sunday"
    "\<And>r. round_done s = Some r \<Longrightarrow> stamp_time r < sunday"
  shows "m < sunday"
proof -
  obtain j where j: "least_of (map (\<lambda>lk. stamp_time (lk_joined lk)) (dvalues (locks s))) = Some j"
    using assms(2) by (cases "least_of (map (\<lambda>lk. stamp_time (lk_joined lk)) (dvalues (locks s)))") auto
  let ?since = "case round_done s of None \<Rightarrow> j | Some r \<Rightarrow> max j (stamp_time r)"
  have "j < sunday" using least_of_Some [OF j] assms(2,4) by fastforce
  then have "?since < sunday" using assms(5) by (auto split: option.splits)
  then have "sunday_after ?since \<le> sunday" by (rule sunday_after_least [OF assms(3)])
  moreover have "m < sunday_after ?since" using assms(1) j by (auto simp: round_at_def Let_def not_le split: if_splits)
  ultimately show ?thesis by simp
qed

lemma no_maintenance: "maintenance_at s m = None \<Longrightarrow> x \<in> set (dvalues (maintenances s)) \<Longrightarrow> mt_ends x \<le> m \<Longrightarrow> mt_done x"
  by (auto simp: maintenance_at_def filter_empty_conv)

lemma no_outage:
  assumes "outage_at w m = None" "sp \<in> set (spans (m - 30 * DAY) (uptime w))" "sp_end sp = Some z" "stamp_time z \<le> m"
    "OUTAGE < stamp_time z - stamp_time (sp_start sp)"
  shows "\<exists>d. dget (downtimes (st w)) (sp_span sp) = Some d \<and> dt_end d \<noteq> None"
proof -
  have "outage_of (st w) m sp = None" using assms(1,2)
    by (cases "outage_of (st w) m sp") (auto simp: outage_at_def List.map_filter_def filter_empty_conv)
  then show ?thesis using assms(3-5) by (auto simp: outage_of_def Let_def split: option.splits if_splits)
qed

lemma no_failover_end:
  assumes "failover_end_at e w m = None" "f \<in> set (active_failovers (st w))"
  shows "fleet_down (fo_from f) (uptime w)" "fleet_up e (fo_to f) (uptime w)" "m < hold_end (fo_account f) (fo_from f) (fo_begins f) (st w)"
proof -
  have "failover_over e w m f = None" using assms
    by (cases "failover_over e w m f") (auto simp: failover_end_at_def List.map_filter_def filter_empty_conv)
  then show "fleet_down (fo_from f) (uptime w)" "fleet_up e (fo_to f) (uptime w)" "m < hold_end (fo_account f) (fo_from f) (fo_begins f) (st w)"
    by (auto simp: failover_over_def Let_def split: option.splits if_splits)
qed

section \<open>Properties\<close>

text \<open>
  C3. The event loop ends: in a sound state, when the ids drawn for new bookings are new and no two
  recorded outages share their id, there is a number of turns after which \<open>advance\<close> has returned or
  raised an exception of the code, however much later the moment is, and more turns change nothing.
\<close>

theorem advance_ends:
  assumes "settings_ok e" "sound w" "minted e w" "distinct (map sp_span (spans (m - 30 * DAY) (uptime w)))"
  shows "\<exists>n r. fst r \<noteq> Inl Exhausted \<and> (\<forall>k\<ge>n. advance_loop k e m w = r)"
  using advance_loop_ends [OF assms(1), of m w] assms(2-4) by (simp add: loop_ready_def)

text \<open>A Fleet that was down for an hour, nobody holding it.\<close>

definition sample_down :: world where
  "sample_down = empty_world\<lparr>uptime := \<lparr>up_state = [], up_recent = [\<lparr>sp_span = ''DT1'', sp_fleet = ''F1'', sp_start = stamp sample_start,
     sp_cause = ''probe'', sp_end = Some (stamp (sample_start + HOUR))\<rparr>], up_months = []\<rparr>\<rparr>"

lemma sample_down_sound: "sound sample_down"
  using sound_empty by (simp add: sound_def sample_down_def synced_def)

lemma sample_down_minted: "minted sample_env sample_down"
proof -
  have "inj (token sample_env)" by (rule injI) (auto simp: sample_env_def dest: arg_cong [of _ _ length])
  then show ?thesis using sample_down_sound
    by (simp add: minted_def sound_def) (simp add: sample_down_def empty_world_def store.defs empty_store_def init_book_def init_state_def)
qed

theorem advance_ends_witness:
  "\<exists>n r. fst r \<noteq> Inl Exhausted \<and> (\<forall>k\<ge>n. advance_loop k sample_env (sample_start + DAY) sample_down = r)"
  by (rule advance_ends [OF sample_settings_ok sample_down_sound sample_down_minted]) code_simp


lemma sample_advance: "\<not> isl (fst (advance_loop 2 sample_env (sample_start + DAY) sample_down))"
  by code_simp


end
