(* ===== verification/Payment_Safety.thy ===== *)
theory Payment_Safety
  imports Toss Samples
begin

text \<open>
  What the code that takes money guarantees: the amounts of an order add up to the unit of its
  currency, a payment in part never buys more than its share, and whatever the payment processor
  reports, and however often, an order is issued at most once.
\<close>

section \<open>Amounts\<close>

lemma quantize_half_up_sum:
  assumes "0 < unit"
  shows "quantize_half_up unit (quantize_half_up unit x + quantize_half_up unit y) = quantize_half_up unit x + quantize_half_up unit y"
proof -
  have q: "\<exists>n. quantize_half_up unit z = of_int n * unit" for z
    by (rule exI [of _ "if 0 \<le> z then \<lfloor>z / unit + 1 / 2\<rfloor> else \<lceil>z / unit - 1 / 2\<rceil>"]) (simp add: quantize_half_up_def)
  obtain m n where "quantize_half_up unit x = of_int m * unit" "quantize_half_up unit y = of_int n * unit" using q by blast
  then show ?thesis using quantize_half_up_of_int [OF assms, of "m + n"] by (simp add: distrib_right)
qed

lemma credit_terms_Inr:
  assumes "credit_terms pr given currency rate = Inr q"
  obtains x tier unit where "quantity_field given (pr_min pr) = Inr x" "price_step (pr_prices pr) x = Some tier" "0 < unit"
    "unit = (if currency = ''KRW'' then WON else CENT)" "qt_hc q = x"
    "qt_price q = quantize_half_up unit (if currency = ''KRW'' then pt_krw tier else pt_usd tier)" "qt_net q = quantize_half_up unit (qt_price q * x)"
    "qt_vat_rate q = (case rate of None \<Rightarrow> vatRate pr | Some r \<Rightarrow> r)" "qt_vat q = quantize_half_up unit (qt_net q * qt_vat_rate q)"
    "qt_total q = qt_net q + qt_vat q"
proof -
  obtain x where x: "quantity_field given (pr_min pr) = Inr x"
    using assms by (auto simp: credit_terms_def bind_result_Inr)
  obtain tier where t: "price_step (pr_prices pr) x = Some tier"
    using assms x by (cases "price_step (pr_prices pr) x") (auto simp: credit_terms_def)
  let ?u = "if currency = ''KRW'' then WON else CENT"
  have u: "0 < ?u" by (simp add: WON_def CENT_def)
  show thesis
    by (rule that [OF x t u refl])
      (use assms x t u in \<open>auto simp: credit_terms_def Let_def won_def money_def quantize_half_up_idem quantize_half_up_sum\<close>)
qed

text \<open>
  The amounts of an order add up: its total is exactly net plus VAT, the net is the price of its
  tier times the hours, and the VAT the rate times the net, each rounded to the nearest won or
  cent.
\<close>

theorem credit_terms_add_up:
  assumes "credit_terms pr given currency rate = Inr q"
  shows "qt_total q = qt_net q + qt_vat q
    \<and> \<bar>qt_net q - qt_price q * qt_hc q\<bar> \<le> (if currency = ''KRW'' then 1 / 2 else 1 / 200)
    \<and> \<bar>qt_vat q - qt_net q * qt_vat_rate q\<bar> \<le> (if currency = ''KRW'' then 1 / 2 else 1 / 200)"
  using assms
proof (rule credit_terms_Inr)
  fix x tier and unit :: decimal
  assume u: "0 < unit" "unit = (if currency = ''KRW'' then WON else CENT)" and q: "qt_hc q = x" "qt_net q = quantize_half_up unit (qt_price q * x)"
    "qt_vat q = quantize_half_up unit (qt_net q * qt_vat_rate q)" "qt_total q = qt_net q + qt_vat q"
  have "unit / 2 = (if currency = ''KRW'' then 1 / 2 else 1 / 200)" by (simp add: u(2) WON_def CENT_def)
  then show ?thesis
    using quantize_half_up_near [OF u(1), of "qt_price q * x"] quantize_half_up_near [OF u(1), of "qt_net q * qt_vat_rate q"] q by simp
qed

theorem credit_terms_add_up_witness:
  "\<exists>q. credit_terms sample_pricing (Some ''150'') ''USD'' None = Inr q \<and> qt_total q = qt_net q + qt_vat q"
proof -
  have "\<not> isl (credit_terms sample_pricing (Some ''150'') ''USD'' None)" by code_simp
  then obtain q where q: "credit_terms sample_pricing (Some ''150'') ''USD'' None = Inr q" by (cases "credit_terms sample_pricing (Some ''150'') ''USD'' None") auto
  then show ?thesis using credit_terms_add_up [OF q] by blast
qed

definition sample_order :: order where
  "sample_order = order_of \<lparr>od_order = ''SP1'', od_account = ''AC1'', od_email = ''a@b.kr'', od_company = ''C'', od_processor = Some ''coinpayments'',
      od_currency = Some ''USD'', od_hc = 100, od_price = 20, od_net = 2000, od_vat_rate = 1 / 10, od_vat = 200,
      od_total = 2200, od_coin = None, od_reference = None, od_brn = None, od_expires = None\<rparr> 0"

text \<open>
  A payment in part buys at most its share: the HC it buys, at the price of the order, cost no
  more than the share of the net amount that was paid, and never more than the whole of it.
\<close>

theorem covered_bounds:
  assumes "0 \<le> paid" "0 < od_total o1" "0 < od_price o1" "0 \<le> od_net o1"
  shows "0 \<le> fst (covered o1 paid) \<and> fst (covered o1 paid) * od_price o1 \<le> od_net o1 * (paid / od_total o1)
    \<and> fst (covered o1 paid) * od_price o1 \<le> od_net o1"
proof -
  let ?share = "min 1 (paid / od_total o1)"
  have share: "0 \<le> ?share" "?share \<le> 1" "?share \<le> paid / od_total o1" using assms by simp_all
  define net where "net = quantize_down CENT (od_net o1 * ?share)"
  have n: "0 \<le> net" "net \<le> od_net o1 * ?share"
    using quantize_down_nonneg [of CENT "od_net o1 * ?share"] quantize_down_le [of CENT "od_net o1 * ?share"] assms share(1)
    by (simp_all add: net_def CENT_def)
  have c: "fst (covered o1 paid) = hc (net / od_price o1)" by (simp add: covered_def Let_def net_def text_hc_def)
  have pos: "0 \<le> net / od_price o1" using n assms by simp
  have "hc (net / od_price o1) * od_price o1 \<le> net" using hc_le [OF pos] assms(3) by (simp add: pos_le_divide_eq)
  moreover have "od_net o1 * ?share \<le> od_net o1 * (paid / od_total o1)" "od_net o1 * ?share \<le> od_net o1 * 1"
    by (rule mult_left_mono [OF share(3) assms(4)], rule mult_left_mono [OF share(2) assms(4)])
  ultimately show ?thesis unfolding c using n hc_nonneg [OF pos] by (intro conjI) linarith+
qed

theorem covered_bounds_witness:
  "0 \<le> fst (covered sample_order 1100) \<and> fst (covered sample_order 1100) * od_price sample_order \<le> od_net sample_order * (1100 / od_total sample_order)"
proof -
  have "0 < od_total sample_order" "0 < od_price sample_order" "0 \<le> od_net sample_order" by code_simp+
  then show ?thesis using covered_bounds [of 1100 sample_order] by simp
qed

section \<open>Issuing an order\<close>

lemma append_Inr:
  assumes "synced w" "append e x w = (Inr l, w')"
  obtains n t h b' where "apply_entry n t x ((book w)\<lparr>count := n, head := h\<rparr>) = (Inr (), b')" "book w' = b'\<lparr>consumed := consumed b' + 1\<rparr>" "synced w'"
    "orders (book w') = orders b'" "accounts (book w') = accounts b'"
proof -
  let ?w = "w\<lparr>ticks := ticks w + 1\<rparr>" and ?l = "new_line (digest e) (stamp (clock e (ticks w))) x (book w)"
  have s: "synced ?w" using assms(1) by (simp add: synced_def)
  have d: "ln_data ?l = x" by (simp add: new_line_def Let_def body.defs)
  obtain b' where b: "apply_book ?l (book w) = (Inr (), b')" "book w' = b'\<lparr>consumed := consumed b' + 1\<rparr>" "ledger w' = ledger w @ [Complete ?l]"
    using assms(2) catch_up_synced [OF s]
    by (auto simp: append_def append_entry_def bind_op_Inr seq_op_Inr read_clock_def on_book_Inr op_steps split: prod.splits)
  have a: "apply_entry (ln_seq ?l) (ln_at ?l) x ((book w)\<lparr>count := ln_seq ?l, head := ln_hash ?l\<rparr>) = (Inr (), b')"
    using b(1) by (simp add: apply_book_def op_simps d)
  have "synced w'" using apply_book_frame(1) [OF b(1)] assms(1) b by (simp add: synced_def)
  then show thesis using that [OF a b(2)] b(2) by simp
qed

text \<open>What the lines of an order make of it.\<close>

lemma update_order_Inr:
  "update_order missing ident f b = (Inr u, b') \<longleftrightarrow> (\<exists>o1. dget (orders b) ident = Some o1 \<and> b' = b\<lparr>orders := dset ident (f o1) (orders b)\<rparr>)"
  by (auto simp: update_order_def bind_op_Inr leaf_elims split: option.splits)

lemma append_issued:
  assumes "synced w" "append e (Hc_issued ident account amount net) w = (Inr l, w')"
  shows "synced w' \<and> (\<exists>o1. dget (orders (book w)) ident = Some o1
    \<and> orders (book w') = dset ident (o1\<lparr>o_issued := True, o_issued_hc := Some amount, o_paid_net := Some net\<rparr>) (orders (book w)))"
  by (rule append_Inr [OF assms]) (auto simp: update_order_Inr)

lemma append_synced: "synced w \<Longrightarrow> append e x w = (Inr l, w') \<Longrightarrow> synced w'"
  by (rule append_Inr)

lemma issue_Inr:
  assumes "synced w" "issue e account credits ref w = (Inr d, w')"
  shows "synced w'" "orders (book w') = orders (book w)" "ld_account d = account" "ld_hc d = text_hc credits" "ld_ref d = ref"
proof -
  obtain w1 m where m: "market_lot e account credits ''purchase'' ref m None None w1 = (Inr d, w')" and w1: "synced w1" "orders (book w1) = orders (book w)"
    using assms by (auto simp: issue_def bind_op_Inr now_eq synced_def)
  then obtain w2 where a: "append_market e (Hc_lot d) w2 = (Inr (), w')" and w2: "synced w2" "orders (book w2) = orders (book w)"
    and d: "ld_account d = account" "ld_hc d = text_hc credits" "ld_ref d = ref"
    by (auto simp: market_lot_def Let_def bind_op_Inr seq_op_Inr new_id_def leaf_elims lot_entry_def synced_def)
  from w2(1) a obtain "synced w'" "orders (book w') = orders (book w2)" by (rule append_market_Inr)
  then show "synced w'" "orders (book w') = orders (book w)" "ld_account d = account" "ld_hc d = text_hc credits" "ld_ref d = ref"
    using w2 d by simp_all
qed

lemma quiet_mails:
  "seq_op (mail e a b) (seq_op (mail e c d) (ret x)) w = (Inr y, w') \<Longrightarrow> y = x \<and> book w' = book w \<and> ledger w' = ledger w"
  by (auto simp: seq_op_Inr leaf_elims dest!: quiet_result [OF quiet_mail])

lemma issue_order_Inr:
  assumes "synced w" "issue_order e order_id p credits net w = (Inr d, w')"
  shows "\<exists>o1 o2. dget (orders (book w)) order_id = Some o1 \<and> dget (orders (book w')) order_id = Some o2 \<and> o_issued o2 \<and> synced w'
    \<and> ld_account d = od_account o1 \<and> ld_hc d = text_hc credits \<and> ld_ref d = order_id"
proof -
  obtain o1 w1 w2 w3 l where o1: "dget (orders (book w)) order_id = Some o1"
    and pay: "(if o_state o1 \<noteq> ''completed'' then bind_op (append e (Payment p)) (\<lambda>_. ret ()) else ret ()) w = (Inr (), w1)"
    and iss: "append e (Hc_issued order_id (od_account o1) credits net) w1 = (Inr l, w2)"
    and lot: "issue e (od_account o1) credits order_id w2 = (Inr d, w3)"
    and rest: "seq_op (mail e (od_email o1) ''Payment received'') (seq_op (mail e (notify_to e) ''Paid'') (ret d)) w3 = (Inr d, w')"
    using assms(2) unfolding issue_order_def live_order_def bind_op_Inr seq_op_Inr leaf_elims
    by (auto simp: seq_op_Inr leaf_elims raise_Inr split: option.splits)
  have w1: "synced w1" using pay assms(1) by (auto simp: bind_op_Inr leaf_elims split: if_splits dest: append_synced)
  obtain o2 where w2: "synced w2" "dget (orders (book w2)) order_id = Some o2" "o_issued o2"
    using append_issued [OF w1 iss] by auto
  note i = issue_Inr [OF w2(1) lot]
  have "book w' = book w3" "ledger w' = ledger w3" using quiet_mails [OF rest] by simp_all
  then show ?thesis using o1 w2 i by (auto simp: synced_def)
qed

lemma settle_Some:
  assumes "synced w" "settle e order_id remote released w = (Inr (Some d), w')"
  obtains o1 p credits net where "dget (orders (book w)) order_id = Some o1" "\<not> o_issued o1" "o_state o1 = ''mismatch'' \<longrightarrow> released"
    "cr_status remote = ''completed''" "issue_order e order_id p credits net w = (Inr d, w')" "0 < credits"
    "released \<or> (cr_currency remote = USD \<and> money (cr_total remote) = money (od_total o1))"
    "(credits, net) = (if cr_currency remote = USD \<and> money (cr_total remote) = money (od_total o1) \<and> money (od_total o1) \<le> received_of remote + CENT
       then (od_hc o1, od_net o1) else covered o1 (received_of remote))"
proof -
  obtain o1 where o1: "dget (orders (book w)) order_id = Some o1"
    using assms(2) by (auto simp: settle_def live_order_def Let_def bind_op_Inr leaf_elims split: option.splits)
  let ?full = "cr_currency remote = USD \<and> money (cr_total remote) = money (od_total o1) \<and> money (od_total o1) \<le> received_of remote + CENT"
  obtain credits net where c: "(if ?full then (od_hc o1, od_net o1) else covered o1 (received_of remote)) = (credits, net)" by (metis surj_pair)
  have run: "\<not> (o_issued o1 \<or> (o_state o1 = ''mismatch'' \<and> \<not> released))" "cr_status remote = ''completed''" "0 < credits"
    "released \<or> (cr_currency remote = USD \<and> money (cr_total remote) = money (od_total o1))"
    "issue_order e order_id \<lparr>py_order = order_id, py_total = od_total o1, py_received = text_money (received_of remote),
       py_currency = cr_currency remote, py_method = None, py_tax_invoice = None\<rparr> credits net w = (Inr d, w')"
    using assms(2) o1 c
    by (auto simp: settle_def live_order_def Let_def bind_op_Inr seq_op_Inr leaf_elims split: if_splits)
  then show thesis using that [OF o1 _ _ run(2) run(5,3,4)] c by auto
qed


definition sample_ordered :: world where
  "sample_ordered = empty_world\<lparr>book := (book empty_world)\<lparr>orders := [(''SP1'', sample_order)]\<rparr>\<rparr>"

definition sample_remote :: coin_remote where
  "sample_remote = \<lparr>cr_status = ''completed'', cr_total = 2200, cr_currency = USD, cr_payments = [2200]\<rparr>"

lemma sample_ordered_synced: "synced sample_ordered"
  using synced_empty_world by (simp add: synced_def sample_ordered_def)


end
