(* ===== verification/Delivery_Ends.thy ===== *)
theory Delivery_Ends
  imports Delivery Samples
begin

text \<open>
  Webhook deliveries come to an end: whatever the webhooks answer, each delivery that waits is tried at
  most eight times and then recorded as delivered, failed or deleted, once the clock has moved on
  far enough.
\<close>

abbreviation heap_of :: "'a world_scheme \<Rightarrow> delivery list" where
  "heap_of w \<equiv> nf_heap (notifier w)"

abbreviation turn :: "env \<Rightarrow> (hook \<Rightarrow> notice \<Rightarrow> nat \<Rightarrow> nat) \<Rightarrow> 'a world_scheme \<Rightarrow> 'a world_scheme" where
  "turn e post w \<equiv> snd (run_turn e post w)"

text \<open>What was recorded of a delivery.\<close>

definition concluded :: "ident \<Rightarrow> string \<Rightarrow> 'a world_scheme \<Rightarrow> bool" where
  "concluded i target w \<longleftrightarrow> (\<exists>day. \<exists>x\<in>set (journal_lines day (nf_deliveries (notifier w))).
     oc_notice x = i \<and> oc_target x = target \<and> 1 \<le> oc_attempts x \<and> oc_attempts x \<le> 8)"

definition outstanding :: "ident \<Rightarrow> string \<Rightarrow> 'a world_scheme \<Rightarrow> bool" where
  "outstanding i target w \<longleftrightarrow> (\<exists>d\<in>set (heap_of w). nt_id (dl_notice d) = i \<and> dl_target d = target)"

definition traced :: "ident \<Rightarrow> string \<Rightarrow> 'a world_scheme \<Rightarrow> bool" where
  "traced i target w \<longleftrightarrow> concluded i target w \<or> outstanding i target w"

definition tries_ok :: "'a world_scheme \<Rightarrow> bool" where
  "tries_ok w \<longleftrightarrow> (\<forall>d\<in>set (heap_of w). dl_attempt d \<le> 7)"

definition tries_left :: "'a world_scheme \<Rightarrow> nat" where
  "tries_left w = sum_list (map (\<lambda>d. 8 - dl_attempt d) (heap_of w))"

lemma journal_lines_add: "journal_lines c (journal_add f x d j) = (if c = d then journal_lines d j @ [x] else journal_lines c j)"
  using journal_add_fields(1) [of f x d j] by (simp add: journal_lines_def)

lemma finish_effect:
  assumes "tried \<le> 7" "w' = snd (finish e n target tried outcome w)"
  shows "heap_of w' = heap_of w" "concluded (nt_id n) target w'" "concluded i t w \<Longrightarrow> concluded i t w'"
proof -
  let ?day = "day_of (stamp (clock e (ticks w)))"
  obtain x where x: "oc_notice x = nt_id n" "oc_target x = target" "oc_attempts x = tried + 1"
    and w': "heap_of w' = heap_of w" "nf_deliveries (notifier w') = journal_add no_once x ?day (nf_deliveries (notifier w))"
    by (rule that [of "\<lparr>oc_notice = nt_id n, oc_target = target, oc_attempts = tried + 1, oc_outcome = outcome, oc_at = stamp (clock e (ticks w))\<rparr>"])
      (simp_all add: assms(2) finish_def op_simps read_clock_def)
  show "heap_of w' = heap_of w" by (rule w')
  show "concluded (nt_id n) target w'" unfolding concluded_def w'(2) journal_lines_add
    by (rule exI [of _ ?day], rule bexI [of _ x]) (use x assms(1) in simp_all)
  show "concluded i t w'" if "concluded i t w"
  proof -
    obtain day y where "y \<in> set (journal_lines day (nf_deliveries (notifier w)))" "oc_notice y = i" "oc_target y = t"
        "1 \<le> oc_attempts y" "oc_attempts y \<le> 8"
      using \<open>concluded i t w\<close> by (auto simp: concluded_def)
    then show ?thesis unfolding concluded_def w'(2) journal_lines_add by (intro exI [of _ day] bexI [of _ y]) auto
  qed
qed

lemma schedule_effect:
  assumes "w' = snd (schedule e n target tried delay w)"
  shows "\<exists>d. heap_of w' = heap_of w @ [d] \<and> dl_notice d = n \<and> dl_target d = target \<and> dl_attempt d = tried"
    "concluded i t w' \<longleftrightarrow> concluded i t w"
  by (simp_all add: assms schedule_def op_simps read_monotonic_def concluded_def)

lemma attempt_effect:
  assumes "tried \<le> 7" "w' = snd (attempt e post n target tried w)"
  shows "heap_of w' = heap_of w \<and> concluded (nt_id n) target w'
      \<or> tried < 7 \<and> (\<exists>d. heap_of w' = heap_of w @ [d] \<and> dl_notice d = n \<and> dl_target d = target \<and> dl_attempt d = tried + 1)"
    "concluded i t w \<Longrightarrow> concluded i t w'"
proof -
  have "(\<exists>outcome. w' = snd (finish e n target tried outcome w))
      \<or> tried < 7 \<and> (\<exists>delay. w' = snd (schedule e n target (tried + 1) delay w))"
    by (auto simp: assms(2) attempt_def op_simps Let_def RETRY_SECONDS_def split: option.split)
  then show "heap_of w' = heap_of w \<and> concluded (nt_id n) target w'
      \<or> tried < 7 \<and> (\<exists>d. heap_of w' = heap_of w @ [d] \<and> dl_notice d = n \<and> dl_target d = target \<and> dl_attempt d = tried + 1)"
    "concluded i t w \<Longrightarrow> concluded i t w'"
    using finish_effect [OF assms(1)] schedule_effect by metis+
qed

text \<open>A turn of the loop waits, or takes the first delivery and tries it.\<close>

lemma turn_waits:
  assumes "heap_of w = [] \<or> (\<exists>d. min_by due_key (heap_of w) = Some d \<and> monotonic e (beats w) < dl_at d)"
  shows "turn e post w = w\<lparr>beats := beats w + 1\<rparr>"
  using assms by (auto simp: run_turn_def op_simps read_monotonic_def heappop_def)

lemma turn_tries:
  assumes "min_by due_key (heap_of w) = Some d" "dl_at d \<le> monotonic e (beats w)"
  obtains v where "heap_of v = remove1 d (heap_of w)" "\<And>i t. concluded i t v \<longleftrightarrow> concluded i t w"
    "turn e post w = snd (attempt e post (dl_notice d) (dl_target d) (dl_attempt d) v)"
proof
  let ?v = "w\<lparr>beats := beats w + 1, notifier := (notifier w)\<lparr>nf_heap := remove1 d (heap_of w)\<rparr>\<rparr>"
  show "heap_of ?v = remove1 d (heap_of w)" "concluded i t ?v \<longleftrightarrow> concluded i t w" for i t by (simp_all add: concluded_def)
  show "turn e post w = snd (attempt e post (dl_notice d) (dl_target d) (dl_attempt d) ?v)"
    using assms by (simp add: run_turn_def op_simps read_monotonic_def heappop_def logged_def)
qed

lemma sum_remove1: "x \<in> set xs \<Longrightarrow> sum_list (map f (remove1 x xs)) + f x = (sum_list (map f xs) :: nat)"
  by (induction xs) auto

lemma turn_progress:
  assumes "tries_ok w" "min_by due_key (heap_of w) = Some d" "dl_at d \<le> monotonic e (beats w)"
  shows "tries_ok (turn e post w)" "tries_left (turn e post w) < tries_left w"
    "traced i t w \<Longrightarrow> traced i t (turn e post w)"
proof -
  have d: "d \<in> set (heap_of w)" using min_by_Some [OF assms(2)] by simp
  have seven: "dl_attempt d \<le> 7" using d assms(1) by (simp add: tries_ok_def)
  obtain v where v: "heap_of v = remove1 d (heap_of w)" "\<And>i t. concluded i t v \<longleftrightarrow> concluded i t w"
    and run: "turn e post w = snd (attempt e post (dl_notice d) (dl_target d) (dl_attempt d) v)"
    using turn_tries [OF assms(2,3), where post = post] by blast
  note a = attempt_effect [OF seven run]
  have sub: "set (heap_of v) \<subseteq> set (heap_of w)" by (simp add: v(1) set_remove1_subset)
  have left: "tries_left v + (8 - dl_attempt d) = tries_left w" unfolding tries_left_def v(1) by (rule sum_remove1 [OF d])
  have "tries_ok v" using sub assms(1) by (auto simp: tries_ok_def)
  then show "tries_ok (turn e post w)" using a(1) by (auto simp: tries_ok_def)
  show "tries_left (turn e post w) < tries_left w" using a(1) left seven by (auto simp: tries_left_def)
  show "traced i t (turn e post w)" if tr: "traced i t w"
  proof (cases "concluded i t w")
    case True
    then show ?thesis using a(2) v(2) unfolding traced_def by blast
  next
    case False
    then obtain x where x: "x \<in> set (heap_of w)" "nt_id (dl_notice x) = i" "dl_target x = t" using tr by (auto simp: traced_def outstanding_def)
    show ?thesis
    proof (cases "x = d")
      case True
      then show ?thesis using a(1) x by (auto simp: traced_def outstanding_def)
    next
      case False
      then have "x \<in> set (heap_of v)" using x(1) by (simp add: v(1))
      then show ?thesis using a(1) x by (auto simp: traced_def outstanding_def)
    qed
  qed
qed

lemma turn_idle:
  assumes "tries_ok w" "heap_of w = [] \<or> (\<exists>d. min_by due_key (heap_of w) = Some d \<and> monotonic e (beats w) < dl_at d)"
  shows "tries_ok (turn e post w)" "heap_of (turn e post w) = heap_of w" "beats (turn e post w) = beats w + 1"
    "traced i t w \<Longrightarrow> traced i t (turn e post w)"
  using assms(1) unfolding turn_waits [OF assms(2)] by (simp_all add: tries_ok_def traced_def concluded_def outstanding_def)

text \<open>Enough turns bring the clock to the first delivery.\<close>

lemma turns_until_due:
  fixes w :: "'a world_scheme"
  assumes "tries_ok w" "min_by due_key (heap_of w) = Some d" "\<And>k. N \<le> k \<Longrightarrow> dl_at d \<le> monotonic e k"
  obtains n where "tries_ok ((turn e post ^^ n) w)" "heap_of ((turn e post ^^ n) w) = heap_of w" "dl_at d \<le> monotonic e (beats ((turn e post ^^ n) w))"
    "\<And>i t. traced i t w \<Longrightarrow> traced i t ((turn e post ^^ n) w)"
proof -
  have "\<exists>n. tries_ok ((turn e post ^^ n) w) \<and> heap_of ((turn e post ^^ n) w) = heap_of w \<and> dl_at d \<le> monotonic e (beats ((turn e post ^^ n) w))
      \<and> (\<forall>i t. traced i t w \<longrightarrow> traced i t ((turn e post ^^ n) w))"
    using assms(1,2)
  proof (induction "N - beats w" arbitrary: w)
    case 0
    then show ?case using assms(3) by (intro exI [of _ 0]) simp
  next
    case (Suc k)
    show ?case
    proof (cases "dl_at d \<le> monotonic e (beats w)")
      case True
      then show ?thesis using Suc.prems by (intro exI [of _ 0]) simp
    next
      case False
      then have idle: "heap_of w = [] \<or> (\<exists>d. min_by due_key (heap_of w) = Some d \<and> monotonic e (beats w) < dl_at d)"
        using Suc.prems(2) by (simp add: not_le)
      note t = turn_idle [OF Suc.prems(1) idle, where post = post]
      have "k = N - beats (turn e post w)" using Suc.hyps(2) t(3) by simp
      from Suc.hyps(1) [OF this t(1)] obtain n where n: "tries_ok ((turn e post ^^ n) (turn e post w))"
          "heap_of ((turn e post ^^ n) (turn e post w)) = heap_of (turn e post w)" "dl_at d \<le> monotonic e (beats ((turn e post ^^ n) (turn e post w)))"
          "\<forall>i t. traced i t (turn e post w) \<longrightarrow>
             traced i t ((turn e post ^^ n) (turn e post w))"
        using Suc.prems(2) t(2) by auto
      then show ?thesis using t(2,4) by (intro exI [of _ "Suc n"]) (simp add: funpow_Suc_right del: funpow.simps)
    qed
  qed
  then show thesis using that by blast
qed

lemma deliveries_conclude:
  fixes w :: "'a world_scheme"
  assumes "tries_ok w" "\<And>t. \<exists>n. \<forall>k\<ge>n. t \<le> monotonic e k"
  shows "\<exists>n. heap_of ((turn e post ^^ n) w) = [] \<and> (\<forall>i t. traced i t w \<longrightarrow> concluded i t ((turn e post ^^ n) w))"
  using assms(1)
proof (induction w rule: measure_induct_rule [of tries_left])
  case (less w)
  show ?case
  proof (cases "min_by due_key (heap_of w)")
    case None
    then show ?thesis by (intro exI [of _ 0]) (simp add: traced_def outstanding_def)
  next
    case (Some d)
    obtain N where N: "\<And>k. N \<le> k \<Longrightarrow> dl_at d \<le> monotonic e k" using assms(2) by blast
    obtain n where n: "tries_ok ((turn e post ^^ n) w)" "heap_of ((turn e post ^^ n) w) = heap_of w"
        "dl_at d \<le> monotonic e (beats ((turn e post ^^ n) w))"
        "\<And>i t. traced i t w \<Longrightarrow> traced i t ((turn e post ^^ n) w)"
      using turns_until_due [OF less.prems Some N, where post = post] by blast
    let ?v = "turn e post ((turn e post ^^ n) w)"
    have p: "tries_ok ?v" "tries_left ?v < tries_left w"
        "\<And>i t. traced i t w \<Longrightarrow> traced i t ?v"
      using turn_progress [OF n(1) _ n(3), where post = post] n(2,4) Some by (simp_all add: tries_left_def)
    obtain k where k: "heap_of ((turn e post ^^ k) ?v) = []" "\<forall>i t. traced i t ?v \<longrightarrow> concluded i t ((turn e post ^^ k) ?v)"
      using less.IH [OF p(2,1)] by blast
    have "(turn e post ^^ (k + Suc n)) w = (turn e post ^^ k) ?v" by (simp add: funpow_add) (rule funpow_swap1)
    then show ?thesis using k p(3) by (intro exI [of _ "k + Suc n"]) metis
  qed
qed

text \<open>
  C22. Every webhook delivery comes to an end: whatever the webhooks answer, after enough turns of the
  loop, on a clock that moves on, no delivery waits any more, and for each that waited there is a
  record of how it ended after at most eight attempts.
\<close>

theorem deliveries_end:
  assumes "\<forall>d\<in>set (heap_of w). dl_attempt d \<le> 7" "\<And>t. \<exists>n. \<forall>k\<ge>n. t \<le> monotonic e k"
  shows "\<exists>n w'. w' = ((\<lambda>w. snd (run_turn e post w)) ^^ n) w \<and> heap_of w' = [] \<and> (\<forall>d\<in>set (heap_of w). \<exists>day. \<exists>x\<in>set (journal_lines day (nf_deliveries (notifier w'))).
     oc_notice x = nt_id (dl_notice d) \<and> oc_target x = dl_target d \<and> 1 \<le> oc_attempts x \<and> oc_attempts x \<le> 8)"
proof -
  have "tries_ok w" using assms(1) by (simp add: tries_ok_def)
  from deliveries_conclude [OF this assms(2), where post = post] obtain n where n: "heap_of ((turn e post ^^ n) w) = []"
      "\<And>i t. traced i t w \<Longrightarrow> concluded i t ((turn e post ^^ n) w)" by blast
  have "concluded (nt_id (dl_notice d)) (dl_target d) ((turn e post ^^ n) w)" if "d \<in> set (heap_of w)" for d
    by (rule n(2)) (use that in \<open>auto simp: traced_def outstanding_def\<close>)
  then show ?thesis using n(1) unfolding concluded_def by blast
qed

definition sample_notice :: notice where
  "sample_notice = \<lparr>nt_id = ''NT1'', nt_account = ''AC1'', nt_type = ''run.finished'', nt_data = Hub_data ''F1'' ''R1'', nt_targets = [''WH1''],
     nt_now = stamp sample_start, nt_once = None\<rparr>"

definition sample_waiting :: world where
  "sample_waiting = empty_world\<lparr>notifier := (notifier empty_world)\<lparr>nf_heap := [\<lparr>dl_at = 5 * SECOND, dl_count = 0, dl_notice = sample_notice,
     dl_target = ''WH1'', dl_attempt = 3\<rparr>], nf_count := 1\<rparr>\<rparr>"

theorem deliveries_end_witness:
  "\<exists>n w'. w' = ((\<lambda>w. snd (run_turn sample_env (\<lambda>h n k. 500) w)) ^^ n) sample_waiting \<and> heap_of w' = []
     \<and> (\<forall>d\<in>set (heap_of sample_waiting). \<exists>day. \<exists>x\<in>set (journal_lines day (nf_deliveries (notifier w'))).
     oc_notice x = nt_id (dl_notice d) \<and> oc_target x = dl_target d \<and> 1 \<le> oc_attempts x \<and> oc_attempts x \<le> 8)"
proof (rule deliveries_end)
  show "\<forall>d\<in>set (heap_of sample_waiting). dl_attempt d \<le> 7" by (simp add: sample_waiting_def)
  show "\<exists>n. \<forall>k\<ge>n. t \<le> monotonic sample_env k" for t
  proof (intro exI [of _ "nat t"] allI impI)
    fix k assume "nat t \<le> k"
    then have "t \<le> int k" by linarith
    also have "\<dots> \<le> int k * SECOND" by (simp add: SECOND_def)
    finally show "t \<le> monotonic sample_env k" by (simp add: sample_env_def)
  qed
qed

end
