(* ===== verification/Access_Safety.thy ===== *)
theory Access_Safety
  imports Gateway Samples
begin

text \<open>
  What customers can reach: the life of an API key, the headers a hub can rely on, the body of a
  request that arrives in chunks, and how often the gateway tries to reach a Fleet.
\<close>

section \<open>The life of a key\<close>

lemma apply_api_key:
  assumes "apply_line n (Api_key d) s = (Inr (), s')"
  shows "keys s' = dset (kd_key d) (key_of d) (keys s)" "key_hashes s' = dset (kd_hash d) (kd_key d) (key_hashes s)"
  using assms by (auto simp: apply_line_def on_api_key_def op_simps)

lemma apply_api_key_revoke:
  assumes "apply_line n (Api_key_revoke i) s = (Inr (), s')" "dget (keys s) i = Some r"
  shows "keys s' = dset i (r\<lparr>k_revoked := True\<rparr>) (keys s)" "key_hashes s' = key_hashes s"
  using assms by (auto simp: apply_line_def on_api_key_revoke_def change_step op_simps)

lemma new_key_Inr:
  assumes "synced w" "new_key e account opts m old member w = (Inr (r, key), w')"
  shows "synced w'" "key_record e (st w') key = Some r" "dget (key_hashes (st w')) (key_digest e key) = Some (k_key r)"
    "k_account r = account" "k_scopes r = ko_scopes opts" "\<not> k_revoked r" "k_retires r = None" "k_expires r = ko_expires opts" "k_ips r = ko_ips opts"
    "k_key r \<noteq> []" "dget (keys (st w')) (k_key r) = Some r"
proof -
  obtain i d w1 where key: "key \<noteq> []" and i: "i \<noteq> []" and d: "kd_key d = i" "kd_hash d = key_digest e key" "kd_account d = account"
      "kd_scopes d = Some (ko_scopes opts)" "kd_expires d = ko_expires opts" "kd_ips d = ko_ips opts"
    and w1: "synced w1" "st w1 = st w" and a: "append_market e (Api_key d) w1 = (Inr (), w')" and r: "dget (keys (st w')) i = Some r"
  proof -
    let ?key = "''sk-hc-'' @ token e (draws w)" and ?i = "''KY'' @ token e (Suc (draws w))"
    let ?d = "\<lparr>kd_key = ?i, kd_account = account, kd_member = Some (case member of None \<Rightarrow> account | Some x \<Rightarrow> if x = [] then account else x),
               kd_note = ko_note opts, kd_hint = last_of 4 ?key, kd_hash = key_digest e ?key, kd_now = stamp m, kd_scopes = Some (ko_scopes opts),
               kd_fleet = ko_fleet opts, kd_allow_swap = ko_allow_swap opts, kd_expires = ko_expires opts, kd_ips = ko_ips opts,
               kd_priority = ko_priority opts, kd_rotated_from = old\<rparr>"
    have "key = ?key \<and> append_market e (Api_key ?d) (w\<lparr>draws := Suc (Suc (draws w))\<rparr>) = (Inr (), w') \<and> dget (keys (st w')) ?i = Some r"
      using assms(2) unfolding new_key_def by (auto simp: op_elims leaf_elims new_id_def split: option.splits)
    then show thesis using assms(1) by (intro that [of ?i ?d "w\<lparr>draws := Suc (Suc (draws w))\<rparr>"]) (simp_all add: synced_def)
  qed
  obtain n where n: "apply_line n (Api_key d) (st w1) = (Inr (), st w')" "synced w'"
    by (rule append_market_Inr [OF w1(1) a]) blast
  note k = apply_api_key [OF n(1)]
  have rd: "r = key_of d" using r k(1) d(1) by simp
  show "synced w'" by (rule n(2))
  show "k_account r = account" "k_scopes r = ko_scopes opts" "\<not> k_revoked r" "k_retires r = None" "k_expires r = ko_expires opts" "k_ips r = ko_ips opts"
    "k_key r \<noteq> []" "dget (keys (st w')) (k_key r) = Some r" "dget (key_hashes (st w')) (key_digest e key) = Some (k_key r)"
    using d i r k(2) by (simp_all add: rd key_of_def)
  then show "key_record e (st w') key = Some r" using key by (simp add: key_record_def)
qed

lemma authorize_eq:
  assumes "key_record e (st w) key = Some r"
  shows "fst (authorize e key scope ip w) =
     (if k_revoked r then Inl (refuse 401 ''invalid_key'')
      else let m = clock e (ticks w) + offset (st w) * SECOND in
      if (case k_retires r of None \<Rightarrow> True | Some t \<Rightarrow> m < stamp_time t) \<and> (case k_expires r of None \<Rightarrow> True | Some t \<Rightarrow> m < stamp_time t)
      then if (k_ips r = [] \<or> address_in ip (k_ips r)) \<and> scope \<in> set (k_scopes r) then Inr r else Inl (refuse 403 ''invalid_key'')
      else Inl (refuse 401 ''invalid_key''))"
  using assms by (simp add: authorize_def key_account_eq op_simps Let_def)

lemma revoke_key_record:
  assumes "synced w" "revoke_key e account i member role w = (Inr (), w')" "dget (keys (st w)) i = Some r" "i \<noteq> []"
    "dget (key_hashes (st w)) (key_digest e key) = Some i" "key \<noteq> []"
  shows "key_record e (st w') key = Some (r\<lparr>k_revoked := True\<rparr>)"
proof -
  let ?w = "w\<lparr>ticks := ticks w + 1\<rparr>"
  have a: "append_market e (Api_key_revoke i) ?w = (Inr (), w')" using assms(2) by (auto simp: revoke_key_def op_elims leaf_elims now_eq)
  have "synced ?w" using assms(1) by (simp add: synced_def)
  then obtain n where n: "apply_line n (Api_key_revoke i) (st ?w) = (Inr (), st w')" using append_market_Inr [OF _ a] by blast
  then show ?thesis using apply_api_key_revoke [OF n] assms(3-6) by (simp add: key_record_def)
qed


definition sample_key_body :: key_body where
  "sample_key_body = \<lparr>kb_scopes = Given [''inference''], kb_fleet = None, kb_allow_swap = Absent, kb_expires = Absent, kb_ips = Absent,
     kb_priority = None, kb_note = None\<rparr>"

lemma sample_key_made: "\<not> isl (fst (create_key sample_env ''AC1'' sample_key_body None ''owner'' empty_world))"
  by code_simp


section \<open>Headers a hub can rely on\<close>

text \<open>What the gateway itself says about the caller.\<close>

definition OWN_HEADERS :: "string list" where
  "OWN_HEADERS = [''authorization'', ''x-sparkpipe-public'', ''x-sparkpipe-account'', ''x-sparkpipe-fleet'', ''x-sparkpipe-key'', ''x-sparkpipe-member'',
     ''x-sparkpipe-role'', ''x-sparkpipe-scopes'', ''x-sparkpipe-allow-swap'', ''x-sparkpipe-failover-from'']"

lemma own_not_forwarded: "lower_text name \<in> set OWN_HEADERS \<Longrightarrow> \<not> forwarded (name, v)"
  by (auto simp: forwarded_def Let_def OWN_HEADERS_def DROPPED_def CUSTOMER_HEADERS_def prefixed_def)

lemma no_forwarded_own: "own \<in> set OWN_HEADERS \<Longrightarrow> filter (\<lambda>x. lower_text (fst x) = own) (filter forwarded given) = []"
  using own_not_forwarded by (auto simp: filter_empty_conv)

lemma lower_own [simp]:
  "lower_text ''Authorization'' = ''authorization''" "lower_text ''X-SparkPipe-Public'' = ''x-sparkpipe-public''"
  "lower_text ''X-SparkPipe-Account'' = ''x-sparkpipe-account''" "lower_text ''X-SparkPipe-Fleet'' = ''x-sparkpipe-fleet''"
  "lower_text ''X-SparkPipe-Key'' = ''x-sparkpipe-key''" "lower_text ''X-SparkPipe-Member'' = ''x-sparkpipe-member''"
  "lower_text ''X-SparkPipe-Role'' = ''x-sparkpipe-role''" "lower_text ''X-SparkPipe-Scopes'' = ''x-sparkpipe-scopes''"
  "lower_text ''X-SparkPipe-Allow-Swap'' = ''x-sparkpipe-allow-swap''" "lower_text ''X-SparkPipe-Priority'' = ''x-sparkpipe-priority''"
  "lower_text ''X-SparkPipe-Failover-From'' = ''x-sparkpipe-failover-from''"
  by code_simp+

definition header_values :: "string \<Rightarrow> (string \<times> string) list \<Rightarrow> string list" where
  "header_values own hs = map snd (filter (\<lambda>x. lower_text (fst x) = own) hs)"

lemma header_values_simps [simp]:
  "header_values own [] = []" "header_values own (x # hs) = (if lower_text (fst x) = own then [snd x] else []) @ header_values own hs"
  "header_values own (xs @ ys) = header_values own xs @ header_values own ys"
  by (simp_all add: header_values_def)

lemma header_values_forwarded: "own \<in> set OWN_HEADERS \<Longrightarrow> header_values own (filter forwarded given) = []"
  by (simp only: header_values_def no_forwarded_own list.map)

text \<open>
  C23. A customer cannot speak for the gateway: whatever headers a request brings, the hub gets exactly one
  header each for the pool's password, the account, the Fleet, the member's role and whether a
  swap is allowed, with the value the gateway determined, it learns of a failover only from the
  gateway, and no value passed on from the customer can start another header.
\<close>

theorem upstream_headers_trusted:
  fixes pool given account key fleet origin member role
  defines "hs \<equiv> upstream_headers pool given account key fleet origin member role"
  shows "header_values ''authorization'' hs = [''Bearer '' @ pool] \<and> header_values ''x-sparkpipe-account'' hs = [account]
     \<and> header_values ''x-sparkpipe-fleet'' hs = [fleet] \<and> header_values ''x-sparkpipe-role'' hs = [role]
     \<and> header_values ''x-sparkpipe-allow-swap'' hs = [if (case key of None \<Rightarrow> True | Some r \<Rightarrow> k_allow_swap r) \<and> role \<noteq> ''member'' then ''1'' else ''0'']
     \<and> header_values ''x-sparkpipe-failover-from'' hs = (if truthy origin then [the origin] else [])
     \<and> (\<forall>x\<in>set (filter forwarded given). \<forall>c\<in>set (snd x). code_of c \<noteq> 13 \<and> code_of c \<noteq> 10)"
proof -
  have own: "header_values ''authorization'' (filter forwarded given) = []" "header_values ''x-sparkpipe-account'' (filter forwarded given) = []"
    "header_values ''x-sparkpipe-fleet'' (filter forwarded given) = []" "header_values ''x-sparkpipe-role'' (filter forwarded given) = []"
    "header_values ''x-sparkpipe-allow-swap'' (filter forwarded given) = []" "header_values ''x-sparkpipe-failover-from'' (filter forwarded given) = []"
    by (rule header_values_forwarded; simp add: OWN_HEADERS_def)+
  have "\<forall>x\<in>set (filter forwarded given). \<forall>c\<in>set (snd x). code_of c \<noteq> 13 \<and> code_of c \<noteq> 10"
    by (auto simp: forwarded_def Let_def)
  then show ?thesis unfolding hs_def upstream_headers_def Let_def by (simp add: own split: option.split)
qed

theorem upstream_headers_trusted_witness:
  "header_values ''x-sparkpipe-account'' (upstream_headers ''pw'' [(''X-SparkPipe-Account'', ''AC2''), (''Accept'', ''*'')] ''AC1'' None ''F1'' None None ''owner'') = [''AC1'']"
  using upstream_headers_trusted by blast

section \<open>Bodies in chunks\<close>

text \<open>The encoding of RFC 9112: the length of each chunk in hexadecimal digits on a line of its own, the chunk, a line break, and a chunk of length 0.\<close>

definition hex_char :: "nat \<Rightarrow> char" where
  "hex_char d = char_of (if d < 10 then 48 + d else 87 + d)"

fun hex_text :: "nat \<Rightarrow> string" where
  "hex_text n = (if n < 16 then [hex_char n] else hex_text (n div 16) @ [hex_char (n mod 16)])"

declare hex_text.simps [simp del]

definition CRLF :: string where "CRLF = [char_of (13 :: nat), char_of (10 :: nat)]"

definition chunk_text :: "string \<Rightarrow> string" where
  "chunk_text c = hex_text (length c) @ CRLF @ c @ CRLF"

definition in_chunks :: "string list \<Rightarrow> string" where
  "in_chunks cs = concat (map chunk_text cs) @ ''0'' @ CRLF @ CRLF"

lemma hex_value_char: "d < 16 \<Longrightarrow> hex_value (hex_char d) = Some d"
  by (auto simp: hex_value_def hex_char_def code_of_def Let_def)

lemma hex_char_code: "d < 16 \<Longrightarrow> 48 \<le> code_of (hex_char d) \<and> code_of (hex_char d) \<noteq> 59"
  by (auto simp: hex_char_def code_of_def)

lemma hex_text_spec: "hex_text n \<noteq> [] \<and> (\<forall>c\<in>set (hex_text n). \<exists>d<16. c = hex_char d) \<and> foldl (\<lambda>k c. 16 * k + the (hex_value c)) 0 (hex_text n) = n"
proof (induction n rule: hex_text.induct)
  case (1 n)
  show ?case
  proof (cases "n < 16")
    case True
    then show ?thesis by (auto simp: hex_text.simps [of n] hex_value_char)
  next
    case False
    have "\<exists>d<16. hex_char (n mod 16) = hex_char d" by (intro exI [of _ "n mod 16"]) simp
    then show ?thesis using False 1 by (auto simp: hex_text.simps [of n] hex_value_char)
  qed
qed

lemma length_hex_text: "n < 16 ^ k \<Longrightarrow> length (hex_text n) \<le> max 1 k"
proof (induction k arbitrary: n)
  case (Suc k)
  show ?case
  proof (cases "n < 16")
    case False
    then have "n div 16 < 16 ^ k" using Suc.prems by (simp add: less_mult_imp_div_less mult.commute)
    moreover have "0 < k" using False Suc.prems by (cases k) auto
    ultimately show ?thesis using Suc.IH [of "n div 16"] False by (simp add: hex_text.simps [of n])
  qed (simp add: hex_text.simps [of n])
qed (simp add: hex_text.simps)

lemma chunk_size_hex:
  assumes "n < 16 ^ 8"
  shows "chunk_size (hex_text n) = Some n"
proof -
  have "\<forall>c\<in>set (hex_text n). hex_value c \<noteq> None" using hex_text_spec [of n] hex_value_char by force
  moreover have "1 \<le> length (hex_text n)" "length (hex_text n) \<le> 8" using hex_text_spec [of n] length_hex_text [OF assms] by (simp_all add: Suc_le_eq)
  moreover have "foldl (\<lambda>k c. 16 * k + the (hex_value c)) 0 (hex_text n) = n" using hex_text_spec [of n] by blast
  ultimately show ?thesis unfolding chunk_size_def by presburger
qed

lemma hex_text_codes:
  assumes "c \<in> set (hex_text n)"
  shows "48 \<le> code_of c \<and> code_of c \<noteq> 59"
proof -
  obtain d where "d < 16" "c = hex_char d" using hex_text_spec [of n] assms by blast
  then show ?thesis using hex_char_code by simp
qed

lemma readline_crlf:
  assumes "\<forall>c\<in>set t. 32 < code_of c" "length t \<le> 8"
  shows "readline (t @ CRLF @ s) = (t @ CRLF, s)"
proof -
  have "takeWhile (\<lambda>c. code_of c \<noteq> 10) (t @ CRLF @ s) = t @ [char_of (13 :: nat)]"
    using assms(1) by (subst takeWhile_append2) (auto simp: CRLF_def code_of_def)
  then have "length (takeWhile (\<lambda>c. code_of c \<noteq> 10) (t @ CRLF @ s)) = length t + 1" by simp
  then show ?thesis using assms(2) by (simp add: readline_def Let_def CRLF_def)
qed

lemma stripped_size:
  assumes "\<forall>c\<in>set t. 32 < code_of c \<and> code_of c \<noteq> 59"
  shows "bytes_strip (before_char CHR '';'' (t @ CRLF)) = t"
proof -
  let ?ws = "\<lambda>c. code_of c \<in> {9, 10, 11, 12, 13, 32}"
  have semi: "code_of CHR '';'' = 59" by (simp add: code_of_def)
  have "before_char CHR '';'' (t @ CRLF) = t @ CRLF"
  proof -
    have "\<forall>c\<in>set CRLF. code_of c \<noteq> 59" by (simp add: CRLF_def code_of_def)
    then have "\<forall>c\<in>set (t @ CRLF). code_of c \<noteq> 59" using assms by auto
    then have "\<forall>c\<in>set (t @ CRLF). c \<noteq> CHR '';''" using semi by metis
    then show ?thesis by (simp only: before_char_def takeWhile_eq_all_conv)
  qed
  moreover have "dropWhile ?ws xs = xs" if "set xs \<subseteq> set t" for xs using assms that by (cases xs) auto
  then have "dropWhile ?ws t = t" "dropWhile ?ws (rev t) = rev t" by simp_all
  moreover have "dropWhile ?ws (t @ CRLF) = (if t = [] then [] else t @ CRLF)"
    using assms by (cases t) (auto simp: CRLF_def code_of_def)
  ultimately show ?thesis by (auto simp: bytes_strip_def Let_def) (auto simp: CRLF_def code_of_def)
qed

lemma chunked_step:
  assumes "c \<noteq> []" "length found + length c \<le> BODY_LIMIT"
  shows "chunked found (chunk_text c @ s) = chunked (found @ c) s"
proof -
  let ?t = "hex_text (length c)"
  have lim: "length c < 16 ^ 8" using assms(2) by (simp add: BODY_LIMIT_def)
  have t: "\<forall>x\<in>set ?t. 32 < code_of x \<and> code_of x \<noteq> 59" using hex_text_codes by fastforce
  have len: "length ?t \<le> 8" using length_hex_text [OF lim] by simp
  have r: "readline (chunk_text c @ s) = (?t @ CRLF, c @ CRLF @ s)" using readline_crlf [OF _ len, of "c @ CRLF @ s"] t by (simp add: chunk_text_def)
  have r2: "snd (readline (CRLF @ s)) = s" using readline_crlf [of "[]" s] by simp
  show ?thesis unfolding chunked.simps [of found] r Let_def prod.case stripped_size [OF t] chunk_size_hex [OF lim] option.case
    using assms r2 by simp
qed

lemma chunked_end: "chunked found (''0'' @ CRLF @ CRLF) = Inr found"
proof -
  have t: "\<forall>x\<in>set ''0''. 32 < code_of x \<and> code_of x \<noteq> 59" by (simp add: code_of_def)
  have z: "chunk_size ''0'' = Some 0" by code_simp
  have r: "readline (''0'' @ CRLF @ CRLF) = (''0'' @ CRLF, CRLF)" using readline_crlf [of "''0''" CRLF] t by simp
  show ?thesis unfolding chunked.simps [of found] r Let_def prod.case stripped_size [OF t] z by simp
qed

lemma chunked_in_chunks:
  "[] \<notin> set cs \<Longrightarrow> length found + length (concat cs) \<le> BODY_LIMIT \<Longrightarrow> chunked found (in_chunks cs) = Inr (found @ concat cs)"
proof (induction cs arbitrary: found)
  case Nil
  then show ?case by (simp only: in_chunks_def list.map concat.simps append_Nil append_Nil2 chunked_end)
next
  case (Cons c cs)
  have "in_chunks (c # cs) = chunk_text c @ in_chunks cs" by (simp add: in_chunks_def)
  moreover have "chunked found (chunk_text c @ in_chunks cs) = chunked (found @ c) (in_chunks cs)" by (rule chunked_step) (use Cons.prems in auto)
  ultimately show ?case using Cons.IH [of "found @ c"] Cons.prems by (simp only:) simp
qed

lemma chunked_limit: "chunked found s = Inr body \<Longrightarrow> length found \<le> BODY_LIMIT \<Longrightarrow> length body \<le> BODY_LIMIT"
proof (induction found s arbitrary: body rule: chunked.induct)
  case (1 found s)
  obtain raw rest where r: "readline s = (raw, rest)" by fastforce
  show ?case
  proof (cases "chunk_size (bytes_strip (before_char CHR '';'' raw))")
    case None
    then show ?thesis using 1(2) by (subst (asm) chunked.simps) (simp add: r)
  next
    case (Some n)
    show ?thesis
    proof (cases "n = 0 \<or> BODY_LIMIT < length found + n \<or> length rest < n")
      case True
      then show ?thesis using 1(2,3) Some by (subst (asm) (1) chunked.simps) (auto simp: r split: if_splits)
    next
      case False
      then have "chunked (found @ take n rest) (snd (readline (drop n rest))) = Inr body"
        using 1(2) Some by (subst (asm) (1) chunked.simps) (simp add: r)
      then show ?thesis using 1(1) [OF r [symmetric] refl Some] False by simp
    qed
  qed
qed

text \<open>
  C32. A body sent in chunks arrives as it was sent: from any split of a body of at most the limit
  into chunks that are not empty, reading returns the body; and no input, however long, makes it
  return more than the limit.
\<close>

theorem chunked_roundtrip:
  assumes "[] \<notin> set cs" "length (concat cs) \<le> BODY_LIMIT"
  shows "chunked [] (in_chunks cs) = Inr (concat cs) \<and> (\<forall>s body. chunked [] s = Inr body \<longrightarrow> length body \<le> BODY_LIMIT)"
  using chunked_in_chunks [OF assms(1), of "[]"] assms(2) chunked_limit [of "[]"] by auto

theorem chunked_roundtrip_witness: "chunked [] (in_chunks [''abc'', ''d'']) = Inr ''abcd''"
  using chunked_roundtrip [of "[''abc'', ''d'']"] by (simp add: BODY_LIMIT_def)

section \<open>Reaching a Fleet\<close>

text \<open>Nothing the market does by itself changes the uptime records.\<close>

abbreviation uptime_is :: "uptime_store \<Rightarrow> 'a world_scheme \<Rightarrow> bool" where
  "uptime_is U w \<equiv> uptime w = U"

lemma keeps_uptime_reads [keeps_intros]:
  "keeps (uptime_is U) (read_clock e)" "keeps (uptime_is U) (read_monotonic e)" "keeps (uptime_is U) (new_id e p)"
  "keeps (uptime_is U) (notices_sent mark)" "keeps (uptime_is U) (mail e to subject)"
  by (auto simp: keeps_def read_clock_def read_monotonic_def new_id_def notices_sent_def mail_def op_simps split: prod.split)

lemma keeps_uptime_on_book [keeps_intros]: "keeps (uptime_is U) (on_book m)"
  by (auto simp: keeps_def on_book_def split: prod.split)

lemma keeps_uptime_effects [keeps_intros]:
  "keeps (uptime_is U) (now e)" "keeps (uptime_is U) (schedule e n t a d)" "keeps (uptime_is U) (append_market e l)"
proof -
  have "keeps (uptime_is U) (catch_up d)" for d by (auto simp: keeps_def catch_up_def on_book_def split: prod.split)
  then show "keeps (uptime_is U) (now e)" "keeps (uptime_is U) (schedule e n t a d)" "keeps (uptime_is U) (append_market e l)"
    unfolding now_def schedule_def append_market_def append_def append_entry_def by (intro keeps_intros keeps_modify; simp)+
qed

lemma keeps_uptime_notices [keeps_intros]:
  "keeps (uptime_is U) (notify e acc kind data m once mailed)" "keeps (uptime_is U) (tell e acc kind data m once mailed)"
  "keeps (uptime_is U) (audit e acc member kind parts given)"
  unfolding tell_def notify_def notified_def audit_def Let_def by (intro keeps_intros keeps_modify; simp)+

lemma keeps_prod [keeps_intros]: "(\<And>x y. keeps I (f x y)) \<Longrightarrow> keeps I (case v of (x, y) \<Rightarrow> f x y)"
  by (cases v) auto

lemma keeps_uptime_events [keeps_intros]:
  "keeps (uptime_is U) (market_lot e account credits source ref m note xt)" "keeps (uptime_is U) (default_extend e account fleet_id m)"
  "keeps (uptime_is U) (moved e places m actors)" "keeps (uptime_is U) (confirmed e ident m)"
  "keeps (uptime_is U) (pay e account fleet kind start end price m extra)" "keeps (uptime_is U) (lapse_account e t a)"
  "keeps (uptime_is U) (grant e account fleet found sunday)"
  unfolding market_lot_def default_extend_def moved_def confirmed_def pay_def lapse_account_def grant_def Let_def by (intro keeps_intros)+

lemma keeps_uptime_lists [keeps_intros]:
  "keeps (uptime_is U) (lapse_accounts e t as)" "keeps (uptime_is U) (allocate_fleets e sunday fs waiting granted)" "keeps (uptime_is U) (deadlines m xs)"
proof -
  show "keeps (uptime_is U) (lapse_accounts e t as)" by (induction as) (auto intro!: keeps_intros)
  show "keeps (uptime_is U) (allocate_fleets e sunday fs waiting granted)"
    by (induction fs arbitrary: waiting granted) (auto intro!: keeps_intros)
  show "keeps (uptime_is U) (deadlines m xs)"
  proof (induction m xs rule: deadlines.induct)
    case (2 m account fleet_id through rest)
    then show ?case by (cases "deadline_mark m through") (auto simp: Let_def intro!: keeps_intros)
  qed (simp add: keeps_intros)
qed

lemma keeps_uptime_deadline: "keeps (uptime_is U) (deadline e x)"
proof -
  have "keeps (uptime_is U) (case r of Inr plan \<Rightarrow> ret (Some (pl_price plan)) | Inl (Refusal status reason) \<Rightarrow> ret None | Inl ex \<Rightarrow> raise ex)" for r
    by (cases r; cases "projl r") (auto simp: keeps_intros)
  then show ?thesis unfolding deadline_def by (intro keeps_intros)
qed

lemma keeps_uptime_run_event: "keeps (uptime_is U) (run_event e ev)"
proof (cases ev)
  case (Extension account f action)
  then show ?thesis by (cases action) (auto simp: run_extension_def stop_extend_def Advance.extend_def intro!: keeps_intros)
next
  case (Deadline_notice x)
  then show ?thesis by (simp add: keeps_uptime_deadline)
qed (auto simp: lapse_def allocate_def credit_maintenance_def credit_outage_def end_failover_def Let_def intro!: keeps_intros)

lemma keeps_uptime_advance: "keeps (uptime_is U) (advance e m)"
proof -
  have "keeps (uptime_is U) (advance_loop n e m)" for n
  proof (induction n)
    case (Suc n)
    then show ?case unfolding advance_loop.simps due_events_def deadline_at_def by (intro keeps_intros keeps_uptime_run_event)
  qed (simp add: keeps_intros)
  then show ?thesis by (simp add: advance_def)
qed

lemma route_down:
  assumes "fleet_down fleet (uptime w)" "route e account fleet w = (Inr y, w')"
  shows "snd y = Some fleet"
proof -
  obtain m w1 w2 where n: "now e w = (Inr m, w1)" and a: "advance e m w1 = (Inr (), w2)"
    and rest: "(let current = find (\<lambda>f. fo_account f = account \<and> fo_from f = fleet) (active_failovers (st w2)); choices = failover_choices e w2 account fleet m in
      if \<not> fleet_down fleet (uptime w2) then ret (fleet, None)
       else case current of Some f \<Rightarrow> ret (fo_to f, Some fleet)
        | None \<Rightarrow> (case choices of [] \<Rightarrow> raise (refuse 503 ''fleet_down'')
            | target # _ \<Rightarrow> bind_op (new_id e ''FO'') (\<lambda>ident.
                seq_op (append_market e (Failover \<lparr>fo_id = ident, fo_account = account, fo_from = fleet, fo_to = fl_id target,
                          fo_start = stamp m, fo_end = None, fo_reason = None\<rparr>))
               (seq_op (tell e account ''fleet.failover'' (Failover_started ident fleet (fl_id target) (stamp m)) m None False)
                       (ret (fl_id target, Some fleet)))))) w2 = (Inr y, w')"
    using assms(2) unfolding route_def by (auto simp: op_elims gets_Inr Let_def)
  have "uptime w1 = uptime w" using n by (auto simp: now_def read_clock_def op_simps)
  then have "uptime w2 = uptime w" using keeps_result [OF keeps_uptime_advance _ a, of "uptime w"] by simp
  then show ?thesis using rest assms(1) by (auto simp: Let_def op_elims leaf_elims split: option.splits list.splits)
qed

text \<open>
  The gateway tries at most two Fleets: after a Fleet that cannot be reached is recorded as down, the
  next turn of the loop serves the request from another one or ends, so more than two turns never happen.
\<close>

theorem hub_tries_twice:
  assumes "fleet \<noteq> []"
  shows "hub_loop (n + 2) e reachable upstream account fleet try x w = hub_loop 2 e reachable upstream account fleet try x w"
proof -
  obtain served origin where x: "x = (served, origin)" by fastforce
  have last: "hub_loop (Suc k) e reachable upstream account fleet t (s, Some fleet) v = hub_loop (Suc 0) e reachable upstream account fleet t (s, Some fleet) v" for k t s v
    using assms by (simp add: truthy_def)
  have "bind_op (route e account fleet) (\<lambda>y. hub_loop (Suc k) e reachable upstream account fleet t y) v
      = bind_op (route e account fleet) (\<lambda>y. hub_loop (Suc 0) e reachable upstream account fleet t y) v"
    if "fleet_down fleet (uptime v)" for k t v
  proof (cases "route e account fleet v")
    case (Pair r v')
    then show ?thesis
    proof (cases r)
      case (Inr y)
      then have "snd y = Some fleet" using route_down [OF that] Pair by simp
      then have y: "y = (fst y, Some fleet)" by (simp add: prod_eq_iff)
      show ?thesis unfolding bind_op_def Pair Inr prod.case sum.case by (subst (1 2) y) (rule last)
    qed (simp add: bind_op_def)
  qed
  note again = this
  have twice: "bind_op (now e) (\<lambda>m. seq_op (observe e fleet False m d True) (bind_op (route e account fleet) (hub_loop (Suc k) e reachable upstream account fleet t))) v
      = bind_op (now e) (\<lambda>m. seq_op (observe e fleet False m d True) (bind_op (route e account fleet) (hub_loop (Suc 0) e reachable upstream account fleet t))) v" for k d t v
  proof -
    obtain m v1 where n: "now e v = (Inr m, v1)" by (simp add: now_eq)
    obtain v2 where o: "observe e fleet False m d True v1 = (Inr (), v2)" using observe_total by blast
    show ?thesis using again [OF observe_down(1) [OF o], of k t] by (simp add: bind_op_step seq_op_step n o)
  qed
  show ?thesis unfolding x by (simp add: numeral_2_eq_2) (intro impI twice)
qed

theorem hub_tries_twice_witness:
  "hub_loop 5 sample_env (\<lambda>try f. False) (\<lambda>f. True) ''AC1'' ''F1'' 0 (''F1'', None) empty_world
     = hub_loop 2 sample_env (\<lambda>try f. False) (\<lambda>f. True) ''AC1'' ''F1'' 0 (''F1'', None) empty_world"
  using hub_tries_twice [of "''F1''" 3 sample_env "\<lambda>try f. False" "\<lambda>f. True" "''AC1''" 0 "(''F1'', None)" empty_world] by simp

end
