(* ===== verification/Copy.thy ===== *)
theory Copy
  imports Text_Fields "HOL-Library.Word"
begin

text \<open>
  The copying tool of the fleet (\<open>tools/sparkcp.py\<close>): one machine scans a tree and sends it in
  chunks over several connections, the other writes each chunk at its place in a temporary file and
  renames the file when all of it has arrived. This theory has the names and addresses of the
  machines, the manifest, the chunks, their frames on the wire and the class \<open>Receiver\<close>, whose
  \<open>write\<close> is given by the sections between which other threads may run. The scan is in theory
  \<open>Copy_Scan\<close>, the threads in theory \<open>Copy_Runs\<close>.

  A path is the list of its components from the root, with \<open>~\<close>, \<open>.\<close> and \<open>..\<close> resolved; symbolic
  links below a destination are not followed. A file descriptor is known by the file it is open on:
  \<open>ps_open\<close> says whether the descriptor of a pending file is open, \<open>-1\<close> in the source. SHA-256 is
  the parameter \<open>sha\<close>.
\<close>

unbundle bit_operations_syntax

section \<open>Machines, addresses, endpoints\<close>

definition CHUNK_BYTES :: nat where "CHUNK_BYTES = 16 * 1024 * 1024"
definition DIRECT_MIN_BYTES :: nat where "DIRECT_MIN_BYTES = 64 * 1024 * 1024"
definition ALIGN_BYTES :: int where "ALIGN_BYTES = 4096"
definition STREAMS :: nat where "STREAMS = 8"
definition LOOPBACK :: string where "LOOPBACK = ''127.0.0.1''"
definition CISCO_PREFIX :: string where "CISCO_PREFIX = ''10.10.201.''"

definition PATHS :: "(string \<times> string) list" where
  "PATHS = [(''cisco'', CISCO_PREFIX), (''crs804'', ''10.10.100.''), (''mgmt'', ''10.20.0.''), (''lan'', ''192.168.50.''), (''tailscale'', ''100.'')]"

definition ALIASES :: "string \<Rightarrow> string" where
  "ALIASES name = (if name = ''rtx5090'' then ''hub'' else name)"

record fleet_node =
  fn_user :: string
  fn_cisco :: string

record endpoint =
  ep_node :: string
  ep_path :: string

definition fleet_nodes :: "(string, fleet_node) dict" where
  "fleet_nodes =
     (''hub'', \<lparr>fn_user = ''spec'', fn_cisco = CISCO_PREFIX @ ''250''\<rparr>)
     # map (\<lambda>(rank, digit). (''spark'' @ [digit], \<lparr>fn_user = ''spark'' @ [digit], fn_cisco = CISCO_PREFIX @ nat_text rank\<rparr>))
         (List.enumerate 0 ''0123456789abcdef'')
     @ map (\<lambda>index. (''lenovo'' @ nat_text index, \<lparr>fn_user = ''spark'' @ nat_text index, fn_cisco = CISCO_PREFIX @ nat_text (240 + index)\<rparr>)) [7, 8, 9]"

definition align_up :: "int \<Rightarrow> int" where
  "align_up value = (value + ALIGN_BYTES - 1) AND NOT (ALIGN_BYTES - 1)"

definition starts_with :: "'a list \<Rightarrow> 'a list \<Rightarrow> bool" where
  "starts_with prefix t \<longleftrightarrow> take (length prefix) t = prefix"

definition ranked_addresses :: "string list \<Rightarrow> (string \<times> string) list" where
  "ranked_addresses addresses =
     map (\<lambda>a. (''loopback'', a)) (filter (\<lambda>a. a = LOOPBACK) addresses)
     @ concat (map (\<lambda>(label, prefix). map (\<lambda>a. (label, a)) (filter (starts_with prefix) addresses)) PATHS)"

text \<open>\<open>reach\<close> says which addresses accept a connection.\<close>

definition connect_first :: "(string \<Rightarrow> bool) \<Rightarrow> string list \<Rightarrow> (string \<times> string) fallible" where
  "connect_first reach addresses =
     (case filter (\<lambda>(label, a). reach a) (ranked_addresses addresses) of [] \<Rightarrow> Inl CopyError | found # _ \<Rightarrow> Inr found)"

definition this_node :: "string \<Rightarrow> string" where
  "this_node hostname =
     (let name = ALIASES (lower_text (before_char CHR ''.'' hostname)) in if name \<in> set (dkeys fleet_nodes) then name else [])"

text \<open>\<open>exists\<close> says which local paths exist.\<close>

definition parse_endpoint :: "(string \<Rightarrow> bool) \<Rightarrow> string \<Rightarrow> string \<Rightarrow> endpoint fallible" where
  "parse_endpoint exists local text =
     (let name = before_char CHR '':'' text; node = ALIASES (lower_text name) in
      case after_char CHR '':'' text of
        Some path \<Rightarrow>
          if node \<in> set (dkeys fleet_nodes)
          then Inr \<lparr>ep_node = (if node = local then [] else node), ep_path = (if path = [] then ''.'' else path)\<rparr>
          else if CHR ''/'' \<notin> set name \<and> \<not> exists text then Inl CopyError
          else Inr \<lparr>ep_node = [], ep_path = text\<rparr>
      | None \<Rightarrow> Inr \<lparr>ep_node = [], ep_path = text\<rparr>)"

definition ssh_targets :: "string \<Rightarrow> bool \<Rightarrow> string list fallible" where
  "ssh_targets node on_cisco =
     (let last = [if node = ''hub'' then ''rtx5090'' else node] in
      if on_cisco
      then (case dget fleet_nodes node of None \<Rightarrow> Inl KeyError | Some n \<Rightarrow> Inr ((fn_user n @ ''@'' @ fn_cisco n) # last))
      else Inr last)"

text \<open>The machine the sources are on; the addresses the sender is told to try.\<close>

definition copy_origin :: "endpoint list \<Rightarrow> string fallible" where
  "copy_origin sources = (case remdups (map ep_node sources) of [node] \<Rightarrow> Inr node | _ \<Rightarrow> Inl CopyError)"

definition copy_addresses :: "string \<Rightarrow> string \<Rightarrow> string list \<Rightarrow> string list" where
  "copy_addresses node dest_node offered = (if node = dest_node then [LOOPBACK] else offered)"

section \<open>The manifest\<close>

type_synonym path = "string list"
type_synonym byte = "8 word"

datatype entry_kind = Folder | Regular

record copy_entry =
  en_rel :: string
  en_kind :: entry_kind
  en_size :: nat
  en_mode :: int
  en_mtime :: int

definition checked_rel :: "string \<Rightarrow> string fallible" where
  "checked_rel rel =
     (if starts_with ''/'' rel \<or> (\<exists>part\<in>set (split_on CHR ''/'' rel). part \<in> {[], ''..'', ''.''}) then Inl CopyError else Inr rel)"

section \<open>Chunks and frames\<close>

definition chunks_of :: "nat \<Rightarrow> nat \<Rightarrow> (nat \<times> nat \<times> nat) list" where
  "chunks_of index len =
     map (\<lambda>k. (index, k * CHUNK_BYTES, min CHUNK_BYTES (len - k * CHUNK_BYTES))) [0..<(len + CHUNK_BYTES - 1) div CHUNK_BYTES]"

definition plan_chunks :: "nat list \<Rightarrow> copy_entry list \<Rightarrow> (nat \<times> nat \<times> nat) list" where
  "plan_chunks need entries = concat (map (\<lambda>index. chunks_of index (en_size (entries ! index))) need)"

record frame =
  fr_index :: nat
  fr_offset :: nat
  fr_length :: nat
  fr_digest :: "byte list"
  fr_data :: "byte list"

text \<open>\<open>struct\<close>: unsigned numbers of a width, the least significant byte first.\<close>

fun le_bytes :: "nat \<Rightarrow> nat \<Rightarrow> byte list" where
  "le_bytes 0 n = []"
| "le_bytes (Suc k) n = word_of_nat n # le_bytes k (n div 256)"

fun le_value :: "byte list \<Rightarrow> nat" where
  "le_value [] = 0"
| "le_value (b # bs) = unat b + 256 * le_value bs"

definition frame_bytes :: "frame \<Rightarrow> byte list" where
  "frame_bytes f = le_bytes 4 (fr_index f) @ le_bytes 8 (fr_offset f) @ le_bytes 4 (fr_length f) @ fr_digest f @ fr_data f"

text \<open>
  What \<open>send_stream\<close> sends for a chunk of a file. A read returns at least one of the bytes that are
  there, and \<open>counts\<close> says how many; none are there when the file shrank.
\<close>

function read_loop :: "(nat \<Rightarrow> nat) \<Rightarrow> byte list \<Rightarrow> nat \<Rightarrow> nat \<Rightarrow> nat \<Rightarrow> byte list \<Rightarrow> byte list fallible" where
  "read_loop counts content offset request length_wanted view =
     (if length view \<ge> length_wanted then Inr view
      else
        let there = take (request - length view) (drop (offset + length view) content) in
        if there = [] then Inl CopyError
        else read_loop counts content offset request length_wanted
               (view @ take (max 1 (counts (offset + length view))) there))"
  by pat_completeness auto
termination
  by (relation "measure (\<lambda>(_, _, _, _, wanted, view). wanted - length view)") (auto simp: Let_def)

definition send_chunk :: "(byte list \<Rightarrow> byte list) \<Rightarrow> (nat \<Rightarrow> nat) \<Rightarrow> bool \<Rightarrow> byte list \<Rightarrow> nat \<times> nat \<times> nat \<Rightarrow> frame fallible" where
  "send_chunk sha counts direct content item =
     (case item of (index, offset, len) \<Rightarrow>
      bind_result (read_loop counts content offset (if direct then nat (align_up (int len)) else len) len [])
        (\<lambda>view. Inr \<lparr>fr_index = index, fr_offset = offset, fr_length = len, fr_digest = sha (take len view), fr_data = take len view\<rparr>))"

text \<open>
  A connection delivers its bytes in segments: \<open>recv_into\<close> returns at most one of them, nothing when
  the other side has closed.
\<close>

fun recv :: "nat \<Rightarrow> byte list list \<Rightarrow> byte list \<times> byte list list" where
  "recv n [] = ([], [])"
| "recv n (seg # segs) =
     (if seg = [] then recv n segs
      else (take n seg, if length seg \<le> n then segs else drop n seg # segs))"

function recv_exact :: "nat \<Rightarrow> byte list list \<Rightarrow> (byte list \<times> byte list list) fallible" where
  "recv_exact n segs =
     (if n = 0 then Inr ([], segs)
      else case recv n segs of (got, rest) \<Rightarrow>
        if got = [] then Inl CopyError
        else bind_result (recv_exact (n - length got) rest) (\<lambda>(more, rest'). Inr (got @ more, rest')))"
  by pat_completeness auto
termination
  by (relation "measure fst") auto

definition FRAME_SIZE :: nat where "FRAME_SIZE = 48"

text \<open>One turn of the loop of \<open>receive_stream\<close>, up to the write: \<open>None\<close> when the stream has ended.\<close>

definition read_frame :: "(byte list \<Rightarrow> byte list) \<Rightarrow> byte list list \<Rightarrow> (frame \<times> byte list list) option fallible" where
  "read_frame sha segs =
     (case recv FRAME_SIZE segs of (first, rest) \<Rightarrow>
      if first = [] then Inr None
      else bind_result (recv_exact (FRAME_SIZE - length first) rest) (\<lambda>(more, rest).
        let head = first @ more; index = le_value (take 4 head); offset = le_value (take 8 (drop 4 head));
            len = le_value (take 4 (drop 12 head)); digest = drop 16 head
        in if CHUNK_BYTES < len then Inl CopyError
           else bind_result (recv_exact len rest) (\<lambda>(data, rest).
             if sha data \<noteq> digest then Inl CopyError
             else Inr (Some (\<lparr>fr_index = index, fr_offset = offset, fr_length = len, fr_digest = digest, fr_data = data\<rparr>, rest)))))"

text \<open>A connection is accepted when the first bytes it presents are the token.\<close>

fun accept_verified :: "byte list \<Rightarrow> byte list list list \<Rightarrow> (byte list list \<times> byte list list list) option" where
  "accept_verified token [] = None"
| "accept_verified token (sock # others) =
     (case recv_exact (length token) sock of
        Inr (presented, rest) \<Rightarrow> if presented = token then Some (rest, others) else accept_verified token others
      | Inl _ \<Rightarrow> accept_verified token others)"

section \<open>The receiving machine\<close>

text \<open>
  Its file system, and what it answers: whether a file can be opened for direct I/O, the free bytes
  at a path, the sizes it reports for things that are no files, and the mode and time of what it
  creates.
\<close>

datatype node =
    File_node "byte list" int int
  | Dir_node int int
  | Other_node

record os_facts =
  os_direct :: "path \<Rightarrow> bool"
  os_free :: "path \<Rightarrow> int"
  os_size :: "path \<Rightarrow> int"
  os_dir_mode :: int
  os_clock :: int

record pending_file =
  ps_path :: path
  ps_temp :: path
  ps_open :: bool
  ps_direct :: bool
  ps_remaining :: int

text \<open>
  \<open>rc_states\<close> holds the dictionary made for each needed file, which threads keep a reference to
  after it is no longer pending; \<open>rc_pending\<close> the keys of \<open>self.pending\<close>.
\<close>

record receiver =
  disk :: "(path, node) dict"
  rc_entries :: "copy_entry list"
  rc_suffix :: string
  rc_dest :: path
  rc_into :: bool
  rc_pending :: "nat list"
  rc_states :: "(nat, pending_file) dict"
  rc_dirs :: "(path \<times> copy_entry) list"

definition isdir :: "(path, node) dict \<Rightarrow> path \<Rightarrow> bool" where
  "isdir d p \<longleftrightarrow> p = [] \<or> (case dget d p of Some (Dir_node _ _) \<Rightarrow> True | _ \<Rightarrow> False)"

definition receiver_init :: "path \<Rightarrow> bool \<Rightarrow> copy_entry list \<Rightarrow> string \<Rightarrow> (path, node) dict \<Rightarrow> receiver" where
  "receiver_init dest slash entries token d =
     \<lparr>disk = d, rc_entries = entries, rc_suffix = take 8 token, rc_dest = dest,
      rc_into = (1 < length (filter (\<lambda>entry. CHR ''/'' \<notin> set (en_rel entry)) entries) \<or> slash \<or> isdir d dest),
      rc_pending = [], rc_states = [], rc_dirs = []\<rparr>"

definition target :: "receiver \<Rightarrow> string \<Rightarrow> path fallible" where
  "target r rel =
     bind_result (checked_rel rel) (\<lambda>rel.
       let parts = split_on CHR ''/'' rel in Inr (rc_dest r @ (if rc_into r then parts else tl parts)))"

definition unchanged :: "(path, node) dict \<Rightarrow> path \<Rightarrow> copy_entry \<Rightarrow> bool" where
  "unchanged d p entry \<longleftrightarrow>
     (case dget d p of Some (File_node content _ mtime) \<Rightarrow> length content = en_size entry \<and> mtime = en_mtime entry | _ \<Rightarrow> False)"

definition makedir :: "os_facts \<Rightarrow> path \<Rightarrow> (receiver, unit) op" where
  "makedir os p =
     bind_op (gets disk) (\<lambda>d.
       if isdir d p then ret ()
       else if dget d p = None then modify (\<lambda>r. r\<lparr>disk := dset p (Dir_node (os_dir_mode os) (os_clock os)) (disk r)\<rparr>)
       else raise OSError)"

definition makedirs :: "os_facts \<Rightarrow> path \<Rightarrow> (receiver, unit) op" where
  "makedirs os p = each (\<lambda>n. makedir os (take n p)) [1..<Suc (length p)]"

definition temp_path :: "string \<Rightarrow> nat \<Rightarrow> path \<Rightarrow> path" where
  "temp_path suffix index p = butlast p @ [''.sparkcp-'' @ suffix @ ''-'' @ nat_text index]"

definition lstat_size :: "os_facts \<Rightarrow> (path, node) dict \<Rightarrow> path \<Rightarrow> int" where
  "lstat_size os d p = (case dget d p of None \<Rightarrow> 0 | Some (File_node content _ _) \<Rightarrow> int (length content) | Some _ \<Rightarrow> os_size os p)"

definition check_space :: "os_facts \<Rightarrow> path list \<Rightarrow> (receiver, unit) op" where
  "check_space os paths =
     bind_op (gets (\<lambda>r. r)) (\<lambda>r.
       let needed = sum_list (map (\<lambda>(index, p). int (en_size (rc_entries r ! index)) - lstat_size os (disk r) p) (zip (rc_pending r) paths));
           probe = (if isdir (disk r) (rc_dest r) then rc_dest r else butlast (rc_dest r))
       in require (needed \<le> os_free os probe) CopyError)"

definition state_of :: "receiver \<Rightarrow> nat \<Rightarrow> pending_file" where
  "state_of r index = (case dget (rc_states r) index of Some s \<Rightarrow> s
     | None \<Rightarrow> \<lparr>ps_path = [], ps_temp = [], ps_open = False, ps_direct = False, ps_remaining = 0\<rparr>)"

definition put_state :: "nat \<Rightarrow> pending_file \<Rightarrow> receiver \<Rightarrow> receiver" where
  "put_state index s r = r\<lparr>rc_states := dset index s (rc_states r)\<rparr>"

definition size_of :: "receiver \<Rightarrow> nat \<Rightarrow> nat" where
  "size_of r index = en_size (rc_entries r ! index)"

text \<open>
  Opening creates the temporary file with its full size, of zeros; from 64 MiB on for direct I/O
  when the machine offers it.
\<close>

definition create_temp :: "os_facts \<Rightarrow> nat \<Rightarrow> pending_file \<Rightarrow> receiver \<Rightarrow> receiver" where
  "create_temp os index s r =
     (let size = size_of r index;
          mode = (case dget (disk r) (ps_temp s) of Some (File_node _ m _) \<Rightarrow> m | _ \<Rightarrow> 384)
      in put_state index (s\<lparr>ps_open := True, ps_direct := (DIRECT_MIN_BYTES \<le> size \<and> os_direct os (ps_temp s))\<rparr>)
           (r\<lparr>disk := dset (ps_temp s) (File_node (replicate size 0) mode (os_clock os)) (disk r)\<rparr>))"

definition open_file :: "os_facts \<Rightarrow> nat \<Rightarrow> (receiver, unit) op" where
  "open_file os index =
     bind_op (gets (\<lambda>r. r)) (\<lambda>r.
       let s = state_of r index in
       if index \<notin> set (rc_pending r) then raise CopyError
       else if ps_open s then ret ()
       else if isdir (disk r) (ps_temp s) \<or> \<not> isdir (disk r) (butlast (ps_temp s)) then raise OSError
       else modify (create_temp os index s))"

text \<open>Bytes written at an offset; the gap before it, if any, is zeros.\<close>

definition overwrite :: "byte list \<Rightarrow> nat \<Rightarrow> byte list \<Rightarrow> byte list" where
  "overwrite content offset data =
     take offset (content @ replicate (offset - length content) 0) @ data @ drop (offset + length data) content"

definition pwrite :: "nat \<Rightarrow> nat \<Rightarrow> byte list \<Rightarrow> (receiver, unit) op" where
  "pwrite index offset data =
     bind_op (gets (\<lambda>r. (ps_open (state_of r index), ps_temp (state_of r index), disk r))) (\<lambda>(opened, temp, d).
       case dget d temp of
         Some (File_node content mode mtime) \<Rightarrow>
           if opened then modify (\<lambda>r. r\<lparr>disk := dset temp (File_node (overwrite content offset data) mode mtime) (disk r)\<rparr>) else raise OSError
       | _ \<Rightarrow> raise OSError)"

text \<open>The sections of \<open>write\<close>: what it does before the first byte is written, and the count after the last.\<close>

definition write_buffer :: "receiver \<Rightarrow> frame \<Rightarrow> byte list" where
  "write_buffer r f =
     (let size = (if ps_direct (state_of r (fr_index f)) then nat (align_up (int (fr_length f))) else fr_length f)
      in fr_data f @ replicate (size - fr_length f) 0)"

definition write_begin :: "os_facts \<Rightarrow> frame \<Rightarrow> (receiver, byte list) op" where
  "write_begin os f =
     seq_op (open_file os (fr_index f))
       (bind_op (gets (\<lambda>r. r)) (\<lambda>r.
          if size_of r (fr_index f) < fr_offset f + fr_length f then raise CopyError else ret (write_buffer r f)))"

definition count_down :: "nat \<Rightarrow> nat \<Rightarrow> (receiver, bool) op" where
  "count_down index len =
     bind_op (gets (\<lambda>r. (state_of r index)\<lparr>ps_remaining := ps_remaining (state_of r index) - int len\<rparr>)) (\<lambda>s.
       seq_op (modify (put_state index s)) (ret (ps_remaining s = 0)))"

text \<open>The sections of \<open>finalize\<close>: mode and time, closing; the rename; no longer pending.\<close>

definition seal :: "nat \<Rightarrow> (receiver, unit) op" where
  "seal index =
     bind_op (gets (\<lambda>r. r)) (\<lambda>r.
       let s = state_of r index; entry = rc_entries r ! index; size = en_size entry in
       if index \<notin> set (rc_pending r) then raise KeyError
       else seq_op (modify (put_state index (s\<lparr>ps_open := False\<rparr>)))
         (case dget (disk r) (ps_temp s) of
            Some (File_node content _ _) \<Rightarrow>
              if ps_open s
              then modify (\<lambda>r. r\<lparr>disk := dset (ps_temp s)
                     (File_node (if ps_direct s then take size (content @ replicate (size - length content) 0) else content) (en_mode entry) (en_mtime entry)) (disk r)\<rparr>)
              else raise OSError
          | _ \<Rightarrow> raise OSError))"

definition rename :: "nat \<Rightarrow> (receiver, unit) op" where
  "rename index =
     bind_op (gets (\<lambda>r. r)) (\<lambda>r.
       let s = state_of r index in
       case dget (disk r) (ps_temp s) of
         None \<Rightarrow> raise OSError
       | Some n \<Rightarrow> if isdir (disk r) (ps_path s) then raise OSError
                  else modify (\<lambda>r. r\<lparr>disk := dset (ps_path s) n (ddel (ps_temp s) (disk r))\<rparr>))"

definition forget :: "nat \<Rightarrow> (receiver, unit) op" where
  "forget index =
     bind_op (gets rc_pending) (\<lambda>p.
       if index \<in> set p then modify (\<lambda>r. r\<lparr>rc_pending := remove1 index (rc_pending r)\<rparr>) else raise KeyError)"

definition finalize :: "nat \<Rightarrow> (receiver, unit) op" where
  "finalize index = seq_op (seal index) (seq_op (rename index) (forget index))"

text \<open>\<open>plan\<close>: the folders, the files that are needed, the space they need, and the empty files.\<close>

definition plan_entry :: "os_facts \<Rightarrow> nat \<times> copy_entry \<Rightarrow> (receiver, (nat \<times> path) list) op" where
  "plan_entry os = (\<lambda>(index, entry).
     bind_op (gets (\<lambda>r. target r (en_rel entry))) (\<lambda>found. bind_op (lift found) (\<lambda>p.
       bind_op (gets (\<lambda>r. (disk r, rc_suffix r))) (\<lambda>(d, suffix).
         if en_kind entry = Folder
         then seq_op (makedirs os p) (seq_op (modify (\<lambda>r. r\<lparr>rc_dirs := rc_dirs r @ [(p, entry)]\<rparr>)) (ret []))
         else if unchanged d p entry then ret []
         else seq_op (makedirs os (butlast p))
             (seq_op (modify (\<lambda>r. put_state index \<lparr>ps_path = p, ps_temp = temp_path suffix index p, ps_open = False, ps_direct = False,
                                  ps_remaining = int (en_size entry)\<rparr> (r\<lparr>rc_pending := rc_pending r @ [index]\<rparr>)))
                     (ret [(index, p)]))))))"

definition plan_copy :: "os_facts \<Rightarrow> (receiver, nat list) op" where
  "plan_copy os =
     bind_op (gets (\<lambda>r. r)) (\<lambda>r.
       seq_op (makedirs os (if rc_into r then rc_dest r else butlast (rc_dest r)))
      (bind_op (map_op (plan_entry os) (List.enumerate 0 (rc_entries r))) (\<lambda>planned.
         let need = map fst (concat planned) in
         seq_op (check_space os (map snd (concat planned)))
        (seq_op (each (\<lambda>index. seq_op (open_file os index) (finalize index)) (filter (\<lambda>index. en_size (rc_entries r ! index) = 0) need))
                (ret need)))))"

definition finish_copy :: "(receiver, unit) op" where
  "finish_copy =
     bind_op (gets (\<lambda>r. r)) (\<lambda>r.
       seq_op (require (rc_pending r = []) CopyError)
              (each (\<lambda>(p, entry).
                 bind_op (gets disk) (\<lambda>d.
                   case dget d p of
                     None \<Rightarrow> raise OSError
                   | Some (Dir_node _ _) \<Rightarrow> modify (\<lambda>r. r\<lparr>disk := dset p (Dir_node (en_mode entry) (en_mtime entry)) (disk r)\<rparr>)
                   | Some (File_node content _ _) \<Rightarrow> modify (\<lambda>r. r\<lparr>disk := dset p (File_node content (en_mode entry) (en_mtime entry)) (disk r)\<rparr>)
                   | Some Other_node \<Rightarrow> ret ())) (rev (rc_dirs r))))"

text \<open>\<open>abort\<close> closes and removes every temporary file; errors of the calls are ignored.\<close>

definition abort_one :: "nat \<Rightarrow> receiver \<Rightarrow> receiver" where
  "abort_one index r =
     (let temp = ps_temp (state_of r index) in if isdir (disk r) temp then r else r\<lparr>disk := ddel temp (disk r)\<rparr>)"

definition abort :: "(receiver, unit) op" where
  "abort = modify (\<lambda>r. (fold abort_one (rc_pending r) r)\<lparr>rc_pending := []\<rparr>)"

text \<open>The number of connections, and what the sender reports at the end.\<close>

definition stream_count :: "receiver \<Rightarrow> nat" where
  "stream_count r = (if rc_pending r = [] then 0 else STREAMS)"

definition total_bytes :: "nat list \<Rightarrow> copy_entry list \<Rightarrow> nat" where
  "total_bytes need entries = sum_list (map (\<lambda>index. en_size (entries ! index)) need)"

definition unchanged_files :: "nat list \<Rightarrow> copy_entry list \<Rightarrow> int" where
  "unchanged_files need entries = int (length (filter (\<lambda>entry. en_kind entry = Regular) entries)) - int (length need)"

end
