(* ===== verification/Copy_Wire.thy ===== *)
theory Copy_Wire
  imports Copy
begin

text \<open>
  What goes over the wire of the copying tool: the chunks of a file cover it exactly, a frame read
  from a connection is the frame that was sent, however its bytes were cut into segments, and a
  name of the manifest never leads out of the destination.
\<close>

section \<open>Chunks\<close>

lemma align_up_eq: "align_up v = (v + 4095) div 4096 * 4096"
proof -
  have m: "(4095::int) = mask 12" by (simp add: mask_eq_exp_minus_1)
  have "align_up v = (v + 4095) AND NOT (mask 12)"
    by (simp add: align_up_def ALIGN_BYTES_def add.commute flip: m)
  also have "\<dots> = push_bit 12 (drop_bit 12 (v + 4095))"
    by (rule bit_eqI) (auto simp: bit_simps)
  also have "\<dots> = (v + 4095) div 4096 * 4096"
    by (simp add: push_bit_eq_mult drop_bit_eq_div)
  finally show ?thesis .
qed

lemma align_up_bounds: "v \<le> align_up v" "align_up v < v + 4096" "4096 dvd align_up v"
proof -
  have "(v + 4095) div 4096 * 4096 + (v + 4095) mod 4096 = v + 4095" by (rule div_mult_mod_eq)
  moreover have "0 \<le> (v + 4095) mod 4096" "(v + 4095) mod 4096 < 4096" by simp_all
  ultimately show "v \<le> align_up v" "align_up v < v + 4096" "4096 dvd align_up v" unfolding align_up_eq by (linarith, linarith, simp)
qed

lemma align_up_fixes: "4096 dvd v \<Longrightarrow> align_up v = v"
  unfolding align_up_eq by (auto elim!: dvdE)

lemma CHUNK_BYTES_pos [simp]: "0 < CHUNK_BYTES"
  by (simp add: CHUNK_BYTES_def)

lemma chunk_of_iff:
  "(i, off, len) \<in> set (chunks_of index n) \<longleftrightarrow>
     i = index \<and> CHUNK_BYTES dvd off \<and> off < n \<and> len = min CHUNK_BYTES (n - off)"
proof -
  have "k < (n + CHUNK_BYTES - 1) div CHUNK_BYTES \<longleftrightarrow> k * CHUNK_BYTES < n" for k
  proof -
    have "k < (n + CHUNK_BYTES - 1) div CHUNK_BYTES \<longleftrightarrow> Suc k * CHUNK_BYTES \<le> n + CHUNK_BYTES - 1"
      using CHUNK_BYTES_pos by (metis less_eq_div_iff_mult_less_eq Suc_le_eq)
    also have "\<dots> \<longleftrightarrow> k * CHUNK_BYTES < n" using CHUNK_BYTES_pos by (simp add: less_eq_Suc_le, linarith)
    finally show ?thesis .
  qed
  then have "(i, off, len) \<in> set (chunks_of index n) \<longleftrightarrow> (\<exists>k. i = index \<and> off = k * CHUNK_BYTES \<and> len = min CHUNK_BYTES (n - off) \<and> k * CHUNK_BYTES < n)"
    unfolding chunks_of_def by auto
  then show ?thesis unfolding dvd_def by (metis mult.commute)
qed

lemma chunk_facts:
  assumes "(i, off, len) \<in> set (chunks_of index n)"
  shows "0 < len" "off + len \<le> n" "len \<le> CHUNK_BYTES" "4096 dvd len \<or> off + len = n"
proof -
  have "(4096::nat) dvd CHUNK_BYTES" by (simp add: CHUNK_BYTES_def)
  then show "0 < len" "off + len \<le> n" "len \<le> CHUNK_BYTES" "4096 dvd len \<or> off + len = n"
    using assms by (auto simp: chunk_of_iff min_def)
qed

lemma chunk_covers:
  assumes "p < n"
  shows "\<exists>off len. (index, off, len) \<in> set (chunks_of index n) \<and> off \<le> p \<and> p < off + len"
proof -
  let ?off = "p div CHUNK_BYTES * CHUNK_BYTES"
  have "?off \<le> p" by simp
  moreover have "?off < n" using assms \<open>?off \<le> p\<close> by linarith
  moreover have "p < ?off + CHUNK_BYTES" using CHUNK_BYTES_pos by (metis add.commute dividend_less_div_times)
  ultimately have "(index, ?off, min CHUNK_BYTES (n - ?off)) \<in> set (chunks_of index n) \<and> ?off \<le> p
      \<and> p < ?off + min CHUNK_BYTES (n - ?off)"
    using assms by (auto simp: chunk_of_iff)
  then show ?thesis by blast
qed

lemma sum_chunk_lengths: "sum_list (map (\<lambda>(i, off, len). len) (chunks_of index n)) = n"
proof -
  let ?c = CHUNK_BYTES
  have "sum_list (map (\<lambda>k. min ?c (n - k * ?c)) [0..<m]) = min n (m * ?c)" for m
    by (induction m) auto
  moreover have "n \<le> (n + ?c - 1) div ?c * ?c"
  proof -
    have "n + ?c - 1 < (n + ?c - 1) div ?c * ?c + ?c"
      using CHUNK_BYTES_pos dividend_less_div_times by (metis add.commute)
    then show ?thesis by linarith
  qed
  ultimately show ?thesis by (simp add: chunks_of_def comp_def)
qed

section \<open>Reading a connection\<close>

lemma recv_spec:
  assumes "recv n segs = (got, rest)"
  shows "concat segs = got @ concat rest" "length got \<le> n" "got = [] \<Longrightarrow> 0 < n \<Longrightarrow> concat segs = []"
  using assms by (induction segs) (auto split: if_splits)

declare recv_exact.simps [simp del] read_loop.simps [simp del]

lemma recv_exact_spec:
  assumes "recv_exact n segs = Inr (got, rest)"
  shows "concat segs = got @ concat rest \<and> length got = n"
  using assms
proof (induction n segs arbitrary: got rest rule: recv_exact.induct)
  case (1 n segs)
  obtain first rest1 where first: "recv n segs = (first, rest1)" by (cases "recv n segs")
  show ?case
  proof (cases "n = 0")
    case True
    then show ?thesis using "1.prems" by (simp add: recv_exact.simps [of 0])
  next
    case False
    then have ne: "first \<noteq> []" using "1.prems" first by (auto simp: recv_exact.simps [of n segs])
    then obtain more where more: "recv_exact (n - length first) rest1 = Inr (more, rest)" "got = first @ more"
      using "1.prems" False first by (auto simp: recv_exact.simps [of n segs] bind_result_Inr)
    from "1.IH" [OF False first [symmetric] ne more(1)] recv_spec(1,2) [OF first] more(2) show ?thesis by simp
  qed
qed

lemma recv_exact_enough:
  assumes "n \<le> length (concat segs)"
  shows "\<exists>rest. recv_exact n segs = Inr (take n (concat segs), rest) \<and> concat rest = drop n (concat segs)"
  using assms
proof (induction n segs rule: recv_exact.induct)
  case (1 n segs)
  obtain first rest1 where first: "recv n segs = (first, rest1)" by (cases "recv n segs")
  note spec = recv_spec [OF first]
  show ?case
  proof (cases "n = 0")
    case False
    then have ne: "first \<noteq> []" using spec(3) "1.prems" by (metis le_zero_eq list.size(3) neq0_conv)
    have "n - length first \<le> length (concat rest1)" using "1.prems" spec(1) by simp
    from "1.IH" [OF False first [symmetric] ne this] obtain rest where
      "recv_exact (n - length first) rest1 = Inr (take (n - length first) (concat rest1), rest)" "concat rest = drop (n - length first) (concat rest1)"
      by blast
    then show ?thesis using False first ne spec by (simp add: recv_exact.simps [of n segs])
  qed (simp add: recv_exact.simps [of 0])
qed

lemma le_bytes_spec [simp]: "length (le_bytes k n) = k"
  by (induction k arbitrary: n) auto

lemma le_roundtrip: "n < 256 ^ k \<Longrightarrow> le_value (le_bytes k n) = n"
proof (induction k arbitrary: n)
  case (Suc k)
  then have "n div 256 < 256 ^ k" by (simp add: less_mult_imp_div_less mult.commute)
  with Suc.IH show ?case by (simp add: unat_of_nat)
qed simp

section \<open>Frames\<close>

text \<open>What the sender's frames are like: \<open>struct\<close> packs numbers of these widths only.\<close>

definition packable :: "(byte list \<Rightarrow> byte list) \<Rightarrow> frame \<Rightarrow> bool" where
  "packable sha f \<longleftrightarrow> fr_index f < 2 ^ 32 \<and> fr_offset f < 2 ^ 64 \<and> fr_length f = length (fr_data f) \<and> fr_length f \<le> CHUNK_BYTES
     \<and> fr_digest f = sha (fr_data f) \<and> length (fr_digest f) = 32"

lemma read_frame_packed:
  assumes f: "packable sha f" and segs: "concat segs = frame_bytes f @ tail"
  shows "\<exists>rest. read_frame sha segs = Inr (Some (f, rest)) \<and> concat rest = tail"
proof -
  let ?head = "le_bytes 4 (fr_index f) @ le_bytes 8 (fr_offset f) @ le_bytes 4 (fr_length f) @ fr_digest f"
  obtain first rest1 where first: "recv FRAME_SIZE segs = (first, rest1)" by (cases "recv FRAME_SIZE segs")
  note spec = recv_spec [OF first]
  have head: "length ?head = FRAME_SIZE" using f unfolding packable_def FRAME_SIZE_def by (elim conjE) (simp del: length_greater_0_conv)
  have whole: "first @ concat rest1 = ?head @ fr_data f @ tail" using spec(1) segs by (simp add: frame_bytes_def)
  have "0 < FRAME_SIZE" by (simp add: FRAME_SIZE_def)
  then have ne: "first \<noteq> []" using spec(3) segs head by (auto simp: frame_bytes_def FRAME_SIZE_def)
  have len: "length first + length (concat rest1) = FRAME_SIZE + length (fr_data f @ tail)"
    using arg_cong [OF whole, of length] head by (simp only: length_append)
  then have "FRAME_SIZE - length first \<le> length (concat rest1)" by linarith
  from recv_exact_enough [OF this] obtain rest2 where rest2:
    "recv_exact (FRAME_SIZE - length first) rest1 = Inr (take (FRAME_SIZE - length first) (concat rest1), rest2)"
    "concat rest2 = drop (FRAME_SIZE - length first) (concat rest1)" by blast
  have "first @ take (FRAME_SIZE - length first) (concat rest1) = take FRAME_SIZE (first @ concat rest1)" using spec(2) by simp
  also have "\<dots> = ?head" unfolding whole using head by simp
  finally have got: "first @ take (FRAME_SIZE - length first) (concat rest1) = ?head" .
  have "concat rest2 = drop FRAME_SIZE (first @ concat rest1)" using rest2(2) spec(2) by simp
  then have "concat rest2 = fr_data f @ tail" unfolding whole using head by simp
  moreover from this have "fr_length f \<le> length (concat rest2)" using f by (simp add: packable_def)
  ultimately obtain rest3 where rest3: "recv_exact (fr_length f) rest2 = Inr (fr_data f, rest3)" "concat rest3 = tail"
    using recv_exact_enough [of "fr_length f" rest2] f by (auto simp: packable_def)
  have "fr_length f < 256 ^ 4" using f by (simp add: packable_def CHUNK_BYTES_def)
  moreover have "fr_index f < 256 ^ 4" "fr_offset f < 256 ^ 8" using f by (simp_all add: packable_def)
  ultimately have fields: "le_value (take 4 ?head) = fr_index f" "le_value (take 8 (drop 4 ?head)) = fr_offset f"
    "le_value (take 4 (drop 12 ?head)) = fr_length f" "drop 16 ?head = fr_digest f"
    by (simp_all add: le_roundtrip)
  have "\<not> CHUNK_BYTES < fr_length f" "sha (fr_data f) = fr_digest f" using f by (simp_all add: packable_def)
  with first ne rest2(1) rest3(1) have "read_frame sha segs = Inr (Some (f, rest3))"
    unfolding read_frame_def Let_def by (simp only: prod.case if_False got bind_result_simps fields simp_thms) (simp add: fields)
  with rest3(2) show ?thesis by blast
qed

text \<open>A frame that is taken takes bytes off the connection and carries the data its digest was made of.\<close>

lemma read_frame_Some:
  assumes "read_frame sha segs = Inr (Some (f, rest))"
  shows "length (concat rest) < length (concat segs)" "fr_digest f = sha (fr_data f)" "fr_length f = length (fr_data f)" "fr_length f \<le> CHUNK_BYTES"
proof -
  obtain first rest1 where first: "recv FRAME_SIZE segs = (first, rest1)" by (cases "recv FRAME_SIZE segs")
  obtain more rest2 data where parts: "first \<noteq> []" "recv_exact (FRAME_SIZE - length first) rest1 = Inr (more, rest2)"
      "recv_exact (fr_length f) rest2 = Inr (data, rest)" "fr_data f = data" "sha data = fr_digest f" "fr_length f \<le> CHUNK_BYTES"
    using assms first unfolding read_frame_def Let_def by (auto simp: bind_result_Inr split: if_splits)
  then show "fr_digest f = sha (fr_data f)" "fr_length f = length (fr_data f)" "fr_length f \<le> CHUNK_BYTES"
    using recv_exact_spec [OF parts(3)] by auto
  have "concat segs = first @ more @ data @ concat rest"
    using recv_spec(1) [OF first] recv_exact_spec [OF parts(2)] recv_exact_spec [OF parts(3)] by simp
  then show "length (concat rest) < length (concat segs)" using parts(1) by simp
qed

text \<open>
  The loop of \<open>receive_stream\<close>: the frames it hands to \<open>write\<close> when every write returns, and the
  exception it ends with, if any.
\<close>

function receive_frames :: "(byte list \<Rightarrow> byte list) \<Rightarrow> byte list list \<Rightarrow> frame list \<times> exn option" where
  "receive_frames sha segs =
     (case read_frame sha segs of
        Inl e \<Rightarrow> ([], Some e)
      | Inr None \<Rightarrow> ([], None)
      | Inr (Some (f, rest)) \<Rightarrow> (case receive_frames sha rest of (fs, end) \<Rightarrow> (f # fs, end)))"
  by pat_completeness auto
termination
  by (relation "measure (\<lambda>(sha, segs). length (concat segs))") (auto dest: read_frame_Some(1))

declare receive_frames.simps [simp del]

lemma receive_frames_sent:
  assumes "\<forall>f\<in>set fs. packable sha f" "concat segs = concat (map frame_bytes fs)"
  shows "receive_frames sha segs = (fs, None)"
  using assms
proof (induction fs arbitrary: segs)
  case Nil
  then have "concat segs = []" by simp
  moreover obtain got rest where r: "recv FRAME_SIZE segs = (got, rest)" by (cases "recv FRAME_SIZE segs")
  ultimately have "got = []" using recv_spec(1) [OF r] by simp
  with r have "read_frame sha segs = Inr None" by (simp add: read_frame_def)
  then show ?case by (simp add: receive_frames.simps [of sha segs])
next
  case (Cons f fs)
  then obtain rest where "read_frame sha segs = Inr (Some (f, rest))" "concat rest = concat (map frame_bytes fs)"
    using read_frame_packed [of sha f segs "concat (map frame_bytes fs)"] by auto
  then show ?case using Cons.IH [of rest] Cons.prems(1) by (simp add: receive_frames.simps [of sha segs])
qed

section \<open>Reading a file\<close>

lemma read_loop_enough:
  assumes "view = take (length view) (drop offset content)" "wanted \<le> request" "offset + wanted \<le> length content"
  shows "\<exists>v. read_loop counts content offset request wanted view = Inr v \<and> take wanted v = take wanted (drop offset content)"
  using assms
proof (induction counts content offset request wanted view rule: read_loop.induct)
  case (1 counts content offset request wanted view)
  show ?case
  proof (cases "wanted \<le> length view")
    case True
    then have "take wanted view = take wanted (drop offset content)"
      using "1.prems"(1) by (metis min.absorb1 take_take)
    with True show ?thesis by (simp add: read_loop.simps [of counts content offset request wanted view])
  next
    case False
    let ?there = "take (request - length view) (drop (offset + length view) content)"
    let ?n = "max 1 (counts (offset + length view))"
    have ne: "?there \<noteq> []" using False "1.prems"(2,3) by auto
    have "take ?n ?there = take (min ?n (request - length view)) (drop (length view) (drop offset content))"
      by (simp add: add.commute)
    then have grow: "view @ take ?n ?there = take (length view + min ?n (request - length view)) (drop offset content)"
      using "1.prems"(1) by (metis take_add)
    then have "view @ take ?n ?there = take (length (view @ take ?n ?there)) (drop offset content)"
      by (metis append_take_drop_id append_eq_conv_conj)
    from "1.IH" [OF False refl ne this "1.prems"(2,3)] False ne show ?thesis
      by (simp add: read_loop.simps [of counts content offset request wanted view])
  qed
qed

text \<open>The frame of a chunk of a file that holds \<open>content\<close>.\<close>

definition chunk_frame :: "(byte list \<Rightarrow> byte list) \<Rightarrow> (nat \<Rightarrow> byte list) \<Rightarrow> nat \<times> nat \<times> nat \<Rightarrow> frame" where
  "chunk_frame sha source = (\<lambda>(index, offset, len).
     let data = take len (drop offset (source index))
     in \<lparr>fr_index = index, fr_offset = offset, fr_length = len, fr_digest = sha data, fr_data = data\<rparr>)"

lemma send_chunk_frame:
  assumes "offset + len \<le> length (source index)"
  shows "send_chunk sha counts direct (source index) (index, offset, len) = Inr (chunk_frame sha source (index, offset, len))"
proof -
  have "len \<le> (if direct then nat (align_up (int len)) else len)" using align_up_bounds(1) [of "int len"] by auto
  from read_loop_enough [of "[]" _ _ _ _ counts, OF _ this assms] obtain v where
    "read_loop counts (source index) offset (if direct then nat (align_up (int len)) else len) len [] = Inr v"
    "take len v = take len (drop offset (source index))" by auto
  then show ?thesis by (simp add: send_chunk_def chunk_frame_def Let_def)
qed

lemma packable_chunk_frame:
  assumes "(index, offset, len) \<in> set (chunks_of index (length (source index)))" "index < 2 ^ 32" "length (source index) \<le> 2 ^ 64"
    "\<And>data. length (sha data) = 32"
  shows "packable sha (chunk_frame sha source (index, offset, len))"
proof -
  note facts = chunk_facts [OF assms(1)]
  have "offset < 2 ^ 64" using facts(1,2) assms(3) by linarith
  then show ?thesis using facts assms(2,4) by (simp add: packable_def chunk_frame_def Let_def)
qed

text \<open>
  C24. What is sent arrives: for any chunks of the plan that a connection is given, the frames made by
  reading the files, however many bytes each read returns and with direct I/O or without, are
  exactly the frames the receiver takes off the connection, however the network cuts the bytes into
  segments; the stream then ends without an error.\<close>

theorem frames_arrive:
  assumes "\<And>data. length (sha data) = 32"
    and "\<forall>index\<in>set need. index < 2 ^ 32 \<and> length (source index) \<le> 2 ^ 64 \<and> en_size (entries ! index) = length (source index)"
    and "set items \<subseteq> set (plan_chunks need entries)"
    and "list_all2 (\<lambda>item f. send_chunk sha counts direct (source (fst item)) item = Inr f) items fs"
    and "concat segs = concat (map frame_bytes fs)"
  shows "fs = map (chunk_frame sha source) items \<and> receive_frames sha segs = (fs, None)"
proof -
  have item: "send_chunk sha counts direct (source (fst x)) x = Inr (chunk_frame sha source x) \<and> packable sha (chunk_frame sha source x)"
    if "x \<in> set items" for x
  proof -
    obtain index offset len where x: "x = (index, offset, len)" by (cases x)
    with that assms(3) obtain i where "i \<in> set need" "(index, offset, len) \<in> set (chunks_of i (en_size (entries ! i)))"
      by (auto simp: plan_chunks_def)
    then have "index \<in> set need" "(index, offset, len) \<in> set (chunks_of index (length (source index)))"
      using assms(2) by (auto simp: chunk_of_iff)
    then show ?thesis using x send_chunk_frame [of offset len source index] packable_chunk_frame [OF _ _ _ assms(1)] chunk_facts(2) assms(2) by auto
  qed
  from assms(4) item have fs: "fs = map (chunk_frame sha source) items"
    by (induction rule: list_all2_induct) auto
  moreover have "receive_frames sha segs = (fs, None)"
    using item assms(5) by (intro receive_frames_sent) (auto simp: fs)
  ultimately show ?thesis ..
qed

section \<open>Names\<close>

lemma checked_rel_Inr:
  "checked_rel rel = Inr rel' \<longleftrightarrow> rel' = rel \<and> (\<forall>part\<in>set (split_on CHR ''/'' rel). part \<notin> {[], ''..'', ''.''})"
proof -
  have "[] \<in> set (split_on CHR ''/'' rel)" if "starts_with ''/'' rel"
    using that by (cases rel) (auto simp: starts_with_def split: if_splits)
  then show ?thesis by (auto simp: checked_rel_def)
qed

lemma split_on_nonempty: "split_on a t \<noteq> []"
  by (cases t) (auto split: list.splits)

lemma split_on_no_sep: "part \<in> set (split_on a t) \<Longrightarrow> a \<notin> set part"
  by (induction t arbitrary: part) (auto split: if_splits list.splits)

lemma split_on_inj: "split_on a s = split_on a t \<Longrightarrow> s = t"
  by (metis butlast_snoc split_on_parts)

text \<open>
  No name of a manifest leads out of the destination: when a name is accepted, its target is the
  destination itself or lies below it, by components that are neither empty nor \<open>.\<close> nor \<open>..\<close> and hold
  no slash.\<close>

theorem target_below:
  assumes "target r rel = Inr p"
  shows "\<exists>parts. p = rc_dest r @ parts \<and> (\<forall>part\<in>set parts. part \<notin> {[], ''.'', ''..''} \<and> CHR ''/'' \<notin> set part)"
proof -
  from assms have ok: "\<forall>part\<in>set (split_on CHR ''/'' rel). part \<notin> {[], ''..'', ''.''}"
    and p: "p = rc_dest r @ (if rc_into r then split_on CHR ''/'' rel else tl (split_on CHR ''/'' rel))"
    by (auto simp: target_def bind_result_Inr checked_rel_Inr Let_def)
  have "\<forall>part\<in>set (if rc_into r then split_on CHR ''/'' rel else tl (split_on CHR ''/'' rel)). part \<in> set (split_on CHR ''/'' rel)"
    by (cases "split_on CHR ''/'' rel") auto
  with p ok show ?thesis using split_on_no_sep by blast
qed

end
