(* ===== verification/Copy_Runs.thy ===== *)
theory Copy_Runs
  imports Copy_Wire
begin

text \<open>
  The receiving threads of the copying tool. Each reads frames from its own connection and writes
  them; between two sections of \<open>write\<close> and \<open>finalize\<close> any other thread may run, a call of the
  operating system may fail, and a connection may break. A transfer is a run of these steps, in any
  order.
\<close>

section \<open>Threads\<close>

text \<open>
  What a thread is about to do. \<open>Writing index offset buffer len n\<close>: the first \<open>n\<close> bytes of the
  buffer for the chunk at this offset, \<open>len\<close> bytes of data and the padding of direct I/O, are
  written.
\<close>

datatype phase =
    Idle
  | Writing nat nat "byte list" nat nat
  | Sealing nat
  | Renaming nat
  | Forgetting nat
  | Failed exn

record worker =
  wk_phase :: phase
  wk_frames :: "frame list"
  wk_end :: "exn option"

definition thread_of :: "(byte list \<Rightarrow> byte list) \<Rightarrow> byte list list \<Rightarrow> worker" where
  "thread_of sha segs = (case receive_frames sha segs of (fs, end) \<Rightarrow> \<lparr>wk_phase = Idle, wk_frames = fs, wk_end = end\<rparr>)"

definition after_op :: "('a \<Rightarrow> phase) \<Rightarrow> 'a fallible \<times> receiver \<Rightarrow> worker \<Rightarrow> worker \<times> receiver" where
  "after_op next outcome w =
     (case outcome of (Inr x, r) \<Rightarrow> (w\<lparr>wk_phase := next x\<rparr>, r) | (Inl e, r) \<Rightarrow> (w\<lparr>wk_phase := Failed e\<rparr>, r))"

text \<open>One section of a thread; \<open>n\<close> is how many bytes a call of \<open>pwrite\<close> accepts, one at least.\<close>

fun phase_step :: "os_facts \<Rightarrow> nat \<Rightarrow> phase \<Rightarrow> worker \<Rightarrow> receiver \<Rightarrow> worker \<times> receiver" where
  "phase_step os n Idle w r =
     (case wk_frames w of
        [] \<Rightarrow> ((case wk_end w of None \<Rightarrow> w | Some e \<Rightarrow> w\<lparr>wk_phase := Failed e\<rparr>), r)
      | f # fs \<Rightarrow> after_op (\<lambda>buffer. Writing (fr_index f) (fr_offset f) buffer (fr_length f) 0) (write_begin os f r) (w\<lparr>wk_frames := fs\<rparr>))"
| "phase_step os n (Writing index offset buffer len k) w r =
     (if k < length buffer
      then let data = take (max 1 n) (drop k buffer)
           in after_op (\<lambda>_. Writing index offset buffer len (k + length data)) (pwrite index (offset + k) data r) w
      else after_op (\<lambda>finished. if finished then Sealing index else Idle) (count_down index len r) w)"
| "phase_step os n (Sealing index) w r = after_op (\<lambda>_. Renaming index) (seal index r) w"
| "phase_step os n (Renaming index) w r = after_op (\<lambda>_. Forgetting index) (rename index r) w"
| "phase_step os n (Forgetting index) w r = after_op (\<lambda>_. Idle) (forget index r) w"
| "phase_step os n (Failed e) w r = (w, r)"

definition worker_step :: "os_facts \<Rightarrow> nat \<Rightarrow> worker \<Rightarrow> receiver \<Rightarrow> worker \<times> receiver" where
  "worker_step os n w r = phase_step os n (wk_phase w) w r"

definition unfinished :: "worker \<Rightarrow> bool" where
  "unfinished w \<longleftrightarrow> (case wk_phase w of Idle \<Rightarrow> wk_frames w \<noteq> [] \<or> wk_end w \<noteq> None | Failed _ \<Rightarrow> False | _ \<Rightarrow> True)"

text \<open>
  The operating system refuses a call of the section, when it makes one; a descriptor that was to be
  closed is closed.
\<close>

fun calls_os :: "phase \<Rightarrow> bool" where
  "calls_os (Writing _ _ buffer _ n) \<longleftrightarrow> n < length buffer"
| "calls_os (Forgetting _) \<longleftrightarrow> False"
| "calls_os (Failed _) \<longleftrightarrow> False"
| "calls_os _ \<longleftrightarrow> True"

definition worker_fault :: "worker \<Rightarrow> receiver \<Rightarrow> worker \<times> receiver" where
  "worker_fault w r =
     (w\<lparr>wk_phase := Failed OSError\<rparr>,
      case wk_phase w of Sealing index \<Rightarrow> put_state index ((state_of r index)\<lparr>ps_open := False\<rparr>) r | _ \<Rightarrow> r)"

text \<open>
  A transfer. The first thread to fail shuts down the connections of the others, and a connection
  may break on its own: what it would still have delivered is lost.
\<close>

inductive thread_step :: "os_facts \<Rightarrow> receiver \<times> worker list \<Rightarrow> receiver \<times> worker list \<Rightarrow> bool" for os where
  "k < length ws \<Longrightarrow> unfinished (ws ! k) \<Longrightarrow> worker_step os n (ws ! k) r = (w, r') \<Longrightarrow> thread_step os (r, ws) (r', ws[k := w])"

inductive transfer :: "os_facts \<Rightarrow> receiver \<times> worker list \<Rightarrow> receiver \<times> worker list \<Rightarrow> bool" for os where
  runs: "thread_step os (r, ws) (r', ws') \<Longrightarrow> transfer os (r, ws) (r', ws')"
| fault: "k < length ws \<Longrightarrow> unfinished (ws ! k) \<Longrightarrow> calls_os (wk_phase (ws ! k)) \<Longrightarrow> worker_fault (ws ! k) r = (w, r') \<Longrightarrow> transfer os (r, ws) (r', ws[k := w])"
| cut: "k < length ws \<Longrightarrow> wk_phase (ws ! k) = Idle \<Longrightarrow> e \<in> {None, Some CopyError, Some OSError} \<Longrightarrow>
    transfer os (r, ws) (r, ws[k := (ws ! k)\<lparr>wk_frames := [], wk_end := e\<rparr>])"

section \<open>Bytes at their place\<close>

text \<open>
  A file that is written at positions: a position that is written has the byte that was written,
  and the others keep theirs. Then writing bytes of the source at their place can only bring the
  file closer to it, in whatever order.
\<close>

locale positional =
  fixes put :: "'f \<Rightarrow> nat \<Rightarrow> 'b list \<Rightarrow> 'f" and byte_at :: "'f \<Rightarrow> nat \<Rightarrow> 'b option"
  assumes at_written: "off \<le> p \<Longrightarrow> p < off + length bs \<Longrightarrow> byte_at (put c off bs) p = Some (bs ! (p - off))"
    and at_kept: "p < off \<or> off + length bs \<le> p \<Longrightarrow> byte_at c p = Some b \<Longrightarrow> byte_at (put c off bs) p = Some b"
begin

lemma put_agrees:
  assumes kept: "\<And>p. p < n \<Longrightarrow> \<not> open_before p \<Longrightarrow> byte_at c p = Some (source ! p)"
    and data: "\<And>p. off \<le> p \<Longrightarrow> p < off + length bs \<Longrightarrow> p < n \<Longrightarrow> bs ! (p - off) = source ! p"
    and shrinks: "\<And>p. open_before p \<Longrightarrow> \<not> open_after p \<Longrightarrow> off \<le> p \<and> p < off + length bs"
    and p: "p < n" "\<not> open_after p"
  shows "byte_at (put c off bs) p = Some (source ! p)"
proof (cases "off \<le> p \<and> p < off + length bs")
  case True
  then show ?thesis using at_written data p(1) by auto
next
  case False
  then have "\<not> open_before p" using shrinks p(2) by blast
  then show ?thesis using at_kept [OF _ kept [OF p(1)]] False by auto
qed

end

definition byte_of :: "byte list \<Rightarrow> nat \<Rightarrow> byte option" where
  "byte_of c p = (if p < length c then Some (c ! p) else None)"

lemma length_overwrite: "length (overwrite c off bs) = max (length c) (off + length bs)"
  by (simp add: overwrite_def)

interpretation file_bytes: positional overwrite byte_of
proof
  fix c bs :: "byte list" and off p :: nat
  assume p: "off \<le> p" "p < off + length bs"
  have "length (take off (c @ replicate (off - length c) 0)) = off" by simp
  moreover have "p - off < length bs" using p by simp
  ultimately have "overwrite c off bs ! p = bs ! (p - off)" using p unfolding overwrite_def by (simp only: nth_append) simp
  then show "byte_of (overwrite c off bs) p = Some (bs ! (p - off))"
    using p by (simp add: byte_of_def length_overwrite)
next
  fix c bs :: "byte list" and off p :: nat and b
  assume "p < off \<or> off + length bs \<le> p" "byte_of c p = Some b"
  then show "byte_of (overwrite c off bs) p = Some b"
    by (auto simp: byte_of_def length_overwrite overwrite_def nth_append split: if_splits)
qed

section \<open>One file\<close>

text \<open>
  What the threads have to do with one file: the phase of a thread that is at it, and the frames
  for it that the thread will still read; and what the receiver knows of the file.
\<close>

type_synonym thread_part = "phase \<times> frame list"

record file_part =
  fv_state :: pending_file
  fv_pending :: bool
  fv_target :: "node option"
  fv_temp :: "node option"

fun phase_index :: "phase \<Rightarrow> nat option" where
  "phase_index (Writing index _ _ _ _) = Some index"
| "phase_index (Sealing index) = Some index"
| "phase_index (Renaming index) = Some index"
| "phase_index (Forgetting index) = Some index"
| "phase_index _ = None"

definition thread_view :: "nat \<Rightarrow> worker \<Rightarrow> thread_part" where
  "thread_view i w = (if phase_index (wk_phase w) = Some i then wk_phase w else Idle, filter (\<lambda>f. fr_index f = i) (wk_frames w))"

definition file_view :: "path \<Rightarrow> path \<Rightarrow> nat \<Rightarrow> receiver \<Rightarrow> file_part" where
  "file_view tgt tmp i r = \<lparr>fv_state = state_of r i, fv_pending = (i \<in> set (rc_pending r)), fv_target = dget (disk r) tgt, fv_temp = dget (disk r) tmp\<rparr>"

text \<open>The bytes a thread has still to count, and the positions it has still to write.\<close>

fun phase_load :: "phase \<Rightarrow> nat" where
  "phase_load (Writing _ _ _ len _) = len"
| "phase_load _ = 0"

definition frames_load :: "frame list \<Rightarrow> nat" where
  "frames_load fs = sum_list (map fr_length fs)"

definition load :: "thread_part \<Rightarrow> nat" where
  "load v = phase_load (fst v) + frames_load (snd v)"

definition frame_covers :: "frame \<Rightarrow> nat \<Rightarrow> bool" where
  "frame_covers f p \<longleftrightarrow> fr_offset f \<le> p \<and> p < fr_offset f + fr_length f"

fun phase_covers :: "phase \<Rightarrow> nat \<Rightarrow> bool" where
  "phase_covers (Writing _ off _ len k) p \<longleftrightarrow> off + k \<le> p \<and> p < off + len"
| "phase_covers _ p \<longleftrightarrow> False"

definition waits :: "thread_part \<Rightarrow> nat \<Rightarrow> bool" where
  "waits v p \<longleftrightarrow> phase_covers (fst v) p \<or> (\<exists>f\<in>set (snd v). frame_covers f p)"

definition unwritten :: "thread_part list \<Rightarrow> frame list \<Rightarrow> nat \<Rightarrow> bool" where
  "unwritten vs lost p \<longleftrightarrow> (\<exists>v\<in>set vs. waits v p) \<or> (\<exists>f\<in>set lost. frame_covers f p)"

definition total :: "thread_part list \<Rightarrow> frame list \<Rightarrow> nat" where
  "total vs lost = sum_list (map load vs) + frames_load lost"

fun finishing :: "phase \<Rightarrow> bool" where
  "finishing (Sealing _) \<longleftrightarrow> True"
| "finishing (Renaming _) \<longleftrightarrow> True"
| "finishing (Forgetting _) \<longleftrightarrow> True"
| "finishing _ \<longleftrightarrow> False"

definition finals :: "thread_part list \<Rightarrow> nat" where
  "finals vs = sum_list (map (\<lambda>v. of_bool (finishing (fst v))) vs)"

text \<open>What the sender's frames and the buffers made of them are: bytes of the source at their place.\<close>

definition good_frame :: "byte list \<Rightarrow> frame \<Rightarrow> bool" where
  "good_frame c0 f \<longleftrightarrow> 0 < fr_length f \<and> fr_offset f + fr_length f \<le> length c0 \<and> fr_data f = take (fr_length f) (drop (fr_offset f) c0)
     \<and> (4096 dvd fr_length f \<or> fr_offset f + fr_length f = length c0)"

fun good_phase :: "byte list \<Rightarrow> bool \<Rightarrow> bool \<Rightarrow> phase \<Rightarrow> bool" where
  "good_phase c0 opened direct (Writing _ off buffer len k) \<longleftrightarrow> opened \<and> 0 < len \<and> off + len \<le> length c0 \<and> len \<le> length buffer \<and> k \<le> length buffer
     \<and> take len buffer = take len (drop off c0) \<and> (length buffer = len \<or> direct \<and> off + len = length c0)"
| "good_phase c0 opened direct (Sealing _) \<longleftrightarrow> opened"
| "good_phase c0 opened direct (Renaming _) \<longleftrightarrow> \<not> opened"
| "good_phase c0 opened direct (Forgetting _) \<longleftrightarrow> \<not> opened"
| "good_phase c0 opened direct _ \<longleftrightarrow> True"

text \<open>
  The invariant of a file whose source holds \<open>c0\<close> and whose target held \<open>old\<close>; \<open>lost\<close> are the
  frames that will never arrive.
\<close>

definition content_ok :: "byte list \<Rightarrow> bool \<Rightarrow> (nat \<Rightarrow> bool) \<Rightarrow> byte list \<Rightarrow> bool" where
  "content_ok c0 direct todo c \<longleftrightarrow> (if direct then length c0 \<le> length c else length c = length c0)
     \<and> (\<forall>p < length c0. \<not> todo p \<longrightarrow> byte_of c p = Some (c0 ! p))"

definition file_good :: "byte list \<Rightarrow> copy_entry \<Rightarrow> node option \<Rightarrow> file_part \<Rightarrow> thread_part list \<Rightarrow> frame list \<Rightarrow> bool" where
  "file_good c0 e old fv vs lost \<longleftrightarrow>
     (\<forall>v\<in>set vs. (\<forall>f\<in>set (snd v). good_frame c0 f) \<and> good_phase c0 (ps_open (fv_state fv)) (ps_direct (fv_state fv)) (fst v))
     \<and> (\<forall>f\<in>set lost. 0 < fr_length f)
     \<and> ps_remaining (fv_state fv) = int (total vs lost)
     \<and> finals vs \<le> 1
     \<and> (0 < finals vs \<or> \<not> fv_pending fv \<longrightarrow> total vs lost = 0)
     \<and> (\<not> fv_pending fv \<longrightarrow> finals vs = 0 \<and> \<not> ps_open (fv_state fv))
     \<and> (\<not> fv_pending fv \<or> (\<exists>v\<in>set vs. \<exists>i. fst v = Forgetting i) \<longrightarrow> fv_target fv = Some (File_node c0 (en_mode e) (en_mtime e)) \<and> fv_temp fv = None)
     \<and> (fv_pending fv \<and> (\<forall>v\<in>set vs. \<forall>i. fst v \<noteq> Forgetting i) \<longrightarrow> fv_target fv = old)
     \<and> ((\<exists>v\<in>set vs. \<exists>i. fst v = Renaming i) \<longrightarrow> fv_temp fv = Some (File_node c0 (en_mode e) (en_mtime e)))
     \<and> (ps_open (fv_state fv) \<longrightarrow> (\<exists>c m t. fv_temp fv = Some (File_node c m t) \<and> content_ok c0 (ps_direct (fv_state fv)) (unwritten vs lost) c))
     \<and> (\<not> ps_open (fv_state fv) \<and> 0 < total vs lost \<longrightarrow> (\<forall>p < length c0. unwritten vs lost p))"

section \<open>Changing one thread\<close>

lemma sum_list_change: "k < length vs \<Longrightarrow> sum_list (map g (vs[k := v])) + g (vs ! k) = sum_list (map g vs) + (g v :: nat)"
proof (induction vs arbitrary: k)
  case (Cons x xs)
  then show ?case by (cases k) (auto simp: add.commute add.left_commute)
qed simp

lemma ball_change: "(\<forall>x\<in>set vs. P x) \<Longrightarrow> P v \<Longrightarrow> (\<forall>x\<in>set (vs[k := v]). P x)"
  using set_update_subset_insert [of vs k v] by auto

lemma bex_change: "k < length vs \<Longrightarrow> (\<exists>x\<in>set (vs[k := v]). P x) \<Longrightarrow> P v \<or> (\<exists>x\<in>set vs. P x)"
  using set_update_subset_insert [of vs k v] by auto

lemma bex_kept: "k < length vs \<Longrightarrow> (\<exists>x\<in>set vs. P x) \<Longrightarrow> P (vs ! k) \<longrightarrow> P v \<Longrightarrow> (\<exists>x\<in>set (vs[k := v]). P x)"
  by (metis in_set_conv_nth length_list_update nth_list_update)

lemma unwritten_change:
  assumes "k < length vs" "unwritten vs lost p" "set lost \<subseteq> set lost'"
  shows "unwritten (vs[k := v]) lost' p \<or> waits (vs ! k) p \<and> \<not> waits v p"
  using assms bex_kept [of k vs "\<lambda>v. waits v p" v] unfolding unwritten_def by blast

lemma unwritten_mono:
  assumes "k < length vs" "unwritten vs lost p" "waits (vs ! k) p \<Longrightarrow> waits v p \<or> (\<exists>f\<in>set lost'. frame_covers f p)" "set lost \<subseteq> set lost'"
  shows "unwritten (vs[k := v]) lost' p"
  using unwritten_change [OF assms(1,2,4), of v] assms(3) by (auto simp: unwritten_def)

lemma total_change:
  assumes "k < length vs"
  shows "total (vs[k := v]) lost + load (vs ! k) = total vs lost + load v"
  using sum_list_change [OF assms, of load v] by (simp add: total_def)

lemma finals_change:
  assumes "k < length vs"
  shows "finals (vs[k := v]) + of_bool (finishing (fst (vs ! k))) = finals vs + of_bool (finishing (fst v))"
  using sum_list_change [OF assms, of "\<lambda>v. of_bool (finishing (fst v))" v] by (simp add: finals_def)

lemma load_total: "v \<in> set vs \<Longrightarrow> load v \<le> total vs lost"
  by (induction vs) (auto simp: total_def)

lemma finals_pos: "v \<in> set vs \<Longrightarrow> finishing (fst v) \<Longrightarrow> 0 < finals vs"
  by (induction vs) (auto simp: finals_def)

lemma finals_zero: "finals vs = 0 \<longleftrightarrow> (\<forall>v\<in>set vs. \<not> finishing (fst v))"
  by (induction vs) (auto simp: finals_def)

lemma content_ok_mono: "content_ok c0 d todo c \<Longrightarrow> (\<And>p. todo p \<Longrightarrow> todo' p) \<Longrightarrow> content_ok c0 d todo' c"
  unfolding content_ok_def by blast

lemma file_okD:
  assumes "file_good c0 e old fv vs lost"
  shows "\<And>v f. v \<in> set vs \<Longrightarrow> f \<in> set (snd v) \<Longrightarrow> good_frame c0 f"
    and "\<And>v. v \<in> set vs \<Longrightarrow> good_phase c0 (ps_open (fv_state fv)) (ps_direct (fv_state fv)) (fst v)"
    and "\<And>f. f \<in> set lost \<Longrightarrow> 0 < fr_length f"
    and "ps_remaining (fv_state fv) = int (total vs lost)"
    and "finals vs \<le> 1" and "0 < finals vs \<Longrightarrow> total vs lost = 0"
    and "\<not> fv_pending fv \<Longrightarrow> total vs lost = 0 \<and> finals vs = 0 \<and> \<not> ps_open (fv_state fv)"
    and "\<not> fv_pending fv \<Longrightarrow> fv_target fv = Some (File_node c0 (en_mode e) (en_mtime e)) \<and> fv_temp fv = None"
    and "\<And>v i. v \<in> set vs \<Longrightarrow> fst v = Forgetting i \<Longrightarrow> fv_target fv = Some (File_node c0 (en_mode e) (en_mtime e)) \<and> fv_temp fv = None"
    and "\<And>v i. v \<in> set vs \<Longrightarrow> fst v = Renaming i \<Longrightarrow> fv_temp fv = Some (File_node c0 (en_mode e) (en_mtime e))"
    and "fv_pending fv \<Longrightarrow> (\<And>v i. v \<in> set vs \<Longrightarrow> fst v \<noteq> Forgetting i) \<Longrightarrow> fv_target fv = old"
    and "ps_open (fv_state fv) \<Longrightarrow> \<exists>c m t. fv_temp fv = Some (File_node c m t) \<and> content_ok c0 (ps_direct (fv_state fv)) (unwritten vs lost) c"
    and "\<And>p. \<not> ps_open (fv_state fv) \<Longrightarrow> 0 < total vs lost \<Longrightarrow> p < length c0 \<Longrightarrow> unwritten vs lost p"
  using assms unfolding file_good_def by blast+

text \<open>
  When the thread that changes is not at renaming or forgetting, before and after, and the rest of
  the file's state stays, only the counts and the content are at stake.
\<close>

lemma file_ok_quiet:
  assumes ok: "file_good c0 e old fv vs lost" and k: "k < length vs"
    and frames: "\<forall>f\<in>set (snd v). good_frame c0 f"
    and lost: "set lost \<subseteq> set lost'" "\<forall>f\<in>set lost'. 0 < fr_length f"
    and phase: "good_phase c0 opened direct (fst v)"
    and others: "\<And>j. j < length vs \<Longrightarrow> j \<noteq> k \<Longrightarrow> good_phase c0 opened direct (fst (vs ! j))"
    and quiet: "\<And>i. fst (vs ! k) \<noteq> Forgetting i" "\<And>i. fst v \<noteq> Forgetting i" "\<And>i. fst v \<noteq> Renaming i"
    and remaining: "remaining = int (total (vs[k := v]) lost')"
    and fin: "finals (vs[k := v]) \<le> 1" "0 < finals (vs[k := v]) \<or> \<not> fv_pending fv \<Longrightarrow> total (vs[k := v]) lost' = 0"
      "\<not> fv_pending fv \<Longrightarrow> finals (vs[k := v]) = 0 \<and> \<not> opened"
    and temp: "\<not> opened \<Longrightarrow> tmp = fv_temp fv"
      "opened \<Longrightarrow> fv_pending fv \<and> (\<exists>c m t. tmp = Some (File_node c m t) \<and> content_ok c0 direct (unwritten (vs[k := v]) lost') c)"
    and closed: "\<And>p. \<not> opened \<Longrightarrow> 0 < total (vs[k := v]) lost' \<Longrightarrow> p < length c0 \<Longrightarrow> unwritten (vs[k := v]) lost' p"
    and state: "ps_open s = opened" "ps_direct s = direct" "ps_remaining s = remaining"
  shows "file_good c0 e old (fv\<lparr>fv_state := s, fv_temp := tmp\<rparr>) (vs[k := v]) lost'"
proof -
  note D = file_okD [OF ok]
  have phases: "good_phase c0 opened direct (fst x)" if "x \<in> set (vs[k := v])" for x
    using that phase others k by (auto simp: in_set_conv_nth nth_list_update split: if_splits)
  have forgetting: "(\<exists>x\<in>set (vs[k := v]). fst x = Forgetting i) \<longleftrightarrow> (\<exists>x\<in>set vs. fst x = Forgetting i)" for i
    using bex_change [OF k, of v "\<lambda>x. fst x = Forgetting i"] bex_kept [OF k, of "\<lambda>x. fst x = Forgetting i" v] quiet(1,2) by blast
  have late: "\<not> opened" if "x \<in> set (vs[k := v])" "fst x = Forgetting i \<or> fst x = Renaming i" for x i
    using phases [OF that(1)] that(2) by (cases "fst x") auto
  have renaming: "fv_temp fv = Some (File_node c0 (en_mode e) (en_mtime e))" if "x \<in> set (vs[k := v])" "fst x = Renaming i" for x i
    using bex_change [OF k, of v "\<lambda>x. fst x = Renaming i"] that quiet(3) D(10) by blast
  show ?thesis
    unfolding file_good_def
  proof (intro conjI)
    show "\<forall>x\<in>set (vs[k := v]). (\<forall>f\<in>set (snd x). good_frame c0 f) \<and> good_phase c0 (ps_open (fv_state (fv\<lparr>fv_state := s, fv_temp := tmp\<rparr>)))
        (ps_direct (fv_state (fv\<lparr>fv_state := s, fv_temp := tmp\<rparr>))) (fst x)"
      using ball_change [of vs "\<lambda>x. \<forall>f\<in>set (snd x). good_frame c0 f" v k] D(1) frames phases state by simp
  qed (use lost(2) remaining fin state temp closed D(8,9,11) forgetting late renaming in \<open>simp_all\<close>; (metis | blast))+
qed

section \<open>The sections of a thread, seen from its file\<close>

lemma load_pos_pending: "file_good c0 e old fv vs lost \<Longrightarrow> v \<in> set vs \<Longrightarrow> 0 < load v \<Longrightarrow> fv_pending fv \<and> finals vs = 0"
  using file_okD(6,7) [of c0 e old fv vs lost] load_total [of v vs lost] by (metis bot_nat_0.extremum_uniqueI neq0_conv)

lemma same_total_finals:
  assumes "k < length vs" "load v = load (vs ! k)" "finishing (fst v) = finishing (fst (vs ! k))"
  shows "total (vs[k := v]) lost = total vs lost" "finals (vs[k := v]) = finals vs"
  using total_change [OF assms(1), of v lost] finals_change [OF assms(1), of v] assms(2,3) by simp_all

lemma ok_begin:
  assumes ok: "file_good c0 e old fv vs lost" and k: "k < length vs" and v: "vs ! k = (Idle, f # fs)"
    and buffer: "buffer = fr_data f @ replicate (n - fr_length f) 0" "n = (if direct then nat (align_up (int (fr_length f))) else fr_length f)"
    and temp: "if ps_open (fv_state fv) then tmp = fv_temp fv \<and> direct = ps_direct (fv_state fv) else tmp = Some (File_node (replicate (length c0) 0) m t)"
    and s: "s = (fv_state fv)\<lparr>ps_open := True, ps_direct := direct\<rparr>"
  shows "file_good c0 e old (fv\<lparr>fv_state := s, fv_temp := tmp\<rparr>) (vs[k := (Writing i (fr_offset f) buffer (fr_length f) 0, fs)]) lost"
proof -
  let ?v = "(Writing i (fr_offset f) buffer (fr_length f) 0, fs)"
  note D = file_okD [OF ok]
  have mem: "vs ! k \<in> set vs" using k by simp
  have good: "good_frame c0 f" and goods: "\<forall>f\<in>set fs. good_frame c0 f" using D(1) [OF mem] v by auto
  have pos: "0 < load (vs ! k)" using good v by (simp add: load_def frames_load_def good_frame_def)
  note idle = load_pos_pending [OF ok mem pos]
  have same: "load ?v = load (vs ! k)" "finishing (fst ?v) = finishing (fst (vs ! k))" using v by (simp_all add: load_def frames_load_def)
  note T = same_total_finals [OF k same]
  have len: "fr_length f = length (fr_data f)" using good by (auto simp: good_frame_def)
  have pad: "n = fr_length f \<or> direct \<and> fr_offset f + fr_length f = length c0"
    using good buffer(2) align_up_fixes [of "int (fr_length f)"] by (auto simp: good_frame_def)
  have n: "fr_length f \<le> n" using buffer(2) align_up_bounds(1) [of "int (fr_length f)"] by auto
  have phase: "good_phase c0 True direct (fst ?v)" using good pad n len buffer(1) by (auto simp: good_frame_def)
  have todo: "unwritten (vs[k := ?v]) lost p" if "unwritten vs lost p" for p
    using that by (rule unwritten_mono [OF k]) (auto simp: v waits_def frame_covers_def)
  have others: "good_phase c0 True direct (fst (vs ! j))" if "j < length vs" for j
  proof -
    have j: "vs ! j \<in> set vs" using that by simp
    have "\<not> finishing (fst (vs ! j))" using idle finals_zero j by blast
    then show ?thesis using D(2) [OF j] temp by (cases "fst (vs ! j)") (auto split: if_splits)
  qed
  have content: "\<exists>c m t. tmp = Some (File_node c m t) \<and> content_ok c0 direct (unwritten (vs[k := ?v]) lost) c"
  proof (cases "ps_open (fv_state fv)")
    case True
    then obtain c m t where c: "fv_temp fv = Some (File_node c m t)" "content_ok c0 (ps_direct (fv_state fv)) (unwritten vs lost) c"
      using D(12) by blast
    then show ?thesis using content_ok_mono [OF c(2) todo] temp True by auto
  next
    case False
    have "0 < total vs lost" using pos load_total [OF mem, of lost] by linarith
    then have "content_ok c0 direct (unwritten (vs[k := ?v]) lost) (replicate (length c0) 0)"
      using D(13) [OF False] todo by (auto simp: content_ok_def)
    then show ?thesis using temp False by auto
  qed
  show ?thesis
    by (rule file_ok_quiet [where opened = True and direct = direct and remaining = "ps_remaining (fv_state fv)", OF ok k])
       (use goods D(3,4,5) phase others idle T content v s in auto)
qed

lemma ok_write:
  assumes ok: "file_good c0 e old fv vs lost" and k: "k < length vs" and v: "vs ! k = (Writing i off buffer len n, fs)"
    and more: "n < length buffer" and data: "data = take (max 1 m) (drop n buffer)"
  shows "\<exists>c mode t. ps_open (fv_state fv) \<and> fv_temp fv = Some (File_node c mode t) \<and>
    file_good c0 e old (fv\<lparr>fv_temp := Some (File_node (overwrite c (off + n) data) mode t)\<rparr>) (vs[k := (Writing i off buffer len (n + length data), fs)]) lost"
proof -
  let ?v = "(Writing i off buffer len (n + length data), fs)"
  note D = file_okD [OF ok]
  have mem: "vs ! k \<in> set vs" using k by simp
  have goods: "\<forall>f\<in>set fs. good_frame c0 f" using D(1) [OF mem] v by auto
  have phase: "ps_open (fv_state fv)" "0 < len" "off + len \<le> length c0" "len \<le> length buffer" "take len buffer = take len (drop off c0)"
    "length buffer = len \<or> ps_direct (fv_state fv) \<and> off + len = length c0"
    using D(2) [OF mem] v by auto
  have same: "load ?v = load (vs ! k)" "finishing (fst ?v) = finishing (fst (vs ! k))" using v by (simp_all add: load_def frames_load_def)
  note T = same_total_finals [OF k same]
  have idle: "fv_pending fv \<and> finals vs = 0" using load_pos_pending [OF ok mem] phase(2) v by (simp add: load_def)
  have fits: "n + length data \<le> length buffer" using more data by auto
  obtain c mode t where c: "fv_temp fv = Some (File_node c mode t)" "content_ok c0 (ps_direct (fv_state fv)) (unwritten vs lost) c"
    using D(12) phase(1) by blast
  have bytes: "data ! (p - (off + n)) = c0 ! p" if "off + n \<le> p" "p < off + n + length data" "p < length c0" for p
  proof -
    have "p - off < len" using that fits phase(6) by linarith
    then have "take len buffer ! (p - off) = buffer ! (p - off)" "take len (drop off c0) ! (p - off) = c0 ! p"
      using that(1) phase(3) by simp_all
    then have "buffer ! (p - off) = c0 ! p" using phase(5) by simp
    moreover have "data ! (p - (off + n)) = buffer ! (p - off)" using that data by (simp add: algebra_simps)
    ultimately show ?thesis by simp
  qed
  have shrink: "off + n \<le> p \<and> p < off + n + length data" if "unwritten vs lost p" "\<not> unwritten (vs[k := ?v]) lost p" for p
    using unwritten_change [OF k that(1) order_refl, of ?v] that(2) v by (auto simp: waits_def)
  have content: "content_ok c0 (ps_direct (fv_state fv)) (unwritten (vs[k := ?v]) lost) (overwrite c (off + n) data)"
    unfolding content_ok_def
  proof (intro conjI allI impI)
    show "if ps_direct (fv_state fv) then length c0 \<le> length (overwrite c (off + n) data) else length (overwrite c (off + n) data) = length c0"
      using c(2) phase(3,6) fits by (auto simp: content_ok_def length_overwrite)
    show "byte_of (overwrite c (off + n) data) p = Some (c0 ! p)" if "p < length c0" "\<not> unwritten (vs[k := ?v]) lost p" for p
      by (rule file_bytes.put_agrees [where n = "length c0" and open_before = "unwritten vs lost" and open_after = "unwritten (vs[k := ?v]) lost", OF _ bytes shrink that])
         (use c(2) in \<open>auto simp: content_ok_def\<close>)
  qed
  have "file_good c0 e old (fv\<lparr>fv_state := fv_state fv, fv_temp := Some (File_node (overwrite c (off + n) data) mode t)\<rparr>) (vs[k := ?v]) lost"
    by (rule file_ok_quiet [where opened = True and direct = "ps_direct (fv_state fv)" and remaining = "ps_remaining (fv_state fv)", OF ok k])
       (use goods D(2,3,4,5) phase fits idle T content v in auto)
  then show ?thesis using c(1) phase(1) by auto
qed

lemma ok_count:
  assumes ok: "file_good c0 e old fv vs lost" and k: "k < length vs" and v: "vs ! k = (Writing i off buffer len n, fs)"
    and full: "length buffer \<le> n" and s: "s = (fv_state fv)\<lparr>ps_remaining := ps_remaining (fv_state fv) - int len\<rparr>"
  shows "file_good c0 e old (fv\<lparr>fv_state := s, fv_temp := fv_temp fv\<rparr>) (vs[k := (if ps_remaining s = 0 then Sealing i else Idle, fs)]) lost"
proof -
  let ?v = "(if ps_remaining s = 0 then Sealing i else Idle, fs)"
  note D = file_okD [OF ok]
  have mem: "vs ! k \<in> set vs" using k by simp
  have goods: "\<forall>f\<in>set fs. good_frame c0 f" using D(1) [OF mem] v by auto
  have phase: "ps_open (fv_state fv)" "0 < len" "len \<le> length buffer" using D(2) [OF mem] v by auto
  have idle: "fv_pending fv \<and> finals vs = 0" using load_pos_pending [OF ok mem] phase(2) v by (simp add: load_def)
  have "total (vs[k := ?v]) lost + load (vs ! k) = total vs lost + load ?v" by (rule total_change [OF k])
  then have total': "total (vs[k := ?v]) lost + len = total vs lost" using v by (simp add: load_def)
  then have remaining: "ps_remaining s = int (total (vs[k := ?v]) lost)" using D(4) s by simp
  have finals': "finals (vs[k := ?v]) = of_bool (ps_remaining s = 0)"
    using finals_change [OF k, of ?v] idle v by (simp split: if_splits)
  have todo: "unwritten (vs[k := ?v]) lost p" if "unwritten vs lost p" for p
    using that by (rule unwritten_mono [OF k]) (use v full phase(3) in \<open>auto simp: waits_def\<close>)
  obtain c mode t where c: "fv_temp fv = Some (File_node c mode t)" "content_ok c0 (ps_direct (fv_state fv)) (unwritten vs lost) c"
    using D(12) phase(1) by blast
  have content: "content_ok c0 (ps_direct (fv_state fv)) (unwritten (vs[k := ?v]) lost) c" by (rule content_ok_mono [OF c(2) todo])
  show ?thesis
    by (rule file_ok_quiet [where opened = True and direct = "ps_direct (fv_state fv)" and remaining = "ps_remaining s", OF ok k])
       (use goods D(2,3) phase idle remaining finals' c(1) content v s in \<open>auto split: if_splits\<close>)
qed

text \<open>A thread that fails, or whose connection breaks, leaves the bytes it had still to count for good.\<close>

lemma ok_lose:
  assumes ok: "file_good c0 e old fv vs lost" and k: "k < length vs" and v: "vs ! k = (ph, fs)"
    and fs: "set fs' \<subseteq> set fs" and gone: "\<forall>f\<in>set gone. 0 < fr_length f" "load (vs ! k) = frames_load fs' + frames_load gone"
    and covers: "\<And>p. waits (vs ! k) p \<Longrightarrow> (\<exists>f\<in>set fs'. frame_covers f p) \<or> (\<exists>f\<in>set gone. frame_covers f p)"
    and quiet: "\<And>i. ph \<noteq> Forgetting i" and s: "s = (fv_state fv)\<lparr>ps_open := opened\<rparr>"
    and opened: "if finishing ph then opened = False else opened = ps_open (fv_state fv)"
  shows "file_good c0 e old (fv\<lparr>fv_state := s, fv_temp := fv_temp fv\<rparr>) (vs[k := (Idle, fs')]) (gone @ lost)"
proof -
  let ?v = "(Idle, fs') :: thread_part"
  note D = file_okD [OF ok]
  have mem: "vs ! k \<in> set vs" using k by simp
  have "total (vs[k := ?v]) lost + load (vs ! k) = total vs lost + load ?v" by (rule total_change [OF k])
  then have T: "total (vs[k := ?v]) (gone @ lost) = total vs lost" using gone(2) by (simp add: load_def total_def frames_load_def)
  have F: "finals (vs[k := ?v]) + of_bool (finishing ph) = finals vs" using finals_change [OF k, of ?v] v by simp
  have others: "good_phase c0 opened (ps_direct (fv_state fv)) (fst (vs ! j))" if j: "j < length vs" "j \<noteq> k" for j
  proof (cases "finishing ph")
    case True
    then have z: "total vs lost = 0" "finals (vs[k := ?v]) = 0" using F D(5,6) by simp_all
    have "vs[k := ?v] ! j \<in> set (vs[k := ?v])" using j by (intro nth_mem) simp
    then have "\<not> finishing (fst (vs ! j))" using z(2) finals_zero j by force
    moreover have "load (vs ! j) = 0" using load_total [of "vs ! j" vs lost] j(1) z(1) by simp
    ultimately show ?thesis using D(2) [of "vs ! j"] j(1) by (cases "fst (vs ! j)") (auto simp: load_def)
  qed (use opened D(2) j in auto)
  have todo: "unwritten (vs[k := ?v]) (gone @ lost) p" if "unwritten vs lost p" for p
    using that by (rule unwritten_mono [OF k]) (use covers in \<open>auto simp: waits_def\<close>)
  show ?thesis
  proof (rule file_ok_quiet [where opened = opened and direct = "ps_direct (fv_state fv)" and remaining = "ps_remaining (fv_state fv)", OF ok k])
    show "fv_pending fv \<and> (\<exists>c m t. fv_temp fv = Some (File_node c m t) \<and> content_ok c0 (ps_direct (fv_state fv)) (unwritten (vs[k := ?v]) (gone @ lost)) c)"
      if "opened"
    proof -
      from that opened have op: "ps_open (fv_state fv)" by (simp split: if_splits)
      then obtain c m t where c: "fv_temp fv = Some (File_node c m t)" "content_ok c0 (ps_direct (fv_state fv)) (unwritten vs lost) c"
        using D(12) by blast
      then show ?thesis using content_ok_mono [OF c(2) todo] D(7) op by auto
    qed
    show "unwritten (vs[k := ?v]) (gone @ lost) p" if "\<not> opened" "0 < total (vs[k := ?v]) (gone @ lost)" "p < length c0" for p
    proof -
      have "0 < total vs lost" using that(2) T by simp
      moreover from this have "\<not> finishing ph" using D(6) finals_pos [OF mem] v by auto
      ultimately show ?thesis using opened that(1,3) D(13) todo by simp
    qed
  qed (use D(1) [OF mem] D(2,3,4,5,6,7) fs gone(1) others quiet v s T F opened in \<open>auto split: if_splits\<close>)
qed

text \<open>The thread that finishes a file is alone with it: everything is written and nobody else has a frame for it.\<close>

lemma finisher_alone:
  assumes ok: "file_good c0 e old fv vs lost" and k: "k < length vs" and fin: "finishing (fst (vs ! k))" and v: "finishing (fst v) \<or> fst v = Idle" "snd v = snd (vs ! k)"
  shows "fv_pending fv" "total vs lost = 0" "total (vs[k := v]) lost = 0" "finals (vs[k := v]) = of_bool (finishing (fst v))"
    and "\<And>x. x \<in> set (vs[k := v]) \<Longrightarrow> x \<noteq> v \<Longrightarrow> \<not> finishing (fst x) \<and> (\<forall>i off b len n. fst x \<noteq> Writing i off b len n)"
    and "\<And>p. \<not> unwritten vs lost p"
proof -
  note D = file_okD [OF ok]
  have mem: "vs ! k \<in> set vs" using k by simp
  have "0 < finals vs" by (rule finals_pos [OF mem fin])
  then show zero: "total vs lost = 0" and "fv_pending fv" using D(6,7) by auto
  have "load v = load (vs ! k)" using v fin by (cases "fst v"; cases "fst (vs ! k)") (auto simp: load_def)
  then show zero': "total (vs[k := v]) lost = 0" using total_change [OF k, of v lost] zero by simp
  show F: "finals (vs[k := v]) = of_bool (finishing (fst v))"
    using finals_change [OF k, of v] fin D(5) \<open>0 < finals vs\<close> by (cases "finishing (fst v)") simp_all
  show "\<not> finishing (fst x) \<and> (\<forall>i off b len n. fst x \<noteq> Writing i off b len n)" if x: "x \<in> set (vs[k := v])" "x \<noteq> v" for x
  proof
    obtain j where j: "j < length vs" "j \<noteq> k" "x = vs ! j"
      using x k by (auto simp: in_set_conv_nth nth_list_update split: if_splits)
    have "load x = 0" using load_total [OF x(1), of lost] zero' by simp
    then show "\<forall>i off b len n. fst x \<noteq> Writing i off b len n" using D(2) [of x] j by (auto simp: load_def)
    have "finals (vs[k := (Idle, [])]) = 0" using finals_change [OF k, of "(Idle, [])"] fin D(5) by simp
    moreover have "x \<in> set (vs[k := (Idle, [])])" using j by (metis length_list_update nth_list_update_neq nth_mem)
    ultimately show "\<not> finishing (fst x)" using finals_zero by blast
  qed
  show "\<not> unwritten vs lost p" for p
  proof
    assume "unwritten vs lost p"
    then consider (thread) x where "x \<in> set vs" "waits x p" | (lost) f where "f \<in> set lost" "frame_covers f p" by (auto simp: unwritten_def)
    then show False
    proof cases
      case thread
      then have "load x = 0" using load_total [of x vs lost] zero by simp
      moreover have "0 < load x" using thread(2) D(1) [OF thread(1)] D(2) [OF thread(1)]
        by (cases "fst x") (auto simp: waits_def load_def frames_load_def good_frame_def sum_list_eq_0_iff intro!: gr0I)
      ultimately show False by simp
    next
      case lost
      then have "0 < frames_load lost" using D(3) by (auto simp: frames_load_def intro!: gr0I)
      then show False using zero by (simp add: total_def)
    qed
  qed
qed

lemma content_complete:
  assumes "content_ok c0 direct todo c" "\<And>p. \<not> todo p"
  shows "(if direct then take (length c0) (c @ replicate (length c0 - length c) 0) else c) = c0"
proof -
  have "length c0 \<le> length c" using assms(1) by (auto simp: content_ok_def split: if_splits)
  moreover have "c ! p = c0 ! p" if "p < length c0" for p using assms that by (auto simp: content_ok_def byte_of_def split: if_splits)
  ultimately have "take (length c0) c = c0" by (intro nth_equalityI) auto
  then show ?thesis using assms(1) by (auto simp: content_ok_def split: if_splits)
qed

lemma ok_seal:
  assumes ok: "file_good c0 e old fv vs lost" and k: "k < length vs" and v: "vs ! k = (Sealing i, fs)"
  shows "\<exists>c m t. fv_pending fv \<and> ps_open (fv_state fv) \<and> fv_temp fv = Some (File_node c m t)
    \<and> (if ps_direct (fv_state fv) then take (length c0) (c @ replicate (length c0 - length c) 0) else c) = c0
    \<and> file_good c0 e old (fv\<lparr>fv_state := (fv_state fv)\<lparr>ps_open := False\<rparr>, fv_temp := Some (File_node c0 (en_mode e) (en_mtime e))\<rparr>) (vs[k := (Renaming i, fs)]) lost"
proof -
  note D = file_okD [OF ok]
  let ?v = "(Renaming i, fs) :: thread_part"
  have mem: "vs ! k \<in> set vs" using k by simp
  note A = finisher_alone [OF ok k, of ?v, unfolded v, simplified]
  have op: "ps_open (fv_state fv)" using D(2) [OF mem] v by simp
  then obtain c m t where c: "fv_temp fv = Some (File_node c m t)" "content_ok c0 (ps_direct (fv_state fv)) (unwritten vs lost) c" using D(12) by blast
  have new: "?v \<in> set (vs[k := ?v])" using k by (simp add: set_update_memI)
  have frames: "\<forall>x\<in>set (vs[k := ?v]). \<forall>f\<in>set (snd x). good_frame c0 f"
    using D(1) mem v by (intro ball_change) auto
  have phases: "good_phase c0 False d (fst x)" if "x \<in> set (vs[k := ?v])" for x d
    using A(5) [OF that] by (cases "fst x"; cases "x = ?v") auto
  have nofg: "fst x \<noteq> Forgetting j" if "x \<in> set (vs[k := ?v])" for x j
    using A(5) [OF that] by (cases "x = ?v") auto
  have old': "fv_target fv = old"
  proof (rule D(11) [OF A(1)])
    show "fst x \<noteq> Forgetting j" if "x \<in> set vs" for x j using D(2) [OF that] op by (cases "fst x") auto
  qed
  have "file_good c0 e old (fv\<lparr>fv_state := (fv_state fv)\<lparr>ps_open := False\<rparr>, fv_temp := Some (File_node c0 (en_mode e) (en_mtime e))\<rparr>) (vs[k := ?v]) lost"
    unfolding file_good_def using frames phases nofg A(1,2,3,4) D(3,4) old' by auto
  then show ?thesis using A(1) op c content_complete [OF c(2) A(6)] by blast
qed

lemma ok_rename:
  assumes ok: "file_good c0 e old fv vs lost" and k: "k < length vs" and v: "vs ! k = (Renaming i, fs)"
  shows "fv_temp fv = Some (File_node c0 (en_mode e) (en_mtime e))
    \<and> file_good c0 e old (fv\<lparr>fv_target := Some (File_node c0 (en_mode e) (en_mtime e)), fv_temp := None\<rparr>) (vs[k := (Forgetting i, fs)]) lost"
proof -
  note D = file_okD [OF ok]
  let ?v = "(Forgetting i, fs) :: thread_part"
  have mem: "vs ! k \<in> set vs" using k by simp
  note A = finisher_alone [OF ok k, of ?v, unfolded v, simplified]
  have op: "\<not> ps_open (fv_state fv)" using D(2) [OF mem] v by simp
  have new: "?v \<in> set (vs[k := ?v])" using k by (simp add: set_update_memI)
  have frames: "\<forall>x\<in>set (vs[k := ?v]). \<forall>f\<in>set (snd x). good_frame c0 f"
    using D(1) mem v by (intro ball_change) auto
  have phases: "good_phase c0 False d (fst x)" if "x \<in> set (vs[k := ?v])" for x d
    using A(5) [OF that] by (cases "fst x"; cases "x = ?v") auto
  have norn: "fst x \<noteq> Renaming j" if "x \<in> set (vs[k := ?v])" for x j
    using A(5) [OF that] by (cases "x = ?v") auto
  have "file_good c0 e old (fv\<lparr>fv_target := Some (File_node c0 (en_mode e) (en_mtime e)), fv_temp := None\<rparr>) (vs[k := ?v]) lost"
    unfolding file_good_def using frames phases norn new A(1,2,3,4) D(3,4) op by force
  then show ?thesis using D(10) [OF mem] v by simp
qed

lemma ok_forget:
  assumes ok: "file_good c0 e old fv vs lost" and k: "k < length vs" and v: "vs ! k = (Forgetting i, fs)"
  shows "fv_pending fv \<and> file_good c0 e old (fv\<lparr>fv_pending := False\<rparr>) (vs[k := (Idle, fs)]) lost"
proof -
  note D = file_okD [OF ok]
  let ?v = "(Idle, fs) :: thread_part"
  have mem: "vs ! k \<in> set vs" using k by simp
  note A = finisher_alone [OF ok k, of ?v, unfolded v, simplified]
  have op: "\<not> ps_open (fv_state fv)" using D(2) [OF mem] v by simp
  have frames: "\<forall>x\<in>set (vs[k := ?v]). \<forall>f\<in>set (snd x). good_frame c0 f"
    using D(1) mem v by (intro ball_change) auto
  have phases: "good_phase c0 False d (fst x)" if "x \<in> set (vs[k := ?v])" for x d
    using A(5) [OF that] by (cases "fst x"; cases "x = ?v") auto
  have norn: "fst x \<noteq> Renaming j" if "x \<in> set (vs[k := ?v])" for x j
    using A(5) [OF that] by (cases "x = ?v") auto
  have "file_good c0 e old (fv\<lparr>fv_pending := False\<rparr>) (vs[k := ?v]) lost"
    unfolding file_good_def using frames phases norn A(1,2,3,4) D(3,4) D(9) [OF mem] op v by force
  then show ?thesis using A(1) by simp
qed

end
