(* ===== verification/Copy_Safety.thy ===== *)
theory Copy_Safety
  imports Copy_Runs "HOL-Library.Multiset"
begin

text \<open>
  What a transfer of the copying tool guarantees, whatever the order in which its threads run and
  wherever it is cut off: a target is as it was or complete, nothing else of the machine changes,
  and when no call fails every needed file arrives.
\<close>

section \<open>All files\<close>

text \<open>
  The receiver \<open>r0\<close> at the start of a transfer: its pending files have sources of the announced
  sizes, and no two of their targets and temporary files are the same path.
\<close>

abbreviation tgt :: "receiver \<Rightarrow> nat \<Rightarrow> path" where "tgt r0 i \<equiv> ps_path (state_of r0 i)"
abbreviation tmp :: "receiver \<Rightarrow> nat \<Rightarrow> path" where "tmp r0 i \<equiv> ps_temp (state_of r0 i)"
abbreviation needed :: "receiver \<Rightarrow> nat set" where "needed r0 \<equiv> set (rc_pending r0)"

definition layout :: "receiver \<Rightarrow> (nat \<Rightarrow> byte list) \<Rightarrow> bool" where
  "layout r0 src \<longleftrightarrow>
     (\<forall>i\<in>needed r0. size_of r0 i = length (src i) \<and> 0 < length (src i))
     \<and> (\<forall>i\<in>needed r0. \<forall>j\<in>needed r0. tmp r0 i \<noteq> tgt r0 j \<and> (i \<noteq> j \<longrightarrow> tmp r0 i \<noteq> tmp r0 j \<and> tgt r0 i \<noteq> tgt r0 j))
     \<and> distinct (rc_pending r0)"

definition new_node :: "receiver \<Rightarrow> (nat \<Rightarrow> byte list) \<Rightarrow> nat \<Rightarrow> node" where
  "new_node r0 src i = File_node (src i) (en_mode (rc_entries r0 ! i)) (en_mtime (rc_entries r0 ! i))"

text \<open>
  Until a thread fails or a connection breaks nothing is lost, and a file that is still pending has
  bytes to count or a thread that finishes it.
\<close>

definition lossless :: "file_part \<Rightarrow> thread_part list \<Rightarrow> frame list \<Rightarrow> bool" where
  "lossless fv vs lost \<longleftrightarrow> lost = [] \<and> (fv_pending fv \<longrightarrow> 0 < total vs lost \<or> 0 < finals vs)"

definition file_inv :: "receiver \<Rightarrow> (nat \<Rightarrow> byte list) \<Rightarrow> bool \<Rightarrow> receiver \<Rightarrow> worker list \<Rightarrow> nat \<Rightarrow> frame list \<Rightarrow> bool" where
  "file_inv r0 src lossy r ws i lost \<longleftrightarrow>
     file_good (src i) (rc_entries r0 ! i) (dget (disk r0) (tgt r0 i)) (file_view (tgt r0 i) (tmp r0 i) i r) (map (thread_view i) ws) lost
     \<and> (lossy \<or> lossless (file_view (tgt r0 i) (tmp r0 i) i r) (map (thread_view i) ws) lost)"

definition threads_ok :: "receiver \<Rightarrow> worker list \<Rightarrow> bool" where
  "threads_ok r0 ws \<longleftrightarrow> (\<forall>w\<in>set ws. (\<forall>f\<in>set (wk_frames w). fr_index f \<in> needed r0) \<and> (\<forall>i. phase_index (wk_phase w) = Some i \<longrightarrow> i \<in> needed r0))"

definition frame_ok :: "receiver \<Rightarrow> receiver \<Rightarrow> bool" where
  "frame_ok r0 r \<longleftrightarrow> rc_entries r = rc_entries r0 \<and> rc_dirs r = rc_dirs r0 \<and> distinct (rc_pending r) \<and> needed r \<subseteq> needed r0
     \<and> (\<forall>i\<in>needed r0. tgt r i = tgt r0 i \<and> tmp r i = tmp r0 i)
     \<and> (\<forall>q. q \<notin> tgt r0 ` needed r0 \<union> tmp r0 ` needed r0 \<longrightarrow> dget (disk r) q = dget (disk r0) q)"

definition transfer_ok :: "receiver \<Rightarrow> (nat \<Rightarrow> byte list) \<Rightarrow> bool \<Rightarrow> receiver \<Rightarrow> worker list \<Rightarrow> bool" where
  "transfer_ok r0 src lossy r ws \<longleftrightarrow> threads_ok r0 ws \<and> frame_ok r0 r \<and> (\<forall>i\<in>needed r0. \<exists>lost. file_inv r0 src lossy r ws i lost)"

text \<open>A section touches one file only.\<close>

definition only :: "receiver \<Rightarrow> nat \<Rightarrow> receiver \<Rightarrow> receiver \<Rightarrow> bool" where
  "only r0 j r r' \<longleftrightarrow> rc_entries r' = rc_entries r \<and> rc_dirs r' = rc_dirs r \<and> (rc_pending r' = rc_pending r \<or> rc_pending r' = remove1 j (rc_pending r))
     \<and> (\<forall>i. i \<noteq> j \<longrightarrow> state_of r' i = state_of r i) \<and> tgt r' j = tgt r j \<and> tmp r' j = tmp r j
     \<and> (\<forall>q. q \<noteq> tgt r0 j \<longrightarrow> q \<noteq> tmp r0 j \<longrightarrow> dget (disk r') q = dget (disk r) q)"

lemma only_refl: "only r0 j r r"
  by (simp add: only_def)

lemma only_file_view:
  assumes "only r0 j r r'" "layout r0 src" "i \<in> needed r0" "j \<in> needed r0" "i \<noteq> j"
  shows "file_view (tgt r0 i) (tmp r0 i) i r' = file_view (tgt r0 i) (tmp r0 i) i r"
proof -
  have "tgt r0 i \<noteq> tgt r0 j" "tgt r0 i \<noteq> tmp r0 j" "tmp r0 i \<noteq> tgt r0 j" "tmp r0 i \<noteq> tmp r0 j"
    using assms unfolding layout_def by metis+
  then show ?thesis using assms(1,5) by (auto simp: only_def file_view_def)
qed

lemma transfer_ok_change:
  assumes ok: "transfer_ok r0 src lossy r ws" and lay: "layout r0 src" and k: "k < length ws" and j: "j \<in> needed r0" and only: "only r0 j r r'"
    and w: "set (wk_frames w) \<subseteq> set (wk_frames (ws ! k))" "phase_index (wk_phase w) \<in> {None, Some j}"
    and others: "\<And>i. i \<noteq> j \<Longrightarrow> thread_view i w = thread_view i (ws ! k)"
    and own: "\<exists>lost. file_inv r0 src lossy r' (ws[k := w]) j lost"
  shows "transfer_ok r0 src lossy r' (ws[k := w])"
proof -
  have mem: "ws ! k \<in> set ws" using k by simp
  have "threads_ok r0 (ws[k := w])"
    using ok mem w j unfolding transfer_ok_def threads_ok_def by (intro ball_change) (auto 4 3)
  moreover have "frame_ok r0 r'"
    using ok only j unfolding transfer_ok_def frame_ok_def only_def by (auto dest: notin_set_remove1)
  moreover have "\<exists>lost. file_inv r0 src lossy r' (ws[k := w]) i lost" if i: "i \<in> needed r0" for i
  proof (cases "i = j")
    case False
    have "map (thread_view i) (ws[k := w]) = map (thread_view i) ws"
      using others [OF False] k by (simp add: map_update list_update_same_conv)
    then show ?thesis using ok i only_file_view [OF only lay i j False] unfolding transfer_ok_def file_inv_def by simp
  qed (use own in simp)
  ultimately show ?thesis unfolding transfer_ok_def by blast
qed

lemma transfer_ok_lossy: "transfer_ok r0 src lossy r ws \<Longrightarrow> transfer_ok r0 src True r ws"
  unfolding transfer_ok_def file_inv_def by blast

lemma state_of_put [simp]: "state_of (put_state j s r) i = (if i = j then s else state_of r i)"
  by (simp add: state_of_def put_state_def)

lemma put_state_simps [simp]:
  "rc_entries (put_state j s r) = rc_entries r" "rc_dirs (put_state j s r) = rc_dirs r" "rc_pending (put_state j s r) = rc_pending r" "disk (put_state j s r) = disk r"
  by (simp_all add: put_state_def)

lemma state_of_updates [simp]:
  "state_of (r\<lparr>disk := d\<rparr>) i = state_of r i" "state_of (r\<lparr>rc_pending := p\<rparr>) i = state_of r i"
  by (simp_all add: state_of_def)

text \<open>What is known of the file a thread is at.\<close>

lemma own_facts:
  assumes "transfer_ok r0 src lossy r ws" "layout r0 src" "j \<in> needed r0"
  shows "tgt r j = tgt r0 j" "tmp r j = tmp r0 j" "tmp r0 j \<noteq> tgt r0 j" "size_of r j = length (src j)" "rc_entries r = rc_entries r0" "distinct (rc_pending r)"
  using assms unfolding transfer_ok_def frame_ok_def layout_def size_of_def by auto

lemma view_update:
  assumes "k < length ws"
  shows "map (thread_view j) (ws[k := w]) = (map (thread_view j) ws)[k := thread_view j w]" "map (thread_view j) ws ! k = thread_view j (ws ! k)"
  using assms by (simp_all add: map_update)

lemma keep_begin:
  assumes ok: "transfer_ok r0 src lossy r ws" and lay: "layout r0 src" and k: "k < length ws" and idle: "wk_phase (ws ! k) = Idle" and f: "wk_frames (ws ! k) = f # fs"
    and step: "worker_step os n (ws ! k) r = (w, r')"
  shows "transfer_ok r0 src (lossy \<or> wk_phase w = Failed OSError) r' (ws[k := w]) \<and> wk_phase w \<in> {Failed OSError} \<union> {Writing i off b l m |i off b l m. True}"
proof -
  let ?j = "fr_index f"
  have j: "?j \<in> needed r0" using ok k f unfolding transfer_ok_def threads_ok_def by (metis list.set_intros(1) nth_mem)
  note own = own_facts [OF ok lay j]
  let ?s = "state_of r ?j" and ?fv = "file_view (tgt r0 ?j) (tmp r0 ?j) ?j r" and ?vs = "map (thread_view ?j) ws" and ?w0 = "ws ! k"
  obtain lost where inv: "file_inv r0 src lossy r ws ?j lost" using ok j unfolding transfer_ok_def by blast
  have inv': "file_good (src ?j) (rc_entries r0 ! ?j) (dget (disk r0) (tgt r0 ?j)) ?fv ?vs lost" and less: "lossy \<or> lossless ?fv ?vs lost"
    using inv unfolding file_inv_def by blast+
  have kv: "k < length ?vs" using k by simp
  have mem: "?vs ! k \<in> set ?vs" by (rule nth_mem [OF kv])
  have v: "?vs ! k = (Idle, f # filter (\<lambda>g. fr_index g = ?j) fs)" using idle f k by (simp add: thread_view_def)
  have good: "good_frame (src ?j) f" using file_okD(1) [OF inv' mem, of f] v by simp
  then have "0 < load (?vs ! k)" using v by (simp add: load_def frames_load_def good_frame_def)
  then have pending: "?j \<in> needed r" using load_pos_pending [OF inv' mem] by (simp add: file_view_def)
  have fits: "\<not> size_of r ?j < fr_offset f + fr_length f" using good own(4) by (simp add: good_frame_def)
  have others: "thread_view i (w\<lparr>wk_phase := ph, wk_frames := fs\<rparr>) = thread_view i ?w0" if "i \<noteq> ?j" "phase_index ph \<in> {None, Some ?j}" for i ph and w :: worker
    using that idle f by (auto simp: thread_view_def)
  show ?thesis
  proof (cases "ps_open ?s \<or> \<not> (isdir (disk r) (ps_temp ?s) \<or> \<not> isdir (disk r) (butlast (ps_temp ?s)))")
    case False
    then have "write_begin os f r = (Inl OSError, r)"
      using pending by (simp add: write_begin_def open_file_def op_simps Let_def)
    then have w: "w = ?w0\<lparr>wk_phase := Failed OSError, wk_frames := fs\<rparr>" "r' = r"
      using step idle f by (auto simp: worker_step_def after_op_def)
    have "file_good (src ?j) (rc_entries r0 ! ?j) (dget (disk r0) (tgt r0 ?j)) (?fv\<lparr>fv_state := fv_state ?fv, fv_temp := fv_temp ?fv\<rparr>)
        (?vs[k := (Idle, filter (\<lambda>g. fr_index g = ?j) fs)]) ([f] @ lost)"
      by (rule ok_lose [OF inv' kv v]) (use good v in \<open>auto simp: good_frame_def load_def frames_load_def waits_def\<close>)
    then have "\<exists>lost. file_inv r0 src True r' (ws[k := w]) ?j lost"
      unfolding file_inv_def using w view_update(1) [OF k, of ?j w] by (auto simp: thread_view_def)
    then have "transfer_ok r0 src True r' (ws[k := w])"
      by (intro transfer_ok_change [OF transfer_ok_lossy [OF ok] lay k j]) (use w f others [of _ "Failed OSError"] in \<open>auto simp: only_refl\<close>)
    then show ?thesis using w by simp
  next
    case True
    let ?r = "if ps_open ?s then r else create_temp os ?j ?s r"
    let ?ph = "Writing ?j (fr_offset f) (write_buffer ?r f) (fr_length f) 0"
    have size: "size_of ?r ?j = size_of r ?j" by (simp add: size_of_def create_temp_def Let_def)
    then have "write_begin os f r = (Inr (write_buffer ?r f), ?r)"
      using pending True fits by (cases "ps_open ?s") (simp_all add: write_begin_def open_file_def op_simps Let_def)
    then have w: "w = ?w0\<lparr>wk_phase := ?ph, wk_frames := fs\<rparr>" "r' = ?r"
      using step idle f by (auto simp: worker_step_def after_op_def)
    have onlyj: "only r0 ?j r ?r" using own(2) by (auto simp: only_def create_temp_def Let_def)
    have fv: "\<exists>tm d m t. file_view (tgt r0 ?j) (tmp r0 ?j) ?j ?r = ?fv\<lparr>fv_state := (fv_state ?fv)\<lparr>ps_open := True, ps_direct := d\<rparr>, fv_temp := tm\<rparr>
        \<and> ps_direct (state_of ?r ?j) = d
        \<and> (if ps_open (fv_state ?fv) then tm = fv_temp ?fv \<and> d = ps_direct (fv_state ?fv) else tm = Some (File_node (replicate (length (src ?j)) 0) m t))"
      using own by (cases "ps_open ?s") (auto simp: file_view_def create_temp_def Let_def)
    then obtain tm d m t where fv: "file_view (tgt r0 ?j) (tmp r0 ?j) ?j ?r = ?fv\<lparr>fv_state := (fv_state ?fv)\<lparr>ps_open := True, ps_direct := d\<rparr>, fv_temp := tm\<rparr>"
        "ps_direct (state_of ?r ?j) = d"
        "if ps_open (fv_state ?fv) then tm = fv_temp ?fv \<and> d = ps_direct (fv_state ?fv) else tm = Some (File_node (replicate (length (src ?j)) 0) m t)"
      by blast
    have "file_good (src ?j) (rc_entries r0 ! ?j) (dget (disk r0) (tgt r0 ?j)) (?fv\<lparr>fv_state := (fv_state ?fv)\<lparr>ps_open := True, ps_direct := d\<rparr>, fv_temp := tm\<rparr>)
        (?vs[k := (?ph, filter (\<lambda>g. fr_index g = ?j) fs)]) lost"
      by (rule ok_begin [OF inv' kv v _ refl fv(3) refl]) (simp add: write_buffer_def fv(2) Let_def)
    moreover have "lossy \<or> lossless (?fv\<lparr>fv_state := (fv_state ?fv)\<lparr>ps_open := True, ps_direct := d\<rparr>, fv_temp := tm\<rparr>) (?vs[k := (?ph, filter (\<lambda>g. fr_index g = ?j) fs)]) lost"
      using less same_total_finals [OF kv, of "(?ph, filter (\<lambda>g. fr_index g = ?j) fs)"] v by (auto simp: lossless_def load_def frames_load_def)
    ultimately have "\<exists>lost. file_inv r0 src lossy r' (ws[k := w]) ?j lost"
      unfolding file_inv_def using w view_update(1) [OF k, of ?j w] fv(1) by (auto simp: thread_view_def)
    then have "transfer_ok r0 src lossy r' (ws[k := w])"
      by (intro transfer_ok_change [OF ok lay k j]) (use w f onlyj others [of _ ?ph] in auto)
    then show ?thesis using w by simp
  qed
qed

text \<open>A thread that is at a file: what its next section does, as its file's view says.\<close>

lemma keep_own:
  assumes ok: "transfer_ok r0 src lossy r ws" and lay: "layout r0 src" and k: "k < length ws" and at: "phase_index (wk_phase (ws ! k)) = Some j"
    and w: "w = (ws ! k)\<lparr>wk_phase := ph\<rparr>" "phase_index ph \<in> {None, Some j}" and only: "only r0 j r r'"
    and fv: "file_view (tgt r0 j) (tmp r0 j) j r' = fv"
    and own: "file_good (src j) (rc_entries r0 ! j) (dget (disk r0) (tgt r0 j)) fv
      ((map (thread_view j) ws)[k := (if phase_index ph = Some j then ph else Idle, filter (\<lambda>f. fr_index f = j) (wk_frames (ws ! k)))]) lost"
    and less: "lossy \<or> lossless fv ((map (thread_view j) ws)[k := (if phase_index ph = Some j then ph else Idle, filter (\<lambda>f. fr_index f = j) (wk_frames (ws ! k)))]) lost"
  shows "transfer_ok r0 src lossy r' (ws[k := w])"
proof -
  have j: "j \<in> needed r0" using ok k at unfolding transfer_ok_def threads_ok_def by (metis nth_mem)
  have "thread_view j w = (if phase_index ph = Some j then ph else Idle, filter (\<lambda>f. fr_index f = j) (wk_frames (ws ! k)))"
    using w by (simp add: thread_view_def)
  then have "file_inv r0 src lossy r' (ws[k := w]) j lost"
    unfolding file_inv_def using own less fv view_update(1) [OF k, of j w] by simp
  moreover have "thread_view i w = thread_view i (ws ! k)" if "i \<noteq> j" for i
    using that w at by (auto simp: thread_view_def)
  ultimately show ?thesis using w by (intro transfer_ok_change [OF ok lay k j only]) auto
qed

lemma own_view:
  assumes "transfer_ok r0 src lossy r ws" "k < length ws" "phase_index (wk_phase (ws ! k)) = Some j"
  obtains lost where "j \<in> needed r0" "k < length (map (thread_view j) ws)"
    "map (thread_view j) ws ! k = (wk_phase (ws ! k), filter (\<lambda>f. fr_index f = j) (wk_frames (ws ! k)))"
    "file_good (src j) (rc_entries r0 ! j) (dget (disk r0) (tgt r0 j)) (file_view (tgt r0 j) (tmp r0 j) j r) (map (thread_view j) ws) lost"
    "lossy \<or> lossless (file_view (tgt r0 j) (tmp r0 j) j r) (map (thread_view j) ws) lost"
proof -
  have j: "j \<in> needed r0" using assms unfolding transfer_ok_def threads_ok_def by (metis nth_mem)
  obtain lost where "file_inv r0 src lossy r ws j lost" using assms(1) j unfolding transfer_ok_def by blast
  then show thesis using that [of lost] j assms(2,3) by (auto simp: file_inv_def thread_view_def)
qed

lemma keep_write:
  assumes ok: "transfer_ok r0 src lossy r ws" and lay: "layout r0 src" and k: "k < length ws" and ph: "wk_phase (ws ! k) = Writing j off buffer len m"
    and step: "worker_step os n (ws ! k) r = (w, r')"
  shows "transfer_ok r0 src lossy r' (ws[k := w]) \<and> (\<forall>e. wk_phase w \<noteq> Failed e)"
proof -
  let ?fv = "file_view (tgt r0 j) (tmp r0 j) j r" and ?vs = "map (thread_view j) ws" and ?fs = "filter (\<lambda>f. fr_index f = j) (wk_frames (ws ! k))"
  obtain lost where view: "j \<in> needed r0" "k < length ?vs" "?vs ! k = (wk_phase (ws ! k), ?fs)"
    "file_good (src j) (rc_entries r0 ! j) (dget (disk r0) (tgt r0 j)) ?fv ?vs lost" "lossy \<or> lossless ?fv ?vs lost"
    using own_view [OF ok k, of j] ph by auto
  note own = own_facts [OF ok lay view(1)] and v = view(3) [unfolded ph]
  show ?thesis
  proof (cases "m < length buffer")
    case True
    let ?data = "take (max 1 n) (drop m buffer)" and ?ph = "\<lambda>data. Writing j off buffer len (m + length data)"
    obtain c mode t where c: "ps_open (fv_state ?fv)" "fv_temp ?fv = Some (File_node c mode t)"
      "file_good (src j) (rc_entries r0 ! j) (dget (disk r0) (tgt r0 j)) (?fv\<lparr>fv_temp := Some (File_node (overwrite c (off + m) ?data) mode t)\<rparr>)
        (?vs[k := (?ph ?data, ?fs)]) lost"
      using ok_write [OF view(4,2) v True refl, of n] by blast
    let ?r = "r\<lparr>disk := dset (tmp r0 j) (File_node (overwrite c (off + m) ?data) mode t) (disk r)\<rparr>"
    have "pwrite j (off + m) ?data r = (Inr (), ?r)"
      using c(1,2) own(2) by (simp add: pwrite_def op_simps file_view_def)
    then have w: "w = (ws ! k)\<lparr>wk_phase := ?ph ?data\<rparr>" "r' = ?r"
      using step ph True by (auto simp: worker_step_def after_op_def Let_def)
    have "file_view (tgt r0 j) (tmp r0 j) j ?r = ?fv\<lparr>fv_temp := Some (File_node (overwrite c (off + m) ?data) mode t)\<rparr>"
      using own(3) by (simp add: file_view_def)
    moreover have "only r0 j r ?r" by (simp add: only_def)
    moreover have "lossy \<or> lossless (?fv\<lparr>fv_temp := Some (File_node (overwrite c (off + m) ?data) mode t)\<rparr>) (?vs[k := (?ph ?data, ?fs)]) lost"
      using view(5) same_total_finals [OF view(2), of "(?ph ?data, ?fs)"] v by (auto simp: lossless_def load_def)
    ultimately have "transfer_ok r0 src lossy r' (ws[k := w])"
      using c(3) w ph by (intro keep_own [OF ok lay k _ w(1)]) auto
    then show ?thesis using w by simp
  next
    case False
    let ?s = "(state_of r j)\<lparr>ps_remaining := ps_remaining (state_of r j) - int len\<rparr>"
    let ?ph = "if ps_remaining ?s = 0 then Sealing j else Idle"
    have "count_down j len r = (Inr (ps_remaining ?s = 0), put_state j ?s r)"
      by (simp add: count_down_def op_simps)
    then have w: "w = (ws ! k)\<lparr>wk_phase := ?ph\<rparr>" "r' = put_state j ?s r"
      using step ph False by (auto simp: worker_step_def after_op_def)
    have s: "?s = (fv_state ?fv)\<lparr>ps_remaining := ps_remaining (fv_state ?fv) - int len\<rparr>" by (simp add: file_view_def)
    have counted: "file_good (src j) (rc_entries r0 ! j) (dget (disk r0) (tgt r0 j)) (?fv\<lparr>fv_state := ?s, fv_temp := fv_temp ?fv\<rparr>) (?vs[k := (?ph, ?fs)]) lost"
      by (rule ok_count [OF view(4,2) v _ s]) (use False in simp)
    have "0 < total (?vs[k := (?ph, ?fs)]) lost \<or> 0 < finals (?vs[k := (?ph, ?fs)])"
      using file_okD(4) [OF counted] finals_pos [OF set_update_memI [OF view(2), of "(?ph, ?fs)"]] by (cases "ps_remaining ?s = 0") auto
    then have less: "lossy \<or> lossless (?fv\<lparr>fv_state := ?s, fv_temp := fv_temp ?fv\<rparr>) (?vs[k := (?ph, ?fs)]) lost"
      using view(5) by (auto simp: lossless_def)
    note counted
    moreover have "file_view (tgt r0 j) (tmp r0 j) j (put_state j ?s r) = ?fv\<lparr>fv_state := ?s, fv_temp := fv_temp ?fv\<rparr>"
      by (simp add: file_view_def)
    moreover have "only r0 j r (put_state j ?s r)" by (simp add: only_def)
    ultimately have "transfer_ok r0 src lossy r' (ws[k := w])"
      using w ph less by (intro keep_own [OF ok lay k _ w(1)]) auto
    then show ?thesis using w by simp
  qed
qed

lemma keep_seal:
  assumes ok: "transfer_ok r0 src lossy r ws" and lay: "layout r0 src" and k: "k < length ws" and ph: "wk_phase (ws ! k) = Sealing j"
    and step: "worker_step os n (ws ! k) r = (w, r')"
  shows "transfer_ok r0 src lossy r' (ws[k := w]) \<and> (\<forall>e. wk_phase w \<noteq> Failed e)"
proof -
  let ?fv = "file_view (tgt r0 j) (tmp r0 j) j r" and ?vs = "map (thread_view j) ws" and ?fs = "filter (\<lambda>f. fr_index f = j) (wk_frames (ws ! k))"
  let ?e = "rc_entries r0 ! j"
  obtain lost where view: "j \<in> needed r0" "k < length ?vs" "?vs ! k = (wk_phase (ws ! k), ?fs)"
    "file_good (src j) (rc_entries r0 ! j) (dget (disk r0) (tgt r0 j)) ?fv ?vs lost" "lossy \<or> lossless ?fv ?vs lost"
    using own_view [OF ok k, of j] ph by auto
  note own = own_facts [OF ok lay view(1)] and v = view(3) [unfolded ph]
  let ?new = "File_node (src j) (en_mode ?e) (en_mtime ?e)" and ?s = "(state_of r j)\<lparr>ps_open := False\<rparr>"
  obtain c m t where c: "fv_pending ?fv" "ps_open (fv_state ?fv)" "fv_temp ?fv = Some (File_node c m t)"
    "(if ps_direct (fv_state ?fv) then take (length (src j)) (c @ replicate (length (src j) - length c) 0) else c) = src j"
    "file_good (src j) ?e (dget (disk r0) (tgt r0 j)) (?fv\<lparr>fv_state := (fv_state ?fv)\<lparr>ps_open := False\<rparr>, fv_temp := Some ?new\<rparr>) (?vs[k := (Renaming j, ?fs)]) lost"
    using ok_seal [OF view(4,2) v] by blast
  let ?r = "(put_state j ?s r)\<lparr>disk := dset (tmp r0 j) ?new (disk r)\<rparr>"
  have "seal j r = (Inr (), ?r)"
    using c(1-4) own(2,4,5) by (cases "ps_direct (state_of r j)") (simp_all add: seal_def op_simps file_view_def Let_def size_of_def)
  then have w: "w = (ws ! k)\<lparr>wk_phase := Renaming j\<rparr>" "r' = ?r"
    using step ph by (auto simp: worker_step_def after_op_def)
  have "file_view (tgt r0 j) (tmp r0 j) j ?r = ?fv\<lparr>fv_state := (fv_state ?fv)\<lparr>ps_open := False\<rparr>, fv_temp := Some ?new\<rparr>"
    using own(3) by (simp add: file_view_def)
  moreover have "only r0 j r ?r" by (simp add: only_def)
  moreover have "0 < finals (?vs[k := (Renaming j, ?fs)])" using finals_pos [OF set_update_memI [OF view(2)], of "(Renaming j, ?fs)"] by simp
  ultimately have "transfer_ok r0 src lossy r' (ws[k := w])"
    using c(5) w ph view(5) by (intro keep_own [OF ok lay k _ w(1)]) (auto simp: lossless_def)
  then show ?thesis using w by simp
qed

text \<open>A thread that fails at a file.\<close>

fun part_lost :: "phase \<Rightarrow> frame list" where
  "part_lost (Writing j off _ len _) = [\<lparr>fr_index = j, fr_offset = off, fr_length = len, fr_digest = [], fr_data = []\<rparr>]"
| "part_lost _ = []"

lemma keep_failed:
  assumes ok: "transfer_ok r0 src lossy r ws" and lay: "layout r0 src" and k: "k < length ws" and at: "phase_index (wk_phase (ws ! k)) = Some j"
    and quiet: "\<And>i. wk_phase (ws ! k) \<noteq> Forgetting i" and w: "w = (ws ! k)\<lparr>wk_phase := Failed e\<rparr>"
    and r': "r' = (case wk_phase (ws ! k) of Sealing i \<Rightarrow> put_state i ((state_of r i)\<lparr>ps_open := False\<rparr>) r | _ \<Rightarrow> r)"
  shows "transfer_ok r0 src True r' (ws[k := w])"
proof -
  let ?fv = "file_view (tgt r0 j) (tmp r0 j) j r" and ?vs = "map (thread_view j) ws" and ?fs = "filter (\<lambda>f. fr_index f = j) (wk_frames (ws ! k))"
  let ?ph = "wk_phase (ws ! k)"
  obtain lost where view: "j \<in> needed r0" "k < length ?vs" "?vs ! k = (?ph, ?fs)"
    "file_good (src j) (rc_entries r0 ! j) (dget (disk r0) (tgt r0 j)) ?fv ?vs lost" "lossy \<or> lossless ?fv ?vs lost"
    using own_view [OF ok k, of j] at by auto
  note D = file_okD [OF view(4)]
  have mem: "?vs ! k \<in> set ?vs" by (rule nth_mem [OF view(2)])
  have phase: "good_phase (src j) (ps_open (fv_state ?fv)) (ps_direct (fv_state ?fv)) ?ph" using D(2) [OF mem] view(3) by simp
  let ?open = "if finishing ?ph then False else ps_open (fv_state ?fv)"
  let ?fv' = "?fv\<lparr>fv_state := (fv_state ?fv)\<lparr>ps_open := ?open\<rparr>, fv_temp := fv_temp ?fv\<rparr>"
  have "file_good (src j) (rc_entries r0 ! j) (dget (disk r0) (tgt r0 j)) ?fv' (?vs[k := (Idle, ?fs)]) (part_lost ?ph @ lost)"
  proof (rule ok_lose [OF view(4,2,3) _ _ _ _ quiet refl])
    show "\<forall>f\<in>set (part_lost ?ph). 0 < fr_length f" using phase by (cases ?ph) auto
    show "load (?vs ! k) = frames_load ?fs + frames_load (part_lost ?ph)"
      unfolding view(3) by (cases ?ph) (simp_all add: load_def frames_load_def)
    show "(\<exists>f\<in>set ?fs. frame_covers f p) \<or> (\<exists>f\<in>set (part_lost ?ph). frame_covers f p)" if "waits (?vs ! k) p" for p
      using that unfolding view(3) by (cases ?ph) (auto simp: waits_def frame_covers_def)
  qed simp_all
  moreover have "file_view (tgt r0 j) (tmp r0 j) j r' = ?fv'"
    using at r' phase by (cases ?ph) (auto simp: file_view_def)
  moreover have "only r0 j r r'" using at r' by (cases ?ph) (auto simp: only_def)
  ultimately show ?thesis by (intro keep_own [OF transfer_ok_lossy [OF ok] lay k at w]) auto
qed

lemma keep_rename:
  assumes ok: "transfer_ok r0 src lossy r ws" and lay: "layout r0 src" and k: "k < length ws" and ph: "wk_phase (ws ! k) = Renaming j"
    and step: "worker_step os n (ws ! k) r = (w, r')"
  shows "transfer_ok r0 src (lossy \<or> wk_phase w = Failed OSError) r' (ws[k := w]) \<and> wk_phase w \<in> {Failed OSError, Forgetting j}"
proof -
  let ?fv = "file_view (tgt r0 j) (tmp r0 j) j r" and ?vs = "map (thread_view j) ws" and ?fs = "filter (\<lambda>f. fr_index f = j) (wk_frames (ws ! k))"
  let ?e = "rc_entries r0 ! j"
  obtain lost where view: "j \<in> needed r0" "k < length ?vs" "?vs ! k = (wk_phase (ws ! k), ?fs)"
    "file_good (src j) (rc_entries r0 ! j) (dget (disk r0) (tgt r0 j)) ?fv ?vs lost" "lossy \<or> lossless ?fv ?vs lost"
    using own_view [OF ok k, of j] ph by auto
  note own = own_facts [OF ok lay view(1)] and v = view(3) [unfolded ph]
  let ?new = "File_node (src j) (en_mode ?e) (en_mtime ?e)"
  note rn = ok_rename [OF view(4,2) v]
  show ?thesis
  proof (cases "isdir (disk r) (tgt r0 j)")
    case True
    then have "rename j r = (Inl OSError, r)" using rn own(1,2) by (simp add: rename_def op_simps Let_def file_view_def)
    then have "w = (ws ! k)\<lparr>wk_phase := Failed OSError\<rparr>" "r' = r"
      using step ph by (auto simp: worker_step_def after_op_def)
    then show ?thesis using keep_failed [OF ok lay k, of j w OSError r'] ph by simp
  next
    case False
    let ?r = "r\<lparr>disk := dset (tgt r0 j) ?new (ddel (tmp r0 j) (disk r))\<rparr>"
    have "rename j r = (Inr (), ?r)" using rn own(1,2) False by (simp add: rename_def op_simps Let_def file_view_def)
    then have w: "w = (ws ! k)\<lparr>wk_phase := Forgetting j\<rparr>" "r' = ?r"
      using step ph by (auto simp: worker_step_def after_op_def)
    have "file_view (tgt r0 j) (tmp r0 j) j ?r = ?fv\<lparr>fv_target := Some ?new, fv_temp := None\<rparr>"
      using own(3) by (simp add: file_view_def)
    moreover have "only r0 j r ?r" by (simp add: only_def)
    moreover have "0 < finals (?vs[k := (Forgetting j, ?fs)])" using finals_pos [OF set_update_memI [OF view(2)], of "(Forgetting j, ?fs)"] by simp
    ultimately have "transfer_ok r0 src lossy r' (ws[k := w])"
      using rn w ph view(5) by (intro keep_own [OF ok lay k _ w(1)]) (auto simp: lossless_def)
    then show ?thesis using w by simp
  qed
qed

lemma keep_forget:
  assumes ok: "transfer_ok r0 src lossy r ws" and lay: "layout r0 src" and k: "k < length ws" and ph: "wk_phase (ws ! k) = Forgetting j"
    and step: "worker_step os n (ws ! k) r = (w, r')"
  shows "transfer_ok r0 src lossy r' (ws[k := w]) \<and> wk_phase w = Idle"
proof -
  let ?fv = "file_view (tgt r0 j) (tmp r0 j) j r" and ?vs = "map (thread_view j) ws" and ?fs = "filter (\<lambda>f. fr_index f = j) (wk_frames (ws ! k))"
  obtain lost where view: "j \<in> needed r0" "k < length ?vs" "?vs ! k = (wk_phase (ws ! k), ?fs)"
    "file_good (src j) (rc_entries r0 ! j) (dget (disk r0) (tgt r0 j)) ?fv ?vs lost" "lossy \<or> lossless ?fv ?vs lost"
    using own_view [OF ok k, of j] ph by auto
  note own = own_facts [OF ok lay view(1)] and fg = ok_forget [OF view(4,2) view(3) [unfolded ph]]
  let ?r = "r\<lparr>rc_pending := remove1 j (rc_pending r)\<rparr>"
  have "forget j r = (Inr (), ?r)" using fg by (simp add: forget_def op_simps file_view_def)
  then have w: "w = (ws ! k)\<lparr>wk_phase := Idle\<rparr>" "r' = ?r"
    using step ph by (auto simp: worker_step_def after_op_def)
  have "file_view (tgt r0 j) (tmp r0 j) j ?r = ?fv\<lparr>fv_pending := False\<rparr>"
    using own(6) by (simp add: file_view_def)
  moreover have "only r0 j r ?r" by (simp add: only_def)
  ultimately have "transfer_ok r0 src lossy r' (ws[k := w])"
    using fg w ph view(5) by (intro keep_own [OF ok lay k _ w(1)]) (auto simp: lossless_def)
  then show ?thesis using w by simp
qed

section \<open>Every step\<close>

definition any_failed :: "worker list \<Rightarrow> bool" where
  "any_failed ws \<longleftrightarrow> (\<exists>w\<in>set ws. \<exists>e. wk_phase w = Failed e)"

lemma any_failedI: "k < length ws \<Longrightarrow> wk_phase w = Failed e \<Longrightarrow> any_failed (ws[k := w])"
  unfolding any_failed_def by (metis set_update_memI)

lemma transfer_ok_weaken: "transfer_ok r0 src lossy r ws \<Longrightarrow> (lossy \<Longrightarrow> lossy') \<Longrightarrow> transfer_ok r0 src lossy' r ws"
  unfolding transfer_ok_def file_inv_def by blast

lemma same_views:
  assumes ok: "transfer_ok r0 src lossy r ws" and k: "k < length ws"
    and w: "wk_frames w = wk_frames (ws ! k)" "phase_index (wk_phase w) = None" "phase_index (wk_phase (ws ! k)) = None"
  shows "transfer_ok r0 src lossy r (ws[k := w])"
proof -
  have "map (thread_view i) (ws[k := w]) = map (thread_view i) ws" for i
    using k w by (simp add: map_update list_update_same_conv thread_view_def)
  moreover have "threads_ok r0 (ws[k := w])"
    using ok w nth_mem [OF k] unfolding transfer_ok_def threads_ok_def by (intro ball_change) auto
  ultimately show ?thesis using ok unfolding transfer_ok_def file_inv_def by simp
qed

lemma keep_thread:
  assumes "thread_step os (r, ws) (r', ws')" "transfer_ok r0 src lossy r ws" "layout r0 src"
  shows "transfer_ok r0 src (lossy \<or> any_failed ws') r' ws'"
  using assms(1)
proof (cases rule: thread_step.cases)
  case (1 k n w)
  note ok = assms(2) and lay = assms(3) and step = 1(4)
  have "transfer_ok r0 src (lossy \<or> (\<exists>e. wk_phase w = Failed e)) r' (ws[k := w])"
  proof (cases "wk_phase (ws ! k)")
    case Idle
    show ?thesis
    proof (cases "wk_frames (ws ! k)")
      case Nil
      then have "wk_frames w = []" "r' = r" "phase_index (wk_phase w) = None"
        using step Idle by (auto simp: worker_step_def split: option.splits)
      then show ?thesis using same_views [OF ok 1(2), of w] Idle Nil by (auto intro: transfer_ok_weaken)
    next
      case (Cons f fs)
      from keep_begin [OF ok lay 1(2) Idle Cons step] show ?thesis by (auto intro: transfer_ok_weaken)
    qed
  next
    case Writing
    from keep_write [OF ok lay 1(2) this step] show ?thesis by (auto intro: transfer_ok_weaken)
  next
    case Sealing
    from keep_seal [OF ok lay 1(2) this step] show ?thesis by (auto intro: transfer_ok_weaken)
  next
    case Renaming
    from keep_rename [OF ok lay 1(2) this step] show ?thesis by (auto intro: transfer_ok_weaken)
  next
    case Forgetting
    from keep_forget [OF ok lay 1(2) this step] show ?thesis by (auto intro: transfer_ok_weaken)
  next
    case Failed
    then show ?thesis using 1(3) by (simp add: unfinished_def)
  qed
  then show ?thesis using 1 any_failedI [of k ws w] by (auto elim: transfer_ok_weaken)
qed

lemma keep_cut:
  assumes ok: "transfer_ok r0 src lossy r ws" and k: "k < length ws" and idle: "wk_phase (ws ! k) = Idle"
    and w: "w = (ws ! k)\<lparr>wk_frames := [], wk_end := e\<rparr>"
  shows "transfer_ok r0 src True r (ws[k := w])"
proof -
  have "\<exists>lost. file_inv r0 src True r (ws[k := w]) i lost" if i: "i \<in> needed r0" for i
  proof -
    obtain lost where inv: "file_inv r0 src True r ws i lost" using transfer_ok_lossy [OF ok] i unfolding transfer_ok_def by blast
    let ?fv = "file_view (tgt r0 i) (tmp r0 i) i r" and ?vs = "map (thread_view i) ws" and ?fs = "filter (\<lambda>f. fr_index f = i) (wk_frames (ws ! k))"
    have kv: "k < length ?vs" and v: "?vs ! k = (Idle, ?fs)" using k idle by (simp_all add: thread_view_def)
    have "file_good (src i) (rc_entries r0 ! i) (dget (disk r0) (tgt r0 i)) (?fv\<lparr>fv_state := fv_state ?fv, fv_temp := fv_temp ?fv\<rparr>) (?vs[k := (Idle, [])]) (?fs @ lost)"
      by (rule ok_lose [OF _ kv v])
         (use inv file_okD(1) [OF inv [unfolded file_inv_def, THEN conjunct1] nth_mem [OF kv]] v in
           \<open>auto simp: file_inv_def load_def frames_load_def waits_def good_frame_def\<close>)
    then show ?thesis using view_update(1) [OF k, of i w] w idle by (auto simp: file_inv_def thread_view_def)
  qed
  moreover have "threads_ok r0 (ws[k := w])"
    using ok w idle nth_mem [OF k] unfolding transfer_ok_def threads_ok_def by (intro ball_change) auto
  ultimately show ?thesis using ok unfolding transfer_ok_def by blast
qed

lemma keep_transfer:
  assumes "transfer os (r, ws) (r', ws')" "transfer_ok r0 src lossy r ws" "layout r0 src"
  shows "transfer_ok r0 src True r' ws'"
  using assms(1)
proof (cases rule: transfer.cases)
  case runs
  then show ?thesis using keep_thread assms(2,3) transfer_ok_lossy by blast
next
  case (fault k w)
  then have w: "w = (ws ! k)\<lparr>wk_phase := Failed OSError\<rparr>"
    and r': "r' = (case wk_phase (ws ! k) of Sealing i \<Rightarrow> put_state i ((state_of r i)\<lparr>ps_open := False\<rparr>) r | _ \<Rightarrow> r)"
    by (auto simp: worker_fault_def)
  have quiet: "wk_phase (ws ! k) \<noteq> Forgetting i" for i using fault(4) by auto
  show ?thesis
  proof (cases "phase_index (wk_phase (ws ! k))")
    case None
    then have "r' = r" using r' by (cases "wk_phase (ws ! k)") auto
    then show ?thesis using same_views [OF transfer_ok_lossy [OF assms(2)] fault(2), of w] w None fault(1) by simp
  next
    case (Some j)
    then show ?thesis using keep_failed [OF assms(2,3) fault(2) Some quiet w r'] fault(1) by simp
  qed
next
  case (cut k e)
  then show ?thesis using keep_cut [OF assms(2) cut(3,4) refl] by simp
qed

lemma transfers_ok:
  assumes "(transfer os)\<^sup>*\<^sup>* s t" "transfer_ok r0 src True (fst s) (snd s)" "layout r0 src"
  shows "transfer_ok r0 src True (fst t) (snd t)"
  using assms(1,2)
proof (induction rule: rtranclp_induct)
  case (step t u)
  then show ?case using keep_transfer [of os "fst t" "snd t" "fst u" "snd u"] assms(3) by simp
qed

lemma failed_stays:
  assumes "thread_step os (r, ws) (r', ws')" "any_failed ws"
  shows "any_failed ws'"
  using assms(1)
proof (cases rule: thread_step.cases)
  case (1 k n w)
  obtain j e where j: "j < length ws" "wk_phase (ws ! j) = Failed e" using assms(2) by (auto simp: any_failed_def in_set_conv_nth)
  then have "j \<noteq> k" using 1(3) by (auto simp: unfinished_def)
  then show ?thesis using j 1(1) by (metis any_failed_def length_list_update nth_list_update_neq nth_mem)
qed

lemma thread_steps_ok:
  assumes "(thread_step os)\<^sup>*\<^sup>* s t" "transfer_ok r0 src False (fst s) (snd s)" "layout r0 src"
  shows "transfer_ok r0 src (any_failed (snd t)) (fst t) (snd t)"
  using assms(1)
proof (induction rule: rtranclp_induct)
  case base
  then show ?case using assms(2) transfer_ok_weaken by blast
next
  case (step t u)
  then show ?case using keep_thread [of os "fst t" "snd t" "fst u" "snd u", OF _ step.IH assms(3)] failed_stays [of os "fst t" "snd t" "fst u" "snd u"]
    by (auto elim: transfer_ok_weaken)
qed

text \<open>A thread that reads what the sender sent fails only when a call of the operating system does.\<close>

definition only_os_errors :: "worker list \<Rightarrow> bool" where
  "only_os_errors ws \<longleftrightarrow> (\<forall>w\<in>set ws. wk_end w = None \<and> (\<forall>e. wk_phase w = Failed e \<longrightarrow> e = OSError))"

lemma worker_step_end: "worker_step os n w r = (w', r') \<Longrightarrow> wk_end w' = wk_end w"
  by (cases "wk_phase w") (auto simp: worker_step_def after_op_def Let_def split: list.splits option.splits prod.splits sum.splits if_splits)

lemma keep_errors:
  assumes "thread_step os (r, ws) (r', ws')" "transfer_ok r0 src lossy r ws" "layout r0 src" "only_os_errors ws"
  shows "only_os_errors ws'"
  using assms(1)
proof (cases rule: thread_step.cases)
  case (1 k n w)
  note ok = assms(2) and lay = assms(3) and step = 1(4)
  have end0: "wk_end (ws ! k) = None" using assms(4) 1(2) by (simp add: only_os_errors_def)
  have "e = OSError" if e: "wk_phase w = Failed e" for e
  proof (cases "wk_phase (ws ! k)")
    case Idle
    with 1(3) end0 obtain f fs where "wk_frames (ws ! k) = f # fs" by (cases "wk_frames (ws ! k)") (auto simp: unfinished_def)
    from keep_begin [OF ok lay 1(2) Idle this step] e show ?thesis by auto
  next
    case Writing
    from keep_write [OF ok lay 1(2) this step] e show ?thesis by simp
  next
    case Sealing
    from keep_seal [OF ok lay 1(2) this step] e show ?thesis by simp
  next
    case Renaming
    from keep_rename [OF ok lay 1(2) this step] e show ?thesis by simp
  next
    case Forgetting
    from keep_forget [OF ok lay 1(2) this step] e show ?thesis by simp
  next
    case Failed
    then show ?thesis using 1(3) by (simp add: unfinished_def)
  qed
  then show ?thesis using assms(4) worker_step_end [OF step] end0 unfolding only_os_errors_def 1(1) by (intro ball_change) auto
qed

lemma thread_steps_errors:
  assumes "(thread_step os)\<^sup>*\<^sup>* s t" "transfer_ok r0 src False (fst s) (snd s)" "layout r0 src" "only_os_errors (snd s)"
  shows "only_os_errors (snd t)"
  using assms(1)
proof (induction rule: rtranclp_induct)
  case (step t u)
  then show ?case using keep_errors [of os "fst t" "snd t" "fst u" "snd u", OF _ thread_steps_ok [OF step(1) assms(2,3)] assms(3)] by simp
qed (rule assms(4))

section \<open>The start of a transfer\<close>

text \<open>
  The files as \<open>plan\<close> leaves them, and threads whose connections will together deliver the frames
  of the planned chunks, each once, in whatever order and on whichever connection.
\<close>

definition planned :: "receiver \<Rightarrow> (nat \<Rightarrow> byte list) \<Rightarrow> bool" where
  "planned r0 src \<longleftrightarrow> layout r0 src \<and> (\<forall>i\<in>needed r0. \<not> ps_open (state_of r0 i) \<and> ps_remaining (state_of r0 i) = int (length (src i)))"

definition started :: "(byte list \<Rightarrow> byte list) \<Rightarrow> (nat \<Rightarrow> byte list) \<Rightarrow> receiver \<Rightarrow> worker list \<Rightarrow> bool" where
  "started sha src r0 ws \<longleftrightarrow> (\<forall>w\<in>set ws. wk_phase w = Idle \<and> wk_end w = None)
     \<and> mset (concat (map wk_frames ws)) = mset (map (chunk_frame sha src) (plan_chunks (rc_pending r0) (rc_entries r0)))"

lemma frames_load_mset: "frames_load fs = sum_mset (image_mset fr_length (mset fs))"
  by (simp add: frames_load_def sum_mset_sum_list flip: mset_map)

lemma idle_total:
  assumes "\<forall>w\<in>set ws. wk_phase w = Idle"
  shows "total (map (thread_view i) ws) [] = frames_load (filter (\<lambda>f. fr_index f = i) (concat (map wk_frames ws)))"
    and "finals (map (thread_view i) ws) = 0"
    and "unwritten (map (thread_view i) ws) [] p \<longleftrightarrow> (\<exists>f\<in>set (concat (map wk_frames ws)). fr_index f = i \<and> frame_covers f p)"
  using assms by (induction ws) (auto simp: total_def load_def frames_load_def thread_view_def finals_def unwritten_def waits_def)

lemma chunk_frame_fields [simp]:
  "fr_index (chunk_frame sha src (i, off, len)) = i" "fr_offset (chunk_frame sha src (i, off, len)) = off" "fr_length (chunk_frame sha src (i, off, len)) = len"
  "fr_data (chunk_frame sha src (i, off, len)) = take len (drop off (src i))"
  by (simp_all add: chunk_frame_def Let_def)

lemma chunks_of_index: "x \<in> set (chunks_of i n) \<Longrightarrow> fst x = i"
  by (cases x) (simp add: chunk_of_iff)

lemma filter_plan_chunks:
  "distinct need \<Longrightarrow> filter (\<lambda>x. fst x = i) (plan_chunks need entries) = (if i \<in> set need then chunks_of i (en_size (entries ! i)) else [])"
proof (induction need)
  case (Cons j need)
  have "filter (\<lambda>x. fst x = i) (chunks_of j (en_size (entries ! j))) = (if i = j then chunks_of j (en_size (entries ! j)) else [])"
    using chunks_of_index by (auto simp: filter_id_conv filter_empty_conv)
  then show ?case using Cons by (auto simp: plan_chunks_def)
qed (simp add: plan_chunks_def)

lemma initial_ok:
  assumes plan: "planned r0 src" and start: "started sha src r0 ws"
  shows "transfer_ok r0 src False r0 ws"
proof -
  let ?all = "map (chunk_frame sha src) (plan_chunks (rc_pending r0) (rc_entries r0))"
  have lay: "layout r0 src" and dist: "distinct (rc_pending r0)" and idle: "\<forall>w\<in>set ws. wk_phase w = Idle"
    using plan start by (auto simp: planned_def layout_def started_def)
  have frames: "mset (concat (map wk_frames ws)) = mset ?all" using start by (simp add: started_def)
  then have set_frames: "set (concat (map wk_frames ws)) = set ?all" by (metis set_mset_mset)
  have index: "fr_index (chunk_frame sha src x) = fst x" for x by (cases x) simp
  have origin: "\<exists>x. x \<in> set (chunks_of (fr_index f) (en_size (rc_entries r0 ! fr_index f))) \<and> fr_index f \<in> needed r0 \<and> f = chunk_frame sha src x"
    if f: "f \<in> set (concat (map wk_frames ws))" for f
  proof -
    from f have "f \<in> chunk_frame sha src ` set (plan_chunks (rc_pending r0) (rc_entries r0))" unfolding set_frames by simp
    then obtain x where x: "x \<in> set (plan_chunks (rc_pending r0) (rc_entries r0))" "f = chunk_frame sha src x" by blast
    then have "x \<in> set (filter (\<lambda>y. fst y = fst x) (plan_chunks (rc_pending r0) (rc_entries r0)))" by simp
    then have "fst x \<in> needed r0 \<and> x \<in> set (chunks_of (fst x) (en_size (rc_entries r0 ! fst x)))"
      unfolding filter_plan_chunks [OF dist] by (simp split: if_splits)
    then show ?thesis by (intro exI [of _ x]) (simp add: x(2) index)
  qed
  have "file_inv r0 src False r0 ws i []" if i: "i \<in> needed r0" for i
  proof -
    let ?vs = "map (thread_view i) ws" and ?n = "length (src i)"
    have size: "en_size (rc_entries r0 ! i) = ?n" "0 < ?n" using lay i by (auto simp: layout_def size_of_def)
    have "filter (\<lambda>f. fr_index f = i) ?all = map (chunk_frame sha src) (chunks_of i ?n)"
      using filter_plan_chunks [OF dist, of i "rc_entries r0"] i size by (simp add: filter_map o_def index)
    then have "mset (filter (\<lambda>f. fr_index f = i) (concat (map wk_frames ws))) = mset (map (chunk_frame sha src) (chunks_of i ?n))"
      by (metis frames mset_filter)
    then have "total ?vs [] = frames_load (map (chunk_frame sha src) (chunks_of i ?n))"
      using idle_total(1) [OF idle, of i] by (simp add: frames_load_mset)
    also have "\<dots> = ?n" using sum_chunk_lengths [of i ?n] by (simp add: frames_load_def o_def case_prod_unfold chunk_frame_def Let_def)
    finally have total: "total ?vs [] = ?n" .
    have covered: "unwritten ?vs [] p" if "p < ?n" for p
    proof -
      obtain off len where c: "(i, off, len) \<in> set (chunks_of i ?n)" "off \<le> p" "p < off + len" using chunk_covers [OF \<open>p < ?n\<close>] by blast
      then have "(i, off, len) \<in> set (plan_chunks (rc_pending r0) (rc_entries r0))" using i size(1) by (auto simp: plan_chunks_def intro!: bexI [of _ i])
      then have "chunk_frame sha src (i, off, len) \<in> set ?all" by simp
      then have "chunk_frame sha src (i, off, len) \<in> set (concat (map wk_frames ws))" unfolding set_frames .
      moreover have "frame_covers (chunk_frame sha src (i, off, len)) p" using c by (simp add: frame_covers_def)
      ultimately show ?thesis unfolding idle_total(3) [OF idle] by (intro bexI) simp_all
    qed
    have good: "good_frame (src i) f" if "f \<in> set (snd v)" "v \<in> set ?vs" for f v
    proof -
      have "f \<in> set (concat (map wk_frames ws))" "fr_index f = i" using that by (auto simp: thread_view_def)
      then obtain off len where c: "(i, off, len) \<in> set (chunks_of i ?n)" "f = chunk_frame sha src (i, off, len)"
        using origin [of f] size chunks_of_index by (metis prod.collapse fst_conv)
      then show ?thesis using chunk_facts [OF c(1)] by (simp add: good_frame_def)
    qed
    have phase: "fst v = Idle" if "v \<in> set ?vs" for v using that idle by (auto simp: thread_view_def)
    have "file_good (src i) (rc_entries r0 ! i) (dget (disk r0) (tgt r0 i)) (file_view (tgt r0 i) (tmp r0 i) i r0) ?vs []"
      unfolding file_good_def using good phase total covered idle_total(2) [OF idle, of i] plan i by (auto simp: file_view_def planned_def)
    then show ?thesis using total size(2) by (simp add: file_inv_def lossless_def file_view_def)
  qed
  moreover have "threads_ok r0 ws" using origin idle by (auto simp: threads_ok_def)
  moreover have "frame_ok r0 r0" using dist by (simp add: frame_ok_def)
  ultimately show ?thesis unfolding transfer_ok_def by blast
qed

section \<open>What a transfer guarantees\<close>

text \<open>The work a thread has left: every section makes it smaller.\<close>

fun phase_work :: "phase \<Rightarrow> nat" where
  "phase_work (Writing _ _ buffer _ n) = 5 + (length buffer - n)"
| "phase_work (Sealing _) = 4"
| "phase_work (Renaming _) = 3"
| "phase_work (Forgetting _) = 2"
| "phase_work Idle = 1"
| "phase_work (Failed _) = 0"

definition frame_work :: "frame \<Rightarrow> nat" where
  "frame_work f = 5 + length (fr_data f) + nat (align_up (int (fr_length f)))"

definition work :: "worker \<Rightarrow> nat" where
  "work w = phase_work (wk_phase w) + sum_list (map frame_work (wk_frames w))"

lemma after_op_cases:
  assumes "after_op next outcome w = (w', r')"
  obtains x where "outcome = (Inr x, r')" "w' = w\<lparr>wk_phase := next x\<rparr>" | e where "w' = w\<lparr>wk_phase := Failed e\<rparr>"
  using assms by (cases outcome; cases "fst outcome") (auto simp: after_op_def)

lemma length_write_buffer: "length (write_buffer r f) \<le> length (fr_data f) + nat (align_up (int (fr_length f)))"
  by (simp add: write_buffer_def Let_def)

lemma worker_step_work:
  assumes "worker_step os n w r = (w', r')" "unfinished w"
  shows "work w' < work w"
proof (cases "wk_phase w")
  case Idle
  show ?thesis
  proof (cases "wk_frames w")
    case (Cons f fs)
    have buffer: "write_begin os f r = (Inr b, r1) \<Longrightarrow> \<exists>r2. b = write_buffer r2 f" for b r1
      by (auto simp: write_begin_def op_simps split: prod.splits sum.splits if_splits)
    from assms(1) have "after_op (\<lambda>b. Writing (fr_index f) (fr_offset f) b (fr_length f) 0) (write_begin os f r) (w\<lparr>wk_frames := fs\<rparr>) = (w', r')"
      by (simp add: worker_step_def Idle Cons)
    then show ?thesis
    proof (cases rule: after_op_cases)
      case (1 b)
      then have "length b \<le> length (fr_data f) + nat (align_up (int (fr_length f)))" using buffer length_write_buffer by blast
      then show ?thesis using 1(2) Idle Cons by (simp add: work_def frame_work_def)
    qed (use Idle Cons in \<open>simp add: work_def frame_work_def\<close>)
  qed (use assms Idle in \<open>auto simp: worker_step_def work_def unfinished_def split: option.splits\<close>)
next
  case (Writing i off buffer len k)
  with assms(1) show ?thesis
    by (auto simp: worker_step_def work_def Let_def elim!: after_op_cases split: if_splits)
qed (use assms in \<open>auto simp: worker_step_def work_def unfinished_def elim!: after_op_cases\<close>)

lemma thread_step_work:
  assumes "thread_step os s t"
  shows "sum_list (map work (snd t)) < sum_list (map work (snd s))"
  using assms
proof cases
  case (1 k ws n r w r')
  have "sum_list (map work (ws[k := w])) + work (ws ! k) = sum_list (map work ws) + work w" using 1(3) by (rule sum_list_change)
  then show ?thesis using worker_step_work [OF 1(5,4)] 1 by simp
qed


text \<open>
  C16. No target is ever seen half-written: in every state a transfer reaches, whatever the order of
  its threads and whichever calls fail and connections break, each needed target is exactly what it
  was before or the complete file with its mode and time, the latter when the file is no longer
  pending, and every path that is neither a target nor a temporary file is what it was.\<close>

theorem transfer_atomic:
  assumes "planned r0 src" "started sha src r0 ws" "(transfer os)\<^sup>*\<^sup>* (r0, ws) (r, ws')"
  shows "(\<forall>i\<in>needed r0. dget (disk r) (tgt r0 i) \<in> {dget (disk r0) (tgt r0 i), Some (new_node r0 src i)}
           \<and> (i \<notin> needed r \<longrightarrow> dget (disk r) (tgt r0 i) = Some (new_node r0 src i) \<and> dget (disk r) (tmp r0 i) = None))
       \<and> (\<forall>q. q \<notin> tgt r0 ` needed r0 \<union> tmp r0 ` needed r0 \<longrightarrow> dget (disk r) q = dget (disk r0) q)"
proof -
  have lay: "layout r0 src" using assms(1) by (simp add: planned_def)
  have ok: "transfer_ok r0 src True r ws'"
    using transfers_ok [OF assms(3) _ lay] transfer_ok_lossy [OF initial_ok [OF assms(1,2)]] by simp
  have "dget (disk r) (tgt r0 i) \<in> {dget (disk r0) (tgt r0 i), Some (new_node r0 src i)}
      \<and> (i \<notin> needed r \<longrightarrow> dget (disk r) (tgt r0 i) = Some (new_node r0 src i) \<and> dget (disk r) (tmp r0 i) = None)" if i: "i \<in> needed r0" for i
  proof -
    obtain lost where "file_inv r0 src True r ws' i lost" using ok i unfolding transfer_ok_def by blast
    then have inv: "file_good (src i) (rc_entries r0 ! i) (dget (disk r0) (tgt r0 i)) (file_view (tgt r0 i) (tmp r0 i) i r) (map (thread_view i) ws') lost"
      unfolding file_inv_def by blast
    from file_okD(8,9,11) [OF inv] show ?thesis unfolding new_node_def file_view_def by (simp, metis)
  qed
  then show ?thesis using ok unfolding transfer_ok_def frame_ok_def by blast
qed

text \<open>
  Every needed file arrives: when the threads have run to their end and none has failed, nothing
  is pending any more, every needed target holds exactly the bytes of its source with the mode and
  time of the manifest, and no temporary file is left; and a thread fails only because a call of
  the operating system did, never on a frame the sender sent.\<close>

theorem transfer_complete:
  assumes "planned r0 src" "started sha src r0 ws" "(thread_step os)\<^sup>*\<^sup>* (r0, ws) (r, ws')" "\<forall>w\<in>set ws'. \<not> unfinished w"
  shows "(\<forall>w\<in>set ws'. wk_phase w \<in> {Idle, Failed OSError})
    \<and> ((\<forall>w\<in>set ws'. wk_phase w = Idle) \<longrightarrow>
        rc_pending r = [] \<and> (\<forall>i\<in>needed r0. dget (disk r) (tgt r0 i) = Some (new_node r0 src i) \<and> dget (disk r) (tmp r0 i) = None))"
proof (intro conjI impI)
  have lay: "layout r0 src" using assms(1) by (simp add: planned_def)
  note init = initial_ok [OF assms(1,2)]
  have "only_os_errors ws'"
    using thread_steps_errors [OF assms(3) _ lay] init assms(2) by (auto simp: started_def only_os_errors_def)
  then have "wk_phase w \<in> {Idle, Failed OSError}" if "w \<in> set ws'" for w
    using assms(4) that by (cases "wk_phase w") (auto simp: only_os_errors_def unfinished_def)
  then show "\<forall>w\<in>set ws'. wk_phase w \<in> {Idle, Failed OSError}" by blast
  assume idle: "\<forall>w\<in>set ws'. wk_phase w = Idle"
  then have "\<not> any_failed ws'" by (auto simp: any_failed_def)
  then have ok: "transfer_ok r0 src False r ws'" using thread_steps_ok [OF assms(3) _ lay] init by simp
  have empty: "concat (map wk_frames ws') = []" using assms(4) idle by (auto simp: unfinished_def)
  have arrived: "i \<notin> needed r \<and> dget (disk r) (tgt r0 i) = Some (new_node r0 src i) \<and> dget (disk r) (tmp r0 i) = None" if i: "i \<in> needed r0" for i
  proof -
    let ?fv = "file_view (tgt r0 i) (tmp r0 i) i r" and ?vs = "map (thread_view i) ws'"
    obtain lost where inv: "file_good (src i) (rc_entries r0 ! i) (dget (disk r0) (tgt r0 i)) ?fv ?vs lost" and less: "lossless ?fv ?vs lost"
      using ok i unfolding transfer_ok_def file_inv_def by blast
    have "total ?vs [] = 0" "finals ?vs = 0" using idle_total(1,2) [OF idle, of i] empty by (simp_all add: frames_load_def)
    then have "\<not> fv_pending ?fv" using less by (auto simp: lossless_def)
    then show ?thesis using file_okD(8) [OF inv] by (simp add: file_view_def new_node_def)
  qed
  then show "\<forall>i\<in>needed r0. dget (disk r) (tgt r0 i) = Some (new_node r0 src i) \<and> dget (disk r) (tmp r0 i) = None" by blast
  have "needed r \<subseteq> needed r0" using ok by (simp add: transfer_ok_def frame_ok_def)
  with arrived show "rc_pending r = []" by (metis equals0I set_empty subsetD)
qed

end
