(* ===== verification/Copy_Plan.thy ===== *)
theory Copy_Plan
  imports Copy_Safety
begin

text \<open>
  From the manifest to the transfer: what \<open>plan\<close> leaves is a start of a transfer as \<open>Copy_Safety\<close>
  assumes it, the empty files are in place already, and \<open>finish\<close> and \<open>abort\<close> end it.
\<close>

section \<open>Folders\<close>

text \<open>Making folders changes the file system only, and there only adds folders where nothing was.\<close>

definition grown :: "(path, node) dict \<Rightarrow> (path, node) dict \<Rightarrow> bool" where
  "grown d d' \<longleftrightarrow> (\<forall>q. dget d' q = dget d q \<or> dget d q = None \<and> (\<exists>m t. dget d' q = Some (Dir_node m t)))"

lemma grown_refl [simp]: "grown d d" by (simp add: grown_def)

lemma grown_trans: "grown d d1 \<Longrightarrow> grown d1 d2 \<Longrightarrow> grown d d2"
  unfolding grown_def by (metis option.distinct(1))

lemma grown_file: "grown d d' \<Longrightarrow> dget d q = Some n \<Longrightarrow> dget d' q = Some n"
  unfolding grown_def by (metis option.distinct(1))

lemma makedirs_grows:
  assumes "makedirs os p r = (res, r')"
  shows "\<exists>d. r' = r\<lparr>disk := d\<rparr> \<and> grown (disk r) d"
proof -
  have step: "\<exists>d. snd (makedir os q r) = r\<lparr>disk := d\<rparr> \<and> grown (disk r) d" for q and r :: receiver
  proof -
    have "grown (disk r) (dset q (Dir_node (os_dir_mode os) (os_clock os)) (disk r))" if "dget (disk r) q = None"
      using that by (simp add: grown_def)
    then show ?thesis unfolding makedir_def by (auto simp: op_simps intro: exI [of _ "disk r"])
  qed
  have "\<exists>d. snd (each (\<lambda>n. makedir os (take n p)) ns r) = r\<lparr>disk := d\<rparr> \<and> grown (disk r) d" for ns and r :: receiver
  proof (induction ns arbitrary: r)
    case (Cons n ns)
    obtain d where d: "snd (makedir os (take n p) r) = r\<lparr>disk := d\<rparr>" "grown (disk r) d" using step by blast
    obtain d2 where d2: "snd (each (\<lambda>n. makedir os (take n p)) ns (r\<lparr>disk := d\<rparr>)) = r\<lparr>disk := d2\<rparr>" "grown d d2"
      using Cons [of "r\<lparr>disk := d\<rparr>"] by auto
    show ?case
    proof (cases "fst (makedir os (take n p) r)")
      case (Inl e)
      then have "snd (each (\<lambda>n. makedir os (take n p)) (n # ns) r) = r\<lparr>disk := d\<rparr>"
        using d(1) by (cases "makedir os (take n p) r") (simp add: op_simps)
      then show ?thesis using d(2) by blast
    next
      case (Inr u)
      then have "snd (each (\<lambda>n. makedir os (take n p)) (n # ns) r) = r\<lparr>disk := d2\<rparr>"
        using d(1) d2(1) by (cases "makedir os (take n p) r") (simp add: op_simps)
      then show ?thesis using grown_trans [OF d(2) d2(2)] by blast
    qed
  next
    case Nil
    show ?case by (rule exI [of _ "disk r"]) (simp add: op_simps)
  qed
  from this [of "[1..<Suc (length p)]" r] show ?thesis using assms unfolding makedirs_def by simp
qed

section \<open>The plan\<close>

lemma nat_text_inj: "nat_text i = nat_text j \<Longrightarrow> i = j"
  by (metis nat_text_spec of_nat_eq_iff)

lemma temp_path_inj: "temp_path suffix i p = temp_path suffix j q \<Longrightarrow> i = j"
  by (auto simp: temp_path_def dest: nat_text_inj)

definition same_job :: "receiver \<Rightarrow> receiver \<Rightarrow> bool" where
  "same_job r r' \<longleftrightarrow> rc_entries r' = rc_entries r \<and> rc_suffix r' = rc_suffix r \<and> rc_dest r' = rc_dest r \<and> rc_into r' = rc_into r"

lemma fixed_target: "same_job r r' \<Longrightarrow> target r' rel = target r rel"
  by (simp add: same_job_def target_def)

lemma fixed_trans: "same_job r r1 \<Longrightarrow> same_job r1 r2 \<Longrightarrow> same_job r r2"
  by (simp add: same_job_def)

definition fresh_state :: "receiver \<Rightarrow> nat \<Rightarrow> copy_entry \<Rightarrow> path \<Rightarrow> pending_file" where
  "fresh_state r i entry p = \<lparr>ps_path = p, ps_temp = temp_path (rc_suffix r) i p, ps_open = False, ps_direct = False, ps_remaining = int (en_size entry)\<rparr>"

lemma plan_entry_spec:
  assumes "plan_entry os (i, entry) r = (Inr found, r')"
  shows "same_job r r' \<and> grown (disk r) (disk r') \<and> rc_pending r' = rc_pending r @ map fst found \<and> (\<forall>j. j \<noteq> i \<longrightarrow> state_of r' j = state_of r j)
    \<and> (found = [] \<or> (\<exists>p. found = [(i, p)] \<and> target r (en_rel entry) = Inr p \<and> en_kind entry = Regular \<and> state_of r' i = fresh_state r i entry p))"
proof -
  obtain p where p: "target r (en_rel entry) = Inr p"
    using assms by (auto simp: plan_entry_def op_elims leaf_elims)
  show ?thesis
  proof (cases "en_kind entry = Folder")
    case True
    then obtain r1 where r1: "makedirs os p r = (Inr (), r1)" "r' = r1\<lparr>rc_dirs := rc_dirs r1 @ [(p, entry)]\<rparr>" "found = []"
      using assms p by (auto simp: plan_entry_def op_elims leaf_elims)
    then obtain d where "r1 = r\<lparr>disk := d\<rparr>" "grown (disk r) d" using makedirs_grows by blast
    then show ?thesis using r1 by (simp add: same_job_def state_of_def)
  next
    case False
    then have kind: "en_kind entry = Regular" by (cases "en_kind entry") auto
    show ?thesis
    proof (cases "unchanged (disk r) p entry")
      case True
      then show ?thesis using assms p False by (simp add: plan_entry_def op_simps same_job_def)
    next
      case changed: False
      then obtain r1 where r1: "makedirs os (butlast p) r = (Inr (), r1)" "found = [(i, p)]"
          "r' = put_state i (fresh_state r i entry p) (r1\<lparr>rc_pending := rc_pending r1 @ [i]\<rparr>)"
        using assms p False by (auto simp: plan_entry_def op_elims leaf_elims fresh_state_def)
      then obtain d where "r1 = r\<lparr>disk := d\<rparr>" "grown (disk r) d" using makedirs_grows by blast
      then show ?thesis using r1 p kind by (simp add: same_job_def put_state_def state_of_def)
    qed
  qed
qed

lemma plan_entries_spec:
  assumes "map_op (plan_entry os) (List.enumerate n es) r = (Inr ps, r')"
  shows "same_job r r' \<and> grown (disk r) (disk r') \<and> rc_pending r' = rc_pending r @ map fst (concat ps) \<and> (\<forall>j. j < n \<longrightarrow> state_of r' j = state_of r j)
    \<and> distinct (map fst (concat ps))
    \<and> (\<forall>(i, p)\<in>set (concat ps). n \<le> i \<and> i < n + length es \<and> en_kind (es ! (i - n)) = Regular \<and> target r (en_rel (es ! (i - n))) = Inr p
          \<and> state_of r' i = fresh_state r i (es ! (i - n)) p)"
  using assms
proof (induction es arbitrary: n r ps)
  case Nil
  then show ?case by (simp add: op_simps same_job_def)
next
  case (Cons e es)
  then obtain found r1 rest where step: "plan_entry os (n, e) r = (Inr found, r1)" and tail: "map_op (plan_entry os) (List.enumerate (Suc n) es) r1 = (Inr rest, r')"
      and ps: "ps = found # rest"
    by (auto simp: op_elims leaf_elims)
  note S = plan_entry_spec [OF step] and T = Cons.IH [OF tail]
  have suffix: "fresh_state r1 i x p = fresh_state r i x p" for i x p using S by (simp add: fresh_state_def same_job_def)
  have tgt: "target r1 rel = target r rel" for rel using S fixed_target by blast
  have later: "Suc n \<le> i \<and> i < Suc n + length es \<and> en_kind (es ! (i - Suc n)) = Regular \<and> target r (en_rel (es ! (i - Suc n))) = Inr p
      \<and> state_of r' i = fresh_state r i (es ! (i - Suc n)) p" if "(i, p) \<in> set (concat rest)" for i p
    using T that suffix tgt by fastforce
  have first: "i = n \<and> en_kind e = Regular \<and> target r (en_rel e) = Inr p \<and> state_of r' i = fresh_state r i e p" if "(i, p) \<in> set found" for i p
    using S T that by auto
  have "\<forall>(i, p)\<in>set (concat ps). n \<le> i \<and> i < n + length (e # es) \<and> en_kind ((e # es) ! (i - n)) = Regular
      \<and> target r (en_rel ((e # es) ! (i - n))) = Inr p \<and> state_of r' i = fresh_state r i ((e # es) ! (i - n)) p"
    using first later ps by (auto simp: nth_Cons' Suc_diff_Suc) (fastforce simp: nth_Cons')+
  moreover have "distinct (map fst (concat ps))"
    using S T ps later by (auto simp: image_iff) (metis Suc_n_not_le_n)+
  ultimately show ?case using S T ps fixed_trans grown_trans by (auto simp: same_job_def) 
qed

section \<open>Empty files\<close>

lemma open_finalize_empty:
  assumes run: "seq_op (open_file os i) (finalize i) r = (Inr (), r')"
    and s: "\<not> ps_open (state_of r i)" "size_of r i = 0" and paths: "tmp r i \<noteq> tgt r i"
  shows "same_job r r' \<and> rc_pending r' = remove1 i (rc_pending r) \<and> (\<forall>j. j \<noteq> i \<longrightarrow> state_of r' j = state_of r j)
    \<and> dget (disk r') (tgt r i) = Some (File_node [] (en_mode (rc_entries r ! i)) (en_mtime (rc_entries r ! i)))
    \<and> (\<forall>q. q \<noteq> tgt r i \<longrightarrow> dget (disk r') q = (if q = tmp r i then None else dget (disk r) q))"
proof -
  let ?e = "rc_entries r ! i" and ?r1 = "create_temp os i (state_of r i) r"
  obtain r1 r2 r3 where steps: "open_file os i r = (Inr (), r1)" "seal i r1 = (Inr (), r2)" "rename i r2 = (Inr (), r3)" "forget i r3 = (Inr (), r')"
    using run by (auto simp: finalize_def seq_op_Inr)
  have r1: "r1 = ?r1" using steps(1) s(1) by (auto simp: open_file_def op_simps Let_def split: if_splits)
  have state1: "state_of r1 i = (state_of r i)\<lparr>ps_open := True, ps_direct := False\<rparr>" "rc_entries r1 = rc_entries r"
    and temp1: "\<exists>m t. dget (disk r1) (tmp r i) = Some (File_node [] m t)"
    using r1 s(2) by (simp_all add: create_temp_def Let_def DIRECT_MIN_BYTES_def)
  have r2: "r2 = (put_state i ((state_of r1 i)\<lparr>ps_open := False\<rparr>) r1)\<lparr>disk := dset (tmp r i) (File_node [] (en_mode ?e) (en_mtime ?e)) (disk r1)\<rparr>"
    using steps(2) state1 temp1 by (auto simp: seal_def op_simps Let_def split: if_splits)
  have r3: "r3 = r2\<lparr>disk := dset (tgt r i) (File_node [] (en_mode ?e) (en_mtime ?e)) (ddel (tmp r i) (disk r2))\<rparr>"
    using steps(3) r2 state1(1) by (auto simp: rename_def op_simps Let_def split: if_splits)
  have r': "r' = r3\<lparr>rc_pending := remove1 i (rc_pending r3)\<rparr>"
    using steps(4) by (auto simp: forget_def op_simps split: if_splits)
  show ?thesis
    unfolding r' r3 r2 r1 using paths by (auto simp: same_job_def create_temp_def Let_def put_state_def state_of_def)
qed

lemma finalize_empties:
  assumes "each (\<lambda>i. seq_op (open_file os i) (finalize i)) is r = (Inr (), r')"
    and "distinct is" "\<forall>i\<in>set is. \<not> ps_open (state_of r i) \<and> size_of r i = 0"
    and "\<forall>i\<in>set is. \<forall>j\<in>set is. tmp r i \<noteq> tgt r j \<and> (i \<noteq> j \<longrightarrow> tgt r i \<noteq> tgt r j)"
  shows "same_job r r' \<and> (distinct (rc_pending r) \<longrightarrow> rc_pending r' = filter (\<lambda>j. j \<notin> set is) (rc_pending r)) \<and> (\<forall>j. j \<notin> set is \<longrightarrow> state_of r' j = state_of r j)
    \<and> (\<forall>i\<in>set is. dget (disk r') (tgt r i) = Some (File_node [] (en_mode (rc_entries r ! i)) (en_mtime (rc_entries r ! i))))
    \<and> (\<forall>q. q \<notin> tgt r ` set is \<longrightarrow> dget (disk r') q = (if q \<in> tmp r ` set is then None else dget (disk r) q))"
  using assms
proof (induction "is" arbitrary: r)
  case Nil
  then show ?case by (simp add: op_simps same_job_def)
next
  case (Cons i js)
  obtain r1 where step: "seq_op (open_file os i) (finalize i) r = (Inr (), r1)" and tail: "each (\<lambda>i. seq_op (open_file os i) (finalize i)) js r1 = (Inr (), r')"
    using Cons.prems(1) by (auto simp: seq_op_Inr)
  have S: "same_job r r1" "rc_pending r1 = remove1 i (rc_pending r)" "\<And>j. j \<noteq> i \<Longrightarrow> state_of r1 j = state_of r j"
    "dget (disk r1) (tgt r i) = Some (File_node [] (en_mode (rc_entries r ! i)) (en_mtime (rc_entries r ! i)))"
    "\<And>q. q \<noteq> tgt r i \<Longrightarrow> dget (disk r1) q = (if q = tmp r i then None else dget (disk r) q)"
    using open_finalize_empty [OF step] Cons.prems(3,4) by auto
  have same: "state_of r1 j = state_of r j" "size_of r1 j = size_of r j" if "j \<in> set js" for j
  proof -
    have "j \<noteq> i" using that Cons.prems(2) by auto
    then show "state_of r1 j = state_of r j" "size_of r1 j = size_of r j" using S(1,3) by (simp_all add: size_of_def same_job_def)
  qed
  have T: "same_job r1 r'" "distinct (rc_pending r1) \<Longrightarrow> rc_pending r' = filter (\<lambda>j. j \<notin> set js) (rc_pending r1)" "\<And>j. j \<notin> set js \<Longrightarrow> state_of r' j = state_of r1 j"
    "\<And>j. j \<in> set js \<Longrightarrow> dget (disk r') (tgt r1 j) = Some (File_node [] (en_mode (rc_entries r1 ! j)) (en_mtime (rc_entries r1 ! j)))"
    "\<And>q. q \<notin> tgt r1 ` set js \<Longrightarrow> dget (disk r') q = (if q \<in> tmp r1 ` set js then None else dget (disk r1) q)"
    using Cons.IH [OF tail] Cons.prems(2-4) same by (auto simp: Ball_def)
  have img: "tgt r1 ` set js = tgt r ` set js" "tmp r1 ` set js = tmp r ` set js" using same(1) by (auto simp: image_iff)
  have away: "tgt r i \<notin> tgt r ` set js" "tgt r i \<notin> tmp r ` set js"
    using Cons.prems(2,4) by (auto simp: image_iff)
  have entries: "rc_entries r1 = rc_entries r" using S(1) by (simp add: same_job_def)
  have "dget (disk r') (tgt r j) = Some (File_node [] (en_mode (rc_entries r ! j)) (en_mtime (rc_entries r ! j)))" if "j \<in> set (i # js)" for j
    using that S(4) T(4) T(5) [of "tgt r i"] same(1) img away entries by (cases "j \<in> set js") auto
  moreover have "rc_pending r' = filter (\<lambda>j. j \<notin> set (i # js)) (rc_pending r)" if "distinct (rc_pending r)"
    using that S(2) T(2) by (auto simp: distinct_remove1_removeAll removeAll_filter_not_eq intro!: filter_cong)
  moreover have "dget (disk r') q = (if q \<in> tmp r ` set (i # js) then None else dget (disk r) q)" if "q \<notin> tgt r ` set (i # js)" for q
    using that T(5) [of q] S(5) [of q] img by auto
  ultimately show ?case using fixed_trans [OF S(1) T(1)] S(3) T(3) by auto
qed

section \<open>From the plan to the transfer\<close>

text \<open>A manifest that a destination can take: no two entries have the same target, and no target looks like a temporary file.\<close>

definition takes :: "receiver \<Rightarrow> bool" where
  "takes r \<longleftrightarrow> distinct (map (\<lambda>entry. target r (en_rel entry)) (rc_entries r))
     \<and> (\<forall>entry\<in>set (rc_entries r). case target r (en_rel entry) of Inr p \<Rightarrow> p \<noteq> [] \<and> \<not> starts_with (''.sparkcp-'' @ rc_suffix r) (last p) | Inl _ \<Rightarrow> True)"

lemma takes_apart:
  assumes takes: "takes r" and p: "target r (en_rel (rc_entries r ! i)) = Inr p" "i < length (rc_entries r)"
    and q: "target r (en_rel (rc_entries r ! j)) = Inr q" "j < length (rc_entries r)"
  shows "temp_path (rc_suffix r) k p \<noteq> q" "i \<noteq> j \<Longrightarrow> p \<noteq> q"
proof -
  from takes have "\<forall>entry\<in>set (rc_entries r). case target r (en_rel entry) of Inr p \<Rightarrow> p \<noteq> [] \<and> \<not> starts_with (''.sparkcp-'' @ rc_suffix r) (last p) | Inl _ \<Rightarrow> True"
    unfolding takes_def by (rule conjunct2)
  from bspec [OF this nth_mem [OF q(2)]] have "\<not> starts_with (''.sparkcp-'' @ rc_suffix r) (last q)" by (simp add: q(1))
  moreover have "starts_with (''.sparkcp-'' @ rc_suffix r) (last (temp_path (rc_suffix r) k p))" by (simp add: starts_with_def temp_path_def)
  ultimately show "temp_path (rc_suffix r) k p \<noteq> q" by metis
  assume "i \<noteq> j"
  then have "map (\<lambda>entry. target r (en_rel entry)) (rc_entries r) ! i \<noteq> map (\<lambda>entry. target r (en_rel entry)) (rc_entries r) ! j"
    using takes p(2) q(2) unfolding takes_def by (simp add: nth_eq_iff_index_eq del: nth_map)
  then show "p \<noteq> q" using p q by auto
qed

lemma plan_steps:
  assumes plan: "plan_copy os r = (Inr need, r0)" and empty: "rc_pending r = []" and takes: "takes r"
  shows "rc_pending r0 = filter (\<lambda>i. 0 < en_size (rc_entries r ! i)) need \<and> distinct need \<and> same_job r r0
    \<and> (\<forall>i\<in>set need. i < length (rc_entries r) \<and> en_kind (rc_entries r ! i) = Regular \<and> (\<exists>p. target r (en_rel (rc_entries r ! i)) = Inr p
         \<and> (if en_size (rc_entries r ! i) = 0
            then dget (disk r0) p = Some (File_node [] (en_mode (rc_entries r ! i)) (en_mtime (rc_entries r ! i)))
            else state_of r0 i = fresh_state r i (rc_entries r ! i) p)))"
proof -
  let ?size = "\<lambda>i. en_size (rc_entries r ! i)" and ?dest = "if rc_into r then rc_dest r else butlast (rc_dest r)"
  obtain r1 ps r2 r3 where steps: "makedirs os ?dest r = (Inr (), r1)" "map_op (plan_entry os) (List.enumerate 0 (rc_entries r)) r1 = (Inr ps, r2)"
      "check_space os (map snd (concat ps)) r2 = (Inr (), r3)" "need = map fst (concat ps)"
      "each (\<lambda>i. seq_op (open_file os i) (finalize i)) (filter (\<lambda>i. ?size i = 0) need) r3 = (Inr (), r0)"
    using plan by (auto simp: plan_copy_def bind_op_Inr seq_op_Inr gets_Inr ret_Inr Let_def)
  obtain d where r1: "r1 = r\<lparr>disk := d\<rparr>" using makedirs_grows [OF steps(1)] by blast
  have r3: "r3 = r2" using steps(3) by (auto simp: check_space_def bind_op_Inr gets_Inr Let_def require_Inr)
  have f1: "same_job r r1" using r1 by (simp add: same_job_def)
  have st1: "fresh_state r1 i e p = fresh_state r i e p" for i e p using r1 by (simp add: fresh_state_def)
  note P = plan_entries_spec [OF steps(2)]
  have f2: "same_job r r2" using P fixed_trans [OF f1] by blast
  have pend2: "rc_pending r2 = need" "distinct need" using P r1 empty steps(4) by auto
  have each: "\<exists>p. target r (en_rel (rc_entries r ! i)) = Inr p \<and> state_of r2 i = fresh_state r i (rc_entries r ! i) p
      \<and> i < length (rc_entries r) \<and> en_kind (rc_entries r ! i) = Regular" if "i \<in> set need" for i
  proof -
    from that have "i \<in> fst ` set (concat ps)" unfolding steps(4) by (simp only: set_map)
    then obtain p where "(i, p) \<in> set (concat ps)" by (metis imageE prod.collapse)
    then show ?thesis using P fixed_target [OF f1] st1 by fastforce
  qed
  have apart: "tmp r2 i \<noteq> tgt r2 j \<and> (i \<noteq> j \<longrightarrow> tgt r2 i \<noteq> tgt r2 j)" if i: "i \<in> set need" and j: "j \<in> set need" for i j
  proof -
    obtain p where p: "target r (en_rel (rc_entries r ! i)) = Inr p" "state_of r2 i = fresh_state r i (rc_entries r ! i) p" "i < length (rc_entries r)"
      using each [OF i] by blast
    obtain q where q: "target r (en_rel (rc_entries r ! j)) = Inr q" "state_of r2 j = fresh_state r j (rc_entries r ! j) q" "j < length (rc_entries r)"
      using each [OF j] by blast
    show ?thesis using takes_apart [OF takes p(1,3) q(1,3)] p(2) q(2) by (simp add: fresh_state_def)
  qed
  let ?empties = "filter (\<lambda>i. ?size i = 0) need"
  have pre: "distinct ?empties" "\<forall>i\<in>set ?empties. \<not> ps_open (state_of r2 i) \<and> size_of r2 i = 0"
    "\<forall>i\<in>set ?empties. \<forall>j\<in>set ?empties. tmp r2 i \<noteq> tgt r2 j \<and> (i \<noteq> j \<longrightarrow> tgt r2 i \<noteq> tgt r2 j)"
    using pend2(2) each apart f2 by (auto simp: fresh_state_def size_of_def same_job_def) fastforce+
  note E = finalize_empties [OF steps(5) [unfolded r3] pre]
  have "rc_pending r0 = filter (\<lambda>i. 0 < ?size i) need"
    using E pend2 by (auto intro!: filter_cong)
  moreover have "i < length (rc_entries r) \<and> en_kind (rc_entries r ! i) = Regular \<and> (\<exists>p. target r (en_rel (rc_entries r ! i)) = Inr p
      \<and> (if ?size i = 0 then dget (disk r0) p = Some (File_node [] (en_mode (rc_entries r ! i)) (en_mtime (rc_entries r ! i)))
         else state_of r0 i = fresh_state r i (rc_entries r ! i) p))" if i: "i \<in> set need" for i
  proof -
    obtain p where p: "target r (en_rel (rc_entries r ! i)) = Inr p" "state_of r2 i = fresh_state r i (rc_entries r ! i) p" "i < length (rc_entries r)"
        "en_kind (rc_entries r ! i) = Regular"
      using each [OF i] by blast
    then have "tgt r2 i = p" by (simp add: fresh_state_def)
    then show ?thesis using E i p f2 by (auto simp: same_job_def)
  qed
  ultimately show ?thesis using pend2(2) fixed_trans [OF f2] E by blast
qed

text \<open>What \<open>plan\<close> leaves is a start of a transfer, for the same chunks the sender plans; the empty files are in place.\<close>

lemma plan_planned:
  assumes plan: "plan_copy os r = (Inr need, r0)" and empty: "rc_pending r = []" and takes: "takes r"
    and source: "\<forall>i\<in>set need. length (src i) = en_size (rc_entries r ! i)"
  shows "planned r0 src" "rc_entries r0 = rc_entries r" "plan_chunks (rc_pending r0) (rc_entries r0) = plan_chunks need (rc_entries r)"
    and "\<And>i. i \<in> set need \<Longrightarrow> \<exists>p. target r (en_rel (rc_entries r ! i)) = Inr p
      \<and> (if i \<in> needed r0 then p = tgt r0 i
         else p \<notin> tgt r0 ` needed r0 \<union> tmp r0 ` needed r0 \<and> dget (disk r0) p = Some (new_node r0 src i))"
proof -
  note P = plan_steps [OF plan empty takes]
  let ?e = "\<lambda>i. rc_entries r ! i"
  show entries: "rc_entries r0 = rc_entries r" using P by (simp add: same_job_def)
  have needed: "needed r0 = {i \<in> set need. 0 < en_size (?e i)}" using P by auto
  have state: "\<exists>p. target r (en_rel (?e i)) = Inr p \<and> i < length (rc_entries r) \<and> state_of r0 i = fresh_state r i (?e i) p" if "i \<in> needed r0" for i
    using P that needed by fastforce
  have "layout r0 src"
    unfolding layout_def
  proof (intro conjI ballI)
    show "size_of r0 i = length (src i)" "0 < length (src i)" if "i \<in> needed r0" for i
      using source that needed entries by (auto simp: size_of_def)
    fix i j assume i: "i \<in> needed r0" and j: "j \<in> needed r0"
    obtain p where p: "target r (en_rel (?e i)) = Inr p" "i < length (rc_entries r)" "state_of r0 i = fresh_state r i (?e i) p" using state [OF i] by blast
    obtain q where q: "target r (en_rel (?e j)) = Inr q" "j < length (rc_entries r)" "state_of r0 j = fresh_state r j (?e j) q" using state [OF j] by blast
    show "tmp r0 i \<noteq> tgt r0 j" using takes_apart(1) [OF takes p(1,2) q(1,2)] p(3) q(3) by (simp add: fresh_state_def)
    show "i \<noteq> j \<longrightarrow> tmp r0 i \<noteq> tmp r0 j \<and> tgt r0 i \<noteq> tgt r0 j"
      using takes_apart(2) [OF takes p(1,2) q(1,2)] p(3) q(3) temp_path_inj by (auto simp: fresh_state_def)
  next
    show "distinct (rc_pending r0)" using P by auto
  qed
  then show "planned r0 src"
    unfolding planned_def using state source needed by (auto simp: fresh_state_def) (metis pending_file.select_convs(3,5))+
  have "chunks_of i 0 = []" for i by (simp add: chunks_of_def CHUNK_BYTES_def)
  then have "plan_chunks (filter (\<lambda>i. 0 < en_size (?e i)) ns) (rc_entries r) = plan_chunks ns (rc_entries r)" for ns
    by (induction ns) (auto simp: plan_chunks_def)
  then show "plan_chunks (rc_pending r0) (rc_entries r0) = plan_chunks need (rc_entries r)" using P entries by simp
  fix i assume i: "i \<in> set need"
  then obtain p where p: "target r (en_rel (?e i)) = Inr p" "i < length (rc_entries r)"
      "if en_size (?e i) = 0 then dget (disk r0) p = Some (File_node [] (en_mode (?e i)) (en_mtime (?e i))) else state_of r0 i = fresh_state r i (?e i) p"
    using P by blast
  show "\<exists>p. target r (en_rel (?e i)) = Inr p \<and> (if i \<in> needed r0 then p = tgt r0 i
         else p \<notin> tgt r0 ` needed r0 \<union> tmp r0 ` needed r0 \<and> dget (disk r0) p = Some (new_node r0 src i))"
  proof (cases "i \<in> needed r0")
    case True
    then show ?thesis using p needed by (auto simp: fresh_state_def)
  next
    case False
    then have zero: "en_size (?e i) = 0" using needed i by simp
    have "p \<noteq> tgt r0 j \<and> p \<noteq> tmp r0 j" if j: "j \<in> needed r0" for j
    proof -
      obtain q where q: "target r (en_rel (?e j)) = Inr q" "j < length (rc_entries r)" "state_of r0 j = fresh_state r j (?e j) q" using state [OF j] by blast
      have "i \<noteq> j" using False j by auto
      then show ?thesis using takes_apart(2) [OF takes p(1,2) q(1,2)] takes_apart(1) [OF takes q(1,2) p(1,2), of j] q(3) by (auto simp: fresh_state_def)
    qed
    moreover have "src i = []" using source i zero by auto
    ultimately show ?thesis using p zero False entries by (auto simp: new_node_def)
  qed
qed

lemma threads_started:
  assumes "\<And>data. length (sha data) = 32" "\<forall>i\<in>set need. i < 2 ^ 32 \<and> length (src i) \<le> 2 ^ 64 \<and> en_size (entries ! i) = length (src i)"
    and "set (concat items) \<subseteq> set (plan_chunks need entries)"
    and "list_all2 (\<lambda>xs segs. concat segs = concat (map (frame_bytes \<circ> chunk_frame sha src) xs)) items conns"
  shows "map (thread_of sha) conns = map (\<lambda>xs. \<lparr>wk_phase = Idle, wk_frames = map (chunk_frame sha src) xs, wk_end = None\<rparr>) items"
  using assms(4,3)
proof (induction rule: list_all2_induct)
  case (Cons xs items segs conns)
  have "packable sha f" if f: "f \<in> set (map (chunk_frame sha src) xs)" for f
  proof -
    from f obtain x where x: "x \<in> set xs" "f = chunk_frame sha src x" by auto
    then obtain i where i: "i \<in> set need" "x \<in> set (chunks_of i (length (src i)))" using Cons.prems assms(2) by (auto simp: plan_chunks_def)
    then obtain off len where "x = (i, off, len)" using chunks_of_index [OF i(2)] by (cases x) auto
    then show ?thesis using packable_chunk_frame [of i off len src sha] i x assms(1,2) by auto
  qed
  then have "receive_frames sha segs = (map (chunk_frame sha src) xs, None)"
    using Cons.hyps(1) by (intro receive_frames_sent) (auto simp: comp_def)
  then show ?case using Cons by (simp add: thread_of_def)
qed simp

text \<open>
  C6. A copy delivers what it was given: for a manifest that the destination takes, with the sender
  reading files of the announced sizes, the bytes of the planned chunks spread over any number of
  connections in any order and cut into any segments, and the receiving threads run in any order,
  once every thread has ended without an error each file the plan found needed is at its target,
  with exactly the bytes, the mode and the time of its source, and \<open>finish\<close> does not refuse.\<close>

theorem copy_delivers:
  assumes "\<And>data. length (sha data) = 32"
    and "r = receiver_init dest slash entries token d" "takes r" "plan_copy os r = (Inr need, r0)"
    and "\<forall>i\<in>set need. i < 2 ^ 32 \<and> length (src i) \<le> 2 ^ 64 \<and> length (src i) = en_size (entries ! i)"
    and "mset (concat items) = mset (plan_chunks need entries)"
    and "list_all2 (\<lambda>xs segs. concat segs = concat (map (frame_bytes \<circ> chunk_frame sha src) xs)) items conns"
    and "(thread_step os)\<^sup>*\<^sup>* (r0, map (thread_of sha) conns) (r1, ws)" "\<forall>w\<in>set ws. wk_phase w = Idle \<and> \<not> unfinished w"
  shows "fst (finish_copy r1) \<noteq> Inl CopyError
    \<and> (\<forall>i\<in>set need. \<exists>p. target r (en_rel (entries ! i)) = Inr p \<and> dget (disk r1) p = Some (File_node (src i) (en_mode (entries ! i)) (en_mtime (entries ! i))))"
proof -
  have r: "rc_pending r = []" "rc_entries r = entries" using assms(2) by (simp_all add: receiver_init_def)
  have source: "\<forall>i\<in>set need. length (src i) = en_size (rc_entries r ! i)" using assms(5) r(2) by simp
  note P = plan_planned [OF assms(4) r(1) assms(3) source, unfolded r(2)]
  have sub: "set (concat items) \<subseteq> set (plan_chunks need entries)" using assms(6) by (metis order_refl set_mset_mset)
  have "\<forall>i\<in>set need. i < 2 ^ 32 \<and> length (src i) \<le> 2 ^ 64 \<and> en_size (entries ! i) = length (src i)" using assms(5) by auto
  from threads_started [OF assms(1) this sub assms(7)]
  have threads: "map (thread_of sha) conns = map (\<lambda>xs. \<lparr>wk_phase = Idle, wk_frames = map (chunk_frame sha src) xs, wk_end = None\<rparr>) items" .
  have "concat (map wk_frames (map (thread_of sha) conns)) = map (chunk_frame sha src) (concat items)"
    unfolding threads by (induction items) simp_all
  then have "started sha src r0 (map (thread_of sha) conns)"
    unfolding started_def using assms(6) P(2,3) threads by auto
  from transfer_complete [OF P(1) this assms(8)] assms(9)
  have arrived: "rc_pending r1 = []" "\<And>i. i \<in> needed r0 \<Longrightarrow> dget (disk r1) (tgt r0 i) = Some (new_node r0 src i)" by auto
  have kept: "dget (disk r1) q = dget (disk r0) q" if "q \<notin> tgt r0 ` needed r0 \<union> tmp r0 ` needed r0" for q
  proof -
    have lay: "layout r0 src" using P(1) by (simp add: planned_def)
    have "transfer_ok r0 src (any_failed ws) r1 ws"
      using thread_steps_ok [OF assms(8) _ lay] initial_ok [OF P(1) \<open>started sha src r0 _\<close>] by simp
    then show ?thesis using that unfolding transfer_ok_def frame_ok_def by blast
  qed
  have "\<exists>p. target r (en_rel (entries ! i)) = Inr p \<and> dget (disk r1) p = Some (new_node r0 src i)" if i: "i \<in> set need" for i
  proof -
    obtain p where p: "target r (en_rel (entries ! i)) = Inr p" "if i \<in> needed r0 then p = tgt r0 i
        else p \<notin> tgt r0 ` needed r0 \<union> tmp r0 ` needed r0 \<and> dget (disk r0) p = Some (new_node r0 src i)"
      using P(4) [OF i] by blast
    then show ?thesis using arrived(2) [of i] kept [of p] by (cases "i \<in> needed r0") simp_all
  qed
  moreover have "fst (each (\<lambda>(p, entry). bind_op (gets disk) (\<lambda>d. case dget d p of None \<Rightarrow> raise OSError
      | Some (Dir_node _ _) \<Rightarrow> modify (\<lambda>r. r\<lparr>disk := dset p (Dir_node (en_mode entry) (en_mtime entry)) (disk r)\<rparr>)
      | Some (File_node content _ _) \<Rightarrow> modify (\<lambda>r. r\<lparr>disk := dset p (File_node content (en_mode entry) (en_mtime entry)) (disk r)\<rparr>)
      | Some Other_node \<Rightarrow> ret ())) xs r2) \<noteq> Inl CopyError" for xs and r2 :: receiver
    by (induction xs arbitrary: r2) (auto simp: op_simps split: option.splits node.splits prod.splits sum.splits)
  ultimately show ?thesis
    using arrived(1) P(2) by (auto simp: finish_copy_def op_simps new_node_def)
qed

section \<open>Giving up\<close>

text \<open>No section turns a path into a folder, its target perhaps excepted.\<close>

lemma isdir_dset_file: "isdir (dset p (File_node c m t) d) q \<Longrightarrow> isdir d q"
  by (auto simp: isdir_def split: if_splits)

lemma isdir_ddel: "isdir (ddel p d) q \<Longrightarrow> isdir d q"
  by (auto simp: isdir_def split: if_splits)

lemma phase_step_dirs:
  assumes "phase_step os n ph w r = (w', r')" "isdir (disk r') q"
  shows "isdir (disk r) q \<or> (\<exists>j. ph = Renaming j \<and> q = tgt r j)"
proof (cases ph)
  case Idle
  then show ?thesis using assms
    by (auto simp: after_op_def write_begin_def open_file_def create_temp_def op_simps Let_def dest: isdir_dset_file split: list.splits if_splits option.splits)
next
  case (Renaming j)
  have "isdir (dset p (x :: node) (ddel t d)) q \<Longrightarrow> isdir d q \<or> q = p" for p x t d by (auto simp: isdir_def split: if_splits)
  then show ?thesis using assms Renaming
    by (auto simp: after_op_def rename_def op_simps Let_def split: if_splits option.splits) metis+
qed (use assms in \<open>auto simp: after_op_def pwrite_def count_down_def seal_def forget_def op_simps Let_def dest: isdir_dset_file split: if_splits option.splits node.splits\<close>)

lemma transfer_dirs:
  assumes "transfer os (r, ws) (r', ws')" "transfer_ok r0 src lossy r ws" "layout r0 src" "i \<in> needed r0" "isdir (disk r') (tmp r0 i)"
  shows "isdir (disk r) (tmp r0 i)"
  using assms(1)
proof (cases rule: transfer.cases)
  case runs
  then obtain k n w where step: "k < length ws" "worker_step os n (ws ! k) r = (w, r')" by (auto elim: thread_step.cases)
  from phase_step_dirs [OF step(2) [unfolded worker_step_def] assms(5)] show ?thesis
  proof
    assume "\<exists>j. wk_phase (ws ! k) = Renaming j \<and> tmp r0 i = tgt r j"
    then obtain j where j: "wk_phase (ws ! k) = Renaming j" "tmp r0 i = tgt r j" by blast
    then have "j \<in> needed r0" using assms(2) step(1) unfolding transfer_ok_def threads_ok_def by (metis nth_mem phase_index.simps(3))
    then have "tmp r0 i = tgt r0 j" using own_facts(1) [OF assms(2,3)] j(2) by simp
    then show ?thesis using assms(3,4) \<open>j \<in> needed r0\<close> unfolding layout_def by blast
  qed
next
  case (fault k w)
  then show ?thesis using assms(5) by (auto simp: worker_fault_def split: phase.splits)
qed (use assms(5) in simp)

lemma fold_abort:
  assumes "\<forall>i\<in>set is. \<not> isdir (disk r) (tmp r i)"
  shows "dget (disk (fold abort_one is r)) q = (if q \<in> tmp r ` set is then None else dget (disk r) q)"
  using assms
proof (induction "is" arbitrary: r)
  case (Cons i js)
  have one: "abort_one i r = r\<lparr>disk := ddel (tmp r i) (disk r)\<rparr>" using Cons.prems by (simp add: abort_one_def)
  have "\<forall>j\<in>set js. \<not> isdir (disk (abort_one i r)) (tmp (abort_one i r) j)"
    using Cons.prems by (auto simp: one dest: isdir_ddel)
  from Cons.IH [OF this] show ?case by (auto simp: one)
qed simp


end
