(* ===== verification/Copy_Scan.thy ===== *)
theory Copy_Scan
  imports Copy_Wire
begin

text \<open>
  The scan of the copying tool (\<open>walk_tree\<close> and \<open>scan\<close> of \<open>tools/sparkcp.py\<close>): the manifest of a
  list of sources. The file system of the sender is a parameter: what \<open>os.stat\<close>, which follows
  links, and \<open>os.listdir\<close> answer for a path, nothing when they raise. The walk keeps the folders it is
  in by device and inode, so that a link back to one of them is skipped. Its depth is bounded by
  \<open>fuel\<close>, which is shown to be enough when it is the number of folders.
\<close>

datatype stat_kind = Is_dir | Is_file | Is_other

type_synonym key = "nat \<times> nat"

record stat_info =
  st_kind :: stat_kind
  st_size :: nat
  st_mode :: int
  st_mtime :: int
  st_key :: key

record source_tree =
  stat_of :: "path \<Rightarrow> stat_info option"
  list_of :: "path \<Rightarrow> string list option"

record scanned =
  sc_entries :: "copy_entry list"
  sc_paths :: "path list"
  sc_skipped :: "path list"

definition scan_entry :: "string \<Rightarrow> stat_info \<Rightarrow> copy_entry" where
  "scan_entry rel info =
     \<lparr>en_rel = rel, en_kind = (if st_kind info = Is_dir then Folder else Regular), en_size = (if st_kind info = Is_dir then 0 else st_size info),
      en_mode = st_mode info, en_mtime = st_mtime info\<rparr>"

definition add_skipped :: "path \<Rightarrow> (scanned, unit) op" where
  "add_skipped p = modify (\<lambda>found. found\<lparr>sc_skipped := sc_skipped found @ [p]\<rparr>)"

definition add_found :: "string \<Rightarrow> path \<Rightarrow> stat_info \<Rightarrow> (scanned, unit) op" where
  "add_found rel p info =
     modify (\<lambda>found. found\<lparr>sc_entries := sc_entries found @ [scan_entry rel info], sc_paths := sc_paths found @ [p]\<rparr>)"

text \<open>The loop of \<open>walk_tree\<close> over the names of the folder \<open>p\<close>.\<close>

fun walk_names :: "nat \<Rightarrow> source_tree \<Rightarrow> string \<Rightarrow> path \<Rightarrow> key list \<Rightarrow> string list \<Rightarrow> (scanned, unit) op" where
  "walk_names fuel t rel p ancestors [] = ret ()"
| "walk_names fuel t rel p ancestors (name # names) =
     seq_op
       (case stat_of t (p @ [name]) of
          None \<Rightarrow> add_skipped (p @ [name])
        | Some info \<Rightarrow>
            if st_kind info = Is_other \<or> st_key info \<in> set ancestors then add_skipped (p @ [name])
            else seq_op (add_found (rel @ ''/'' @ name) (p @ [name]) info)
              (if st_kind info = Is_dir
               then (case fuel of
                       0 \<Rightarrow> raise Exhausted
                     | Suc n \<Rightarrow> (case list_of t (p @ [name]) of
                                  None \<Rightarrow> raise OSError
                                | Some below \<Rightarrow> walk_names n t (rel @ ''/'' @ name) (p @ [name]) (st_key info # ancestors) (sort below)))
               else ret ()))
       (walk_names fuel t rel p ancestors names)"

definition walk_tree :: "nat \<Rightarrow> source_tree \<Rightarrow> string \<Rightarrow> path \<Rightarrow> key list \<Rightarrow> (scanned, unit) op" where
  "walk_tree fuel t rel p ancestors =
     (case list_of t p of None \<Rightarrow> raise OSError | Some names \<Rightarrow> walk_names fuel t rel p ancestors (sort names))"

definition scan_source :: "nat \<Rightarrow> source_tree \<Rightarrow> path \<Rightarrow> (scanned, unit) op" where
  "scan_source fuel t base_path =
     (if base_path = [] then raise CopyError
      else case stat_of t base_path of
        None \<Rightarrow> raise OSError
      | Some info \<Rightarrow>
          if st_kind info = Is_other then raise CopyError
          else seq_op (add_found (last base_path) base_path info)
                 (if st_kind info = Is_dir then walk_tree fuel t (last base_path) base_path [st_key info] else ret ()))"

definition scan_sources :: "nat \<Rightarrow> source_tree \<Rightarrow> path list \<Rightarrow> scanned fallible" where
  "scan_sources fuel t sources =
     (case each (scan_source fuel t) sources \<lparr>sc_entries = [], sc_paths = [], sc_skipped = []\<rparr> of (Inr _, found) \<Rightarrow> Inr found | (Inl e, _) \<Rightarrow> Inl e)"

section \<open>The walk ends\<close>

definition dir_keys :: "source_tree \<Rightarrow> key set" where
  "dir_keys t = {st_key info |p info. stat_of t p = Some info \<and> st_kind info = Is_dir}"

lemma seq_op_ends: "fst (m s) \<noteq> Inl Exhausted \<Longrightarrow> (\<And>t. fst (n t) \<noteq> Inl Exhausted) \<Longrightarrow> fst (seq_op m n s) \<noteq> Inl Exhausted"
  by (auto simp: seq_op_step split: prod.splits sum.splits)

lemma walk_names_ends:
  assumes "finite (dir_keys t)" "card (dir_keys t - set ancestors) \<le> fuel"
  shows "fst (walk_names fuel t rel p ancestors names s) \<noteq> Inl Exhausted"
  using assms
proof (induction fuel t rel p ancestors names arbitrary: s rule: walk_names.induct)
  case (2 fuel t rel p ancestors name names)
  have tail: "fst (walk_names fuel t rel p ancestors names u) \<noteq> Inl Exhausted" for u using "2.IH"(2) "2.prems" by blast
  define down where "down = (\<lambda>info :: stat_info. case fuel of 0 \<Rightarrow> raise Exhausted | Suc n \<Rightarrow> (case list_of t (p @ [name]) of None \<Rightarrow> raise OSError
      | Some below \<Rightarrow> walk_names n t (rel @ ''/'' @ name) (p @ [name]) (st_key info # ancestors) (sort below)))"
  have below: "fst (down info u) \<noteq> Inl Exhausted"
    if info: "stat_of t (p @ [name]) = Some info" "\<not> (st_kind info = Is_other \<or> st_key info \<in> set ancestors)" "st_kind info = Is_dir" for info u
  proof -
    let ?K = "dir_keys t - set ancestors"
    have key: "st_key info \<in> ?K" using info by (auto simp: dir_keys_def)
    then have "0 < card ?K" using "2.prems"(1) by (metis card_gt_0_iff empty_iff finite_Diff)
    then obtain n where n: "fuel = Suc n" using "2.prems"(2) by (cases fuel) auto
    have "dir_keys t - set (st_key info # ancestors) = ?K - {st_key info}" by auto
    then have "card (dir_keys t - set (st_key info # ancestors)) \<le> n" using key "2.prems" n by (simp add: card_Diff_singleton)
    then show ?thesis using "2.IH"(1) [OF info n] "2.prems"(1) n by (cases "list_of t (p @ [name])") (simp_all add: down_def raise_def)
  qed
  have first: "fst ((case stat_of t (p @ [name]) of None \<Rightarrow> add_skipped (p @ [name])
      | Some info \<Rightarrow> if st_kind info = Is_other \<or> st_key info \<in> set ancestors then add_skipped (p @ [name])
          else seq_op (add_found (rel @ ''/'' @ name) (p @ [name]) info) (if st_kind info = Is_dir then down info else ret ())) s) \<noteq> Inl Exhausted"
  proof (cases "stat_of t (p @ [name])")
    case (Some info)
    have "fst ((if st_kind info = Is_dir then down info else ret ()) u) \<noteq> Inl Exhausted" if "\<not> (st_kind info = Is_other \<or> st_key info \<in> set ancestors)" for u
      using below [OF Some that] by (simp add: ret_def)
    then have "fst (seq_op (add_found (rel @ ''/'' @ name) (p @ [name]) info) (if st_kind info = Is_dir then down info else ret ()) s) \<noteq> Inl Exhausted"
      if "\<not> (st_kind info = Is_other \<or> st_key info \<in> set ancestors)"
      using that by (intro seq_op_ends) (auto simp: add_found_def modify_def)
    then show ?thesis using Some by (simp add: add_skipped_def modify_def)
  qed (simp add: add_skipped_def modify_def)
  show ?case unfolding walk_names.simps by (intro seq_op_ends tail first [unfolded down_def])
qed (simp add: op_simps)

text \<open>
  The scan ends whatever links the tree has: when there are finitely many folders, as many
  levels as there are folders are enough, so that a link that leads back into the tree never makes
  the walk run on.\<close>

theorem scan_ends:
  assumes "finite (dir_keys t)" "card (dir_keys t) \<le> fuel"
  shows "scan_sources fuel t sources \<noteq> Inl Exhausted"
proof -
  have "card (dir_keys t - set ancestors) \<le> fuel" for ancestors
    using assms card_mono [OF assms(1), of "dir_keys t - set ancestors"] by auto
  then have walk: "fst (walk_tree fuel t rel p ancestors s) \<noteq> Inl Exhausted" for rel p ancestors s
    using walk_names_ends [OF assms(1)] by (auto simp: walk_tree_def op_simps split: option.splits)
  have one: "fst (scan_source fuel t base_path s) \<noteq> Inl Exhausted" for base_path s
    using walk by (auto simp: scan_source_def add_found_def op_simps split: option.splits)
  have "fst (each (scan_source fuel t) sources s) \<noteq> Inl Exhausted" for s
  proof (induction sources arbitrary: s)
    case (Cons x xs)
    show ?case unfolding each.simps by (rule seq_op_ends [OF one Cons])
  qed (simp add: op_simps)
  then have "fst (each (scan_source fuel t) sources \<lparr>sc_entries = [], sc_paths = [], sc_skipped = []\<rparr>) \<noteq> Inl Exhausted" .
  then show ?thesis unfolding scan_sources_def
    by (cases "each (scan_source fuel t) sources \<lparr>sc_entries = [], sc_paths = [], sc_skipped = []\<rparr>";
        cases "fst (each (scan_source fuel t) sources \<lparr>sc_entries = [], sc_paths = [], sc_skipped = []\<rparr>)") simp_all
qed

section \<open>The manifest\<close>

text \<open>Names as \<open>os.listdir\<close> gives them: each once, none of them empty, \<open>.\<close> or \<open>..\<close>, none with a slash.\<close>

definition proper :: "string \<Rightarrow> bool" where
  "proper name \<longleftrightarrow> name \<notin> {[], ''.'', ''..''} \<and> CHR ''/'' \<notin> set name"

definition proper_tree :: "source_tree \<Rightarrow> bool" where
  "proper_tree t \<longleftrightarrow> (\<forall>p names. list_of t p = Some names \<longrightarrow> distinct names \<and> (\<forall>name\<in>set names. proper name))"

abbreviation parts :: "string \<Rightarrow> string list" where "parts rel \<equiv> split_on CHR ''/'' rel"

lemma parts_join: "proper name \<Longrightarrow> parts (rel @ ''/'' @ name) = parts rel @ [name]"
proof (induction rel)
  case Nil
  then show ?case using split_on_none [of "CHR ''/''" name] by (simp add: proper_def)
next
  case (Cons c rel)
  then show ?case using split_on_nonempty [of "CHR ''/''" rel] by (cases "parts rel") auto
qed

lemma parts_proper: "proper name \<Longrightarrow> parts name = [name]"
  by (simp add: proper_def split_on_none)

text \<open>What a walk adds: entries below the folder, under one of its names, each once.\<close>

definition below :: "string list \<Rightarrow> string list \<Rightarrow> copy_entry list \<Rightarrow> bool" where
  "below prefix names new \<longleftrightarrow> distinct (map en_rel new)
     \<and> (\<forall>entry\<in>set new. \<exists>name\<in>set names. \<exists>tail. parts (en_rel entry) = prefix @ name # tail \<and> (\<forall>part\<in>set (name # tail). proper part))"

lemma below_append:
  assumes "below prefix [name] new1" "below prefix names new2" "name \<notin> set names"
  shows "below prefix (name # names) (new1 @ new2)"
proof -
  have "en_rel e1 \<noteq> en_rel e2" if e: "e1 \<in> set new1" "e2 \<in> set new2" for e1 e2
  proof
    assume "en_rel e1 = en_rel e2"
    moreover obtain tail where "parts (en_rel e1) = prefix @ name # tail" using assms(1) e(1) by (auto simp: below_def)
    moreover obtain name' tail' where "name' \<in> set names" "parts (en_rel e2) = prefix @ name' # tail'" using assms(2) e(2) unfolding below_def by blast
    ultimately show False using assms(3) by auto
  qed
  then show ?thesis using assms(1,2) unfolding below_def by (auto simp: image_iff)
qed

lemma below_down:
  assumes "below (prefix @ [name]) names new" "proper name" "parts (en_rel e) = prefix @ [name]"
  shows "below prefix [name] (e # new)"
proof -
  have "en_rel e \<noteq> en_rel e'" if "e' \<in> set new" for e'
    using assms(1,3) that unfolding below_def by fastforce
  then show ?thesis using assms unfolding below_def by (auto simp: image_iff)
qed

lemma walk_names_below:
  assumes "walk_names fuel t rel p ancestors names s = (Inr (), s')" "proper_tree t" "distinct names" "\<forall>name\<in>set names. proper name"
  shows "\<exists>new. sc_entries s' = sc_entries s @ new \<and> below (parts rel) names new \<and> length (sc_paths s') = length (sc_paths s) + length new"
  using assms
proof (induction fuel t rel p ancestors names arbitrary: s s' rule: walk_names.induct)
  case (1 fuel t rel p ancestors)
  then show ?case by (simp add: op_simps below_def)
next
  case (2 fuel t rel p ancestors name names)
  have name: "proper name" and rest: "distinct names" "\<forall>name\<in>set names. proper name" "name \<notin> set names" using "2.prems"(3,4) by auto
  let ?rel = "rel @ ''/'' @ name" and ?p = "p @ [name]"
  obtain s1 where s1: "(case stat_of t ?p of None \<Rightarrow> add_skipped ?p
      | Some info \<Rightarrow> if st_kind info = Is_other \<or> st_key info \<in> set ancestors then add_skipped ?p
          else seq_op (add_found ?rel ?p info) (if st_kind info = Is_dir then (case fuel of 0 \<Rightarrow> raise Exhausted | Suc n \<Rightarrow> (case list_of t ?p of
            None \<Rightarrow> raise OSError | Some names \<Rightarrow> walk_names n t ?rel ?p (st_key info # ancestors) (sort names))) else ret ())) s = (Inr (), s1)"
      and tail: "walk_names fuel t rel p ancestors names s1 = (Inr (), s')"
    using "2.prems"(1) unfolding walk_names.simps seq_op_Inr by blast
  have "\<exists>new. sc_entries s1 = sc_entries s @ new \<and> below (parts rel) [name] new \<and> length (sc_paths s1) = length (sc_paths s) + length new"
  proof (cases "stat_of t ?p")
    case None
    then show ?thesis using s1 by (auto simp: add_skipped_def modify_def below_def)
  next
    case (Some info)
    show ?thesis
    proof (cases "st_kind info = Is_other \<or> st_key info \<in> set ancestors")
      case True
      then show ?thesis using s1 Some by (auto simp: add_skipped_def modify_def below_def)
    next
      case False
      let ?s = "s\<lparr>sc_entries := sc_entries s @ [scan_entry ?rel info], sc_paths := sc_paths s @ [?p]\<rparr>"
      have top: "parts (en_rel (scan_entry ?rel info)) = parts rel @ [name]" using parts_join [OF name, of rel] by (simp add: scan_entry_def)
      show ?thesis
      proof (cases "st_kind info = Is_dir")
        case dir: True
        obtain n where n: "fuel = Suc n" using s1 Some False dir by (cases fuel) (auto simp: seq_op_Inr raise_Inr)
        obtain below_names where b: "list_of t ?p = Some below_names" using s1 Some False dir n by (cases "list_of t ?p") (auto simp: seq_op_Inr raise_Inr)
        have walk: "walk_names n t ?rel ?p (st_key info # ancestors) (sort below_names) ?s = (Inr (), s1)"
          using s1 Some False dir n b by (simp add: seq_op_Inr add_found_def modify_Inr)
        have "distinct (sort below_names)" "\<forall>name\<in>set (sort below_names). proper name" using "2.prems"(2) b by (auto simp: proper_tree_def)
        from "2.IH"(1) [OF Some False dir n b walk "2.prems"(2) this] obtain new where
          new: "sc_entries s1 = sc_entries ?s @ new" "below (parts ?rel) (sort below_names) new" "length (sc_paths s1) = length (sc_paths ?s) + length new" by blast
        have "below (parts rel) [name] (scan_entry ?rel info # new)"
          using new(2) parts_join [OF name, of rel] by (intro below_down [OF _ name top]) simp
        then show ?thesis using new(1,3) by (intro exI [of _ "scan_entry ?rel info # new"]) simp
      next
        case other: False
        then have "s1 = ?s" using s1 Some False by (simp add: seq_op_Inr add_found_def modify_Inr ret_Inr)
        moreover have "below (parts rel) [name] [scan_entry ?rel info]" using top name by (simp add: below_def)
        ultimately show ?thesis by (intro exI [of _ "[scan_entry ?rel info]"]) simp
      qed
    qed
  qed
  then obtain new1 where new1: "sc_entries s1 = sc_entries s @ new1" "below (parts rel) [name] new1" "length (sc_paths s1) = length (sc_paths s) + length new1" by blast
  from "2.IH"(2) [OF tail "2.prems"(2) rest(1,2)] obtain new2 where
    new2: "sc_entries s' = sc_entries s1 @ new2" "below (parts rel) names new2" "length (sc_paths s') = length (sc_paths s1) + length new2" by blast
  show ?case using new1 new2 below_append [OF new1(2) new2(2) rest(3)] by (intro exI [of _ "new1 @ new2"]) simp
qed

definition is_root :: "copy_entry \<Rightarrow> bool" where
  "is_root entry \<longleftrightarrow> CHR ''/'' \<notin> set (en_rel entry)"

lemma scan_source_below:
  assumes "scan_source fuel t p s = (Inr (), s')" "proper_tree t" "p \<noteq> [] \<Longrightarrow> proper (last p)"
  shows "\<exists>new. sc_entries s' = sc_entries s @ new \<and> below [] [last p] new \<and> length (sc_paths s') = length (sc_paths s) + length new \<and> (\<exists>e\<in>set new. is_root e)"
proof -
  obtain info where info: "p \<noteq> []" "stat_of t p = Some info" "st_kind info \<noteq> Is_other"
    using assms(1) by (auto simp: scan_source_def raise_def split: if_splits option.splits)
  let ?e = "scan_entry (last p) info" and ?s = "s\<lparr>sc_entries := sc_entries s @ [scan_entry (last p) info], sc_paths := sc_paths s @ [p]\<rparr>"
  have name: "proper (last p)" using assms(3) info(1) .
  have top: "parts (en_rel ?e) = [] @ [last p]" "is_root ?e" using name parts_proper by (simp_all add: scan_entry_def is_root_def proper_def)
  show ?thesis
  proof (cases "st_kind info = Is_dir")
    case True
    then obtain names where names: "list_of t p = Some names" "walk_names fuel t (last p) p [st_key info] (sort names) ?s = (Inr (), s')"
      using assms(1) info by (auto simp: scan_source_def walk_tree_def seq_op_Inr add_found_def modify_Inr raise_Inr split: option.splits)
    have "distinct (sort names)" "\<forall>name\<in>set (sort names). proper name" using assms(2) names(1) by (auto simp: proper_tree_def)
    from walk_names_below [OF names(2) assms(2) this] obtain new where
      new: "sc_entries s' = sc_entries ?s @ new" "below (parts (last p)) (sort names) new" "length (sc_paths s') = length (sc_paths ?s) + length new" by blast
    have "below [] [last p] (?e # new)" using new(2) parts_proper [OF name] by (intro below_down [OF _ name top(1)]) simp
    then show ?thesis using new(1,3) top(2) by (intro exI [of _ "?e # new"]) simp
  next
    case False
    then have "s' = ?s" using assms(1) info by (simp add: scan_source_def seq_op_Inr add_found_def modify_Inr ret_Inr)
    moreover have "below [] [last p] [?e]" using top name by (simp add: below_def)
    ultimately show ?thesis using top(2) by (intro exI [of _ "[?e]"]) simp
  qed
qed

lemma scan_below:
  assumes "each (scan_source fuel t) sources s = (Inr (), s')" "proper_tree t" "\<forall>p\<in>set sources. p \<noteq> [] \<longrightarrow> proper (last p)" "distinct (map last sources)"
  shows "\<exists>new. sc_entries s' = sc_entries s @ new \<and> below [] (map last sources) new \<and> length (sc_paths s') = length (sc_paths s) + length new
    \<and> length sources \<le> length (filter is_root new)"
  using assms
proof (induction sources arbitrary: s)
  case Nil
  then show ?case by (simp add: op_simps below_def)
next
  case (Cons p ps)
  obtain s1 where s1: "scan_source fuel t p s = (Inr (), s1)" "each (scan_source fuel t) ps s1 = (Inr (), s')"
    using Cons.prems(1) by (auto simp: seq_op_Inr)
  obtain new1 where new1: "sc_entries s1 = sc_entries s @ new1" "below [] [last p] new1" "length (sc_paths s1) = length (sc_paths s) + length new1" "\<exists>e\<in>set new1. is_root e"
    using scan_source_below [OF s1(1) Cons.prems(2)] Cons.prems(3) by auto
  obtain new2 where new2: "sc_entries s' = sc_entries s1 @ new2" "below [] (map last ps) new2" "length (sc_paths s') = length (sc_paths s1) + length new2"
      "length ps \<le> length (filter is_root new2)"
    using Cons.IH [OF s1(2) Cons.prems(2)] Cons.prems(3,4) by auto
  have "below [] (map last (p # ps)) (new1 @ new2)" using below_append [OF new1(2) new2(2)] Cons.prems(4) by simp
  moreover have "length (p # ps) \<le> length (filter is_root (new1 @ new2))"
    using new1(4) new2(4) by (cases "filter is_root new1") (auto simp: filter_empty_conv)
  ultimately show ?case using new1 new2 by (intro exI [of _ "new1 @ new2"]) simp
qed

text \<open>
  What one machine scans the other can take: with names as a file system has them and sources
  whose last names differ, every entry of the manifest is accepted, no two entries go to the same
  target, whatever the destination, and each entry has the path its bytes are read from.\<close>

theorem manifest_taken:
  assumes "scan_sources fuel t sources = Inr found" "proper_tree t" "\<forall>p\<in>set sources. p \<noteq> [] \<longrightarrow> proper (last p)" "distinct (map last sources)"
    and "r = receiver_init dest slash (sc_entries found) token d"
  shows "(\<forall>entry\<in>set (rc_entries r). \<exists>p. target r (en_rel entry) = Inr p)
    \<and> distinct (map (\<lambda>entry. target r (en_rel entry)) (rc_entries r)) \<and> length (sc_paths found) = length (rc_entries r)"
proof -
  have "each (scan_source fuel t) sources \<lparr>sc_entries = [], sc_paths = [], sc_skipped = []\<rparr> = (Inr (), found)"
    using assms(1) by (auto simp: scan_sources_def split: prod.splits sum.splits)
  from scan_below [OF this assms(2-4)] have b: "below [] (map last sources) (sc_entries found)" and len: "length (sc_paths found) = length (sc_entries found)"
    and roots: "length sources \<le> length (filter is_root (sc_entries found))" by auto
  have entries: "rc_entries r = sc_entries found" using assms(5) by (simp add: receiver_init_def)
  have ok: "target r (en_rel e) = Inr (rc_dest r @ (if rc_into r then parts (en_rel e) else tl (parts (en_rel e))))" if "e \<in> set (sc_entries found)" for e
  proof -
    have "\<forall>part\<in>set (parts (en_rel e)). part \<notin> {[], ''..'', ''.''}" using b that by (fastforce simp: below_def proper_def)
    then have "checked_rel (en_rel e) = Inr (en_rel e)" by (simp add: checked_rel_Inr)
    then show ?thesis by (simp add: target_def Let_def)
  qed
  have hd: "hd (parts (en_rel e)) \<in> set (map last sources)" if "e \<in> set (sc_entries found)" for e
    using b that by (fastforce simp: below_def)
  have one: "x = y" if "\<not> rc_into r" "x \<in> set (map last sources)" "y \<in> set (map last sources)" for x y
  proof -
    have "length (filter is_root (sc_entries found)) \<le> 1" using that(1) assms(5) by (simp add: receiver_init_def is_root_def [abs_def])
    then have "length (map last sources) \<le> 1" using roots by simp
    then show ?thesis using that(2,3) by (cases "map last sources") auto
  qed
  have "inj_on (\<lambda>e. target r (en_rel e)) (set (sc_entries found))"
  proof (rule inj_onI)
    fix x y assume xy: "x \<in> set (sc_entries found)" "y \<in> set (sc_entries found)" "target r (en_rel x) = target r (en_rel y)"
    have "parts (en_rel x) = parts (en_rel y)"
    proof (cases "rc_into r")
      case False
      then have "tl (parts (en_rel x)) = tl (parts (en_rel y))" using ok [OF xy(1)] ok [OF xy(2)] xy(3) by simp
      moreover have "hd (parts (en_rel x)) = hd (parts (en_rel y))" using one [OF False hd [OF xy(1)] hd [OF xy(2)]] .
      ultimately show ?thesis using split_on_nonempty by (metis list.collapse)
    qed (use ok [OF xy(1)] ok [OF xy(2)] xy(3) in simp)
    then have "en_rel x = en_rel y" by (rule split_on_inj)
    then show "x = y" using b xy(1,2) by (auto simp: below_def distinct_map inj_on_def)
  qed
  moreover have "distinct (sc_entries found)" using b by (auto simp: below_def distinct_map)
  ultimately show ?thesis using ok len entries by (auto simp: distinct_map)
qed

end
