(* ===== verification/Copy_Samples.thy ===== *)
theory Copy_Samples
  imports Copy_Plan Copy_Scan
begin

text \<open>
  A small copy on which the theorems of the copying tool are evaluated: a file of two bytes and an
  empty one, into a folder that is there.
\<close>

definition sample_os :: os_facts where
  "sample_os = \<lparr>os_direct = (\<lambda>_. False), os_free = (\<lambda>_. 1000), os_size = (\<lambda>_. 0), os_dir_mode = 493, os_clock = 0\<rparr>"

definition sample_entries :: "copy_entry list" where
  "sample_entries = [\<lparr>en_rel = ''x'', en_kind = Regular, en_size = 2, en_mode = 420, en_mtime = 7\<rparr>,
     \<lparr>en_rel = ''y'', en_kind = Regular, en_size = 0, en_mode = 384, en_mtime = 8\<rparr>]"

definition sample_source :: "nat \<Rightarrow> byte list" where
  "sample_source i = (if i = 0 then [1, 2] else [])"

definition sample_sha :: "byte list \<Rightarrow> byte list" where
  "sample_sha data = replicate 32 0"

definition sample_receiver :: receiver where
  "sample_receiver = receiver_init [''home''] False sample_entries ''0123456789abcdef'' [([''home''], Dir_node 493 0)]"

fun run_schedule :: "os_facts \<Rightarrow> nat list \<Rightarrow> receiver \<times> worker list \<Rightarrow> receiver \<times> worker list" where
  "run_schedule os [] s = s"
| "run_schedule os (k # ks) (r, ws) =
     (if k < length ws \<and> unfinished (ws ! k) then (case worker_step os 1 (ws ! k) r of (w, r') \<Rightarrow> run_schedule os ks (r', ws[k := w])) else (r, ws))"

definition sample_planned :: receiver where
  "sample_planned = sample_receiver
     \<lparr>disk := [([''home''], Dir_node 493 0), ([''home'', ''y''], File_node [] 384 8)],
      rc_pending := [0],
      rc_states := [(0, \<lparr>ps_path = [''home'', ''x''], ps_temp = temp_path ''01234567'' 0 [''home'', ''x''], ps_open = False, ps_direct = False, ps_remaining = 2\<rparr>),
                    (1, \<lparr>ps_path = [''home'', ''y''], ps_temp = temp_path ''01234567'' 1 [''home'', ''y''], ps_open = False, ps_direct = False, ps_remaining = 0\<rparr>)]\<rparr>"

definition sample_threads :: "worker list" where
  "sample_threads = [\<lparr>wk_phase = Idle, wk_frames = [chunk_frame sample_sha sample_source (0, 0, 2)], wk_end = None\<rparr>, \<lparr>wk_phase = Idle, wk_frames = [], wk_end = None\<rparr>]"

text \<open>The copy on its way: the file system, whether the temporary file is open, the bytes to come, what is pending.\<close>

definition sample_temp :: path where "sample_temp = temp_path ''01234567'' 0 [''home'', ''x'']"

definition sample_at :: "(path, node) dict \<Rightarrow> bool \<Rightarrow> int \<Rightarrow> nat list \<Rightarrow> receiver" where
  "sample_at d opened remaining pending = sample_planned
     \<lparr>disk := [([''home''], Dir_node 493 0), ([''home'', ''y''], File_node [] 384 8)] @ d, rc_pending := pending,
      rc_states := [(0, \<lparr>ps_path = [''home'', ''x''], ps_temp = sample_temp, ps_open = opened, ps_direct = False, ps_remaining = remaining\<rparr>),
                    (1, \<lparr>ps_path = [''home'', ''y''], ps_temp = temp_path ''01234567'' 1 [''home'', ''y''], ps_open = False, ps_direct = False, ps_remaining = 0\<rparr>)]\<rparr>"

definition sample_arrived :: receiver where
  "sample_arrived = sample_at [([''home'', ''x''], File_node [1, 2] 420 7)] False 0 []"

lemma run_schedule_steps: "(thread_step os)\<^sup>*\<^sup>* s (run_schedule os ks s)"
proof (induction os ks s rule: run_schedule.induct)
  case (2 os k ks r ws)
  show ?case
  proof (cases "k < length ws \<and> unfinished (ws ! k)")
    case True
    obtain w r' where w: "worker_step os 1 (ws ! k) r = (w, r')" by (cases "worker_step os 1 (ws ! k) r")
    have "thread_step os (r, ws) (r', ws[k := w])" using True w thread_step.intros by blast
    then show ?thesis using "2.IH" [OF True w [symmetric]] True w by (simp add: converse_rtranclp_into_rtranclp)
  next
    case False
    then show ?thesis by (auto simp: run_schedule.simps)
  qed
qed simp

lemmas plan_simps = plan_copy_def plan_entry_def makedirs_def makedir_def check_space_def open_file_def finalize_def seal_def rename_def forget_def
  create_temp_def put_state_def state_of_def size_of_def target_def checked_rel_def starts_with_def unchanged_def isdir_def temp_path_def lstat_size_def
  nat_text.simps op_simps Let_def DIRECT_MIN_BYTES_def

lemmas sample_defs = sample_planned_def sample_receiver_def sample_entries_def sample_os_def receiver_init_def

lemma sample_plan: "plan_copy sample_os sample_receiver = (Inr [0, 1], sample_planned)"
  unfolding sample_defs by (simp add: plan_simps)

lemma sample_chunks: "plan_chunks [0, 1] sample_entries = [(0, 0, 2)]"
  by (simp add: plan_chunks_def chunks_of_def sample_entries_def CHUNK_BYTES_def)

lemma sample_takes: "takes sample_receiver"
  unfolding sample_receiver_def sample_entries_def receiver_init_def takes_def by (simp add: target_def checked_rel_def starts_with_def Let_def)

lemma sample_temp_facts [simp]:
  "sample_temp \<noteq> [''home'']" "sample_temp \<noteq> [''home'', ''y'']" "sample_temp \<noteq> [''home'', ''x'']" "sample_temp \<noteq> []" "butlast sample_temp = [''home'']"
  "[''home''] \<noteq> sample_temp" "[''home'', ''y''] \<noteq> sample_temp" "[''home'', ''x''] \<noteq> sample_temp"
  by (simp_all add: sample_temp_def temp_path_def)

lemma sample_at_simps [simp]:
  "state_of (sample_at d op n ps) 0 = \<lparr>ps_path = [''home'', ''x''], ps_temp = sample_temp, ps_open = op, ps_direct = False, ps_remaining = n\<rparr>"
  "rc_entries (sample_at d op n ps) = sample_entries" "rc_pending (sample_at d op n ps) = ps"
  "disk (sample_at d op n ps) = [([''home''], Dir_node 493 0), ([''home'', ''y''], File_node [] 384 8)] @ d"
  "put_state 0 (\<lparr>ps_path = [''home'', ''x''], ps_temp = sample_temp, ps_open = op', ps_direct = False, ps_remaining = n'\<rparr>) (sample_at d op n ps) = sample_at d op' n' ps"
  "(sample_at d op n ps)\<lparr>rc_pending := ps'\<rparr> = sample_at d op n ps'"
  "(sample_at d op n ps)\<lparr>disk := (([''home''], Dir_node 493 0) # ([''home'', ''y''], File_node [] 384 8) # d')\<rparr> = sample_at d' op n ps"
  by (simp_all add: sample_at_def state_of_def put_state_def sample_planned_def sample_receiver_def receiver_init_def)

lemma sample_begins: "sample_planned = sample_at [] False 2 [0]"
  by (simp add: sample_at_def sample_planned_def sample_temp_def)

lemmas step_simps = worker_step_def unfinished_def after_op_def write_begin_def write_buffer_def open_file_def create_temp_def pwrite_def count_down_def overwrite_def
  seal_def rename_def forget_def size_of_def isdir_def op_simps Let_def sample_source_def chunk_frame_def sample_entries_def sample_os_def DIRECT_MIN_BYTES_def

lemma sample_copy_run:
  "run_schedule sample_os [0, 0, 0, 0, 0, 0, 0] (sample_planned, sample_threads)
     = (sample_arrived, [\<lparr>wk_phase = Idle, wk_frames = [], wk_end = None\<rparr>, \<lparr>wk_phase = Idle, wk_frames = [], wk_end = None\<rparr>])"
  unfolding sample_begins sample_threads_def sample_arrived_def
  by (simp add: step_simps)

lemma sample_source_simps: "sample_source 0 = [1, 2]" "sample_source (Suc 0) = []"
  by (simp_all add: sample_source_def)

lemma sample_needed: "needed sample_planned = {0}" "rc_pending sample_planned = [0]"
  "tgt sample_planned 0 = [''home'', ''x'']" "tmp sample_planned 0 = sample_temp" "rc_entries sample_planned = sample_entries"
  by (simp_all add: sample_begins)

lemma sample_sources: "\<forall>i\<in>set [0, 1]. length (sample_source i) = en_size (rc_entries sample_receiver ! i)"
  by (simp add: sample_source_def sample_receiver_def sample_entries_def receiver_init_def)

lemma sample_is_planned: "planned sample_planned sample_source"
  by (rule plan_planned(1) [OF sample_plan _ sample_takes sample_sources]) (simp add: sample_receiver_def receiver_init_def)

lemma sample_is_started: "started sample_sha sample_source sample_planned sample_threads"
  by (simp add: started_def sample_threads_def sample_needed plan_chunks_def chunks_of_def sample_entries_def CHUNK_BYTES_def)

lemma sample_steps: "(thread_step sample_os)\<^sup>*\<^sup>* (sample_planned, sample_threads)
    (sample_arrived, [\<lparr>wk_phase = Idle, wk_frames = [], wk_end = None\<rparr>, \<lparr>wk_phase = Idle, wk_frames = [], wk_end = None\<rparr>])"
  using run_schedule_steps [of sample_os "(sample_planned, sample_threads)" "[0, 0, 0, 0, 0, 0, 0]"] by (simp only: sample_copy_run)

section \<open>Examples\<close>

theorem frames_arrive_witness:
  "receive_frames sample_sha [frame_bytes (chunk_frame sample_sha sample_source (0, 0, 2))] = ([chunk_frame sample_sha sample_source (0, 0, 2)], None)"
proof -
  have "send_chunk sample_sha (\<lambda>_. 1) False (sample_source 0) (0, 0, 2) = Inr (chunk_frame sample_sha sample_source (0, 0, 2))"
    by (rule send_chunk_frame) (simp add: sample_source_def)
  then show ?thesis
    using frames_arrive [of sample_sha "[0]" sample_source sample_entries "[(0, 0, 2)]" "\<lambda>_. 1" False "[chunk_frame sample_sha sample_source (0, 0, 2)]"
        "[frame_bytes (chunk_frame sample_sha sample_source (0, 0, 2))]"]
    by (simp add: sample_sha_def sample_source_def sample_entries_def plan_chunks_def chunks_of_def CHUNK_BYTES_def)
qed

theorem target_below_witness:
  "target sample_receiver ''x'' = Inr [''home'', ''x''] \<and>
   (\<exists>ps. [''home'', ''x''] = rc_dest sample_receiver @ ps \<and> (\<forall>part\<in>set ps. part \<notin> {[], ''.'', ''..''} \<and> CHR ''/'' \<notin> set part))"
proof
  show t: "target sample_receiver ''x'' = Inr [''home'', ''x'']"
    by (simp add: sample_receiver_def receiver_init_def target_def checked_rel_def starts_with_def isdir_def Let_def)
  from target_below [OF t] show "\<exists>ps. [''home'', ''x''] = rc_dest sample_receiver @ ps \<and> (\<forall>part\<in>set ps. part \<notin> {[], ''.'', ''..''} \<and> CHR ''/'' \<notin> set part)" .
qed


theorem transfer_atomic_witness:
  "dget (disk sample_arrived) [''home'', ''x''] = Some (File_node [1, 2] 420 7) \<and> dget (disk sample_arrived) sample_temp = None"
proof -
  have "(transfer sample_os)\<^sup>*\<^sup>* (sample_planned, sample_threads) (sample_arrived, [\<lparr>wk_phase = Idle, wk_frames = [], wk_end = None\<rparr>, \<lparr>wk_phase = Idle, wk_frames = [], wk_end = None\<rparr>])"
    by (rule rtranclp_mono [THEN predicate2D, OF _ sample_steps]) (auto elim: thread_step.cases intro: transfer.runs thread_step.intros)
  from transfer_atomic [OF sample_is_planned sample_is_started this] show ?thesis
    by (simp add: sample_needed new_node_def sample_entries_def sample_source_def) (simp add: sample_arrived_def)
qed

theorem copy_delivers_witness:
  "dget (disk sample_arrived) [''home'', ''x''] = Some (File_node [1, 2] 420 7) \<and> dget (disk sample_arrived) [''home'', ''y''] = Some (File_node [] 384 8)"
proof -
  let ?conns = "[[frame_bytes (chunk_frame sample_sha sample_source (0, 0, 2))], []]"
  have threads: "map (thread_of sample_sha) ?conns = sample_threads"
    using threads_started [of sample_sha "[0, 1]" sample_source sample_entries "[[(0, 0, 2)], []]" ?conns] sample_chunks
    by (simp add: sample_threads_def sample_sha_def sample_source_def sample_entries_def)
  have "fst (finish_copy sample_arrived) \<noteq> Inl CopyError \<and> (\<forall>i\<in>set [0, 1]. \<exists>p. target sample_receiver (en_rel (sample_entries ! i)) = Inr p
      \<and> dget (disk sample_arrived) p = Some (File_node (sample_source i) (en_mode (sample_entries ! i)) (en_mtime (sample_entries ! i))))"
    by (rule copy_delivers [OF _ sample_receiver_def sample_takes sample_plan _ _ _ sample_steps [folded threads], where items = "[[(0, 0, 2)], []]"])
       (use sample_chunks in \<open>auto simp: sample_sha_def sample_source_simps sample_entries_def unfinished_def\<close>)
  then show ?thesis
    by (auto simp: sample_entries_def sample_source_def target_def checked_rel_def starts_with_def sample_receiver_def receiver_init_def isdir_def Let_def)
qed


text \<open>A folder with a link to itself.\<close>

definition sample_tree :: source_tree where
  "sample_tree = \<lparr>stat_of = (\<lambda>p. Some \<lparr>st_kind = Is_dir, st_size = 0, st_mode = 493, st_mtime = 9, st_key = (1, 1)\<rparr>), list_of = (\<lambda>p. Some [''a''])\<rparr>"

definition sample_found :: scanned where
  "sample_found = \<lparr>sc_entries = [\<lparr>en_rel = ''a'', en_kind = Folder, en_size = 0, en_mode = 493, en_mtime = 9\<rparr>], sc_paths = [[''a'']], sc_skipped = [[''a'', ''a'']]\<rparr>"

lemma sample_scan: "scan_sources 1 sample_tree [[''a'']] = Inr sample_found"
  by (simp add: scan_sources_def scan_source_def walk_tree_def sample_tree_def sample_found_def add_found_def add_skipped_def scan_entry_def op_simps)

theorem scan_ends_witness: "dir_keys sample_tree = {(1, 1)} \<and> scan_sources 1 sample_tree [[''a'']] \<noteq> Inl Exhausted"
proof
  show keys: "dir_keys sample_tree = {(1, 1)}" by (auto simp: dir_keys_def sample_tree_def)
  show "scan_sources 1 sample_tree [[''a'']] \<noteq> Inl Exhausted" by (rule scan_ends) (simp_all add: keys)
qed

theorem manifest_taken_witness:
  "scan_sources 1 sample_tree [[''a'']] = Inr sample_found \<and> (\<exists>p. target (receiver_init [''home''] True (sc_entries sample_found) ''0123'' []) ''a'' = Inr p)"
proof
  from manifest_taken [OF sample_scan _ _ _ refl, of "[''home'']" True "''0123''" "[]"]
  show "\<exists>p. target (receiver_init [''home''] True (sc_entries sample_found) ''0123'' []) ''a'' = Inr p"
    by (auto simp: proper_tree_def proper_def sample_tree_def receiver_init_def sample_found_def)
qed (rule sample_scan)

section \<open>Two sources of the same name\<close>

definition race_receiver :: receiver where
  "race_receiver = receiver_init [''home''] False
     [\<lparr>en_rel = ''x'', en_kind = Regular, en_size = 1, en_mode = 420, en_mtime = 7\<rparr>, \<lparr>en_rel = ''x'', en_kind = Regular, en_size = 1, en_mode = 420, en_mtime = 7\<rparr>]
     ''0123456789abcdef'' [([''home''], Dir_node 493 0)]"

definition race_threads :: "worker list" where
  "race_threads = map (\<lambda>i. \<lparr>wk_phase = Idle, wk_frames = [chunk_frame sample_sha (\<lambda>i. [word_of_nat i]) (i, 0, 1)], wk_end = None\<rparr>) [0, 1]"


end
