(* ===== verification/Memory_Text.thy ===== *)
theory Memory_Text
  imports Text_Fields
begin

text \<open>
  The texts of \<open>tools/serving/chat_memory.py\<close>: messages, exchanges and how they are read, the
  sections of a tool result and the forms in which it is shown, and the marks that text from outside
  may not forge. Messages have been normalised: a role is a text, and a content is absent, a text or a
  list of parts. A JSON value has whole numbers only. What the code does not define is in \<open>codec\<close>:
  the JSON printer and reader, the digests of canonical messages and of tool results, Python's
  \<open>repr\<close>, the tokenizer of the model, and the wording of the note in the system message.
\<close>

section \<open>Values and messages\<close>

datatype json = JNull | JBool bool | JInt int | JText string | JList "json list" | JObject "(string \<times> json) list"

record content_part =
  pt_kind :: "string option"
  pt_text :: string
  pt_rest :: string

datatype content = No_content | Text_content string | Part_content "content_part list"

record call =
  cl_id :: "string option"
  cl_name :: "string option"
  cl_arguments :: json

record message =
  m_role :: string
  m_content :: content
  m_calls :: "call list"
  m_call_id :: "string option"
  m_name :: "string option"
  m_label :: "string option"
  m_reasoning :: "string option"

type_synonym exchange = "message list"
type_synonym canonical = "string \<times> string \<times> (string option \<times> json) list \<times> string option"

record codec =
  loads :: "string \<Rightarrow> json option"
  dumps :: "json \<Rightarrow> string"
  dumps_sorted :: "json \<Rightarrow> string"
  messages_digest :: "canonical list \<Rightarrow> string"
  part_digest :: "string \<times> string \<times> string \<Rightarrow> string"
  repr_text :: "string \<Rightarrow> string"
  calls_text :: "call list \<Rightarrow> string"
  memory_count :: "string \<Rightarrow> nat"
  system_note :: string

definition newline :: string where "newline = [CHR 0x0A]"
definition section_sign :: string where "section_sign = [CHR 0xA7]"
definition middle_dot :: string where "middle_dot = [CHR 0xB7]"

definition user_role :: string where "user_role = ''user''"
definition assistant_role :: string where "assistant_role = ''assistant''"
definition tool_role :: string where "tool_role = ''tool''"
definition system_role :: string where "system_role = ''system''"

text \<open>\<open>str.join\<close>, \<open>str.split()\<close>, \<open>str.lstrip\<close>, \<open>str.startswith\<close>, \<open>str.replace\<close> and \<open>str.rfind\<close>.\<close>

fun join_texts :: "string \<Rightarrow> string list \<Rightarrow> string" where
  "join_texts sep [] = []"
| "join_texts sep [t] = t"
| "join_texts sep (t # ts) = t @ sep @ join_texts sep ts"

function words_of :: "string \<Rightarrow> string list" where
  "words_of t = (case dropWhile whitespace t of [] \<Rightarrow> []
     | c # cs \<Rightarrow> (c # takeWhile (\<lambda>d. \<not> whitespace d) cs) # words_of (dropWhile (\<lambda>d. \<not> whitespace d) cs))"
  by auto
termination
proof (relation "measure length", simp, goal_cases)
  case (1 t c cs)
  then have "length (dropWhile whitespace t) = Suc (length cs)" by simp
  then show ?case using length_dropWhile_le [of whitespace t] length_dropWhile_le [of "\<lambda>d. \<not> whitespace d" cs] by simp
qed

declare words_of.simps [simp del]

definition lstrip :: "string \<Rightarrow> string" where
  "lstrip t = dropWhile whitespace t"

definition starts :: "string \<Rightarrow> string \<Rightarrow> bool" where
  "starts p t \<longleftrightarrow> take (length p) t = p"

function replace_text :: "string \<Rightarrow> string \<Rightarrow> string \<Rightarrow> string" where
  "replace_text p r [] = []"
| "replace_text p r (c # cs) =
     (if p \<noteq> [] \<and> starts p (c # cs) then r @ replace_text p r (drop (length p) (c # cs)) else c # replace_text p r cs)"
  by pat_completeness auto
termination
  by (relation "measure (\<lambda>(p, r, t). length t)") auto

lemma find_SomeD: "find P xs = Some x \<Longrightarrow> x \<in> set xs \<and> P x"
  by (auto simp: find_Some_iff)

definition rfind :: "string \<Rightarrow> string \<Rightarrow> nat option" where
  "rfind p t = find (\<lambda>i. starts p (drop i t)) (rev [0..<length t])"

definition text_of :: "content \<Rightarrow> string" where
  "text_of c = (case c of No_content \<Rightarrow> [] | Text_content t \<Rightarrow> t
     | Part_content ps \<Rightarrow> concat (map pt_text (filter (\<lambda>p. pt_kind p = None \<or> pt_kind p = Some ''text'') ps)))"

definition message_text :: "message \<Rightarrow> string" where
  "message_text m = text_of (m_content m)"

definition canonical_message :: "message \<Rightarrow> canonical" where
  "canonical_message m = (m_role m, message_text m, map (\<lambda>c. (cl_name c, cl_arguments c)) (m_calls m),
     if m_role m = tool_role then m_name m else None)"

definition exchange_key :: "codec \<Rightarrow> exchange \<Rightarrow> string" where
  "exchange_key cd messages = messages_digest cd (map canonical_message messages)"

section \<open>Exchanges\<close>

definition tool_images :: "message \<Rightarrow> bool" where
  "tool_images m = (case m_content m of
     Part_content ps \<Rightarrow> m_role m = user_role \<and> (\<exists>p\<in>set ps. pt_kind p = Some ''image_url'')
       \<and> (\<forall>p\<in>set ps. pt_kind p = Some ''text'' \<or> pt_kind p = Some ''image_url'') \<and> length (message_text m) \<le> 200
   | _ \<Rightarrow> False)"

fun split_exchanges :: "exchange list \<Rightarrow> message list \<Rightarrow> exchange list option" where
  "split_exchanges exchanges [] = Some exchanges"
| "split_exchanges exchanges (m # ms) =
     (if exchanges \<noteq> [] \<and> m_role (last (last exchanges)) = tool_role \<and> tool_images m
      then split_exchanges (butlast exchanges @ [last exchanges @ [m]]) ms
      else if m_role m = user_role then split_exchanges (exchanges @ [[m]]) ms
      else if exchanges = [] then None
      else split_exchanges (butlast exchanges @ [last exchanges @ [m]]) ms)"

definition split_messages :: "message list \<Rightarrow> (message list \<times> exchange list \<times> exchange) option" where
  "split_messages messages =
     (let leading = takeWhile (\<lambda>m. m_role m = system_role) messages in
      case split_exchanges [] (drop (length leading) messages) of None \<Rightarrow> None
      | Some exchanges \<Rightarrow>
          if exchanges = [] then None
          else if m_role (last (last exchanges)) = assistant_role \<and> m_calls (last (last exchanges)) = [] then None
          else Some (leading, butlast exchanges, last exchanges))"

datatype round_item = Spoken string string | Called "string option" string | Result string string

definition answer_index :: "exchange \<Rightarrow> nat option" where
  "answer_index messages = find (\<lambda>i. m_role (messages ! i) = assistant_role \<and> m_calls (messages ! i) = []) (rev [0..<length messages])"

definition call_items :: "codec \<Rightarrow> message \<Rightarrow> round_item list" where
  "call_items cd m = map (\<lambda>c. Called (cl_name c) (case cl_arguments c of JText t \<Rightarrow> t | v \<Rightarrow> dumps cd v)) (m_calls m)"

definition result_name :: "(string option, string option) dict \<Rightarrow> message \<Rightarrow> string" where
  "result_name names m =
     (case m_name m of Some n \<Rightarrow> if n \<noteq> [] then n else (case dget names (m_call_id m) of Some (Some k) \<Rightarrow> if k \<noteq> [] then k else ''tool'' | _ \<Rightarrow> ''tool'')
      | None \<Rightarrow> (case dget names (m_call_id m) of Some (Some k) \<Rightarrow> if k \<noteq> [] then k else ''tool'' | _ \<Rightarrow> ''tool''))"

fun reading_rounds :: "codec \<Rightarrow> nat option \<Rightarrow> nat \<Rightarrow> (string option, string option) dict \<Rightarrow> exchange \<Rightarrow> round_item list" where
  "reading_rounds cd answer i names [] = []"
| "reading_rounds cd answer i names (m # ms) =
     (if m_role m = user_role then reading_rounds cd answer (i + 1) names ms
      else if m_role m = system_role then Spoken ''System'' (message_text m) # reading_rounds cd answer (i + 1) names ms
      else if m_role m = assistant_role \<and> Some i \<noteq> answer
      then (if message_text m \<noteq> [] then [Spoken ''Assistant'' (message_text m)] else []) @ call_items cd m
           @ reading_rounds cd answer (i + 1) (foldl (\<lambda>d c. dset (cl_id c) (cl_name c) d) names (m_calls m)) ms
      else if m_role m = tool_role then Result (result_name names m) (message_text m) # reading_rounds cd answer (i + 1) names ms
      else reading_rounds cd answer (i + 1) names ms)"

definition reading_parts :: "codec \<Rightarrow> exchange \<Rightarrow> string \<times> string \<times> round_item list" where
  "reading_parts cd messages =
     (join_texts newline (map message_text (filter (\<lambda>m. m_role m = user_role) messages)),
      (case answer_index messages of None \<Rightarrow> [] | Some i \<Rightarrow> message_text (messages ! i)),
      reading_rounds cd (answer_index messages) 0 [] messages)"

definition shown_name :: "string option \<Rightarrow> string" where
  "shown_name n = (case n of None \<Rightarrow> ''None'' | Some t \<Rightarrow> t)"

definition round_text :: "round_item \<Rightarrow> string" where
  "round_text item = (case item of
     Called n arguments \<Rightarrow> ''Assistant called '' @ shown_name n @ ''('' @ arguments @ '')''
   | Result n t \<Rightarrow> ''Tool result ('' @ n @ ''): '' @ t
   | Spoken who t \<Rightarrow> who @ '': '' @ t)"

definition exchange_text :: "codec \<Rightarrow> exchange \<Rightarrow> string" where
  "exchange_text cd messages = (let (user, answer, rounds) = reading_parts cd messages in
     join_texts newline ([''User: '' @ user] @ (if answer \<noteq> [] then [''Assistant: '' @ answer] else []) @ map round_text rounds))"

text \<open>
  The patterns \<open>NODE_ID\<close> and \<open>GROUP_ID\<close>: a letter and a number without leading zero, of at most six
  digits; the dollar of a pattern also matches before a line feed at the end.
\<close>

definition chomp :: "string \<Rightarrow> string" where
  "chomp t = (if t \<noteq> [] \<and> last t = CHR 0x0A then butlast t else t)"

definition counting :: "nat \<Rightarrow> string \<Rightarrow> bool" where
  "counting most t \<longleftrightarrow> t \<noteq> [] \<and> length t \<le> most \<and> list_all digit t \<and> hd t \<noteq> CHR ''0''"

definition label_number :: "char \<Rightarrow> string \<Rightarrow> nat option" where
  "label_number letter t = (case chomp t of [] \<Rightarrow> None
     | c # ds \<Rightarrow> if c = letter \<and> counting 6 ds then Some (nat (digits_value ds)) else None)"

definition NODE_ID :: "string \<Rightarrow> nat option" where "NODE_ID t = label_number CHR ''e'' t"
definition GROUP_ID :: "string \<Rightarrow> nat option" where "GROUP_ID t = label_number CHR ''g'' t"

definition node_id :: "nat \<Rightarrow> string" where "node_id n = ''e'' @ nat_text n"
definition group_id :: "nat \<Rightarrow> string" where "group_id n = ''g'' @ nat_text n"

definition part_count :: "nat \<Rightarrow> string \<Rightarrow> nat" where
  "part_count part_chars t = max 1 ((length t + part_chars - 1) div part_chars)"

definition expand_text :: "codec \<Rightarrow> exchange list \<Rightarrow> string \<Rightarrow> int \<Rightarrow> nat \<Rightarrow> string" where
  "expand_text cd exchanges node part part_chars =
     (let missing = ''No exchange '' @ repr_text cd node @ '' in this conversation; ids run from e1 to '' @ node_id (length exchanges) @ ''.'' in
      case NODE_ID node of None \<Rightarrow> missing
      | Some n \<Rightarrow>
          if length exchanges < n then missing
          else let t = exchange_text cd (exchanges ! (n - 1)); parts = part_count part_chars t; k = (if part < 1 then 1 else nat part) in
            if parts < k then node @ '' has '' @ nat_text parts @ '' part(s).''
            else node @ (if 1 < parts then '' part '' @ nat_text k @ '' of '' @ nat_text parts else []) @ '':'' @ newline
              @ take part_chars (drop ((k - 1) * part_chars) t)
              @ (if k < parts then newline @ ''[part '' @ nat_text k @ '' of '' @ nat_text parts @ ''; ask for part '' @ nat_text (k + 1) @ '' for more]'' else []))"

section \<open>Text that may not pass for marks\<close>

definition MEMORY_TAGS :: "string list" where
  "MEMORY_TAGS = [''ledger'', ''reference'', ''history'']"

definition neutral :: "string \<Rightarrow> string" where
  "neutral t = foldl (\<lambda>u tag. replace_text (''</'' @ tag) (''</ '' @ tag) (replace_text (''<'' @ tag) (''< '' @ tag) u)) t MEMORY_TAGS"

definition forged :: "string \<Rightarrow> bool" where
  "forged t \<longleftrightarrow> (case t of c # d # ds \<Rightarrow> (c = CHR ''e'' \<or> c = CHR ''g'') \<and> digit d \<or> c = CHR 0xA7 | [c] \<Rightarrow> c = CHR 0xA7 | [] \<Rightarrow> False)"

fun unforge :: "string \<Rightarrow> string" where
  "unforge [] = []"
| "unforge (c # cs) = (if c = CHR ''['' \<and> forged cs then ''[ '' @ unforge cs else c # unforge cs)"

definition escape_tool :: "string \<Rightarrow> string" where
  "escape_tool t = neutral (unforge t)"

definition history_block :: "codec \<Rightarrow> string \<Rightarrow> exchange \<Rightarrow> nat \<Rightarrow> string" where
  "history_block cd node messages limit_chars =
     (let (user, answer, rounds) = reading_parts cd messages;
          whole = ''User (earlier): '' @ user @ (if answer \<noteq> [] then newline @ ''Assistant (earlier): '' @ answer else []);
          t = (if limit_chars < length whole then take limit_chars whole @ newline @ ''[cut; expand '' @ node @ '' for the rest]'' else whole);
          calls = [(n, a). Called n a \<leftarrow> rounds]; results = [u. Result n u \<leftarrow> rounds];
          pointers = map (\<lambda>(i, n, a). ''['' @ node @ '' used '' @ shown_name n @ ''('' @ take 200 a @ '')''
            @ (if i < length results then '': '' @ nat_text (length (results ! i)) @ '' characters'' else [])
            @ ''; expand '' @ node @ '' to read it]'' @ newline) (enumerate 0 calls)
      in ''<history id='' @ [CHR 0x22] @ node @ [CHR 0x22] @ ''>'' @ newline @ neutral (t @ newline @ concat pointers) @ ''</history>'' @ newline)"

section \<open>Tool results in sections\<close>

definition SECTION_TARGET_CHARS :: nat where "SECTION_TARGET_CHARS = 2000"
definition SECTION_MIN_CHARS :: nat where "SECTION_MIN_CHARS = 1500"

definition sentence_end :: "string \<Rightarrow> nat option" where
  "sentence_end window = max_list (List.map_filter (\<lambda>p. rfind p window) [''. '', ''? '', ''! ''])"

definition section_cut :: "string \<Rightarrow> nat option" where
  "section_cut window =
     (case rfind newline window of Some i \<Rightarrow> Some i
      | None \<Rightarrow> (case sentence_end window of Some i \<Rightarrow> Some (i + 1) | None \<Rightarrow> rfind '' '' window))"

definition section_end :: "string \<Rightarrow> nat \<Rightarrow> nat" where
  "section_end t position =
     (case section_cut (take (SECTION_TARGET_CHARS - SECTION_MIN_CHARS) (drop (position + SECTION_MIN_CHARS) t)) of
        Some i \<Rightarrow> position + SECTION_MIN_CHARS + i + 1 | None \<Rightarrow> position + SECTION_TARGET_CHARS)"

lemma section_end_later: "position < section_end t position"
  by (simp add: section_end_def SECTION_MIN_CHARS_def SECTION_TARGET_CHARS_def split: option.split)

function spans_from :: "string \<Rightarrow> nat \<Rightarrow> (nat \<times> nat) list" where
  "spans_from t position =
     (if length t \<le> position then []
      else if length t - position \<le> SECTION_TARGET_CHARS then [(position, length t)]
      else (position, section_end t position) # spans_from t (section_end t position))"
  by auto
termination
  by (relation "measure (\<lambda>(t, position). length t - position)") (auto intro!: diff_less_mono2 section_end_later)

declare spans_from.simps [simp del]

definition section_spans :: "string \<Rightarrow> (nat \<times> nat) list" where
  "section_spans t = spans_from t 0"

record tool_part =
  tp_index :: nat
  tp_name :: string
  tp_arguments :: json
  tp_text :: string
  tp_label :: string
  tp_key :: string

definition canonical_arguments :: "codec \<Rightarrow> json \<Rightarrow> string" where
  "canonical_arguments cd arguments =
     (case arguments of JText t \<Rightarrow> (case loads cd t of None \<Rightarrow> t | Some v \<Rightarrow> dumps_sorted cd v) | v \<Rightarrow> dumps_sorted cd v)"

definition part_key :: "codec \<Rightarrow> string \<Rightarrow> json \<Rightarrow> string \<Rightarrow> string" where
  "part_key cd name arguments t = part_digest cd (name, canonical_arguments cd arguments, t)"

definition or_tool :: "string option \<Rightarrow> string" where
  "or_tool n = (case n of Some t \<Rightarrow> if t \<noteq> [] then t else ''tool'' | None \<Rightarrow> ''tool'')"

definition tool_part_of :: "codec \<Rightarrow> (string option, string \<times> json) dict \<Rightarrow> nat \<Rightarrow> message \<Rightarrow> tool_part" where
  "tool_part_of cd calls i m =
     (let (name, arguments) = (case dget calls (m_call_id m) of Some x \<Rightarrow> x | None \<Rightarrow> (or_tool (m_name m), JNull));
          content = message_text m;
          label = (case m_label m of None \<Rightarrow> [] | Some l \<Rightarrow> l);
          cut = (label \<noteq> [] \<and> starts label content);
          raw = (if cut then drop (length label) content else content)
      in \<lparr>tp_index = i, tp_name = name, tp_arguments = arguments, tp_text = raw, tp_label = (if cut then label else []), tp_key = part_key cd name arguments raw\<rparr>)"

fun tool_parts_from :: "codec \<Rightarrow> (string option, string \<times> json) dict \<Rightarrow> nat \<Rightarrow> exchange \<Rightarrow> tool_part list" where
  "tool_parts_from cd calls i [] = []"
| "tool_parts_from cd calls i (m # ms) =
     (let calls = (if m_role m = assistant_role then foldl (\<lambda>d c. dset (cl_id c) (or_tool (cl_name c), cl_arguments c) d) calls (m_calls m) else calls)
      in (if m_role m = tool_role then [tool_part_of cd calls i m] else []) @ tool_parts_from cd calls (i + 1) ms)"

definition tool_parts :: "codec \<Rightarrow> exchange \<Rightarrow> tool_part list" where
  "tool_parts cd messages = tool_parts_from cd [] 0 messages"

definition part_header :: "codec \<Rightarrow> string \<Rightarrow> tool_part \<Rightarrow> nat \<Rightarrow> string" where
  "part_header cd node p tokens =
     (let arguments = (if tp_arguments p = JNull then [] else canonical_arguments cd (tp_arguments p));
          kept = (if arguments = ''{}'' \<or> arguments = ''null'' then [] else arguments);
          shown = escape_tool (take 200 kept @ (if 200 < length kept then ''...'' else []))
      in ''['' @ node @ '' '' @ tp_name p @ (if shown \<noteq> [] then '' '' @ shown else []) @ '' '' @ middle_dot @ '' '' @ nat_text tokens @ '' tokens]''
         @ newline @ tp_label p)"

definition section_text :: "string \<Rightarrow> (nat \<times> nat) list \<Rightarrow> nat list \<Rightarrow> string" where
  "section_text t spans numbers =
     concat (map (\<lambda>n. ''['' @ section_sign @ nat_text n @ ''] '' @ escape_tool (drop (fst (spans ! (n - 1))) (take (snd (spans ! (n - 1))) t))) numbers)"

text \<open>The sections from the front and from the back that fit into a part of the cap.\<close>

fun fitting :: "nat \<Rightarrow> nat \<Rightarrow> (nat \<times> nat) list \<Rightarrow> nat list" where
  "fitting most used [] = []"
| "fitting most used ((number, cost) # rest) = (if most < used + cost then [] else number # fitting most (used + cost) rest)"

definition arrival_form :: "codec \<Rightarrow> string \<Rightarrow> tool_part \<Rightarrow> nat \<Rightarrow> nat \<Rightarrow> string \<times> nat list \<times> nat" where
  "arrival_form cd node p small cap =
     (let t = tp_text p; count = memory_count cd; tokens = count t; spans = section_spans t; every = [1..<length spans + 1] in
      if tokens \<le> small then (part_header cd node p tokens @ escape_tool t, every, tokens)
      else let sizes = map (\<lambda>n. count (section_text t spans [n])) every in
        if sum_list sizes \<le> cap then (part_header cd node p tokens @ section_text t spans every, every, tokens)
        else let front = fitting (cap * 3 div 4) 0 (zip every sizes);
                 back = rev (fitting (cap div 4) 0 (rev (drop (length front) (zip every sizes))));
                 first = length front + 1; final = length spans - length back;
                 hidden = sum_list (drop (first - 1) (take final sizes));
                 gap = ''['' @ section_sign @ nat_text first @ ''-'' @ section_sign @ nat_text final @ '' not shown: '' @ nat_text hidden
                   @ '' tokens; expand '' @ node @ '' part '' @ nat_text first @ '', or search_history]'' @ newline
          in (part_header cd node p tokens @ section_text t spans front @ gap @ section_text t spans back, front @ back, tokens))"

definition stub_form :: "codec \<Rightarrow> string \<Rightarrow> tool_part \<Rightarrow> nat \<Rightarrow> nat list \<Rightarrow> string" where
  "stub_form cd node p tokens keep =
     (let spans = section_spans (tp_text p);
          kept = filter (\<lambda>n. 1 \<le> n \<and> n \<le> length spans) keep;
          note = ''['' @ node @ '': '' @ nat_text (length spans) @ '' sections, collapsed''
            @ (if kept \<noteq> [] then ''; kept '' @ join_texts '', '' (map (\<lambda>n. section_sign @ nat_text n) kept) else [])
            @ ''; expand '' @ node @ '' part <n> or search_history to read more]'' @ newline
      in part_header cd node p tokens @ note @ section_text (tp_text p) spans kept)"

fun sections_within :: "nat \<Rightarrow> nat list \<Rightarrow> nat \<Rightarrow> (nat \<times> nat \<times> nat) list \<Rightarrow> nat list" where
  "sections_within part_chars numbers chars [] = numbers"
| "sections_within part_chars numbers chars ((n, a, b) # rest) =
     (if numbers \<noteq> [] \<and> part_chars < chars + (b - a) then numbers
      else sections_within part_chars (numbers @ [n]) (chars + (b - a)) rest)"

definition part_expand :: "string \<Rightarrow> tool_part \<Rightarrow> int \<Rightarrow> nat \<Rightarrow> string" where
  "part_expand node p start part_chars =
     (let spans = section_spans (tp_text p); k = (if start < 1 then 1 else nat start) in
      if spans = [] then node @ '' is empty.''
      else if length spans < k then node @ '' has '' @ nat_text (length spans) @ '' section(s).''
      else let numbers = sections_within part_chars [] 0 (drop (k - 1) (enumerate 1 spans));
               range = section_sign @ nat_text (hd numbers) @ ''-'' @ section_sign @ nat_text (last numbers) @ '' of '' @ nat_text (length spans);
               rest = (if last numbers < length spans then newline @ ''[sections '' @ range @ ''; ask for part '' @ nat_text (last numbers + 1) @ '' for more]'' else [])
           in node @ '' ('' @ tp_name p @ ''), sections '' @ range @ '':'' @ newline @ section_text (tp_text p) spans numbers @ rest)"

end
