(* ===== verification/Memory_Forms.thy ===== *)
theory Memory_Forms
  imports Memory_Text
begin

text \<open>
  What holds of the texts: the sections of a tool result tile it, the form in which a long result
  arrives stays within its cap and says what it leaves out, and text from outside never shows one of
  the marks the prompt uses for exchanges, groups, sections and blocks.
\<close>

section \<open>Sections\<close>

lemma rfind_Some:
  assumes "rfind p t = Some i"
  shows "i < length t" "starts p (drop i t)"
  using find_SomeD [OF assms [unfolded rfind_def]] by auto

lemma starts_length: "starts p t \<Longrightarrow> length p \<le> length t"
  by (metis length_take min.cobounded2 starts_def min_def nle_le)

lemma section_cut_bound:
  assumes "section_cut w = Some i"
  shows "i < length w"
proof -
  consider "rfind newline w = Some i" | j where "sentence_end w = Some j" "i = j + 1" | "rfind '' '' w = Some i"
    using assms by (auto simp: section_cut_def split: option.splits)
  then show ?thesis
  proof cases
    case 2
    then have "j \<in> set (List.map_filter (\<lambda>p. rfind p w) [''. '', ''? '', ''! ''])" using max_list_Some unfolding sentence_end_def by blast
    then obtain p where "rfind p w = Some j" "length p = 2" by (auto simp: List.map_filter_def split: if_splits)
    then have "2 \<le> length (drop j w)" using rfind_Some [of p w j] starts_length [of p "drop j w"] by simp
    with 2 show ?thesis by simp
  qed (use rfind_Some in blast)+
qed

lemma section_end_bounds:
  assumes "SECTION_TARGET_CHARS < length t - position"
  shows "position + SECTION_MIN_CHARS < section_end t position" "section_end t position \<le> position + SECTION_TARGET_CHARS"
  using section_cut_bound [of "take (SECTION_TARGET_CHARS - SECTION_MIN_CHARS) (drop (position + SECTION_MIN_CHARS) t)"]
  by (auto simp: section_end_def SECTION_MIN_CHARS_def SECTION_TARGET_CHARS_def split: option.split)

lemma spans_from_tile:
  "concat (map (\<lambda>(a, b). drop a (take b t)) (spans_from t position)) = drop position t
   \<and> (\<forall>(a, b)\<in>set (spans_from t position). position \<le> a \<and> a < b \<and> b \<le> length t \<and> b - a \<le> SECTION_TARGET_CHARS
        \<and> (b < length t \<longrightarrow> SECTION_MIN_CHARS < b - a))"
proof (induction t position rule: spans_from.induct)
  case (1 t position)
  show ?case
  proof (cases "length t \<le> position \<or> length t - position \<le> SECTION_TARGET_CHARS")
    case True
    then show ?thesis by (subst (1 2) spans_from.simps) auto
  next
    case False
    let ?e = "section_end t position"
    have e: "position + SECTION_MIN_CHARS < ?e" "?e \<le> position + SECTION_TARGET_CHARS" using False section_end_bounds by auto
    have s: "spans_from t position = (position, ?e) # spans_from t ?e" using False by (subst spans_from.simps) simp
    have "drop position (take ?e t) @ drop ?e t = drop position t"
    proof -
      have "drop position t = drop position (take ?e t @ drop ?e t)" by simp
      also have "\<dots> = drop position (take ?e t) @ drop ?e t" using e False by (simp only: drop_append) (simp add: SECTION_TARGET_CHARS_def)
      finally show ?thesis by simp
    qed
    then show ?thesis using 1 False e unfolding s by fastforce
  qed
qed

text \<open>
  The sections of a tool result tile it: one after the other they are the whole text, none is
  empty, none is longer than 2000 characters, and only the last one can have 1500 or fewer. So
  expanding a result section by section shows all of it.\<close>

theorem sections_tile:
  "concat (map (\<lambda>(a, b). drop a (take b t)) (section_spans t)) = t
   \<and> (\<forall>(a, b)\<in>set (section_spans t). a < b \<and> b \<le> length t \<and> b - a \<le> 2000 \<and> (b < length t \<longrightarrow> 1500 < b - a))"
  using spans_from_tile [of t 0] unfolding section_spans_def
  by (auto simp: SECTION_MIN_CHARS_def SECTION_TARGET_CHARS_def)

section \<open>The form of a long result\<close>

lemma fitting_prefix:
  "\<exists>k\<le>length xs. fitting most used xs = map fst (take k xs) \<and> (used \<le> most \<longrightarrow> used + sum_list (map snd (take k xs)) \<le> most)"
proof (induction xs arbitrary: used)
  case (Cons x xs)
  obtain n c where x: "x = (n, c)" by force
  show ?case
  proof (cases "most < used + c")
    case True
    then show ?thesis by (auto simp: x intro: exI [of _ 0])
  next
    case False
    obtain k where k: "k \<le> length xs" "fitting most (used + c) xs = map fst (take k xs)"
      "used + c + sum_list (map snd (take k xs)) \<le> most" using Cons [of "used + c"] False by auto
    then show ?thesis using False by (auto simp: x intro!: exI [of _ "Suc k"])
  qed
qed simp

lemma fitting_front:
  assumes "length sizes = n"
  shows "\<exists>k\<le>n. fitting most 0 (zip [1..<n + 1] sizes) = [1..<k + 1] \<and> sum_list (take k sizes) \<le> most"
proof -
  obtain k where "k \<le> n" "fitting most 0 (zip [1..<n + 1] sizes) = map fst (take k (zip [1..<n + 1] sizes))"
    "sum_list (map snd (take k (zip [1..<n + 1] sizes))) \<le> most"
    using fitting_prefix [of "zip [1..<n + 1] sizes" most 0] assms by (auto simp del: upt_Suc)
  then show ?thesis using assms by (intro exI [of _ k]) (simp add: take_zip del: upt_Suc)
qed

lemma fitting_back:
  assumes "length sizes = n" "k \<le> n"
  shows "\<exists>j\<le>n - k. rev (fitting most 0 (rev (drop k (zip [1..<n + 1] sizes)))) = [n - j + 1..<n + 1] \<and> sum_list (drop (n - j) sizes) \<le> most"
proof -
  let ?xs = "drop k (zip [1..<n + 1] sizes)"
  obtain j where j: "j \<le> n - k" "fitting most 0 (rev ?xs) = map fst (take j (rev ?xs))" "sum_list (map snd (take j (rev ?xs))) \<le> most"
    using fitting_prefix [of "rev ?xs" most 0] assms by (auto simp del: upt_Suc)
  have t: "rev (take j (rev ?xs)) = zip [n - j + 1..<n + 1] (drop (n - j) sizes)"
    using j(1) assms by (simp add: take_rev drop_zip del: upt_Suc)
  have "rev (map fst (take j (rev ?xs))) = map fst (rev (take j (rev ?xs)))" by (simp only: rev_map)
  also have "\<dots> = [n - j + 1..<n + 1]" unfolding t using assms j(1) by (simp del: upt_Suc)
  finally have f: "rev (fitting most 0 (rev ?xs)) = [n - j + 1..<n + 1]" using j(2) by simp
  have "sum_list (map snd (take j (rev ?xs))) = sum_list (map snd (rev (take j (rev ?xs))))" by (simp only: rev_map [symmetric] sum_list_rev)
  also have "\<dots> = sum_list (drop (n - j) sizes)" unfolding t using assms j(1) by (simp del: upt_Suc)
  finally show ?thesis using f j by auto
qed

definition part_sizes :: "codec \<Rightarrow> string \<Rightarrow> nat list" where
  "part_sizes cd t = map (\<lambda>n. memory_count cd (section_text t (section_spans t) [n])) [1..<length (section_spans t) + 1]"

lemma arrival_long:
  assumes long: "small < memory_count cd (tp_text p)" "cap < sum_list (part_sizes cd (tp_text p))"
  defines "n \<equiv> length (section_spans (tp_text p))"
  obtains k j where "k + j < n" "fst (snd (arrival_form cd node p small cap)) = [1..<k + 1] @ [n - j + 1..<n + 1]"
    "sum_list (take k (part_sizes cd (tp_text p))) \<le> cap * 3 div 4" "sum_list (drop (n - j) (part_sizes cd (tp_text p))) \<le> cap div 4"
proof -
  let ?sizes = "part_sizes cd (tp_text p)" and ?every = "[1..<n + 1]"
  have len: "length ?sizes = n" by (simp add: part_sizes_def n_def del: upt_Suc)
  obtain k where k: "k \<le> n" "fitting (cap * 3 div 4) 0 (zip ?every ?sizes) = [1..<k + 1]" "sum_list (take k ?sizes) \<le> cap * 3 div 4"
    using fitting_front [OF len] by blast
  obtain j where j: "j \<le> n - k" "rev (fitting (cap div 4) 0 (rev (drop k (zip ?every ?sizes)))) = [n - j + 1..<n + 1]"
    "sum_list (drop (n - j) ?sizes) \<le> cap div 4" using fitting_back [OF len k(1)] by blast
  have "k + j \<noteq> n"
  proof
    assume "k + j = n"
    then have "sum_list ?sizes = sum_list (take k ?sizes) + sum_list (drop (n - j) ?sizes)"
      by (metis append_take_drop_id diff_add_inverse2 sum_list_append)
    with k(3) j(3) have "sum_list ?sizes \<le> cap * 3 div 4 + cap div 4" by linarith
    with long(2) show False by linarith
  qed
  moreover have "fst (snd (arrival_form cd node p small cap)) = [1..<k + 1] @ [n - j + 1..<n + 1]"
    using long k(2) j(2) by (simp add: arrival_form_def Let_def part_sizes_def n_def del: upt_Suc)
  ultimately show thesis using k j by (intro that [of k j]) auto
qed


section \<open>Marks\<close>

fun anywhere :: "(string \<Rightarrow> bool) \<Rightarrow> string \<Rightarrow> bool" where
  "anywhere P [] \<longleftrightarrow> P []"
| "anywhere P (c # cs) \<longleftrightarrow> P (c # cs) \<or> anywhere P cs"

definition label_mark :: "string \<Rightarrow> bool" where
  "label_mark t \<longleftrightarrow> (case t of [] \<Rightarrow> False | c # cs \<Rightarrow> c = CHR ''['' \<and> forged cs)"

definition tag_mark :: "string \<Rightarrow> bool" where
  "tag_mark t \<longleftrightarrow> (\<exists>tag\<in>set MEMORY_TAGS. starts (''<'' @ tag) t \<or> starts (''</'' @ tag) t)"

lemma starts_simps [simp]:
  "starts [] t" "starts (c # p) [] \<longleftrightarrow> False" "starts (c # p) (d # t) \<longleftrightarrow> c = d \<and> starts p t"
  by (auto simp: starts_def)

lemma anywhere_append: "(\<And>a b. r = a @ b \<Longrightarrow> b \<noteq> [] \<Longrightarrow> \<not> P (b @ t)) \<Longrightarrow> anywhere P (r @ t) = anywhere P t"
proof (induction r)
  case (Cons c r)
  have "\<not> P (c # r @ t)" using Cons.prems [of "[]" "c # r"] by simp
  moreover have "anywhere P (r @ t) = anywhere P t" using Cons.prems by (intro Cons.IH) (metis append_Cons)
  ultimately show ?case by simp
qed simp

lemma anywhere_drop: "anywhere P (drop k t) \<Longrightarrow> anywhere P t"
proof (induction t arbitrary: k)
  case (Cons c t)
  then show ?case by (cases k) auto
qed simp

lemma forged_unforge: "forged (unforge t) = forged t"
proof -
  have h: "unforge cs = [] \<longleftrightarrow> cs = []" "cs \<noteq> [] \<Longrightarrow> hd (unforge cs) = hd cs" for cs by (cases cs; simp)+
  show ?thesis
  proof (cases t)
    case (Cons c cs)
    show ?thesis
    proof (cases "c = CHR ''['' ")
      case True
      then show ?thesis using Cons h by (cases "unforge cs"; cases cs) (auto simp: forged_def)
    next
      case False
      then show ?thesis using Cons h [of cs] by (cases "unforge cs"; cases cs) (auto simp: forged_def)
    qed
  qed simp
qed

lemma label_mark_Cons: "label_mark (c # cs) \<longleftrightarrow> c = CHR ''['' \<and> forged cs"
  by (simp add: label_mark_def)

lemma not_forged_space: "\<not> forged (CHR '' '' # cs)"
  by (cases cs) (simp_all add: forged_def)

lemma unforge_safe: "\<not> anywhere label_mark (unforge t)"
proof (induction t)
  case (Cons c cs)
  then show ?case by (cases "c = CHR ''['' \<and> forged cs") (simp_all add: label_mark_Cons not_forged_space forged_unforge)
qed (simp add: label_mark_def)

text \<open>
  A rewriting of the kind \<open>neutral\<close> makes: the pattern and what replaces it begin with an angle
  bracket and have no other one, and neither holds a square bracket.
\<close>

definition bracketed :: "string \<times> string \<Rightarrow> bool" where
  "bracketed = (\<lambda>(p, r). \<exists>v w. p = CHR ''<'' # v \<and> r = CHR ''<'' # w \<and> CHR ''<'' \<notin> set v \<and> CHR ''<'' \<notin> set w
     \<and> CHR ''['' \<notin> set v \<and> CHR ''['' \<notin> set w)"

lemma replace_text_cases:
  "p \<noteq> [] \<and> starts p (c # cs) \<Longrightarrow> replace_text p r (c # cs) = r @ replace_text p r (drop (length p) (c # cs))"
  "\<not> (p \<noteq> [] \<and> starts p (c # cs)) \<Longrightarrow> replace_text p r (c # cs) = c # replace_text p r cs"
  by (simp, cases p) auto

lemma starts_replace:
  assumes "bracketed (p, r)" "CHR ''<'' \<notin> set v"
  shows "starts v (replace_text p r t) \<longleftrightarrow> starts v t"
  using assms(2)
proof (induction v arbitrary: t)
  case (Cons c v)
  obtain w u where pr: "p = CHR ''<'' # w" "r = CHR ''<'' # u" using assms(1) by (auto simp: bracketed_def)
  have c: "c \<noteq> CHR ''<''" using Cons.prems by auto
  show ?case
  proof (cases t)
    case (Cons d ds)
    show ?thesis
    proof (cases "starts p t")
      case True
      then have "d = CHR ''<''" using Cons pr by simp
      moreover have "replace_text p r t = r @ replace_text p r (drop (length p) t)" using True Cons pr(1) by simp
      ultimately show ?thesis using c Cons pr(2) by simp
    next
      case False
      then have "replace_text p r t = d # replace_text p r ds" using Cons by simp
      then show ?thesis using Cons.IH [of ds] Cons.prems Cons by simp
    qed
  qed simp
qed simp

lemma tag_after_replacement:
  assumes "bracketed (p, r)" "\<And>u. \<not> starts (CHR ''<'' # v) (r @ u)"
  shows "anywhere (starts (CHR ''<'' # v)) (r @ t) = anywhere (starts (CHR ''<'' # v)) t"
proof (rule anywhere_append)
  obtain w where w: "r = CHR ''<'' # w" "CHR ''<'' \<notin> set w" using assms(1) by (auto simp: bracketed_def)
  fix a b assume ab: "r = a @ b" "b \<noteq> []"
  show "\<not> starts (CHR ''<'' # v) (b @ t)"
  proof (cases a)
    case Nil
    then show ?thesis using ab assms(2) by simp
  next
    case (Cons x xs)
    then have "CHR ''<'' \<notin> set b" using ab w by auto
    then show ?thesis using ab(2) by (cases b) auto
  qed
qed

lemma replace_keeps_tag:
  assumes "bracketed (p, r)" "CHR ''<'' \<notin> set v" "\<And>u. \<not> starts (CHR ''<'' # v) (r @ u)"
    and "p = CHR ''<'' # v \<or> \<not> anywhere (starts (CHR ''<'' # v)) t"
  shows "\<not> anywhere (starts (CHR ''<'' # v)) (replace_text p r t)"
  using assms
proof (induction p r t rule: replace_text.induct)
  case (2 p r c cs)
  show ?case
  proof (cases "p \<noteq> [] \<and> starts p (c # cs)")
    case True
    then have "\<not> anywhere (starts (CHR ''<'' # v)) (replace_text p r (drop (length p) (c # cs)))"
      using 2 anywhere_drop by blast
    with True show ?thesis using tag_after_replacement [OF "2.prems"(1,3)] by simp
  next
    case False
    note e = replace_text_cases(2) [OF False, of r]
    have "\<not> starts (CHR ''<'' # v) (c # cs)" using False "2.prems"(4) by auto
    moreover have "\<not> anywhere (starts (CHR ''<'' # v)) (replace_text p r cs)" using 2 False by auto
    ultimately show ?thesis unfolding e using starts_replace [OF "2.prems"(1,2), of cs] by simp
  qed
qed simp

lemma forged_replace:
  assumes "bracketed (p, r)"
  shows "forged (replace_text p r t) = forged t"
proof -
  have m: "forged t \<longleftrightarrow> starts [CHR 0xA7] t \<or> (\<exists>d. digit d \<and> (starts [CHR ''e'', d] t \<or> starts [CHR ''g'', d] t))" for t
    by (cases t; cases "tl t") (auto simp: forged_def)
  have d: "digit d \<Longrightarrow> d \<noteq> CHR ''<''" for d by (auto simp: digit_def code_of_def)
  have s: "starts [CHR 0xA7] (replace_text p r t) = starts [CHR 0xA7] t" by (intro starts_replace [OF assms]) simp
  have e: "starts [x, d] (replace_text p r t) = starts [x, d] t" if "digit d" "x \<noteq> CHR ''<''" for x d
    using that d [of d] by (intro starts_replace [OF assms]) auto
  show ?thesis unfolding m s using e [of _ "CHR ''e''"] e [of _ "CHR ''g''"] by auto
qed

lemma replace_keeps_label:
  assumes "bracketed (p, r)" "\<not> anywhere label_mark t"
  shows "\<not> anywhere label_mark (replace_text p r t)"
  using assms
proof (induction p r t rule: replace_text.induct)
  case (2 p r c cs)
  show ?case
  proof (cases "p \<noteq> [] \<and> starts p (c # cs)")
    case True
    have "anywhere label_mark (r @ u) = anywhere label_mark u" for u
    proof (rule anywhere_append)
      fix a b assume ab: "r = a @ b" "b \<noteq> []"
      have "CHR ''['' \<notin> set r" using "2.prems"(1) by (auto simp: bracketed_def)
      then have "CHR ''['' \<notin> set b" using ab by simp
      then show "\<not> label_mark (b @ u)" using ab(2) by (cases b) (auto simp: label_mark_Cons)
    qed
    moreover have "\<not> anywhere label_mark (replace_text p r (drop (length p) (c # cs)))"
      using "2.IH"(1) [OF True "2.prems"(1)] "2.prems"(2) anywhere_drop by blast
    ultimately show ?thesis unfolding replace_text_cases(1) [OF True] by simp
  next
    case False
    note e = replace_text_cases(2) [OF False, of r]
    show ?thesis unfolding e using 2 False forged_replace [OF "2.prems"(1), of cs] by (auto simp: label_mark_Cons)
  qed
qed (simp add: label_mark_def)

definition NEUTRAL :: "(string \<times> string) list" where
  "NEUTRAL = [(''<ledger'', ''< ledger''), (''</ledger'', ''</ ledger''), (''<reference'', ''< reference''),
     (''</reference'', ''</ reference''), (''<history'', ''< history''), (''</history'', ''</ history'')]"

lemma neutral_rewrites: "neutral t = foldl (\<lambda>u (p, r). replace_text p r u) t NEUTRAL"
  by (simp add: neutral_def NEUTRAL_def MEMORY_TAGS_def)

lemma NEUTRAL_bracketed: "\<forall>x\<in>set NEUTRAL. bracketed x"
  by (simp add: NEUTRAL_def bracketed_def)

lemma NEUTRAL_apart: "\<forall>(p, r)\<in>set NEUTRAL. \<forall>(q, s)\<in>set NEUTRAL. \<not> starts q (r @ u)"
  by (simp add: NEUTRAL_def)

lemma rewrites_safe:
  assumes "set rs \<subseteq> set NEUTRAL" "q \<in> fst ` set NEUTRAL" "q \<in> fst ` set rs \<or> \<not> anywhere (starts q) t"
  shows "\<not> anywhere (starts q) (foldl (\<lambda>u (p, r). replace_text p r u) t rs)"
  using assms
proof (induction rs arbitrary: t)
  case (Cons x rs)
  obtain p r where x: "x = (p, r)" by force
  have b: "bracketed (p, r)" using Cons.prems(1) NEUTRAL_bracketed x by auto
  obtain s where "(q, s) \<in> set NEUTRAL" using Cons.prems(2) by auto
  then have n: "\<not> starts q (r @ u)" for u using bspec [OF bspec [OF NEUTRAL_apart [of u], of "(p, r)", simplified], of "(q, s)"] Cons.prems(1) x by simp
  have "bracketed (q, s)" using NEUTRAL_bracketed \<open>(q, s) \<in> set NEUTRAL\<close> by blast
  then obtain v where v: "q = CHR ''<'' # v" "CHR ''<'' \<notin> set v" by (auto simp: bracketed_def)
  show ?case
  proof (cases "p = q \<or> \<not> anywhere (starts q) t")
    case True
    then have "\<not> anywhere (starts q) (replace_text p r t)" using replace_keeps_tag [OF b v(2)] n unfolding v(1) by blast
    then show ?thesis using Cons x by simp
  next
    case False
    then show ?thesis using Cons x by auto
  qed
qed simp

lemma rewrites_keep_labels:
  "\<forall>x\<in>set rs. bracketed x \<Longrightarrow> \<not> anywhere label_mark t \<Longrightarrow> \<not> anywhere label_mark (foldl (\<lambda>u (p, r). replace_text p r u) t rs)"
proof (induction rs arbitrary: t)
  case (Cons x rs)
  then show ?case using replace_keeps_label [of "fst x" "snd x" t] by (cases x) simp
qed simp

lemma neutral_safe: "\<not> anywhere tag_mark (neutral t)"
proof -
  have "anywhere tag_mark u \<Longrightarrow> \<exists>q\<in>fst ` set NEUTRAL. anywhere (starts q) u" for u
    by (induction u) (auto simp: tag_mark_def MEMORY_TAGS_def NEUTRAL_def)
  then show ?thesis using rewrites_safe [OF order_refl] unfolding neutral_rewrites by blast
qed

definition unspaced :: "string \<Rightarrow> string" where "unspaced t = filter (\<lambda>c. c \<noteq> CHR '' '') t"

lemma unspaced_append [simp]: "unspaced (a @ b) = unspaced a @ unspaced b"
  by (simp add: unspaced_def)

lemma replace_spaces: "unspaced p = unspaced r \<Longrightarrow> unspaced (replace_text p r t) = unspaced t"
proof (induction p r t rule: replace_text.induct)
  case (2 p r c cs)
  show ?case
  proof (cases "p \<noteq> [] \<and> starts p (c # cs)")
    case True
    have "c # cs = p @ drop (length p) (c # cs)" using True by (metis append_take_drop_id starts_def)
    then have "unspaced (c # cs) = unspaced p @ unspaced (drop (length p) (c # cs))" by (metis unspaced_append)
    also have "\<dots> = unspaced (replace_text p r (c # cs))"
      unfolding replace_text_cases(1) [OF True] unspaced_append using "2.IH"(1) [OF True "2.prems"] "2.prems" by simp
    finally show ?thesis ..
  next
    case False
    show ?thesis unfolding replace_text_cases(2) [OF False]
      using "2.IH"(2) [OF False "2.prems"] by (simp add: unspaced_def)
  qed
qed simp

lemma escape_spaces: "unspaced (escape_tool t) = unspaced t"
proof -
  have f: "unspaced (foldl (\<lambda>u (p, r). replace_text p r u) t rs) = unspaced t" if "\<forall>x\<in>set rs. unspaced (fst x) = unspaced (snd x)" for rs t
    using that
  proof (induction rs arbitrary: t)
    case (Cons x rs)
    then show ?case using replace_spaces [of "fst x" "snd x" t] by (cases x) simp
  qed simp
  have "unspaced (unforge t) = unspaced t" by (induction t) (auto simp: unspaced_def)
  moreover have "\<forall>x\<in>set NEUTRAL. unspaced (fst x) = unspaced (snd x)" by (simp add: NEUTRAL_def unspaced_def)
  ultimately show ?thesis unfolding escape_tool_def neutral_rewrites using f by simp
qed

text \<open>
  C25. A tool result cannot pass for the memory's own marks: in the text of a result as it is shown,
  no bracket opens a label of an exchange, a group or a section, and no ledger, reference or history
  tag begins or ends. The text itself is kept: only spaces are put in.\<close>

theorem tool_text_cannot_forge:
  "\<not> anywhere label_mark (escape_tool t) \<and> \<not> anywhere tag_mark (escape_tool t)
   \<and> unspaced (escape_tool t) = unspaced t"
  using neutral_safe [of "unforge t"] rewrites_keep_labels [OF NEUTRAL_bracketed unforge_safe] escape_spaces
  by (simp add: escape_tool_def neutral_rewrites)

end
