(* ===== verification/Memory_Ledger.thy ===== *)
theory Memory_Ledger
  imports Memory_Text
begin

text \<open>
  The ledger and the prompt of \<open>tools/serving/chat_memory.py\<close>: which exchanges are committed, how runs
  of ledger lines fold into groups, the layout of the prompt, the search over earlier exchanges, and
  what is read from the curator's reply. An exchange is a non-empty list of messages, as
  \<open>split_messages\<close> gives it; a line is looked up only for an exchange that has one.
\<close>

section \<open>Committed exchanges and groups\<close>

datatype ledger_node = Node (nd_ref: string) (nd_id: string) (nd_first: nat) (nd_last: nat) (nd_numbers: "nat list")
  (nd_keys: "string list") (nd_line: string) (nd_children: "ledger_node list")

record group =
  gr_members :: "string list"
  gr_line :: string
  gr_source :: string

type_synonym lines = "(string, string) dict"

fun span_runs :: "(nat \<times> nat) list \<Rightarrow> nat list \<Rightarrow> (nat \<times> nat) list" where
  "span_runs runs [] = runs"
| "span_runs runs (n # ns) =
     (if runs \<noteq> [] \<and> n = snd (last runs) + 1 then span_runs (butlast runs @ [(fst (last runs), n)]) ns
      else span_runs (runs @ [(n, n)]) ns)"

definition span_label :: "nat list \<Rightarrow> string" where
  "span_label numbers = join_texts '','' (map (\<lambda>(a, b). if a = b then node_id a else node_id a @ ''-'' @ node_id b) (span_runs [] (sort (remdups numbers))))"

definition commit_next :: "codec \<Rightarrow> exchange list \<Rightarrow> nat list \<Rightarrow> string \<Rightarrow> nat list" where
  "commit_next cd exchanges order key =
     (case find (\<lambda>i. exchange_key cd (exchanges ! i) = key \<and> i \<notin> set order) [0..<length exchanges] of
        None \<Rightarrow> order | Some i \<Rightarrow> order @ [i])"

definition committed_order :: "codec \<Rightarrow> exchange list \<Rightarrow> string list \<Rightarrow> nat list" where
  "committed_order cd exchanges commits = foldl (commit_next cd exchanges) [] commits"

definition exchange_ref :: "string \<Rightarrow> string" where "exchange_ref key = ''x:'' @ key"

definition exchange_node :: "codec \<Rightarrow> exchange list \<Rightarrow> lines \<Rightarrow> nat \<Rightarrow> ledger_node" where
  "exchange_node cd exchanges ls i = (let key = exchange_key cd (exchanges ! i) in
     Node (exchange_ref key) (node_id (i + 1)) (i + 1) (i + 1) [i + 1] [key] (case dget ls key of Some l \<Rightarrow> l | None \<Rightarrow> []) [])"

definition group_number :: "string \<Rightarrow> nat" where
  "group_number gid = (case GROUP_ID gid of Some n \<Rightarrow> n | None \<Rightarrow> 0)"

definition group_node :: "string \<Rightarrow> string \<Rightarrow> ledger_node list \<Rightarrow> ledger_node" where
  "group_node gid line run = (let numbers = sort (concat (map nd_numbers run)) in
     Node gid gid (hd numbers) (last numbers) numbers (concat (map nd_keys run)) line run)"

definition run_start :: "ledger_node list \<Rightarrow> string list \<Rightarrow> nat option" where
  "run_start nodes members = find (\<lambda>s. 1 < length members \<and> take (length members) (drop s (map nd_ref nodes)) = members)
     [0..<Suc (length nodes) - length members]"

definition fold_group :: "string \<Rightarrow> group \<Rightarrow> ledger_node list \<Rightarrow> ledger_node list" where
  "fold_group gid g nodes = (let n = length (gr_members g) in
     case run_start nodes (gr_members g) of None \<Rightarrow> nodes
     | Some s \<Rightarrow> take s nodes @ [group_node gid (gr_line g) (take n (drop s nodes))] @ drop (s + n) nodes)"

definition fold_groups :: "(string, group) dict \<Rightarrow> string list option \<Rightarrow> ledger_node list \<Rightarrow> ledger_node list" where
  "fold_groups gs allowed nodes =
     foldl (\<lambda>ns (gid, g). if (case allowed of Some ids \<Rightarrow> gid \<in> set ids | None \<Rightarrow> True) then fold_group gid g ns else ns) nodes
       (sort_key (\<lambda>(gid, g). group_number gid) gs)"

definition ledger_nodes :: "codec \<Rightarrow> exchange list \<Rightarrow> lines \<Rightarrow> (string, group) dict \<Rightarrow> nat list \<Rightarrow> string list option \<Rightarrow> ledger_node list" where
  "ledger_nodes cd exchanges ls gs order allowed = fold_groups gs allowed (map (exchange_node cd exchanges ls) order)"

definition node_label :: "ledger_node \<Rightarrow> string" where
  "node_label nd = (if nd_children nd = [] then ''['' @ nd_id nd @ '']''
     else let label = span_label (nd_numbers nd) in
       ''['' @ nd_id nd @ '': '' @ (if length label \<le> 60 then label else nat_text (length (nd_numbers nd)) @ '' entries from '' @ node_id (nd_first nd)) @ '']'')"

definition node_text :: "ledger_node \<Rightarrow> string" where
  "node_text nd = node_label nd @ '' '' @ nd_line nd @ newline"

definition ledger_text :: "ledger_node list \<Rightarrow> string" where
  "ledger_text nodes = concat (map node_text nodes)"

fun node_groups :: "ledger_node \<Rightarrow> (string \<times> ledger_node) list" where
  "node_groups (Node r i f l ns ks li cs) = (if cs = [] then [] else (i, Node r i f l ns ks li cs) # concat (map node_groups cs))"

definition group_nodes :: "ledger_node list \<Rightarrow> (string, ledger_node) dict" where
  "group_nodes nodes = foldl (\<lambda>d (k, nd). dset k nd d) [] (concat (map node_groups nodes))"

definition next_group :: "(string, group) dict \<Rightarrow> nat" where
  "next_group gs = (case max_list (map group_number (dkeys gs)) of None \<Rightarrow> 0 | Some n \<Rightarrow> n) + 1"

section \<open>The layout of the prompt\<close>

definition LEDGER_OPEN :: string where "LEDGER_OPEN = ''<ledger>'' @ newline"
definition LEDGER_CLOSE :: string where "LEDGER_CLOSE = ''</ledger>'' @ newline @ newline"
definition REFERENCE_OPEN :: string where
  "REFERENCE_OPEN = newline @ newline @ ''<reference>'' @ newline @ ''Earlier exchanges shown in full for reference only; they are not new requests.'' @ newline"
definition REFERENCE_CLOSE :: string where "REFERENCE_CLOSE = ''</reference>''"
definition MEMORY_TOOL_NAMES :: "string list" where "MEMORY_TOOL_NAMES = [''expand'', ''search_history'']"

definition text_part :: "string \<Rightarrow> content_part" where
  "text_part t = \<lparr>pt_kind = Some ''text'', pt_text = t, pt_rest = []\<rparr>"

definition said :: "string \<Rightarrow> string \<Rightarrow> message" where
  "said role t = \<lparr>m_role = role, m_content = Text_content t, m_calls = [], m_call_id = None, m_name = None, m_label = None, m_reasoning = None\<rparr>"

definition prefix_text :: "string \<Rightarrow> message \<Rightarrow> message" where
  "prefix_text t m = m\<lparr>m_content := (case m_content m of Part_content ps \<Rightarrow> Part_content (text_part t # ps)
     | Text_content u \<Rightarrow> Text_content (t @ u) | No_content \<Rightarrow> Text_content t)\<rparr>"

definition suffix_text :: "string \<Rightarrow> message \<Rightarrow> message" where
  "suffix_text t m = m\<lparr>m_content := (case m_content m of Part_content ps \<Rightarrow> Part_content (ps @ [text_part t])
     | Text_content u \<Rightarrow> Text_content (u @ t) | No_content \<Rightarrow> Text_content t)\<rparr>"

definition on_first :: "('a \<Rightarrow> 'a) \<Rightarrow> 'a list \<Rightarrow> 'a list" where
  "on_first f xs = (case xs of [] \<Rightarrow> [] | x # rest \<Rightarrow> f x # rest)"

type_synonym renderer = "nat \<Rightarrow> exchange \<Rightarrow> bool \<Rightarrow> exchange"

definition part_form :: "codec \<Rightarrow> (string, nat list) dict \<Rightarrow> nat \<Rightarrow> nat \<Rightarrow> nat \<Rightarrow> bool \<Rightarrow> nat \<times> tool_part \<Rightarrow> string" where
  "part_form cd forms small cap number past = (\<lambda>(i, p).
     let node = node_id number @ ''.t'' @ nat_text i; q = (if past then p\<lparr>tp_label := []\<rparr> else p) in
     case dget forms (tp_key q) of
       Some keep \<Rightarrow> if past then stub_form cd node q (memory_count cd (tp_text q)) keep else fst (arrival_form cd node q small cap)
     | None \<Rightarrow> fst (arrival_form cd node q small cap))"

definition own_parts :: "codec \<Rightarrow> exchange \<Rightarrow> tool_part list" where
  "own_parts cd messages = filter (\<lambda>p. tp_name p \<notin> set MEMORY_TOOL_NAMES) (tool_parts cd messages)"

definition part_renderer :: "codec \<Rightarrow> (string, nat list) dict \<Rightarrow> nat \<Rightarrow> nat \<Rightarrow> renderer" where
  "part_renderer cd forms small cap number messages past =
     foldl (\<lambda>r (i, p). r[tp_index p := (r ! tp_index p)\<lparr>m_content := Text_content (part_form cd forms small cap number past (i, p))\<rparr>])
       messages (enumerate 1 (own_parts cd messages))"

record prompt_layout =
  ly_messages :: "message list"
  ly_lined :: nat
  ly_open :: "string list"
  ly_keys :: "string list"
  ly_working :: "nat list"
  ly_groups :: "string list"
  ly_nodes :: "ledger_node list"

definition system_messages :: "codec \<Rightarrow> message list \<Rightarrow> message list" where
  "system_messages cd leading = (case leading of
     [] \<Rightarrow> [said system_role (system_note cd)]
   | m # ms \<Rightarrow> m\<lparr>m_content := Text_content (message_text m @ newline @ newline @ system_note cd)\<rparr> # ms)"

definition exchange_mark :: "nat \<Rightarrow> string" where "exchange_mark n = ''['' @ node_id n @ ''] ''"

definition ledger_order :: "codec \<Rightarrow> exchange list \<Rightarrow> lines \<Rightarrow> string list \<Rightarrow> nat list" where
  "ledger_order cd exchanges ls commits =
     filter (\<lambda>i. dget ls (exchange_key cd (exchanges ! i)) \<noteq> None) (committed_order cd exchanges commits)"

definition shown_nodes :: "nat list \<Rightarrow> string list \<Rightarrow> string list" where
  "shown_nodes order open_ids = filter (\<lambda>nd. case NODE_ID nd of Some n \<Rightarrow> n - 1 \<in> set order | None \<Rightarrow> False) open_ids"

definition reference_block :: "codec \<Rightarrow> exchange list \<Rightarrow> nat \<Rightarrow> string list \<Rightarrow> string" where
  "reference_block cd exchanges open_chars shown = REFERENCE_OPEN
     @ concat (map (\<lambda>nd. history_block cd nd (exchanges ! ((case NODE_ID nd of Some n \<Rightarrow> n | None \<Rightarrow> 1) - 1)) open_chars) shown) @ REFERENCE_CLOSE"

definition build_layout :: "codec \<Rightarrow> message list \<Rightarrow> exchange list \<Rightarrow> exchange \<Rightarrow> lines \<Rightarrow> string list \<Rightarrow> string list \<Rightarrow> nat
    \<Rightarrow> (string, group) dict \<Rightarrow> string list option \<Rightarrow> renderer \<Rightarrow> prompt_layout" where
  "build_layout cd leading exchanges current ls open_ids commits open_chars gs allowed render =
     (let order = ledger_order cd exchanges ls commits;
          nodes = ledger_nodes cd exchanges ls gs order allowed;
          working = filter (\<lambda>i. i \<notin> set order) [0..<length exchanges];
          body = map (\<lambda>i. on_first (prefix_text (exchange_mark (i + 1))) (render (i + 1) (exchanges ! i) True)) working;
          shown = shown_nodes order open_ids;
          asked = on_first (prefix_text (exchange_mark (length exchanges + 1))) (render (length exchanges + 1) current False);
          question = (if shown = [] then asked else on_first (suffix_text (reference_block cd exchanges open_chars shown)) asked);
          with_ledger = on_first (prefix_text (LEDGER_OPEN @ ledger_text nodes @ LEDGER_CLOSE));
          body' = (if nodes \<noteq> [] \<and> body \<noteq> [] then on_first with_ledger body else body);
          question' = (if nodes \<noteq> [] \<and> body = [] then with_ledger question else question)
      in \<lparr>ly_messages = system_messages cd leading @ concat body' @ question', ly_lined = length order, ly_open = shown,
          ly_keys = map (\<lambda>i. exchange_key cd (exchanges ! i)) order, ly_working = working,
          ly_groups = sort_key group_number (dkeys (group_nodes nodes)), ly_nodes = nodes\<rparr>)"

section \<open>Expansions of an earlier attempt\<close>

record expansion =
  ex_round :: nat
  ex_prefix :: string
  ex_turns :: "message list"

fun splice_from :: "nat \<Rightarrow> expansion list \<Rightarrow> message list \<Rightarrow> message list" where
  "splice_from rounds pending [] = concat (map ex_turns (filter (\<lambda>g. ex_round g \<le> rounds) pending))"
| "splice_from rounds pending (m # ms) =
     (if m_role m = assistant_role
      then let found = filter (\<lambda>g. ex_round g \<le> rounds) pending;
               prefix = lstrip (concat (map ex_prefix found));
               m' = (case m_content m of
                       Text_content t \<Rightarrow> if prefix \<noteq> [] \<and> starts prefix t then m\<lparr>m_content := Text_content (lstrip (drop (length prefix) t))\<rparr> else m
                     | _ \<Rightarrow> m)
           in concat (map ex_turns found) @ m' # splice_from (if m_calls m = [] then rounds else rounds + 1) (filter (\<lambda>g. rounds < ex_round g) pending) ms
      else m # splice_from rounds pending ms)"

definition splice_expansions :: "message list \<Rightarrow> expansion list \<Rightarrow> message list" where
  "splice_expansions current groups = splice_from 0 groups current"

section \<open>Lines and the plan of a regroup\<close>

definition LINE_LIMIT_CHARS :: nat where "LINE_LIMIT_CHARS = 320"

definition squeezed :: "string \<Rightarrow> string" where "squeezed t = join_texts '' '' (words_of t)"

definition clean_line :: "json option \<Rightarrow> string option" where
  "clean_line v = (case v of
     Some (JText t) \<Rightarrow>
       if strip_text t = [] then None
       else let line = squeezed t in
         if LINE_LIMIT_CHARS < length line
         then let front = take LINE_LIMIT_CHARS line in Some ((case rfind '' '' front of Some i \<Rightarrow> take i front | None \<Rightarrow> front) @ '' ...'')
         else Some line
   | _ \<Rightarrow> None)"

fun first_sentence :: "bool \<Rightarrow> string \<Rightarrow> string" where
  "first_sentence marked [] = []"
| "first_sentence marked (c # cs) = (if marked \<and> whitespace c then [] else c # first_sentence (c \<in> set ''.!?'') cs)"

definition fallback_line :: "exchange \<Rightarrow> string" where
  "fallback_line messages =
     (let user = take 80 (squeezed (message_text (hd messages)));
          answers = filter (\<lambda>m. m_role m = assistant_role \<and> strip_text (message_text m) \<noteq> []) (tl messages);
          first = (if answers = [] then [] else take 160 (first_sentence False (squeezed (message_text (last answers)))))
      in ''(auto) The user said: '' @ user @ (if first \<noteq> [] then ''; the assistant answered: '' @ first else []))"

definition stub_group_line :: "nat \<Rightarrow> nat \<Rightarrow> string \<Rightarrow> string" where
  "stub_group_line first final gid = ''(auto) Earlier exchanges '' @ node_id first @ ''-'' @ node_id final @ ''; expand '' @ gid @ '' to read their lines.''"

record planned_group =
  pg_id :: string
  pg_members :: "string list"
  pg_first :: nat
  pg_last :: nat
  pg_labels :: "string list"

function plan_runs :: "ledger_node list \<Rightarrow> nat list \<Rightarrow> nat \<Rightarrow> int \<Rightarrow> nat \<Rightarrow> nat \<Rightarrow> nat \<Rightarrow> planned_group list \<Rightarrow> nat \<Rightarrow> int \<Rightarrow> planned_group list" where
  "plan_runs nodes sizes foldable budget group_size next_id line_tokens planned index kept =
     (if budget div 2 < kept \<and> 2 \<le> foldable - index
      then let reach = min foldable (index + max 2 group_size);
               stop = (if foldable - reach = 1 then foldable else reach);
               run = take (stop - index) (drop index nodes)
           in plan_runs nodes sizes foldable budget group_size next_id line_tokens
                (planned @ [\<lparr>pg_id = group_id (next_id + length planned), pg_members = map nd_ref run, pg_first = nd_first (hd run),
                             pg_last = nd_last (last run), pg_labels = map nd_id run\<rparr>])
                stop (kept + int line_tokens + 8 - int (sum_list (take (stop - index) (drop index sizes))))
      else planned)"
  by pat_completeness auto
termination
  by (relation "measure (\<lambda>(nodes, sizes, foldable, budget, group_size, next_id, line_tokens, planned, index, kept). foldable - index)")
     (auto simp: Let_def min_def max_def split: if_splits)

declare plan_runs.simps [simp del]

definition plan_groups :: "codec \<Rightarrow> ledger_node list \<Rightarrow> nat \<Rightarrow> int \<Rightarrow> nat \<Rightarrow> nat \<Rightarrow> nat \<Rightarrow> planned_group list" where
  "plan_groups cd nodes foldable budget group_size next_id line_tokens =
     (let sizes = map (\<lambda>nd. memory_count cd (node_text nd)) nodes; kept = int (sum_list sizes) in
      if kept \<le> budget then [] else plan_runs nodes sizes foldable budget group_size next_id line_tokens [] 0 kept)"

end
