(* ===== verification/Memory_Store.thy ===== *)
theory Memory_Store
  imports Memory_Ledger
begin

text \<open>
  Class \<open>ChatStore\<close> of \<open>tools/serving/chat_memory.py\<close>, one file of records per chat and the state it
  replays to, and the part of class \<open>Memory\<close> that makes the prompt of a turn: \<open>fit\<close>, \<open>session\<close> and the
  memory tools of a session. The JSON text of a record and the digest that names a file are
  parameters (\<open>files_codec\<close>); the time stamp of a record, which nothing reads, is left out. The state
  of a chat is cached when it is first loaded, and the code that holds it sees what is appended
  later: reading it again from the store is the same. Who asks (the signed header and the ids in the
  request's headers) is given.
\<close>

section \<open>Records of a chat\<close>

record frozen =
  fz_lined :: nat
  fz_open :: "string list"
  fz_commits :: "string list"
  fz_groups :: "string list"
  fz_forms :: "(string, nat list) dict"

record turn_entry =
  tn_parent :: "string option"
  tn_message :: "string option"
  tn_index :: nat

record compaction =
  cp_covered :: "string list"
  cp_keep :: "string list"
  cp_summary :: string
  cp_target :: nat

datatype chat_record =
    Line_record string string string
  | Open_record string "string list"
  | Layout_record string frozen
  | Commit_record string "string option" string
  | Form_record string "nat list" string
  | Group_record string "string list" string string
  | Pending_record string string string
  | Open_after_record string "string list"
  | Expansion_record string "string option" expansion
  | Turn_record string turn_entry
  | Memory_setting string
  | Target_setting "nat option"
  | Compaction_record "compaction option"

record chat_state =
  ch_lines :: lines
  ch_sources :: "(string, string) dict"
  ch_open :: "(string, string list) dict"
  ch_layouts :: "(string, frozen) dict"
  ch_pending :: "(string, string \<times> string) dict"
  ch_open_by_message :: "(string, string list) dict"
  ch_expansions :: "(string \<times> string option, expansion list) dict"
  ch_turns :: "(string, turn_entry) dict"
  ch_groups :: "(string, group) dict"
  ch_forms :: "(string, nat list) dict"
  ch_commits :: "string list"
  ch_committed :: "string list"
  ch_final :: lines
  ch_memory :: "string option"
  ch_target :: "nat option option"
  ch_compaction :: "compaction option"

definition new_chat :: chat_state where
  "new_chat = \<lparr>ch_lines = [], ch_sources = [], ch_open = [], ch_layouts = [], ch_pending = [], ch_open_by_message = [],
     ch_expansions = [], ch_turns = [], ch_groups = [], ch_forms = [], ch_commits = [], ch_committed = [], ch_final = [],
     ch_memory = None, ch_target = None, ch_compaction = None\<rparr>"

definition apply_line_record :: "string \<Rightarrow> string \<Rightarrow> string \<Rightarrow> chat_state \<Rightarrow> chat_state" where
  "apply_line_record key line source s =
     (if key \<noteq> [] \<and> dget (ch_lines s) key = None
      then s\<lparr>ch_lines := dset key line (ch_lines s), ch_sources := dset key source (ch_sources s)\<rparr> else s)"

definition apply_commit :: "string \<Rightarrow> string option \<Rightarrow> chat_state \<Rightarrow> chat_state" where
  "apply_commit key line s =
     (if key \<noteq> [] \<and> key \<notin> set (ch_committed s)
      then let s1 = s\<lparr>ch_commits := ch_commits s @ [key], ch_committed := key # ch_committed s\<rparr> in
        (case line of Some l \<Rightarrow> if l \<noteq> [] then s1\<lparr>ch_final := dset key l (ch_final s1)\<rparr> else s1 | None \<Rightarrow> s1)
      else s)"

definition apply_form :: "string \<Rightarrow> nat list \<Rightarrow> chat_state \<Rightarrow> chat_state" where
  "apply_form part keep s =
     (if part \<noteq> [] \<and> dget (ch_forms s) part = None then s\<lparr>ch_forms := dset part keep (ch_forms s)\<rparr> else s)"

definition apply_group :: "string \<Rightarrow> string list \<Rightarrow> string \<Rightarrow> string \<Rightarrow> chat_state \<Rightarrow> chat_state" where
  "apply_group gid members line source s =
     (if GROUP_ID gid \<noteq> None \<and> dget (ch_groups s) gid = None
      then s\<lparr>ch_groups := dset gid \<lparr>gr_members = members, gr_line = line, gr_source = source\<rparr> (ch_groups s)\<rparr> else s)"

definition apply_pending :: "string \<Rightarrow> string \<Rightarrow> string \<Rightarrow> chat_state \<Rightarrow> chat_state" where
  "apply_pending message line source s =
     (if message \<noteq> [] \<and> dget (ch_pending s) message = None then s\<lparr>ch_pending := dset message (line, source) (ch_pending s)\<rparr> else s)"

definition apply_expansion :: "string \<Rightarrow> string option \<Rightarrow> expansion \<Rightarrow> chat_state \<Rightarrow> chat_state" where
  "apply_expansion message attempt x s =
     (if message \<noteq> []
      then s\<lparr>ch_expansions := dset (message, attempt) ((case dget (ch_expansions s) (message, attempt) of Some xs \<Rightarrow> xs | None \<Rightarrow> []) @ [x]) (ch_expansions s)\<rparr>
      else s)"

fun apply_record :: "chat_record \<Rightarrow> chat_state \<Rightarrow> chat_state" where
  "apply_record (Line_record key line source) s = apply_line_record key line source s"
| "apply_record (Open_record after ids) s = (if after \<noteq> [] then s\<lparr>ch_open := dset after ids (ch_open s)\<rparr> else s)"
| "apply_record (Layout_record message fz) s = (if message \<noteq> [] then s\<lparr>ch_layouts := dset message fz (ch_layouts s)\<rparr> else s)"
| "apply_record (Commit_record key line source) s = apply_commit key line s"
| "apply_record (Form_record part keep source) s = apply_form part keep s"
| "apply_record (Group_record gid members line source) s = apply_group gid members line source s"
| "apply_record (Pending_record message line source) s = apply_pending message line source s"
| "apply_record (Open_after_record message ids) s =
     (if message \<noteq> [] then s\<lparr>ch_open_by_message := dset message ids (ch_open_by_message s)\<rparr> else s)"
| "apply_record (Expansion_record message attempt x) s = apply_expansion message attempt x s"
| "apply_record (Turn_record user_message t) s = (if user_message \<noteq> [] then s\<lparr>ch_turns := dset user_message t (ch_turns s)\<rparr> else s)"
| "apply_record (Memory_setting v) s = s\<lparr>ch_memory := Some v\<rparr>"
| "apply_record (Target_setting t) s = s\<lparr>ch_target := Some t\<rparr>"
| "apply_record (Compaction_record c) s = s\<lparr>ch_compaction := c\<rparr>"

fun repeated :: "chat_record \<Rightarrow> chat_state \<Rightarrow> bool" where
  "repeated (Line_record key line source) s \<longleftrightarrow> dget (ch_lines s) key \<noteq> None"
| "repeated (Pending_record message line source) s \<longleftrightarrow> dget (ch_pending s) message \<noteq> None"
| "repeated (Group_record gid members line source) s \<longleftrightarrow> dget (ch_groups s) gid \<noteq> None"
| "repeated (Form_record part keep source) s \<longleftrightarrow> dget (ch_forms s) part \<noteq> None"
| "repeated (Commit_record key line source) s \<longleftrightarrow> key \<in> set (ch_committed s)"
| "repeated r s \<longleftrightarrow> False"

section \<open>The store\<close>

record files_codec =
  record_text :: "chat_record \<Rightarrow> string"
  read_record :: "string \<Rightarrow> chat_record option"
  store_name :: "string \<Rightarrow> string"

record chat_file =
  fl_text :: string
  fl_mtime :: int

record chat_store =
  st_files :: "(string \<times> string, chat_file) dict"
  st_memory :: "(string \<times> string, chat_state) dict"

text \<open>\<open>str.splitlines\<close>: a line ends at any of these characters, and at a carriage return with the line feed after it.\<close>

definition line_break :: "char \<Rightarrow> bool" where
  "line_break c \<longleftrightarrow> (let n = code_of c in (10 \<le> n \<and> n \<le> 13) \<or> (28 \<le> n \<and> n \<le> 30) \<or> n = 133)"

fun lines_from :: "string \<Rightarrow> string \<Rightarrow> string list" where
  "lines_from acc [] = (if acc = [] then [] else [acc])"
| "lines_from acc (c # d # cs) =
     (if line_break c then acc # (if c = CHR 0x0D \<and> d = CHR 0x0A then lines_from [] cs else lines_from [] (d # cs))
      else lines_from (acc @ [c]) (d # cs))"
| "lines_from acc [c] = (if line_break c then [acc] else [acc @ [c]])"

definition split_lines :: "string \<Rightarrow> string list" where "split_lines t = lines_from [] t"

definition key_char :: "char \<Rightarrow> bool" where
  "key_char c \<longleftrightarrow> (let n = code_of c in (48 \<le> n \<and> n \<le> 57) \<or> (65 \<le> n \<and> n \<le> 90) \<or> (97 \<le> n \<and> n \<le> 122))"

definition CHAT_KEY :: "string \<Rightarrow> bool" where
  "CHAT_KEY t = (case chomp t of [] \<Rightarrow> False | c # cs \<Rightarrow> key_char c \<and> length cs \<le> 127 \<and> (\<forall>d\<in>set cs. key_char d \<or> d \<in> set ''_.-''))"

definition persistent :: "string \<Rightarrow> bool" where
  "persistent chat \<longleftrightarrow> \<not> starts ''local:'' chat \<and> CHAT_KEY chat"

definition chat_path :: "files_codec \<Rightarrow> string \<Rightarrow> string \<Rightarrow> string \<times> string" where
  "chat_path fc user chat = (store_name fc user, store_name fc chat)"

definition replay_text :: "files_codec \<Rightarrow> string \<Rightarrow> chat_state" where
  "replay_text fc t = foldl (\<lambda>s r. apply_record r s) new_chat (List.map_filter (read_record fc) (split_lines t))"

definition store_load :: "files_codec \<Rightarrow> string \<Rightarrow> string \<Rightarrow> chat_store \<Rightarrow> chat_state \<times> chat_store" where
  "store_load fc user chat st =
     (case dget (st_memory st) (user, chat) of Some s \<Rightarrow> (s, st)
      | None \<Rightarrow>
          let s = (if persistent chat then (case dget (st_files st) (chat_path fc user chat) of Some f \<Rightarrow> replay_text fc (fl_text f) | None \<Rightarrow> new_chat) else new_chat)
          in (s, st\<lparr>st_memory := dset (user, chat) s (st_memory st)\<rparr>))"

definition chat_of :: "files_codec \<Rightarrow> string \<Rightarrow> string \<Rightarrow> chat_store \<Rightarrow> chat_state" where
  "chat_of fc user chat st = fst (store_load fc user chat st)"

definition store_append :: "files_codec \<Rightarrow> int \<Rightarrow> string \<Rightarrow> string \<Rightarrow> chat_record \<Rightarrow> chat_store \<Rightarrow> bool \<times> chat_store" where
  "store_append fc at_time user chat r st0 =
     (let (s, st) = store_load fc user chat st0 in
      if repeated r s then (False, st)
      else let st1 = st\<lparr>st_memory := dset (user, chat) (apply_record r s) (st_memory st)\<rparr> in
        (True,
         if persistent chat
         then st1\<lparr>st_files := dset (chat_path fc user chat)
                \<lparr>fl_text = (case dget (st_files st1) (chat_path fc user chat) of Some f \<Rightarrow> fl_text f | None \<Rightarrow> []) @ record_text fc r @ newline,
                 fl_mtime = at_time\<rparr> (st_files st1)\<rparr>
         else st1))"

definition store_add :: "files_codec \<Rightarrow> int \<Rightarrow> string \<Rightarrow> string \<Rightarrow> chat_store \<Rightarrow> chat_record \<Rightarrow> chat_store" where
  "store_add fc at_time user chat st r = snd (store_append fc at_time user chat r st)"

definition prune_store :: "files_codec \<Rightarrow> (string \<times> string) list \<Rightarrow> int \<Rightarrow> int \<Rightarrow> chat_store \<Rightarrow> nat \<times> chat_store" where
  "prune_store fc kept grace_seconds at_time st =
     (let gone = (\<lambda>(name, f). name \<notin> set kept \<and> grace_seconds \<le> at_time - fl_mtime f);
          removed = map fst (filter gone (st_files st))
      in (length removed,
          st\<lparr>st_files := filter (\<lambda>x. \<not> gone x) (st_files st),
             st_memory := filter (\<lambda>((user, chat), s). chat_path fc user chat \<notin> set removed) (st_memory st)\<rparr>))"

text \<open>The list of chats that are kept; \<open>None\<close> stands for a list that could not be read.\<close>

record chat_list =
  li_at :: int
  li_users :: int
  li_kept :: "(string \<times> string) list"

definition prune_once :: "files_codec \<Rightarrow> chat_list option \<Rightarrow> int \<Rightarrow> int \<Rightarrow> int \<Rightarrow> chat_store \<Rightarrow> nat option \<times> chat_store" where
  "prune_once fc listing max_age grace_seconds at_time st =
     (case listing of None \<Rightarrow> (None, st)
      | Some l \<Rightarrow> if li_users l < 1 \<or> max_age < at_time - li_at l then (None, st)
                  else (let (n, st') = prune_store fc (li_kept l) grace_seconds at_time st in (Some n, st')))"

section \<open>The prompt of a turn\<close>

text \<open>
  The budgets that class \<open>MemoryProfile\<close> resolves for a model and a target: the sizes of tool results
  and the open budget without the target, the others with it.
\<close>

record budgets =
  bd_prompt :: nat
  bd_ledger :: nat
  bd_group_size :: nat
  bd_line_tokens :: nat
  bd_working :: nat
  bd_working_low :: nat
  bd_small :: nat
  bd_cap :: nat
  bd_keep :: nat
  bd_open :: nat
  bd_part_chars :: nat
  bd_open_chars :: nat
  bd_catch_up :: nat
  bd_max_rounds :: nat

record turn_input =
  ti_user :: string
  ti_chat :: string
  ti_user_message :: string
  ti_parent :: "string option"
  ti_message :: "string option"
  ti_leading :: "message list"
  ti_exchanges :: "exchange list"
  ti_current :: exchange
  ti_tools :: string

definition ledger_lines :: "chat_state \<Rightarrow> lines" where
  "ledger_lines s = foldl (\<lambda>d (k, l). dset k l d) (ch_lines s) (ch_final s)"

definition turn_layout :: "codec \<Rightarrow> budgets \<Rightarrow> turn_input \<Rightarrow> chat_state \<Rightarrow> string list \<Rightarrow> prompt_layout" where
  "turn_layout cd bd ti s open_ids =
     build_layout cd (ti_leading ti) (ti_exchanges ti) (ti_current ti) (ledger_lines s) open_ids (ch_commits s) (bd_open_chars bd)
       (ch_groups s) None (part_renderer cd (ch_forms s) (bd_small bd) (bd_cap bd))"

definition utf8_length :: "string \<Rightarrow> nat" where
  "utf8_length t = sum_list (map (\<lambda>c. if code_of c < 128 then 1 else 2) t)"

definition prompt_text :: "codec \<Rightarrow> string \<Rightarrow> prompt_layout \<Rightarrow> string" where
  "prompt_text cd tools ly = join_texts newline (tools # concat (map (\<lambda>m. message_text m # (if m_calls m = [] then [] else [calls_text cd (m_calls m)])) (ly_messages ly)))"

definition prompt_size :: "codec \<Rightarrow> budgets \<Rightarrow> string \<Rightarrow> prompt_layout \<Rightarrow> nat" where
  "prompt_size cd bd tools ly =
     (let t = prompt_text cd tools ly; overhead = 8 * length (ly_messages ly) + 64 in
      if utf8_length t + overhead \<le> bd_prompt bd then utf8_length t + overhead else memory_count cd t + overhead)"

definition fits :: "codec \<Rightarrow> budgets \<Rightarrow> turn_input \<Rightarrow> prompt_layout \<Rightarrow> bool" where
  "fits cd bd ti ly \<longleftrightarrow> bd_prompt bd = 0 \<or> prompt_size cd bd (ti_tools ti) ly \<le> bd_prompt bd"

definition fit_commit :: "codec \<Rightarrow> files_codec \<Rightarrow> int \<Rightarrow> turn_input \<Rightarrow> chat_store \<Rightarrow> nat \<Rightarrow> chat_store" where
  "fit_commit cd fc at_time ti st i =
     (let user = ti_user ti; chat = ti_chat ti; key = exchange_key cd (ti_exchanges ti ! i);
          st1 = (if dget (ch_lines (chat_of fc user chat st)) key = None
                 then store_add fc at_time user chat st (Line_record key (fallback_line (ti_exchanges ti ! i)) ''fit'') else st)
      in store_add fc at_time user chat st1 (Commit_record key None ''fit''))"

definition fit_group :: "files_codec \<Rightarrow> int \<Rightarrow> turn_input \<Rightarrow> chat_store \<Rightarrow> ledger_node list \<Rightarrow> chat_store" where
  "fit_group fc at_time ti st nodes =
     (let user = ti_user ti; chat = ti_chat ti; run = take (max 2 (length nodes div 2)) nodes;
          gid = group_id (next_group (ch_groups (chat_of fc user chat st)))
      in store_add fc at_time user chat st
           (Group_record gid (map nd_ref run) (stub_group_line (nd_first (hd run)) (nd_last (last run)) gid) ''fit''))"

fun fit_loop :: "nat \<Rightarrow> codec \<Rightarrow> files_codec \<Rightarrow> budgets \<Rightarrow> int \<Rightarrow> turn_input \<Rightarrow> prompt_layout \<Rightarrow> chat_store \<Rightarrow> prompt_layout \<times> chat_store" where
  "fit_loop 0 cd fc bd at_time ti ly st = (ly, st)"
| "fit_loop (Suc n) cd fc bd at_time ti ly st =
     (let again = (\<lambda>st'. fit_loop n cd fc bd at_time ti (turn_layout cd bd ti (chat_of fc (ti_user ti) (ti_chat ti) st') []) st');
          candidates = butlast (ly_working ly) in
      if fits cd bd ti ly then (ly, st)
      else if ly_open ly \<noteq> [] then again st
      else if candidates \<noteq> [] then again (foldl (fit_commit cd fc at_time ti) st (take (max 1 (length candidates div 2)) candidates))
      else if length (ly_nodes ly) < 2 then (ly, st)
      else again (fit_group fc at_time ti st (ly_nodes ly)))"

definition fit :: "codec \<Rightarrow> files_codec \<Rightarrow> budgets \<Rightarrow> int \<Rightarrow> turn_input \<Rightarrow> prompt_layout \<Rightarrow> chat_store \<Rightarrow> prompt_layout \<times> chat_store" where
  "fit cd fc bd at_time ti ly st = fit_loop 64 cd fc bd at_time ti ly st"

definition frozen_layout :: "codec \<Rightarrow> budgets \<Rightarrow> turn_input \<Rightarrow> chat_state \<Rightarrow> frozen \<Rightarrow> prompt_layout" where
  "frozen_layout cd bd ti s fz =
     build_layout cd (ti_leading ti) (ti_exchanges ti) (ti_current ti)
       (List.map_filter (\<lambda>k. map_option (Pair k) (dget (ledger_lines s) k)) (fz_commits fz)) (fz_open fz) (fz_commits fz) (bd_open_chars bd)
       (ch_groups s) (Some (fz_groups fz)) (part_renderer cd (fz_forms fz) (bd_small bd) (bd_cap bd))"

definition used_forms :: "codec \<Rightarrow> exchange list \<Rightarrow> nat list \<Rightarrow> (string, nat list) dict \<Rightarrow> (string, nat list) dict" where
  "used_forms cd exchanges working forms =
     foldl (\<lambda>d p. case dget forms (tp_key p) of Some keep \<Rightarrow> dset (tp_key p) keep d | None \<Rightarrow> d) []
       (concat (map (\<lambda>i. tool_parts cd (exchanges ! i)) working))"

definition turn_records :: "codec \<Rightarrow> files_codec \<Rightarrow> int \<Rightarrow> turn_input \<Rightarrow> chat_store \<Rightarrow> chat_store" where
  "turn_records cd fc at_time ti st =
     (let user = ti_user ti; chat = ti_chat ti; exchanges = ti_exchanges ti;
          st1 = store_add fc at_time user chat st
                  (Turn_record (ti_user_message ti) \<lparr>tn_parent = ti_parent ti, tn_message = ti_message ti, tn_index = length exchanges + 1\<rparr>)
      in case ti_parent ti of None \<Rightarrow> st1
         | Some parent \<Rightarrow> (case dget (ch_pending (chat_of fc user chat st1)) parent of
             Some (line, source) \<Rightarrow> if exchanges \<noteq> [] then store_add fc at_time user chat st1 (Line_record (exchange_key cd (last exchanges)) line source) else st1
           | None \<Rightarrow> st1))"

definition freeze :: "codec \<Rightarrow> turn_input \<Rightarrow> chat_state \<Rightarrow> prompt_layout \<Rightarrow> frozen" where
  "freeze cd ti s ly = \<lparr>fz_lined = ly_lined ly, fz_open = ly_open ly, fz_commits = ly_keys ly, fz_groups = ly_groups ly,
     fz_forms = used_forms cd (ti_exchanges ti) (ly_working ly) (ch_forms s)\<rparr>"

definition plan_turn :: "codec \<Rightarrow> files_codec \<Rightarrow> budgets \<Rightarrow> int \<Rightarrow> turn_input \<Rightarrow> chat_store \<Rightarrow> prompt_layout \<times> chat_store" where
  "plan_turn cd fc bd at_time ti st =
     (let user = ti_user ti; chat = ti_chat ti; s = chat_of fc user chat st;
          open_ids = (case ti_parent ti of None \<Rightarrow> [] | Some p \<Rightarrow> (case dget (ch_open_by_message s) p of Some ids \<Rightarrow> ids | None \<Rightarrow> []));
          fresh = (let (ly, st') = fit cd fc bd at_time ti (turn_layout cd bd ti s open_ids) st in
             (ly, store_add fc at_time user chat st' (Layout_record (ti_user_message ti) (freeze cd ti (chat_of fc user chat st') ly))))
      in case dget (ch_layouts s) (ti_user_message ti) of
           Some fz \<Rightarrow> if set (fz_commits fz) \<subseteq> exchange_key cd ` set (ti_exchanges ti) then (frozen_layout cd bd ti s fz, st) else fresh
         | None \<Rightarrow> fresh)"

definition open_session :: "codec \<Rightarrow> files_codec \<Rightarrow> budgets \<Rightarrow> int \<Rightarrow> turn_input \<Rightarrow> chat_store \<Rightarrow> prompt_layout \<times> chat_store" where
  "open_session cd fc bd at_time ti st0 =
     (let (ly, st) = plan_turn cd fc bd at_time ti (turn_records cd fc at_time ti st0);
          replay = (case dget (ch_expansions (chat_of fc (ti_user ti) (ti_chat ti) st)) (ti_user_message ti, ti_message ti) of Some xs \<Rightarrow> xs | None \<Rightarrow> []);
          cut_at = length (ly_messages ly) - length (ti_current ti)
      in (if replay = [] then ly
          else ly\<lparr>ly_messages := take cut_at (ly_messages ly) @ splice_expansions (drop cut_at (ly_messages ly)) replay\<rparr>, st))"

end
