(* ===== verification/Memory_Frozen.thy ===== *)
theory Memory_Frozen
  imports Memory_Layout
begin

text \<open>
  A chat's state only grows: lines, commits, groups and forms are never changed once they are there.
  A prompt that was sent is therefore rebuilt from its record as it was, whatever was added since.
\<close>

section \<open>How a chat grows\<close>

definition chat_ok :: "chat_state \<Rightarrow> bool" where
  "chat_ok s \<longleftrightarrow> distinct (ch_commits s) \<and> set (ch_committed s) = set (ch_commits s) \<and> distinct (dkeys (ch_final s))
     \<and> set (dkeys (ch_final s)) \<subseteq> set (ch_commits s) \<and> distinct (dkeys (ch_groups s)) \<and> (\<forall>gid\<in>set (dkeys (ch_groups s)). GROUP_ID gid \<noteq> None)"

definition grows :: "chat_state \<Rightarrow> chat_state \<Rightarrow> bool" where
  "grows s s' \<longleftrightarrow> (\<forall>k l. dget (ch_lines s) k = Some l \<longrightarrow> dget (ch_lines s') k = Some l)
     \<and> (\<exists>new. ch_commits s' = ch_commits s @ new) \<and> (\<forall>k\<in>set (ch_commits s). dget (ch_final s') k = dget (ch_final s) k)
     \<and> (\<exists>new. ch_groups s' = ch_groups s @ new) \<and> (\<forall>p v. dget (ch_forms s) p = Some v \<longrightarrow> dget (ch_forms s') p = Some v)"

lemma dset_absent: "dget d k = None \<Longrightarrow> dset k v d = d @ [(k, v)]"
  by (induction d) (auto split: if_splits)

lemma new_chat_ok: "chat_ok new_chat"
  by (simp add: chat_ok_def new_chat_def)

lemma grows_refl: "grows s s"
  by (simp add: grows_def)

lemma grows_trans:
  assumes "grows s s'" "grows s' s''"
  shows "grows s s''"
proof -
  have "ch_commits s \<noteq> [] \<Longrightarrow> set (ch_commits s) \<subseteq> set (ch_commits s')" using assms(1) by (auto simp: grows_def)
  then show ?thesis using assms unfolding grows_def by (auto 0 4)
qed

lemma apply_commit_parts:
  assumes "chat_ok s"
  shows "chat_ok (apply_commit key line s) \<and> grows s (apply_commit key line s)"
proof (cases "key \<noteq> [] \<and> key \<notin> set (ch_committed s)")
  case True
  then have "key \<notin> set (ch_commits s)" "dget (ch_final s) key = None" using assms by (auto simp: chat_ok_def map_of_eq_None_iff)
  then show ?thesis using True assms
    by (auto simp: apply_commit_def Let_def chat_ok_def grows_def dset_absent map_add_def split: option.splits)
qed (use assms in \<open>auto simp: apply_commit_def grows_refl\<close>)

lemma apply_group_parts:
  assumes "chat_ok s"
  shows "chat_ok (apply_group gid members line source s) \<and> grows s (apply_group gid members line source s)"
  using assms by (auto simp: apply_group_def chat_ok_def grows_def dset_absent map_of_eq_None_iff)

lemma apply_record_ok:
  assumes "chat_ok s"
  shows "chat_ok (apply_record r s) \<and> grows s (apply_record r s)"
proof (cases r)
  case (Line_record key line source)
  then show ?thesis using assms by (auto simp: apply_line_record_def chat_ok_def grows_def update_conv')
next
  case (Form_record p keep source)
  then show ?thesis using assms by (auto simp: apply_form_def chat_ok_def grows_def update_conv')
next
  case (Commit_record key line source)
  then show ?thesis using apply_commit_parts [OF assms] by simp
next
  case (Group_record gid members line source)
  then show ?thesis using apply_group_parts [OF assms] by simp
qed (use assms in \<open>simp_all add: chat_ok_def grows_def apply_pending_def apply_expansion_def\<close>)

lemma ledger_lines_get:
  assumes "chat_ok s"
  shows "dget (ledger_lines s) k = (case dget (ch_final s) k of Some l \<Rightarrow> Some l | None \<Rightarrow> dget (ch_lines s) k)"
  using assms by (simp add: ledger_lines_def dget_foldl_dset chat_ok_def)

lemma ledger_lines_grow:
  assumes "chat_ok s" "chat_ok s'" "grows s s'" "k \<in> set (ch_commits s)" "dget (ledger_lines s) k = Some l"
  shows "dget (ledger_lines s') k = Some l"
  using assms by (auto simp: ledger_lines_get grows_def split: option.splits)

section \<open>The order of a prompt that was sent\<close>

definition firsts :: "codec \<Rightarrow> exchange list \<Rightarrow> nat list \<Rightarrow> bool" where
  "firsts cd xs order \<longleftrightarrow> distinct (map (\<lambda>i. exchange_key cd (xs ! i)) order)
     \<and> (\<forall>i\<in>set order. i < length xs \<and> (\<forall>j<i. exchange_key cd (xs ! j) \<noteq> exchange_key cd (xs ! i)))"

lemma commit_fold_firsts:
  assumes "firsts cd xs order" "distinct commits" "\<forall>i\<in>set order. exchange_key cd (xs ! i) \<notin> set commits"
  shows "firsts cd xs (foldl (commit_next cd xs) order commits)
    \<and> (\<forall>i\<in>set (foldl (commit_next cd xs) order commits). i \<in> set order \<or> exchange_key cd (xs ! i) \<in> set commits)"
  using assms
proof (induction commits arbitrary: order)
  case (Cons key commits)
  show ?case
  proof (cases rule: commit_next_cases [of cd xs order key])
    case 1
    then show ?thesis using Cons by auto
  next
    case (2 i)
    then have "firsts cd xs (order @ [i])" using Cons.prems by (fastforce simp: firsts_def)
    then show ?thesis using Cons.IH [of "order @ [i]"] Cons.prems 2 by auto
  qed
qed simp

lemma committed_firsts:
  assumes "distinct commits"
  shows "firsts cd xs (committed_order cd xs commits)" "\<forall>i\<in>set (committed_order cd xs commits). exchange_key cd (xs ! i) \<in> set commits"
  using commit_fold_firsts [of cd xs "[]" commits] assms by (auto simp: committed_order_def firsts_def)

lemma firsts_filter: "firsts cd xs order \<Longrightarrow> firsts cd xs (filter P order)"
  by (auto simp: firsts_def distinct_map inj_on_def)

lemma firsts_recommit:
  assumes "firsts cd xs (before @ rest)"
  shows "foldl (commit_next cd xs) before (map (\<lambda>i. exchange_key cd (xs ! i)) rest) = before @ rest"
  using assms
proof (induction rest arbitrary: before)
  case (Cons i rest)
  let ?key = "exchange_key cd (xs ! i)"
  have i: "i < length xs" "\<forall>j<i. exchange_key cd (xs ! j) \<noteq> ?key" "i \<notin> set before" using Cons.prems by (auto simp: firsts_def)
  have "commit_next cd xs before ?key = before @ [i]"
  proof (cases rule: commit_next_cases [of cd xs before ?key])
    case 1
    have "find (\<lambda>j. exchange_key cd (xs ! j) = ?key \<and> j \<notin> set before) [0..<length xs] \<noteq> None"
      using i by (auto simp: find_None_iff)
    with 1 show ?thesis by (auto simp: commit_next_def split: option.splits)
  next
    case (2 j)
    then have "j = i" using i by (metis nat_neq_iff)
    with 2 show ?thesis by simp
  qed
  then show ?case using Cons by simp
qed simp

lemma recommitted_order:
  assumes "distinct commits"
  shows "ledger_order cd xs ls (map (\<lambda>i. exchange_key cd (xs ! i)) (ledger_order cd xs ls commits)) = ledger_order cd xs ls commits"
proof -
  have "firsts cd xs (ledger_order cd xs ls commits)"
    unfolding ledger_order_def by (intro firsts_filter committed_firsts(1) assms)
  then show ?thesis using firsts_recommit [of cd xs "[]" "ledger_order cd xs ls commits"]
    by (simp add: ledger_order_def [of cd xs ls "map _ _"] committed_order_def) (simp add: ledger_order_def)
qed

lemma ledger_order_cong:
  assumes "\<And>i. i \<in> set (committed_order cd xs commits) \<Longrightarrow> dget ls (exchange_key cd (xs ! i)) = dget ls' (exchange_key cd (xs ! i))"
  shows "ledger_order cd xs ls commits = ledger_order cd xs ls' commits"
  using assms by (auto simp: ledger_order_def intro: filter_cong)

lemma limited_get: "dget (List.map_filter (\<lambda>k. map_option (Pair k) (dget d k)) ks) k = (if k \<in> set ks then dget d k else None)"
  by (induction ks) (auto simp: List.map_filter_simps split: option.splits)

section \<open>The groups of a prompt that was sent\<close>

lemma fold_group_same: "fold_group gid g nodes = nodes \<or> gid \<in> fst ` set (all_groups (fold_group gid g nodes))"
proof (cases rule: fold_group_cases [of gid g nodes])
  case (2 a run b)
  then have "run \<noteq> []" by auto
  then show ?thesis unfolding 2(4) by simp
qed simp

lemma fold_group_ids:
  "fst ` set (all_groups nodes) \<subseteq> fst ` set (all_groups (fold_group gid g nodes))"
  "fst ` set (all_groups (fold_group gid g nodes)) \<subseteq> insert gid (fst ` set (all_groups nodes))"
proof -
  have "set (all_groups (fold_group gid g nodes)) = set (all_groups nodes)
    \<or> (\<exists>nd. set (all_groups (fold_group gid g nodes)) = insert (gid, nd) (set (all_groups nodes)))"
    using fold_group_keeps(4) [of gid g nodes] by (metis mset_eq_setD set_mset_add_mset_insert set_mset_mset)
  then show "fst ` set (all_groups nodes) \<subseteq> fst ` set (all_groups (fold_group gid g nodes))"
    "fst ` set (all_groups (fold_group gid g nodes)) \<subseteq> insert gid (fst ` set (all_groups nodes))"
    by (elim disjE exE; simp only: image_insert fst_conv; blast)+
qed

lemma foldl_ids_more: "fst ` set (all_groups nodes) \<subseteq> fst ` set (all_groups (foldl (\<lambda>ns (gid, g). fold_group gid g ns) nodes xs))"
proof (induction xs arbitrary: nodes)
  case (Cons x xs)
  obtain gid g where x: "x = (gid, g)" by force
  show ?case unfolding x foldl_Cons prod.case by (rule order_trans [OF fold_group_ids(1) Cons])
qed simp

lemma foldl_ids_known:
  "fst ` set (all_groups (foldl (\<lambda>ns (gid, g). fold_group gid g ns) nodes xs)) \<subseteq> fst ` set (all_groups nodes) \<union> fst ` set xs"
proof (induction xs arbitrary: nodes)
  case (Cons x xs)
  obtain gid g where x: "x = (gid, g)" by force
  have sets: "A \<subseteq> B \<union> C \<Longrightarrow> B \<subseteq> insert gid D \<Longrightarrow> A \<subseteq> D \<union> insert gid C" for A B C D by blast
  show ?case unfolding x foldl_Cons prod.case list.set image_insert fst_conv
    by (rule sets [OF Cons fold_group_ids(2)])
qed simp

lemma foldl_used:
  assumes "foldl (\<lambda>ns (gid, g). fold_group gid g ns) nodes xs = final" "fst ` set (all_groups final) \<subseteq> A"
  shows "foldl (\<lambda>ns (gid, g). if gid \<in> A then fold_group gid g ns else ns) nodes xs = final"
  using assms
proof (induction xs arbitrary: nodes)
  case (Cons x xs)
  obtain gid g where x: "x = (gid, g)" by force
  have "gid \<in> A \<or> fold_group gid g nodes = nodes"
    using fold_group_same [of gid g nodes] foldl_ids_more [of "fold_group gid g nodes" xs] Cons.prems unfolding x foldl_Cons prod.case by blast
  then show ?case using Cons by (auto simp: x)
qed simp

lemma foldl_filter: "foldl (\<lambda>a x. if P x then f a x else a) a xs = foldl f a (filter P xs)"
  by (induction xs arbitrary: a) auto

lemma fold_groups_frozen:
  assumes gs: "distinct (dkeys (gs @ new))" and nodes: "all_groups nodes = []" and ids: "set ids = fst ` set (all_groups (fold_groups gs None nodes))"
  shows "fold_groups (gs @ new) (Some ids) nodes = fold_groups gs None nodes"
proof -
  let ?f = "\<lambda>(gid, g). group_number gid" and ?step = "\<lambda>ns (gid, g). fold_group gid g ns"
  have none: "fold_groups gs None nodes = foldl ?step nodes (sort_key ?f gs)" by (simp add: fold_groups_def)
  have some: "fold_groups hs (Some ids) nodes = foldl ?step nodes (sort_key ?f (filter (\<lambda>x. fst x \<in> set ids) hs))" for hs
  proof -
    have e: "(\<lambda>ns (gid, g). if gid \<in> set ids then fold_group gid g ns else ns) = (\<lambda>ns x. if fst x \<in> set ids then ?step ns x else ns)"
      by (intro ext) (simp split: prod.split)
    show ?thesis unfolding fold_groups_def option.case e foldl_filter filter_sort ..
  qed
  have "set ids \<subseteq> fst ` set gs" using foldl_ids_known [of nodes "sort_key ?f gs"] nodes ids none by simp
  then have "filter (\<lambda>x. fst x \<in> set ids) new = []" using gs by (auto simp: filter_empty_conv)
  then have "fold_groups (gs @ new) (Some ids) nodes = fold_groups gs (Some ids) nodes" by (simp add: some)
  also have "\<dots> = fold_groups gs None nodes"
    unfolding fold_groups_def option.case if_True using foldl_used [OF none [symmetric]] ids by (simp add: fold_groups_def)
  finally show ?thesis .
qed

lemma group_nodes_keys: "set (dkeys (group_nodes nodes)) = fst ` set (all_groups nodes)"
proof -
  have "set (dkeys (foldl (\<lambda>d (k, nd). dset k nd d) d xs)) = set (dkeys d) \<union> fst ` set xs" for d and xs :: "(string \<times> ledger_node) list"
  proof (induction xs arbitrary: d)
    case (Cons x xs)
    have "set (dkeys (dset (fst x) (snd x) d)) = insert (fst x) (set (dkeys d))"
      by (simp add: dom_map_of_conv_image_fst [symmetric] update_conv')
    then show ?case using Cons [of "dset (fst x) (snd x) d"] by (cases x) auto
  qed simp
  then show ?thesis by (simp add: group_nodes_def)
qed

section \<open>The prompt that was sent\<close>

lemma used_forms_get:
  "dget (foldl (\<lambda>d p. case dget forms (tp_key p) of Some keep \<Rightarrow> dset (tp_key p) keep d | None \<Rightarrow> d) d ps) k
   = (if k \<in> tp_key ` set ps \<and> dget forms k \<noteq> None then dget forms k else dget d k)"
proof (induction ps arbitrary: d)
  case (Cons p ps)
  then show ?case by (cases "dget forms (tp_key p)") (auto simp: update_conv')
qed simp

lemma used_forms_same:
  assumes "i \<in> set working" "p \<in> set (tool_parts cd (xs ! i))"
  shows "dget (used_forms cd xs working forms) (tp_key p) = dget forms (tp_key p)"
  using assms by (auto simp: used_forms_def used_forms_get)

lemma part_form_cong:
  assumes "past \<Longrightarrow> dget forms (tp_key p) = dget forms' (tp_key p)"
  shows "part_form cd forms small cap number past (i, p) = part_form cd forms' small cap number past (i, p)"
  using assms by (cases past) (auto simp: part_form_def Let_def split: option.splits)

lemma part_renderer_cong:
  assumes "\<And>p. past \<Longrightarrow> p \<in> set (tool_parts cd messages) \<Longrightarrow> dget forms (tp_key p) = dget forms' (tp_key p)"
  shows "part_renderer cd forms small cap number messages past = part_renderer cd forms' small cap number messages past"
  unfolding part_renderer_def
proof (rule foldl_cong [OF refl refl], clarify)
  fix r i p assume "(i, p) \<in> set (enumerate 1 (own_parts cd messages))"
  then have "p \<in> set (tool_parts cd messages)" by (auto simp: own_parts_def enumerate_eq_zip dest: set_zip_rightD)
  then show "r[tp_index p := (r ! tp_index p)\<lparr>m_content := Text_content (part_form cd forms small cap number past (i, p))\<rparr>]
    = r[tp_index p := (r ! tp_index p)\<lparr>m_content := Text_content (part_form cd forms' small cap number past (i, p))\<rparr>]"
    using assms part_form_cong by metis
qed

lemma exchange_node_cong:
  "dget ls (exchange_key cd (xs ! i)) = dget ls' (exchange_key cd (xs ! i)) \<Longrightarrow> exchange_node cd xs ls i = exchange_node cd xs ls' i"
  by (simp add: exchange_node_def)

lemma shown_nodes_idem: "shown_nodes order (shown_nodes order ids) = shown_nodes order ids"
  by (simp add: shown_nodes_def)

lemma build_layout_cong:
  assumes "ledger_order cd xs ls' commits' = order" and order: "ledger_order cd xs ls commits = order"
    and "ledger_nodes cd xs ls' gs' order allowed' = ledger_nodes cd xs ls gs order allowed"
    and "shown_nodes order ids' = shown_nodes order ids"
    and "\<And>i. i < length xs \<Longrightarrow> i \<notin> set order \<Longrightarrow> render' (i + 1) (xs ! i) True = render (i + 1) (xs ! i) True"
    and "render' (length xs + 1) current False = render (length xs + 1) current False"
  shows "build_layout cd leading xs current ls' ids' commits' open_chars gs' allowed' render'
    = build_layout cd leading xs current ls ids commits open_chars gs allowed render"
proof -
  have "map (\<lambda>i. on_first (prefix_text (exchange_mark (i + 1))) (render' (i + 1) (xs ! i) True)) (filter (\<lambda>i. i \<notin> set order) [0..<length xs])
    = map (\<lambda>i. on_first (prefix_text (exchange_mark (i + 1))) (render (i + 1) (xs ! i) True)) (filter (\<lambda>i. i \<notin> set order) [0..<length xs])"
    using assms(5) by (intro map_cong) auto
  then show ?thesis unfolding build_layout_def Let_def assms(1,2,3,4,6) by (simp only:)
qed

lemma frozen_same:
  assumes ok: "chat_ok s" "chat_ok s'" "grows s s'" and ly: "ly = turn_layout cd bd ti s ids"
  shows "frozen_layout cd bd ti s' (freeze cd ti s ly) = ly"
proof -
  let ?xs = "ti_exchanges ti" and ?ls = "ledger_lines s" and ?commits = "ch_commits s"
  let ?order = "ledger_order cd ?xs ?ls ?commits" and ?key = "\<lambda>i. exchange_key cd (ti_exchanges ti ! i)"
  let ?keys = "map ?key ?order"
  let ?limited = "List.map_filter (\<lambda>k. map_option (Pair k) (dget (ledger_lines s') k)) ?keys"
  have d: "distinct ?commits" using ok(1) by (simp add: chat_ok_def)
  note sel = build_layout_sel [where xs = ?xs and ls = ?ls and commits = ?commits]
  have ids: "set ?keys \<subseteq> set ?commits" using committed_firsts(2) [OF d, of cd ?xs] by (auto simp: ledger_order_def)
  have get: "dget ?limited (?key i) = dget ?ls (?key i)" if i: "i \<in> set ?order" for i
  proof -
    obtain l where "dget ?ls (?key i) = Some l" using i by (auto simp: ledger_order_def)
    then show ?thesis using ledger_lines_grow [OF ok, of "?key i" l] ids i by (auto simp: limited_get)
  qed
  have order: "ledger_order cd ?xs ?limited ?keys = ?order"
  proof -
    have "i \<in> set ?order" if "i \<in> set (committed_order cd ?xs ?keys)" for i
      using that firsts_recommit [of cd ?xs "[]" ?order] firsts_filter [OF committed_firsts(1) [OF d]]
      by (simp add: committed_order_def ledger_order_def)
    then have "ledger_order cd ?xs ?limited ?keys = ledger_order cd ?xs ?ls ?keys" by (intro ledger_order_cong get)
    then show ?thesis using recommitted_order [OF d] by simp
  qed
  obtain new where new: "ch_groups s' = ch_groups s @ new" using ok(3) by (auto simp: grows_def)
  let ?ids = "sort_key group_number (dkeys (group_nodes (ledger_nodes cd ?xs ?ls (ch_groups s) ?order None)))"
  have nodes: "ledger_nodes cd ?xs ?limited (ch_groups s') ?order (Some ?ids) = ledger_nodes cd ?xs ?ls (ch_groups s) ?order None"
  proof -
    have e: "map (exchange_node cd ?xs ?limited) ?order = map (exchange_node cd ?xs ?ls) ?order"
      using get by (intro map_cong refl exchange_node_cong) auto
    have "set ?ids = fst ` set (all_groups (ledger_nodes cd ?xs ?ls (ch_groups s) ?order None))"
      unfolding set_sort by (rule group_nodes_keys)
    then show ?thesis unfolding ledger_nodes_def e new using ok(2) new
      by (intro fold_groups_frozen) (simp_all add: chat_ok_def ledger_nodes_def comp_def)
  qed
  have forms: "part_renderer cd (used_forms cd ?xs (ly_working ly) (ch_forms s)) (bd_small bd) (bd_cap bd) (i + 1) (?xs ! i) True
      = part_renderer cd (ch_forms s) (bd_small bd) (bd_cap bd) (i + 1) (?xs ! i) True" if "i < length ?xs" "i \<notin> set ?order" for i
    using that by (intro part_renderer_cong used_forms_same [of i]) (auto simp: ly turn_layout_def sel)
  show ?thesis unfolding frozen_layout_def freeze_def frozen.select_convs
    unfolding ly turn_layout_def sel
    by (rule build_layout_cong [where order = ?order], rule order, rule refl, rule nodes, rule shown_nodes_idem,
        erule (1) forms [unfolded ly turn_layout_def sel], rule part_renderer_cong) simp
qed

end
