(* ===== verification/Memory_Chats.thy ===== *)
theory Memory_Chats
  imports Memory_Frozen
begin

text \<open>
  Class \<open>ChatStore\<close> over time: the operations as events, that the file of a chat replays to the state
  in memory, that a chat only grows, and that a turn asked again gets the prompt it had.
\<close>

section \<open>Events\<close>

datatype store_event =
    Append int string string chat_record
  | Load string string
  | Prune "(string \<times> string) list" int int
  | Restart

fun perform :: "files_codec \<Rightarrow> store_event \<Rightarrow> chat_store \<Rightarrow> chat_store" where
  "perform fc (Append at_time user chat r) st = store_add fc at_time user chat st r"
| "perform fc (Load user chat) st = snd (store_load fc user chat st)"
| "perform fc (Prune kept grace_seconds at_time) st = snd (prune_store fc kept grace_seconds at_time st)"
| "perform fc Restart st = st\<lparr>st_memory := []\<rparr>"

definition perform_all :: "files_codec \<Rightarrow> store_event list \<Rightarrow> chat_store \<Rightarrow> chat_store" where
  "perform_all fc evs st = foldl (\<lambda>st ev. perform fc ev st) st evs"

definition no_chats :: chat_store where "no_chats = \<lparr>st_files = [], st_memory = []\<rparr>"

section \<open>Lines of a file\<close>

definition single_line :: "files_codec \<Rightarrow> chat_record \<Rightarrow> bool" where
  "single_line fc r \<longleftrightarrow> record_text fc r \<noteq> [] \<and> (\<forall>c\<in>set (record_text fc r). \<not> line_break c)"

definition records_text :: "files_codec \<Rightarrow> chat_record list \<Rightarrow> string" where
  "records_text fc rs = concat (map (\<lambda>r. record_text fc r @ newline) rs)"

lemma line_break_feed: "line_break CHR 0x0A"
  by (simp add: line_break_def code_of_def)

lemma lines_from_line: "\<forall>c\<in>set u. \<not> line_break c \<Longrightarrow> lines_from acc (u @ CHR 0x0A # t) = (acc @ u) # lines_from [] t"
proof (induction u arbitrary: acc)
  case Nil
  then show ?case by (cases t) (simp_all add: line_break_feed)
next
  case (Cons c u)
  then show ?case by (cases "u @ CHR 0x0A # t") auto
qed

lemma split_records: "list_all (single_line fc) rs \<Longrightarrow> split_lines (records_text fc rs) = map (record_text fc) rs"
  unfolding split_lines_def records_text_def
  by (induction rs) (auto simp: newline_def single_line_def lines_from_line)

text \<open>
  What the store relies on: a record is read back from the JSON text it was written as, when that text
  is one line, and different users and chats have different file names.
\<close>

definition reads_back :: "files_codec \<Rightarrow> bool" where
  "reads_back fc \<longleftrightarrow> (\<forall>r. single_line fc r \<longrightarrow> read_record fc (record_text fc r) = Some r) \<and> inj (store_name fc)"

definition replayed :: "chat_record list \<Rightarrow> chat_state" where
  "replayed rs = foldl (\<lambda>s r. apply_record r s) new_chat rs"

lemma replay_records:
  assumes "reads_back fc" "list_all (single_line fc) rs"
  shows "replay_text fc (records_text fc rs) = replayed rs"
proof -
  have "List.map_filter (read_record fc) (map (record_text fc) rs) = rs"
    using assms by (induction rs) (auto simp: List.map_filter_simps reads_back_def)
  then show ?thesis using assms(2) by (simp add: replay_text_def split_records replayed_def)
qed

lemma replayed_snoc: "replayed (rs @ [r]) = apply_record r (replayed rs)"
  by (simp add: replayed_def)

lemma replayed_ok: "chat_ok (replayed rs)"
  by (induction rs rule: rev_induct) (simp_all add: replayed_snoc apply_record_ok, simp add: replayed_def new_chat_ok)

section \<open>What the store keeps\<close>

definition chat_file_text :: "files_codec \<Rightarrow> string \<Rightarrow> string \<Rightarrow> chat_store \<Rightarrow> string" where
  "chat_file_text fc user chat st = (case dget (st_files st) (chat_path fc user chat) of Some f \<Rightarrow> fl_text f | None \<Rightarrow> [])"

definition store_ok :: "files_codec \<Rightarrow> chat_store \<Rightarrow> bool" where
  "store_ok fc st \<longleftrightarrow>
     (\<forall>path f. dget (st_files st) path = Some f \<longrightarrow> (\<exists>rs. list_all (single_line fc) rs \<and> fl_text f = records_text fc rs))
   \<and> (\<forall>user chat s. dget (st_memory st) (user, chat) = Some s \<longrightarrow> persistent chat \<longrightarrow> s = replay_text fc (chat_file_text fc user chat st))
   \<and> (\<forall>user chat s. dget (st_memory st) (user, chat) = Some s \<longrightarrow> chat_ok s) \<and> distinct (dkeys (st_files st)) \<and> distinct (dkeys (st_memory st))"

lemma replay_nothing: "replay_text fc [] = new_chat"
  by (simp add: replay_text_def split_lines_def List.map_filter_simps)

lemma store_load_eq:
  "store_load fc user chat st = (chat_of fc user chat st, if dget (st_memory st) (user, chat) = None
     then st\<lparr>st_memory := dset (user, chat) (chat_of fc user chat st) (st_memory st)\<rparr> else st)"
  by (auto simp: chat_of_def store_load_def Let_def split: option.split)

lemma chat_of_eq:
  "chat_of fc user chat st = (case dget (st_memory st) (user, chat) of Some s \<Rightarrow> s
     | None \<Rightarrow> if persistent chat then replay_text fc (chat_file_text fc user chat st) else new_chat)"
  by (auto simp: chat_of_def store_load_def Let_def chat_file_text_def replay_nothing split: option.split)

lemma file_of_records:
  assumes "store_ok fc st"
  obtains rs where "list_all (single_line fc) rs" "chat_file_text fc user chat st = records_text fc rs"
proof (cases "dget (st_files st) (chat_path fc user chat)")
  case None
  then show thesis using that [of "[]"] by (simp add: chat_file_text_def records_text_def)
next
  case (Some f)
  then obtain rs where "list_all (single_line fc) rs" "fl_text f = records_text fc rs" using assms unfolding store_ok_def by blast
  then show thesis using that Some by (simp add: chat_file_text_def)
qed

lemma chat_of_ok:
  assumes "reads_back fc" "store_ok fc st"
  shows "chat_ok (chat_of fc user chat st)" "persistent chat \<Longrightarrow> chat_of fc user chat st = replay_text fc (chat_file_text fc user chat st)"
proof -
  obtain rs where "list_all (single_line fc) rs" "chat_file_text fc user chat st = records_text fc rs" using file_of_records [OF assms(2)] .
  then have "chat_ok (replay_text fc (chat_file_text fc user chat st))" using replay_records [OF assms(1)] replayed_ok by metis
  then show "chat_ok (chat_of fc user chat st)" using assms(2) by (auto simp: chat_of_eq store_ok_def new_chat_ok split: option.split)
  show "persistent chat \<Longrightarrow> chat_of fc user chat st = replay_text fc (chat_file_text fc user chat st)"
    using assms(2) by (auto simp: chat_of_eq store_ok_def split: option.split)
qed

lemma path_same:
  assumes "reads_back fc"
  shows "chat_path fc user chat = chat_path fc user' chat' \<longleftrightarrow> user = user' \<and> chat = chat'"
  using assms by (auto simp: chat_path_def reads_back_def inj_def)

lemma store_ok_memory:
  assumes "store_ok fc st" "chat_ok s" "persistent chat \<Longrightarrow> s = replay_text fc (chat_file_text fc user chat st)"
  shows "store_ok fc (st\<lparr>st_memory := dset (user, chat) s (st_memory st)\<rparr>)"
  using assms by (auto simp: store_ok_def update_conv' chat_file_text_def distinct_update split: if_splits)

lemma store_load_ok:
  assumes "reads_back fc" "store_ok fc st"
  shows "store_ok fc (snd (store_load fc user chat st))"
  using assms store_ok_memory [OF assms(2) chat_of_ok(1) [OF assms] chat_of_ok(2) [OF assms]] by (simp add: store_load_eq)

lemma chat_of_load: "chat_of fc user' chat' (snd (store_load fc user chat st)) = chat_of fc user' chat' st"
  by (auto simp: store_load_eq chat_of_eq update_conv' chat_file_text_def split: option.split)

text \<open>An append in terms of the state of the chat.\<close>

lemma store_add_memory:
  "st_memory (store_add fc at_time user chat st r) =
     (let s = chat_of fc user chat st in
      if repeated r s then st_memory (snd (store_load fc user chat st)) else dset (user, chat) (apply_record r s) (st_memory (snd (store_load fc user chat st))))"
  by (simp add: store_add_def store_append_def Let_def chat_of_def case_prod_beta)

lemma store_add_files:
  "st_files (store_add fc at_time user chat st r) =
     (if repeated r (chat_of fc user chat st) \<or> \<not> persistent chat then st_files st
      else dset (chat_path fc user chat) \<lparr>fl_text = chat_file_text fc user chat st @ record_text fc r @ newline, fl_mtime = at_time\<rparr> (st_files st))"
proof -
  have "st_files (snd (store_load fc user chat st)) = st_files st" by (simp add: store_load_eq)
  then show ?thesis by (simp add: store_add_def store_append_def Let_def chat_of_def case_prod_beta chat_file_text_def)
qed

lemma file_of_add:
  assumes "reads_back fc"
  shows "chat_file_text fc user' chat' (store_add fc at_time user chat st r) =
    (if user' = user \<and> chat' = chat \<and> \<not> repeated r (chat_of fc user chat st) \<and> persistent chat
     then chat_file_text fc user chat st @ record_text fc r @ newline else chat_file_text fc user' chat' st)"
  using path_same [OF assms, of user' chat' user chat] by (auto simp: chat_file_text_def store_add_files update_conv')

lemma store_add_ok:
  assumes fc: "reads_back fc" and st: "store_ok fc st" and r: "single_line fc r"
  shows "store_ok fc (store_add fc at_time user chat st r)"
proof (cases "repeated r (chat_of fc user chat st)")
  case True
  then have "store_add fc at_time user chat st r = snd (store_load fc user chat st)"
    by (simp add: store_add_def store_append_def Let_def chat_of_def case_prod_beta)
  then show ?thesis using store_load_ok [OF fc st] by simp
next
  case False
  let ?s = "chat_of fc user chat st" and ?st' = "store_add fc at_time user chat st r"
  obtain rs where rs: "list_all (single_line fc) rs" "chat_file_text fc user chat st = records_text fc rs" using file_of_records [OF st] .
  have written: "records_text fc rs @ record_text fc r @ newline = records_text fc (rs @ [r])" by (simp add: records_text_def)
  have replay: "persistent chat \<Longrightarrow> apply_record r ?s = replay_text fc (chat_file_text fc user chat ?st')"
    using chat_of_ok(2) [OF fc st, of chat user] False rs r replay_records [OF fc]
    by (simp add: file_of_add [OF fc] written replayed_snoc)
  have load: "store_ok fc (snd (store_load fc user chat st))" by (rule store_load_ok [OF fc st])
  have mem: "dget (st_memory ?st') (u, c) = (if u = user \<and> c = chat then Some (apply_record r ?s) else dget (st_memory st) (u, c))" for u c
    using False by (auto simp: store_add_memory Let_def update_conv' store_load_eq)
  have "\<exists>rs. list_all (single_line fc) rs \<and> fl_text f = records_text fc rs" if f: "dget (st_files ?st') path = Some f" for path f
  proof (cases "persistent chat \<and> path = chat_path fc user chat")
    case True
    then have "fl_text f = records_text fc (rs @ [r])" using f False rs(2) written by (auto simp: store_add_files update_conv')
    then show ?thesis using rs(1) r by (intro exI [of _ "rs @ [r]"]) simp
  next
    case False
    then have "dget (st_files st) path = Some f" using f by (auto simp: store_add_files update_conv' split: if_splits)
    then show ?thesis using st unfolding store_ok_def by blast
  qed
  moreover have "s = replay_text fc (chat_file_text fc u c ?st')" if "dget (st_memory ?st') (u, c) = Some s" "persistent c" for u c s
    using that replay st by (auto simp: mem file_of_add [OF fc] store_ok_def split: if_splits)
  moreover have "chat_ok s" if "dget (st_memory ?st') (u, c) = Some s" for u c s
    using that st apply_record_ok [OF chat_of_ok(1) [OF fc st]] by (auto simp: mem store_ok_def split: if_splits)
  moreover have "distinct (dkeys (st_files ?st'))" "distinct (dkeys (st_memory ?st'))"
    using st load False by (auto simp: store_add_files store_add_memory Let_def distinct_update store_ok_def)
  ultimately show ?thesis unfolding store_ok_def by blast
qed

lemma chat_of_add:
  "chat_of fc user chat (store_add fc at_time user chat st r) =
     (let s = chat_of fc user chat st in if repeated r s then s else apply_record r s)"
proof -
  have "dget (st_memory (store_add fc at_time user chat st r)) (user, chat) = Some (let s = chat_of fc user chat st in if repeated r s then s else apply_record r s)"
    by (auto simp: store_add_memory Let_def update_conv' store_load_eq chat_of_eq split: option.split)
  then show ?thesis by (simp add: chat_of_eq [of fc user chat "store_add _ _ _ _ _ _"])
qed

section \<open>Runs of events\<close>

definition chat_event_ok :: "files_codec \<Rightarrow> store_event \<Rightarrow> bool" where
  "chat_event_ok fc ev \<longleftrightarrow> (case ev of Append at_time user chat r \<Rightarrow> single_line fc r | _ \<Rightarrow> True)"

text \<open>A prune that lets a chat be: its file is on the list, or too young.\<close>

definition spares :: "files_codec \<Rightarrow> string \<Rightarrow> string \<Rightarrow> store_event \<Rightarrow> bool" where
  "spares fc user chat ev \<longleftrightarrow> (case ev of Prune kept grace_seconds at_time \<Rightarrow> chat_path fc user chat \<in> set kept | _ \<Rightarrow> True)"

lemma dget_filter_keys: "distinct (dkeys d) \<Longrightarrow> dget (filter (\<lambda>x. P (fst x) (snd x)) d) k = (case dget d k of Some v \<Rightarrow> if P k v then Some v else None | None \<Rightarrow> None)"
  by (induction d) (auto split: option.splits simp: map_of_eq_None_iff)

lemma in_filtered_keys: "p \<in> set (map fst (filter G d)) \<longleftrightarrow> (\<exists>v. (p, v) \<in> set d \<and> G (p, v))"
  by force

lemma prune_store_files:
  assumes "distinct (dkeys (st_files st))"
  shows "dget (st_files (snd (prune_store fc kept grace_seconds at_time st))) path =
    (case dget (st_files st) path of Some f \<Rightarrow> if path \<notin> set kept \<and> grace_seconds \<le> at_time - fl_mtime f then None else Some f | None \<Rightarrow> None)"
  using dget_filter_keys [OF assms, of "\<lambda>name f. \<not> (name \<notin> set kept \<and> grace_seconds \<le> at_time - fl_mtime f)" path]
  by (auto simp: prune_store_def Let_def case_prod_beta' split: option.splits)

lemma prune_store_memory:
  assumes "store_ok fc st"
  shows "dget (st_memory (snd (prune_store fc kept grace_seconds at_time st))) (user, chat) =
    (case dget (st_memory st) (user, chat) of None \<Rightarrow> None
     | Some s \<Rightarrow> (case dget (st_files st) (chat_path fc user chat) of None \<Rightarrow> Some s
         | Some f \<Rightarrow> if chat_path fc user chat \<notin> set kept \<and> grace_seconds \<le> at_time - fl_mtime f then None else Some s))"
proof -
  let ?gone = "\<lambda>(name, f). name \<notin> set kept \<and> grace_seconds \<le> at_time - fl_mtime f"
  let ?removed = "map fst (filter ?gone (st_files st))" and ?path = "chat_path fc user chat"
  have files: "distinct (dkeys (st_files st))" and mem: "distinct (dkeys (st_memory st))" using assms by (auto simp: store_ok_def)
  have "?path \<in> set ?removed \<longleftrightarrow> (\<exists>f. dget (st_files st) ?path = Some f \<and> ?path \<notin> set kept \<and> grace_seconds \<le> at_time - fl_mtime f)"
  proof -
    have "?path \<in> set ?removed \<longleftrightarrow> (\<exists>f. (?path, f) \<in> set (st_files st) \<and> ?path \<notin> set kept \<and> grace_seconds \<le> at_time - fl_mtime f)"
      by (simp only: in_filtered_keys prod.case)
    then show ?thesis by (simp only: map_of_eq_Some_iff [OF files])
  qed
  then show ?thesis
    using dget_filter_keys [OF mem, of "\<lambda>key s. chat_path fc (fst key) (snd key) \<notin> set ?removed" "(user, chat)"]
    by (auto simp: prune_store_def Let_def case_prod_beta' split: option.splits)
qed

lemma prune_store_ok:
  assumes "store_ok fc st"
  shows "store_ok fc (snd (prune_store fc kept grace_seconds at_time st))"
proof -
  let ?st' = "snd (prune_store fc kept grace_seconds at_time st)"
  have files: "distinct (dkeys (st_files st))" and mem: "distinct (dkeys (st_memory st))" using assms by (auto simp: store_ok_def)
  have same: "chat_file_text fc user chat ?st' = chat_file_text fc user chat st \<and> dget (st_memory st) (user, chat) = Some s"
    if "dget (st_memory ?st') (user, chat) = Some s" for user chat s
    using that prune_store_files [OF files] prune_store_memory [OF assms]
    by (auto simp: chat_file_text_def split: option.splits if_splits)
  have "dget (st_files ?st') path = Some f \<Longrightarrow> dget (st_files st) path = Some f" for path f
    using prune_store_files [OF files] by (auto split: option.splits if_splits)
  moreover have "distinct (dkeys (st_files ?st'))" "distinct (dkeys (st_memory ?st'))"
    using files mem by (auto simp: prune_store_def Let_def distinct_map_filter)
  ultimately show ?thesis using same assms unfolding store_ok_def by metis
qed

lemma perform_ok:
  assumes "reads_back fc" "store_ok fc st" "chat_event_ok fc ev"
  shows "store_ok fc (perform fc ev st)"
proof (cases ev)
  case (Append at_time user chat r)
  then show ?thesis using store_add_ok [OF assms(1,2)] assms(3) by (simp add: chat_event_ok_def)
next
  case Restart
  then show ?thesis using assms(2) by (auto simp: store_ok_def)
qed (use store_load_ok [OF assms(1,2)] prune_store_ok [OF assms(2)] in auto)

lemma perform_all_ok:
  assumes "reads_back fc" "store_ok fc st" "list_all (chat_event_ok fc) evs"
  shows "store_ok fc (perform_all fc evs st)"
  using assms(2,3) unfolding perform_all_def
  by (induction evs arbitrary: st) (auto simp: perform_ok [OF assms(1)])

lemma empty_store_ok: "store_ok fc no_chats"
  by (simp add: store_ok_def no_chats_def)

lemma restart_same:
  assumes "reads_back fc" "store_ok fc st" "persistent chat"
  shows "chat_of fc user chat (st\<lparr>st_memory := []\<rparr>) = chat_of fc user chat st"
  using chat_of_ok(2) [OF assms] assms(3) by (simp add: chat_of_eq [of fc user chat "st\<lparr>st_memory := []\<rparr>"] chat_file_text_def)

lemma perform_chat:
  assumes fc: "reads_back fc" and st: "store_ok fc st" and ev: "chat_event_ok fc ev" "spares fc user chat ev" and chat: "persistent chat"
  shows "(\<exists>at_time r. ev = Append at_time user chat r \<and> \<not> repeated r (chat_of fc user chat st)
           \<and> chat_of fc user chat (perform fc ev st) = apply_record r (chat_of fc user chat st))
         \<or> chat_of fc user chat (perform fc ev st) = chat_of fc user chat st"
proof (cases ev)
  case (Append at_time user' chat' r)
  have ok: "store_ok fc (store_add fc at_time user' chat' st r)" using perform_ok [OF fc st ev(1)] Append by simp
  show ?thesis
  proof (cases "user' = user \<and> chat' = chat")
    case True
    then show ?thesis using Append chat_of_add [of fc user chat at_time st r] by (auto simp: Let_def)
  next
    case False
    then show ?thesis using chat_of_ok(2) [OF fc ok chat, of user] chat_of_ok(2) [OF fc st chat, of user] Append by (auto simp: file_of_add [OF fc])
  qed
next
  case (Prune kept grace_seconds at_time)
  have "distinct (dkeys (st_files st))" using st by (simp add: store_ok_def)
  then have "chat_file_text fc user chat (perform fc ev st) = chat_file_text fc user chat st"
    using ev(2) by (auto simp: Prune chat_file_text_def prune_store_files spares_def split: option.split)
  then show ?thesis using chat_of_ok(2) [OF fc perform_ok [OF fc st ev(1)] chat, of user] chat_of_ok(2) [OF fc st chat, of user] by simp
qed (use restart_same [OF fc st chat] chat_of_load in auto)

lemma perform_grows:
  assumes "reads_back fc" "store_ok fc st" "chat_event_ok fc ev" "spares fc user chat ev" "persistent chat"
  shows "grows (chat_of fc user chat st) (chat_of fc user chat (perform fc ev st))"
  using perform_chat [OF assms] apply_record_ok [OF chat_of_ok(1) [OF assms(1,2), of user chat]] grows_refl by auto

lemma perform_all_grows:
  assumes "reads_back fc" "store_ok fc st" "list_all (chat_event_ok fc) evs" "list_all (spares fc user chat) evs" "persistent chat"
  shows "grows (chat_of fc user chat st) (chat_of fc user chat (perform_all fc evs st))"
  using assms(2-4) unfolding perform_all_def
proof (induction evs arbitrary: st)
  case (Cons ev evs)
  then have "grows (chat_of fc user chat st) (chat_of fc user chat (perform fc ev st))" "store_ok fc (perform fc ev st)"
    using perform_grows [OF assms(1) _ _ _ assms(5)] perform_ok [OF assms(1)] by auto
  then show ?case using Cons grows_trans by fastforce
qed (simp add: grows_refl)

text \<open>
  C17. A chat lasts: whatever was appended, loaded and pruned, a process that starts anew reads from
  the file exactly the state the old process had in memory; and as long as pruning spares the chat,
  lines, commits, their final lines, groups and kept sections that are there never change or go. The
  records are those whose JSON text has no line break in it.\<close>

theorem chat_lasts:
  assumes "reads_back fc" "persistent chat" "list_all (chat_event_ok fc) (evs @ evs')" "list_all (spares fc user chat) evs'"
    and st: "st = perform_all fc evs no_chats"
  shows "chat_of fc user chat (perform fc Restart st) = chat_of fc user chat st
    \<and> grows (chat_of fc user chat st) (chat_of fc user chat (perform_all fc evs' st))"
proof -
  have "store_ok fc st" using perform_all_ok [OF assms(1) empty_store_ok] assms(3) st by simp
  then show ?thesis using restart_same [OF assms(1)] perform_all_grows [OF assms(1)] assms by simp
qed

section \<open>A turn that is asked again\<close>

lemma fit_loop_layout:
  assumes "ly = turn_layout cd bd ti (chat_of fc (ti_user ti) (ti_chat ti) st) ids"
    and "fit_loop n cd fc bd at_time ti ly st = (ly', st')"
  shows "\<exists>ids'. ly' = turn_layout cd bd ti (chat_of fc (ti_user ti) (ti_chat ti) st') ids'"
  using assms
proof (induction n arbitrary: ly st ids)
  case (Suc n)
  show ?case using Suc.prems Suc.IH [OF refl] by (auto simp: Let_def split: if_splits)
qed auto

definition settled :: "string \<Rightarrow> string \<Rightarrow> string \<Rightarrow> store_event \<Rightarrow> bool" where
  "settled user chat message ev \<longleftrightarrow> (case ev of Append at_time u c r \<Rightarrow> u = user \<longrightarrow> c = chat \<longrightarrow> (case r of Layout_record m fz \<Rightarrow> m \<noteq> message | _ \<Rightarrow> True) | _ \<Rightarrow> True)"

lemma apply_keeps_layout:
  assumes "case r of Layout_record m fz \<Rightarrow> m \<noteq> message | _ \<Rightarrow> True"
  shows "dget (ch_layouts (apply_record r s)) message = dget (ch_layouts s) message"
  using assms by (cases r) (auto simp: apply_line_record_def apply_commit_def apply_form_def apply_group_def apply_pending_def apply_expansion_def
      Let_def update_conv' split: option.splits)

lemma perform_all_layouts:
  assumes "reads_back fc" "store_ok fc st" "list_all (chat_event_ok fc) evs" "list_all (spares fc user chat) evs" "persistent chat"
    and "list_all (settled user chat message) evs"
  shows "dget (ch_layouts (chat_of fc user chat (perform_all fc evs st))) message = dget (ch_layouts (chat_of fc user chat st)) message"
  using assms(2-4,6) unfolding perform_all_def
proof (induction evs arbitrary: st)
  case (Cons ev evs)
  have "dget (ch_layouts (chat_of fc user chat (perform fc ev st))) message = dget (ch_layouts (chat_of fc user chat st)) message"
    using perform_chat [OF assms(1) Cons.prems(1) _ _ assms(5), of ev user] Cons.prems apply_keeps_layout by (auto simp: settled_def)
  then show ?case using Cons perform_ok [OF assms(1)] by simp
qed simp

lemma plan_turn_fresh:
  assumes "dget (ch_layouts (chat_of fc (ti_user ti) (ti_chat ti) st)) (ti_user_message ti) = None" "ti_user_message ti \<noteq> []"
    and "plan_turn cd fc bd at_time ti st = (ly, st1)"
  obtains s ids where "ly = turn_layout cd bd ti s ids" "chat_of fc (ti_user ti) (ti_chat ti) st1 =
    s\<lparr>ch_layouts := dset (ti_user_message ti) (freeze cd ti s ly) (ch_layouts s)\<rparr>"
proof -
  let ?chat = "chat_of fc (ti_user ti) (ti_chat ti)"
  obtain ids ly0 st0 where f: "fit cd fc bd at_time ti (turn_layout cd bd ti (?chat st) ids) st = (ly0, st0)"
    "ly = ly0" "st1 = store_add fc at_time (ti_user ti) (ti_chat ti) st0 (Layout_record (ti_user_message ti) (freeze cd ti (?chat st0) ly))"
    using assms(1,3) unfolding plan_turn_def by (auto simp: Let_def case_prod_beta prod_eq_iff)
  obtain ids' where "ly = turn_layout cd bd ti (?chat st0) ids'" using fit_loop_layout [OF refl f(1) [unfolded fit_def]] f(2) by blast
  then show thesis using that f(3) assms(2) by (simp add: chat_of_add Let_def)
qed


section \<open>A record that is torn\<close>

lemma lines_from_torn:
  assumes "\<forall>d\<in>set a. \<not> line_break d" "line_break c" "c \<noteq> CHR 0x0D"
  shows "lines_from acc (a @ c # t) = (acc @ a) # lines_from [] t"
  using assms(1)
proof (induction a arbitrary: acc)
  case Nil
  then show ?case using assms(2,3) by (cases t) auto
next
  case (Cons d a)
  then show ?case by (cases "a @ c # t") auto
qed

text \<open>
  C40. A record is lost when its JSON text holds a character that ends a line and that the printer
  does not escape (the next-line character; beyond Latin-1, the line and paragraph separators): the
  process that wrote it has it in memory, but the file is read line by line, neither half is JSON,
  both are passed over, and after a restart the chat is as if nothing had been written.\<close>

theorem torn_record_lost:
  assumes torn: "record_text fc r = a @ c # b" "line_break c" "c \<noteq> CHR 0x0D" "\<forall>d\<in>set (a @ b). \<not> line_break d"
    and halves: "read_record fc a = None" "read_record fc b = None"
    and "persistent chat" "\<not> repeated r new_chat" and st: "st = perform fc (Append at_time user chat r) no_chats"
  shows "chat_of fc user chat st = apply_record r new_chat \<and> chat_of fc user chat (perform fc Restart st) = new_chat"
proof -
  have empty: "chat_of fc user chat no_chats = new_chat" by (simp add: chat_of_def store_load_def no_chats_def Let_def)
  then have mem: "chat_of fc user chat st = apply_record r new_chat" using assms(8) by (simp add: st chat_of_add Let_def)
  have "chat_file_text fc user chat st = a @ c # b @ newline"
    using assms(7,8) empty by (simp add: st chat_file_text_def store_add_files torn(1) update_conv' no_chats_def)
  moreover have "lines_from [] (b @ CHR 0x0A # []) = [b]" using lines_from_line [of b "[]" "[]"] torn(4) by simp
  ultimately have "split_lines (chat_file_text fc user chat st) = [a, b]"
    using lines_from_torn [of a c "[]"] torn by (simp add: split_lines_def newline_def)
  then have "chat_of fc user chat (st\<lparr>st_memory := []\<rparr>) = new_chat"
    using assms(7) halves by (simp add: chat_of_eq replay_text_def chat_file_text_def List.map_filter_simps)
  with mem show ?thesis by simp
qed

end
