(* ===== verification/Memory_Fit.thy ===== *)
theory Memory_Fit
  imports Memory_Chats
begin

text \<open>
  The step before every answer that makes the prompt fit: when no two exchanges are equal, 64 rounds
  are enough to leave a prompt that fits or cannot be made smaller.
\<close>

section \<open>Labels of groups\<close>

lemma nat_text_length: "m < 10 ^ k \<Longrightarrow> 0 < k \<Longrightarrow> length (nat_text m) \<le> k"
proof (induction k arbitrary: m)
  case (Suc k)
  show ?case
  proof (cases "m < 10")
    case True
    then show ?thesis by (subst nat_text.simps) simp
  next
    case False
    then have k: "k \<noteq> 0" using Suc.prems by (cases k) auto
    moreover have "m div 10 < 10 ^ k" using Suc.prems by (auto intro: less_mult_imp_div_less simp: mult.commute)
    ultimately have "0 < k" "m div 10 < 10 ^ k" by simp_all
    then show ?thesis using Suc.IH [of "m div 10"] False by (subst nat_text.simps) simp
  qed
qed simp

lemma nat_text_lead: "0 < m \<Longrightarrow> hd (nat_text m) \<noteq> CHR ''0''"
proof (induction m rule: nat_text.induct)
  case (1 m)
  show ?case
  proof (cases "m < 10")
    case True
    have "code_of (char_of (48 + m)) = 48 + m" using digit_char(2) [OF True] .
    moreover have "code_of CHR ''0'' = 48" by (simp add: code_of_def)
    ultimately have "char_of (48 + m) \<noteq> CHR ''0''" using 1(2) by (metis add_cancel_left_right less_irrefl)
    then show ?thesis using True by (subst nat_text.simps) simp
  next
    case False
    then have "hd (nat_text (m div 10)) \<noteq> CHR ''0''" using 1 by simp
    then show ?thesis using False nat_text_spec [of "m div 10"] by (subst nat_text.simps) simp
  qed
qed

lemma GROUP_ID_group_id:
  assumes "0 < m" "m < 10 ^ 6"
  shows "GROUP_ID (group_id m) = Some m"
proof -
  note t = nat_text_spec [of m]
  have "\<not> digit CHR 0x0A" by (simp add: digit_def code_of_def)
  moreover have "digit (last (nat_text m))" using t last_in_set [of "nat_text m"] by (auto simp: list_all_iff)
  ultimately have "last (nat_text m) \<noteq> CHR 0x0A" by metis
  then have "chomp (group_id m) = group_id m" using t by (simp add: chomp_def group_id_def)
  then show ?thesis using t nat_text_length [OF assms(2)] nat_text_lead [OF assms(1)]
    by (simp add: GROUP_ID_def label_number_def group_id_def counting_def)
qed

lemma max_list_top: "\<forall>x\<in>set xs. x \<le> y \<Longrightarrow> max_list (xs @ [y]) = Some y"
  by (induction xs) (auto simp: max_def)

lemma next_group_above: "gid \<in> set (dkeys gs) \<Longrightarrow> group_number gid < next_group gs"
proof -
  assume g: "gid \<in> set (dkeys gs)"
  then obtain y where "max_list (map group_number (dkeys gs)) = Some y" using max_list_None by (metis length_map length_pos_if_in_set less_irrefl list.size(3) not_Some_eq)
  then show ?thesis using max_list_Some [of _ y] g by (fastforce simp: next_group_def)
qed

lemma sort_key_snoc:
  assumes "\<forall>y\<in>set xs. f y \<le> f x"
  shows "sort_key f (xs @ [x]) = sort_key f xs @ [x]"
proof (rule properties_for_sort_key)
  show "mset (sort_key f xs @ [x]) = mset (xs @ [x])" by simp
  show "filter (\<lambda>y. f k = f y) (sort_key f xs @ [x]) = filter (\<lambda>y. f k = f y) (xs @ [x])" for k
    using sort_key_stable [of f "f k" xs] by (simp add: eq_commute)
  show "sorted (map f (sort_key f xs @ [x]))" using assms by (auto simp: sorted_append)
qed

lemma fold_groups_snoc:
  assumes "\<forall>gid'\<in>set (dkeys gs). group_number gid' \<le> group_number gid"
  shows "fold_groups (gs @ [(gid, g)]) None nodes = fold_group gid g (fold_groups gs None nodes)"
  using assms by (simp add: fold_groups_def sort_key_snoc case_prod_beta')

lemma fold_front:
  assumes "1 < m" "m \<le> length nodes" "gr_members g = map nd_ref (take m nodes)"
  shows "fold_group gid g nodes = group_node gid (gr_line g) (take m nodes) # drop m nodes"
proof -
  have "[0..<Suc (length nodes) - m] = 0 # [1..<Suc (length nodes) - m]" using assms(2) by (simp add: upt_conv_Cons)
  then have "run_start nodes (gr_members g) = Some 0" using assms by (simp add: run_start_def take_map)
  then show ?thesis using assms by (simp add: fold_group_def Let_def)
qed

lemma fold_groups_length: "length (fold_groups gs allowed nodes) \<le> length nodes"
proof -
  have one: "length (fold_group gid g ns) \<le> length ns" for gid g ns
    by (cases rule: fold_group_cases [of gid g ns]) auto
  have "length (foldl (\<lambda>ns (gid, g). if ok gid then fold_group gid g ns else ns) nodes xs) \<le> length nodes" for ok and xs :: "(string \<times> group) list"
  proof (induction xs arbitrary: nodes)
    case (Cons x xs)
    then show ?case using one order_trans by (cases x) fastforce
  qed simp
  then show ?thesis by (simp add: fold_groups_def)
qed

section \<open>What is in the ledger\<close>

definition lined :: "chat_state \<Rightarrow> string \<Rightarrow> bool" where
  "lined s key \<longleftrightarrow> key \<in> set (ch_commits s) \<and> dget (ledger_lines s) key \<noteq> None"

definition no_twins :: "codec \<Rightarrow> exchange list \<Rightarrow> bool" where
  "no_twins cd xs \<longleftrightarrow> inj_on (\<lambda>i. exchange_key cd (xs ! i)) {..<length xs} \<and> (\<forall>x\<in>set xs. exchange_key cd x \<noteq> [])"

lemma commit_fold_set:
  assumes "no_twins cd xs" "set order \<subseteq> {..<length xs}"
  shows "set (foldl (commit_next cd xs) order commits) = set order \<union> {i. i < length xs \<and> exchange_key cd (xs ! i) \<in> set commits}"
  using assms(2)
proof (induction commits arbitrary: order)
  case (Cons key commits)
  show ?case
  proof (cases rule: commit_next_cases [of cd xs order key])
    case 1
    have "i \<in> set order" if "i < length xs" "exchange_key cd (xs ! i) = key" for i
    proof (rule ccontr)
      assume "i \<notin> set order"
      with that have "find (\<lambda>i. exchange_key cd (xs ! i) = key \<and> i \<notin> set order) [0..<length xs] \<noteq> None" by (auto simp: find_None_iff)
      then show False using 1 by (auto simp: commit_next_def split: option.splits)
    qed
    then have "{i. i < length xs \<and> exchange_key cd (xs ! i) \<in> set (key # commits)} \<union> set order
      = {i. i < length xs \<and> exchange_key cd (xs ! i) \<in> set commits} \<union> set order" by auto
    then show ?thesis unfolding foldl_Cons 1 Cons.IH [OF Cons.prems] by (simp only: Un_commute)
  next
    case (2 i)
    have "j < length xs \<and> exchange_key cd (xs ! j) = key \<longleftrightarrow> j = i" for j
      using 2(2,4) assms(1) unfolding no_twins_def inj_on_def by (metis lessThan_iff)
    then have "{i. i < length xs \<and> exchange_key cd (xs ! i) \<in> set (key # commits)} = insert i {i. i < length xs \<and> exchange_key cd (xs ! i) \<in> set commits}"
      by (simp only: list.set insert_iff conj_disj_distribL insert_compr mem_Collect_eq)
    moreover have "set (order @ [i]) \<subseteq> {..<length xs}" using Cons.prems 2(2) by simp
    ultimately show ?thesis unfolding foldl_Cons 2(1) by (simp only: Cons.IH) auto
  qed
qed simp

lemma ledger_order_set:
  assumes "no_twins cd xs"
  shows "set (ledger_order cd xs (ledger_lines s) (ch_commits s)) = {i. i < length xs \<and> lined s (exchange_key cd (xs ! i))}"
  using commit_fold_set [OF assms, of "[]" "ch_commits s"] by (auto simp: ledger_order_def committed_order_def lined_def)

lemma working_lined:
  assumes "no_twins cd (ti_exchanges ti)"
  shows "ly_working (turn_layout cd bd ti s ids) = filter (\<lambda>i. \<not> lined s (exchange_key cd (ti_exchanges ti ! i))) [0..<length (ti_exchanges ti)]"
  unfolding turn_layout_def build_layout_sel ledger_order_set [OF assms] by (intro filter_cong) auto

lemma nodes_bound: "length (ly_nodes (turn_layout cd bd ti s ids)) \<le> length (ti_exchanges ti)"
proof -
  let ?order = "ledger_order cd (ti_exchanges ti) (ledger_lines s) (ch_commits s)"
  have "length ?order = card (set ?order)" using ledger_order_ok(1) by (metis distinct_card)
  also have "\<dots> \<le> card {..<length (ti_exchanges ti)}" by (intro card_mono ledger_order_ok(2)) simp
  finally have "length ?order \<le> length (ti_exchanges ti)" by simp
  moreover have "length (ledger_nodes cd (ti_exchanges ti) (ledger_lines s) (ch_groups s) ?order None) \<le> length ?order"
    unfolding ledger_nodes_def using fold_groups_length by (metis length_map)
  ultimately show ?thesis unfolding turn_layout_def build_layout_sel by linarith
qed

section \<open>A round of commits\<close>

definition add_record :: "chat_record \<Rightarrow> chat_state \<Rightarrow> chat_state" where
  "add_record r s = (if repeated r s then s else apply_record r s)"

definition commit_in :: "codec \<Rightarrow> exchange list \<Rightarrow> chat_state \<Rightarrow> nat \<Rightarrow> chat_state" where
  "commit_in cd xs s i = (let key = exchange_key cd (xs ! i) in
     add_record (Commit_record key None ''fit'')
       (if dget (ch_lines s) key = None then add_record (Line_record key (fallback_line (xs ! i)) ''fit'') s else s))"

lemma chat_of_add_record: "chat_of fc user chat (store_add fc at_time user chat st r) = add_record r (chat_of fc user chat st)"
  by (simp add: chat_of_add add_record_def Let_def)

lemma add_record_ok: "chat_ok s \<Longrightarrow> chat_ok (add_record r s)"
  using apply_record_ok by (simp add: add_record_def)

lemma chat_of_fit_commit:
  "chat_of fc (ti_user ti) (ti_chat ti) (fit_commit cd fc at_time ti st i) = commit_in cd (ti_exchanges ti) (chat_of fc (ti_user ti) (ti_chat ti) st) i"
  by (simp add: fit_commit_def commit_in_def Let_def chat_of_add_record)

lemma chat_of_fit_commits:
  "chat_of fc (ti_user ti) (ti_chat ti) (foldl (fit_commit cd fc at_time ti) st is)
   = foldl (commit_in cd (ti_exchanges ti)) (chat_of fc (ti_user ti) (ti_chat ti) st) is"
  by (induction "is" arbitrary: st) (simp_all add: chat_of_fit_commit)

lemma commit_in_lined:
  assumes "chat_ok s" "exchange_key cd (xs ! i) \<noteq> []"
  shows "chat_ok (commit_in cd xs s i) \<and> ch_groups (commit_in cd xs s i) = ch_groups s
    \<and> (\<forall>k. lined (commit_in cd xs s i) k \<longleftrightarrow> lined s k \<or> k = exchange_key cd (xs ! i))"
proof -
  let ?key = "exchange_key cd (xs ! i)"
  define s1 where "s1 = (if dget (ch_lines s) ?key = None then add_record (Line_record ?key (fallback_line (xs ! i)) ''fit'') s else s)"
  have s1: "chat_ok s1" "ch_groups s1 = ch_groups s" "ch_commits s1 = ch_commits s" "ch_committed s1 = ch_committed s" "ch_final s1 = ch_final s"
    "dget (ch_lines s1) ?key \<noteq> None" "\<And>k. k \<noteq> ?key \<Longrightarrow> dget (ch_lines s1) k = dget (ch_lines s) k"
    using assms apply_record_ok [OF assms(1), of "Line_record ?key (fallback_line (xs ! i)) ''fit''"]
    by (auto simp: s1_def add_record_def apply_line_record_def update_conv')
  have c: "commit_in cd xs s i = add_record (Commit_record ?key None ''fit'') s1" by (simp add: commit_in_def s1_def Let_def)
  have ok: "chat_ok (add_record (Commit_record ?key None ''fit'') s1)" by (rule add_record_ok [OF s1(1)])
  have f: "set (ch_commits (add_record (Commit_record ?key None ''fit'') s1)) = insert ?key (set (ch_commits s))"
    "ch_final (add_record (Commit_record ?key None ''fit'') s1) = ch_final s" "ch_lines (add_record (Commit_record ?key None ''fit'') s1) = ch_lines s1"
    "ch_groups (add_record (Commit_record ?key None ''fit'') s1) = ch_groups s"
    using s1 assms by (auto simp: add_record_def apply_commit_def Let_def chat_ok_def)
  have "lined (add_record (Commit_record ?key None ''fit'') s1) k \<longleftrightarrow> lined s k \<or> k = ?key" for k
    unfolding lined_def f(1) ledger_lines_get [OF ok] ledger_lines_get [OF assms(1)] f(2,3) using s1(6) s1(7) [of k]
    by (cases "k = ?key") (auto split: option.split)
  then show ?thesis unfolding c using ok f(4) by blast
qed

lemma commits_in_lined:
  assumes "chat_ok s" "no_twins cd xs" "set is \<subseteq> {..<length xs}"
  shows "chat_ok (foldl (commit_in cd xs) s is) \<and> ch_groups (foldl (commit_in cd xs) s is) = ch_groups s
    \<and> (\<forall>i<length xs. lined (foldl (commit_in cd xs) s is) (exchange_key cd (xs ! i)) \<longleftrightarrow> lined s (exchange_key cd (xs ! i)) \<or> i \<in> set is)"
  using assms(1,3)
proof (induction "is" arbitrary: s)
  case (Cons j js)
  have j: "j < length xs" "exchange_key cd (xs ! j) \<noteq> []" using Cons.prems assms(2) by (auto simp: no_twins_def)
  have "exchange_key cd (xs ! i) = exchange_key cd (xs ! j) \<longleftrightarrow> i = j" if "i < length xs" for i
    using that j assms(2) unfolding no_twins_def inj_on_def by (metis lessThan_iff)
  then show ?case using Cons.IH [of "commit_in cd xs s j"] Cons.prems commit_in_lined [OF Cons.prems(1) j(2)] by auto
qed simp

lemma filter_not_taken:
  assumes "distinct xs"
  shows "filter (\<lambda>x. x \<notin> set (take t xs)) xs = drop t xs"
proof -
  have "filter (\<lambda>x. x \<notin> set (take t xs)) xs = filter (\<lambda>x. x \<notin> set (take t xs)) (take t xs) @ filter (\<lambda>x. x \<notin> set (take t xs)) (drop t xs)"
    by (metis append_take_drop_id filter_append)
  also have "\<dots> = drop t xs"
    using set_take_disj_set_drop_if_distinct [OF assms, of t t] by (auto simp: filter_empty_conv intro!: filter_True)
  finally show ?thesis .
qed

lemma working_after_commits:
  assumes "chat_ok s" "no_twins cd (ti_exchanges ti)" "ly = turn_layout cd bd ti s ids" "t \<le> length (ly_working ly)"
  shows "ly_working (turn_layout cd bd ti (foldl (commit_in cd (ti_exchanges ti)) s (take t (ly_working ly))) ids') = drop t (ly_working ly)"
proof -
  let ?xs = "ti_exchanges ti" and ?w = "ly_working ly"
  have w: "?w = filter (\<lambda>i. \<not> lined s (exchange_key cd (?xs ! i))) [0..<length ?xs]" using working_lined [OF assms(2)] assms(3) by blast
  have sub: "set (take t ?w) \<subseteq> {..<length ?xs}" using set_take_subset [of t ?w] by (auto simp: w)
  have "ly_working (turn_layout cd bd ti (foldl (commit_in cd ?xs) s (take t ?w)) ids') = filter (\<lambda>i. i \<notin> set (take t ?w)) ?w"
    unfolding working_lined [OF assms(2)] using commits_in_lined [OF assms(1,2) sub] by (subst (3) w) (auto intro!: filter_cong)
  also have "\<dots> = drop t ?w" by (rule filter_not_taken) (simp add: w)
  finally show ?thesis .
qed

section \<open>A round that folds\<close>

lemma chat_of_fit_group:
  fixes ti :: turn_input
  assumes ok: "chat_ok s" "s = chat_of fc (ti_user ti) (ti_chat ti) st" and nodes: "2 \<le> length nodes" and room: "next_group (ch_groups s) < 10 ^ 6"
  shows "\<exists>g. gr_members g = map nd_ref (take (max 2 (length nodes div 2)) nodes)
    \<and> chat_of fc (ti_user ti) (ti_chat ti) (fit_group fc at_time ti st nodes)
      = s\<lparr>ch_groups := ch_groups s @ [(group_id (next_group (ch_groups s)), g)]\<rparr>"
proof -
  let ?gid = "group_id (next_group (ch_groups s))"
  have "0 < next_group (ch_groups s)" by (simp add: next_group_def)
  then have gid: "GROUP_ID ?gid = Some (next_group (ch_groups s))" using GROUP_ID_group_id room by blast
  then have "group_number ?gid = next_group (ch_groups s)" by (simp add: group_number_def)
  then have "?gid \<notin> set (dkeys (ch_groups s))" using next_group_above by fastforce
  then have "dget (ch_groups s) ?gid = None" by (simp add: map_of_eq_None_iff)
  then show ?thesis using gid unfolding fit_group_def Let_def chat_of_add_record ok(2) [symmetric]
    by (intro exI [of _ "\<lparr>gr_members = _, gr_line = _, gr_source = _\<rparr>"]) (simp add: add_record_def apply_group_def dset_absent)
qed

lemma layout_after_group:
  assumes "chat_ok s" "2 \<le> length (ly_nodes ly)" "next_group (ch_groups s) < 10 ^ 6" "ly = turn_layout cd bd ti s ids"
    and g: "gr_members g = map nd_ref (take (max 2 (length (ly_nodes ly) div 2)) (ly_nodes ly))"
    and s': "s' = s\<lparr>ch_groups := ch_groups s @ [(group_id (next_group (ch_groups s)), g)]\<rparr>"
  shows "chat_ok s'" "next_group (ch_groups s') = Suc (next_group (ch_groups s))"
    "ly_working (turn_layout cd bd ti s' ids') = ly_working ly"
    "length (ly_nodes (turn_layout cd bd ti s' ids')) = length (ly_nodes ly) - max 2 (length (ly_nodes ly) div 2) + 1"
proof -
  let ?gid = "group_id (next_group (ch_groups s))" and ?n = "next_group (ch_groups s)" and ?m = "max 2 (length (ly_nodes ly) div 2)"
  have "0 < ?n" by (simp add: next_group_def)
  then have gid: "GROUP_ID ?gid = Some ?n" using GROUP_ID_group_id assms(3) by blast
  then have num: "group_number ?gid = ?n" by (simp add: group_number_def)
  then have new: "?gid \<notin> set (dkeys (ch_groups s))" using next_group_above by fastforce
  show "chat_ok s'" using assms(1) new gid by (auto simp: s' chat_ok_def)
  have above: "\<forall>gid'\<in>set (dkeys (ch_groups s)). group_number gid' \<le> group_number ?gid" using next_group_above num by fastforce
  show "next_group (ch_groups s') = Suc ?n"
    using max_list_top [of "map group_number (dkeys (ch_groups s))" ?n] above num by (simp add: s' next_group_def [of "_ @ _"])
  have lines: "ledger_lines s' = ledger_lines s" "ch_commits s' = ch_commits s" by (simp_all add: s' ledger_lines_def)
  show "ly_working (turn_layout cd bd ti s' ids') = ly_working ly" unfolding assms(4) turn_layout_def build_layout_sel lines ..
  let ?order = "ledger_order cd (ti_exchanges ti) (ledger_lines s) (ch_commits s)"
  have "ly_nodes (turn_layout cd bd ti s' ids') = fold_group ?gid g (ly_nodes ly)"
    unfolding assms(4) turn_layout_def build_layout_sel lines ledger_nodes_def by (simp add: s' fold_groups_snoc [OF above])
  also have "\<dots> = group_node ?gid (gr_line g) (take ?m (ly_nodes ly)) # drop ?m (ly_nodes ly)"
    using assms(2) g by (intro fold_front) auto
  finally show "length (ly_nodes (turn_layout cd bd ti s' ids')) = length (ly_nodes ly) - ?m + 1" by simp
qed

section \<open>The loop\<close>

definition slim :: "prompt_layout \<Rightarrow> bool" where
  "slim ly \<longleftrightarrow> ly_open ly = [] \<and> length (ly_working ly) \<le> 1 \<and> length (ly_nodes ly) \<le> 1"

lemma turn_layout_closed: "ly_open (turn_layout cd bd ti s []) = []"
  by (simp add: turn_layout_def build_layout_sel shown_nodes_def)

lemma fold_rounds:
  assumes "2 \<le> (n::nat)" "n \<le> 2 ^ k + 2" "k + 2 \<le> Suc fuel"
  defines "n' \<equiv> n - max 2 (n div 2) + 1"
  shows "n' \<le> 1 \<or> n' \<le> 2 \<and> 1 \<le> fuel \<or> (\<exists>j. n' \<le> 2 ^ j + 2 \<and> j + 2 \<le> fuel)"
proof (cases k)
  case 0
  then have "n = 2 \<or> n = 3" using assms by auto
  then show ?thesis using assms 0 by auto
next
  case (Suc j)
  then have "n \<le> 2 * 2 ^ j + 2" using assms(2) by simp
  then have "n' \<le> 2 ^ j + 2" using assms(1) unfolding n'_def by (simp add: max_def) linarith
  then show ?thesis using Suc assms(3) by auto
qed

lemma fit_groups_slim:
  assumes "ly = turn_layout cd bd ti (chat_of fc (ti_user ti) (ti_chat ti) st) ids" "chat_ok (chat_of fc (ti_user ti) (ti_chat ti) st)"
    and "ly_open ly = []" "length (ly_working ly) \<le> 1" "next_group (ch_groups (chat_of fc (ti_user ti) (ti_chat ti) st)) + fuel \<le> 10 ^ 6"
    and "length (ly_nodes ly) \<le> 1 \<or> length (ly_nodes ly) \<le> 2 \<and> 1 \<le> fuel \<or> (\<exists>k. length (ly_nodes ly) \<le> 2 ^ k + 2 \<and> k + 2 \<le> fuel)"
  shows "fits cd bd ti (fst (fit_loop fuel cd fc bd at_time ti ly st)) \<or> slim (fst (fit_loop fuel cd fc bd at_time ti ly st))"
  using assms
proof (induction fuel arbitrary: ly st ids)
  case 0
  then show ?case by (auto simp: slim_def)
next
  case (Suc fuel)
  let ?chat = "chat_of fc (ti_user ti) (ti_chat ti)" and ?n = "length (ly_nodes ly)"
  have none: "butlast (ly_working ly) = []" using Suc.prems(4) by (cases "ly_working ly") auto
  consider "fits cd bd ti ly" | "\<not> fits cd bd ti ly" "?n < 2" | "\<not> fits cd bd ti ly" "2 \<le> ?n" by linarith
  then show ?case
  proof cases
    case 2
    then show ?thesis using Suc.prems(3,4) none by (simp add: slim_def)
  next
    case 3
    let ?st' = "fit_group fc at_time ti st (ly_nodes ly)"
    let ?ly' = "turn_layout cd bd ti (?chat ?st') []"
    have room: "next_group (ch_groups (?chat st)) < 10 ^ 6" using Suc.prems(5) by simp
    obtain g where g: "gr_members g = map nd_ref (take (max 2 (?n div 2)) (ly_nodes ly))"
      "?chat ?st' = (?chat st)\<lparr>ch_groups := ch_groups (?chat st) @ [(group_id (next_group (ch_groups (?chat st))), g)]\<rparr>"
      using chat_of_fit_group [OF Suc.prems(2) refl 3(2) room] by blast
    note after = layout_after_group [OF Suc.prems(2) 3(2) room Suc.prems(1) g]
    have "length (ly_nodes ?ly') \<le> 1 \<or> length (ly_nodes ?ly') \<le> 2 \<and> 1 \<le> fuel \<or> (\<exists>k. length (ly_nodes ?ly') \<le> 2 ^ k + 2 \<and> k + 2 \<le> fuel)"
      using Suc.prems(6) 3(2) fold_rounds [of ?n _ fuel] unfolding after(4) by (elim disjE exE conjE) auto
    moreover have "fit_loop (Suc fuel) cd fc bd at_time ti ly st = fit_loop fuel cd fc bd at_time ti ?ly' ?st'"
      using 3 none Suc.prems(3) by (simp add: Let_def)
    ultimately show ?thesis using Suc.IH [OF refl after(1) turn_layout_closed] after Suc.prems(4,5) by simp
  qed simp
qed

lemma fit_commits_slim:
  assumes "ly = turn_layout cd bd ti (chat_of fc (ti_user ti) (ti_chat ti) st) ids" "chat_ok (chat_of fc (ti_user ti) (ti_chat ti) st)"
    and twins: "no_twins cd (ti_exchanges ti)" and size: "length (ti_exchanges ti) \<le> 2 ^ g + 2"
    and "ly_open ly = []" "next_group (ch_groups (chat_of fc (ti_user ti) (ti_chat ti) st)) + fuel \<le> 10 ^ 6"
    and "length (ly_working ly) \<le> 1 \<and> g + 2 \<le> fuel \<or> (\<exists>k. length (ly_working ly) \<le> Suc (2 ^ k) \<and> k + 1 + (g + 2) \<le> fuel)"
  shows "fits cd bd ti (fst (fit_loop fuel cd fc bd at_time ti ly st)) \<or> slim (fst (fit_loop fuel cd fc bd at_time ti ly st))"
  using assms(1,2,5-7)
proof (induction fuel arbitrary: ly st ids)
  case (Suc fuel)
  let ?chat = "chat_of fc (ti_user ti) (ti_chat ti)" and ?w = "ly_working ly"
  have nodes: "length (ly_nodes ly) \<le> 2 ^ g + 2" using nodes_bound size Suc.prems(1) order_trans by blast
  show ?case
  proof (cases "fits cd bd ti ly \<or> length ?w \<le> 1")
    case True
    have fuel: "g + 2 \<le> Suc fuel" using Suc.prems(5) by auto
    show ?thesis
    proof (cases "fits cd bd ti ly")
      case False
      then have "length ?w \<le> 1" using True by simp
      then show ?thesis using fit_groups_slim [OF Suc.prems(1-3) _ Suc.prems(4)] nodes fuel by blast
    qed simp
  next
    case False
    let ?c = "butlast ?w"
    let ?t = "max 1 (length ?c div 2)"
    let ?st' = "foldl (fit_commit cd fc at_time ti) st (take ?t ?c)"
    let ?ly' = "turn_layout cd bd ti (?chat ?st') []"
    have c: "?c \<noteq> []" "length ?c = length ?w - 1" using False by (cases ?w; simp)+
    have t: "?t \<le> length ?c" using c(2) False by (auto simp: max_def)
    have same: "take ?t ?c = take ?t ?w" using t c(2) False by (intro take_butlast) linarith
    have chat: "?chat ?st' = foldl (commit_in cd (ti_exchanges ti)) (?chat st) (take ?t ?w)" unfolding same by (rule chat_of_fit_commits)
    have work: "ly_working ?ly' = drop ?t ?w"
      unfolding chat using t c(2) by (intro working_after_commits [OF Suc.prems(2) twins Suc.prems(1)]) linarith
    have sub: "set (take ?t ?w) \<subseteq> {..<length (ti_exchanges ti)}"
      using working_lined [OF twins] Suc.prems(1) set_take_subset [of ?t ?w] by fastforce
    have ok: "chat_ok (?chat ?st')" "ch_groups (?chat ?st') = ch_groups (?chat st)"
      unfolding chat using commits_in_lined [OF Suc.prems(2) twins sub] by blast+
    obtain k where k: "length ?w \<le> Suc (2 ^ k)" "k + 1 + (g + 2) \<le> Suc fuel" using Suc.prems(5) False by auto
    have "length (ly_working ?ly') \<le> 1 \<and> g + 2 \<le> fuel \<or> (\<exists>j. length (ly_working ?ly') \<le> Suc (2 ^ j) \<and> j + 1 + (g + 2) \<le> fuel)"
    proof (cases k)
      case 0
      then show ?thesis using k work c False by (auto simp: max_def)
    next
      case (Suc j)
      then have "length ?c \<le> 2 * 2 ^ j" using k(1) c(2) by simp
      then have "length ?w - ?t \<le> Suc (2 ^ j)" using c(2) False by (simp add: max_def) linarith
      then show ?thesis using Suc k(2) work by (intro disjI2 exI [of _ j]) simp
    qed
    moreover have "fit_loop (Suc fuel) cd fc bd at_time ti ly st = fit_loop fuel cd fc bd at_time ti ?ly' ?st'"
      using False c(1) Suc.prems(3) by (simp add: Let_def)
    ultimately show ?thesis using Suc.IH [OF refl ok(1) turn_layout_closed] ok(2) Suc.prems(4) by simp
  qed
qed simp

text \<open>
  C14. The step that makes a prompt fit succeeds: when no two exchanges of the conversation are equal,
  its 64 rounds leave a prompt that fits the model's budget, or one that holds no more than the
  question, one exchange and one line of the ledger, with nothing shown for reference. Conversations
  have at most a billion exchanges here, and the numbers of groups stay within six digits.\<close>

theorem fit_settles:
  assumes "no_twins cd (ti_exchanges ti)" "length (ti_exchanges ti) \<le> 2 ^ 30"
    and "chat_ok (chat_of fc (ti_user ti) (ti_chat ti) st)" "next_group (ch_groups (chat_of fc (ti_user ti) (ti_chat ti) st)) + 64 \<le> 10 ^ 6"
    and ly: "ly = turn_layout cd bd ti (chat_of fc (ti_user ti) (ti_chat ti) st) ids"
  shows "fits cd bd ti (fst (fit cd fc bd at_time ti ly st)) \<or> slim (fst (fit cd fc bd at_time ti ly st))"
proof -
  let ?chat = "chat_of fc (ti_user ti) (ti_chat ti)"
  have w: "length (ly_working (turn_layout cd bd ti (?chat st) ids')) \<le> Suc (2 ^ 30)" for ids'
  proof -
    have "length (ly_working (turn_layout cd bd ti (?chat st) ids')) \<le> length (ti_exchanges ti)"
      unfolding working_lined [OF assms(1)] by (metis diff_zero length_filter_le length_upt)
    then show ?thesis using assms(2) by simp
  qed
  have closed: "fits cd bd ti (fst (fit_loop fuel cd fc bd at_time ti (turn_layout cd bd ti (?chat st) ids') st))
      \<or> slim (fst (fit_loop fuel cd fc bd at_time ti (turn_layout cd bd ti (?chat st) ids') st))"
    if "ly_open (turn_layout cd bd ti (?chat st) ids') = []" "63 \<le> fuel" "fuel \<le> 64" for ids' fuel
  proof (rule fit_commits_slim [OF refl assms(3,1) _ that(1), of 30])
    show "length (ti_exchanges ti) \<le> 2 ^ 30 + 2" using assms(2) by linarith
    show "next_group (ch_groups (?chat st)) + fuel \<le> 10 ^ 6" using that(3) assms(4) by linarith
    have "30 + 1 + (30 + 2) \<le> fuel" using that(2) by simp
    with w [of ids'] show "length (ly_working (turn_layout cd bd ti (?chat st) ids')) \<le> 1 \<and> 30 + 2 \<le> fuel
      \<or> (\<exists>k. length (ly_working (turn_layout cd bd ti (?chat st) ids')) \<le> Suc (2 ^ k) \<and> k + 1 + (30 + 2) \<le> fuel)" by blast
  qed
  have s64: "(64::nat) = Suc 63" by simp
  show ?thesis
  proof (cases "ly_open ly = []")
    case True
    then show ?thesis using closed [of ids 64] ly by (simp add: fit_def)
  next
    case False
    then show ?thesis using closed [of "[]" 63] turn_layout_closed unfolding fit_def s64 fit_loop.simps(2) by (simp add: Let_def)
  qed
qed

end
