(* ===== verification/Memory_Samples.thy ===== *)
theory Memory_Samples
  imports Memory_Forms Memory_Fit
begin

text \<open>
  A small conversation on which the memory is evaluated, with concrete functions for the JSON texts,
  the digests and the tokenizer, and the conversation in which the step that makes a prompt fit gets stuck.
\<close>

section \<open>The sample\<close>

definition memory_codec :: codec where
  "memory_codec = \<lparr>loads = (\<lambda>t. None), dumps = (\<lambda>v. ''?''), dumps_sorted = (\<lambda>v. ''?''),
     messages_digest = (\<lambda>ms. concat (map (\<lambda>(role, t, calls, name). t) ms)), part_digest = (\<lambda>(name, arguments, t). t),
     repr_text = (\<lambda>t. t), calls_text = (\<lambda>cs. ''?''), memory_count = length, system_note = ''note''\<rparr>"

definition memory_exchange :: "string \<Rightarrow> string \<Rightarrow> exchange" where
  "memory_exchange u a = [said user_role u, said assistant_role a]"

definition memory_turn :: "exchange list \<Rightarrow> turn_input" where
  "memory_turn xs = \<lparr>ti_user = ''u'', ti_chat = ''c1'', ti_user_message = ''m1'', ti_parent = None, ti_message = Some ''m2'',
     ti_leading = [], ti_exchanges = xs, ti_current = [said user_role ''now''], ti_tools = ''tools''\<rparr>"

definition memory_budgets :: "nat \<Rightarrow> budgets" where
  "memory_budgets most = \<lparr>bd_prompt = most, bd_ledger = 100, bd_group_size = 4, bd_line_tokens = 8, bd_working = 100, bd_working_low = 50,
     bd_small = 10, bd_cap = 40, bd_keep = 20, bd_open = 50, bd_part_chars = 100, bd_open_chars = 100, bd_catch_up = 6, bd_max_rounds = 3\<rparr>"

definition memory_part :: tool_part where
  "memory_part = \<lparr>tp_index = 2, tp_name = ''fetch'', tp_arguments = JNull, tp_text = ''[e1] <ledger>'', tp_label = [], tp_key = ''k''\<rparr>"

lemma memory_turn_sel [simp]:
  "ti_user (memory_turn xs) = ''u''" "ti_chat (memory_turn xs) = ''c1''" "ti_user_message (memory_turn xs) = ''m1''"
  "ti_parent (memory_turn xs) = None" "ti_exchanges (memory_turn xs) = xs" "ti_current (memory_turn xs) = [said user_role ''now'']"
  "ti_tools (memory_turn xs) = ''tools''" "ti_leading (memory_turn xs) = []"
  by (simp_all add: memory_turn_def)

section \<open>Texts and layouts\<close>


definition memory_groups :: "(string, group) dict" where
  "memory_groups = [(''g1'', \<lparr>gr_members = [''x:ab'', ''x:cd''], gr_line = ''both'', gr_source = ''fit''\<rparr>)]"

definition memory_layout :: prompt_layout where
  "memory_layout = build_layout memory_codec [] [memory_exchange ''a'' ''b'', memory_exchange ''c'' ''d'', memory_exchange ''e'' ''f'']
     [said user_role ''now''] [(''ab'', ''first''), (''cd'', ''second'')] [] [''ab'', ''cd''] 100 memory_groups None (\<lambda>n ms past. ms)"


section \<open>The store\<close>

text \<open>A codec that writes the records of the sample, each as one letter.\<close>

definition table_codec :: "(string \<times> chat_record) list \<Rightarrow> files_codec" where
  "table_codec table = \<lparr>record_text = (\<lambda>r. case find (\<lambda>x. snd x = r) table of Some x \<Rightarrow> fst x | None \<Rightarrow> []),
     read_record = map_of table, store_name = (\<lambda>t. t)\<rparr>"

lemma table_reads_back:
  assumes "distinct (map fst table)"
  shows "reads_back (table_codec table)"
  using assms by (auto simp: reads_back_def table_codec_def single_line_def inj_def map_of_eq_Some_iff dest!: find_SomeD split: option.splits)

lemma table_single_line:
  assumes "r \<in> snd ` set table" "\<forall>t\<in>fst ` set table. t \<noteq> [] \<and> (\<forall>c\<in>set t. \<not> line_break c)"
  shows "single_line (table_codec table) r"
proof -
  have "find (\<lambda>x. snd x = r) table \<noteq> None" using assms(1) by (auto simp: find_None_iff)
  then obtain x where "find (\<lambda>x. snd x = r) table = Some x" by blast
  moreover from this have "x \<in> set table" using find_SomeD by fastforce
  ultimately show ?thesis using assms(2) by (auto simp: single_line_def table_codec_def)
qed

definition memory_line :: chat_record where "memory_line = Line_record ''ab'' ''first'' ''curator''"
definition memory_commit :: chat_record where "memory_commit = Commit_record ''ab'' None ''curator''"

definition memory_first :: "prompt_layout" where
  "memory_first = turn_layout memory_codec (memory_budgets 0) (memory_turn [memory_exchange ''a'' ''b'']) new_chat []"

definition memory_files :: files_codec where
  "memory_files = table_codec [(''a'', memory_line), (''b'', memory_commit),
     (''c'', Layout_record ''m1'' (freeze memory_codec (memory_turn [memory_exchange ''a'' ''b'']) new_chat memory_first))]"

lemma memory_files_ok:
  "reads_back memory_files" "single_line memory_files memory_line" "single_line memory_files memory_commit"
  "single_line memory_files (Layout_record ''m1'' (freeze memory_codec (memory_turn [memory_exchange ''a'' ''b'']) new_chat memory_first))"
proof -
  have t: "\<forall>t\<in>fst ` set [(''a'', memory_line), (''b'', memory_commit),
     (''c'', Layout_record ''m1'' (freeze memory_codec (memory_turn [memory_exchange ''a'' ''b'']) new_chat memory_first))]. t \<noteq> [] \<and> (\<forall>c\<in>set t. \<not> line_break c)"
    by (simp add: line_break_def code_of_def)
  show "reads_back memory_files" unfolding memory_files_def by (rule table_reads_back) simp
  show "single_line memory_files memory_line" "single_line memory_files memory_commit"
    "single_line memory_files (Layout_record ''m1'' (freeze memory_codec (memory_turn [memory_exchange ''a'' ''b'']) new_chat memory_first))"
    unfolding memory_files_def by (rule table_single_line [OF _ t], simp)+
qed

lemma memory_chat_persistent: "persistent ''c1''"
  by (simp add: persistent_def CHAT_KEY_def chomp_def key_char_def code_of_def)

theorem chat_lasts_witness:
  "chat_of memory_files ''u'' ''c1'' (perform memory_files Restart (perform_all memory_files [Append 1 ''u'' ''c1'' memory_line] no_chats))
     = chat_of memory_files ''u'' ''c1'' (perform_all memory_files [Append 1 ''u'' ''c1'' memory_line] no_chats)
   \<and> grows (chat_of memory_files ''u'' ''c1'' (perform_all memory_files [Append 1 ''u'' ''c1'' memory_line] no_chats))
       (chat_of memory_files ''u'' ''c1'' (perform_all memory_files [Restart, Append 2 ''u'' ''c1'' memory_commit]
         (perform_all memory_files [Append 1 ''u'' ''c1'' memory_line] no_chats)))"
  using memory_files_ok
  by (intro chat_lasts [OF memory_files_ok(1) memory_chat_persistent _ _ refl]) (simp_all add: chat_event_ok_def spares_def)

lemma chat_of_no_chats: "chat_of fc user chat no_chats = new_chat"
  by (simp add: chat_of_def store_load_def no_chats_def Let_def)

lemma memory_plan:
  "plan_turn memory_codec memory_files (memory_budgets 0) 1 (memory_turn [memory_exchange ''a'' ''b'']) no_chats
   = (memory_first, store_add memory_files 1 ''u'' ''c1'' no_chats
       (Layout_record ''m1'' (freeze memory_codec (memory_turn [memory_exchange ''a'' ''b'']) new_chat memory_first)))"
proof -
  have "fit memory_codec memory_files (memory_budgets 0) 1 (memory_turn xs) ly st = (ly, st)" for xs ly st
    using fit_loop.simps(2) [of 63] by (simp add: fit_def fits_def memory_budgets_def)
  moreover have "dget (ch_layouts new_chat) ''m1'' = None" by (simp add: new_chat_def)
  ultimately show ?thesis by (simp add: plan_turn_def Let_def chat_of_no_chats memory_first_def)
qed


definition memory_torn :: files_codec where
  "memory_torn = table_codec [([CHR ''{'', CHR 0x85, CHR ''}''], memory_line)]"

theorem torn_record_lost_witness:
  "chat_of memory_torn ''u'' ''c1'' (perform memory_torn (Append 1 ''u'' ''c1'' memory_line) no_chats) = apply_record memory_line new_chat
   \<and> chat_of memory_torn ''u'' ''c1'' (perform memory_torn Restart (perform memory_torn (Append 1 ''u'' ''c1'' memory_line) no_chats)) = new_chat"
  by (rule torn_record_lost [of memory_torn memory_line "''{''" "CHR 0x85" "''}''" "''c1''", OF _ _ _ _ _ _ memory_chat_persistent _ refl])
     (simp_all add: memory_torn_def table_codec_def line_break_def code_of_def memory_line_def new_chat_def)

section \<open>Making a prompt fit\<close>

lemma memory_keys: "exchange_key memory_codec (memory_exchange u a) = u @ a"
  by (simp add: exchange_key_def memory_codec_def memory_exchange_def said_def canonical_message_def message_text_def text_of_def)

theorem fit_settles_witness:
  "no_twins memory_codec [memory_exchange ''a'' ''b'', memory_exchange ''c'' ''d'']
   \<and> (let ti = memory_turn [memory_exchange ''a'' ''b'', memory_exchange ''c'' ''d'']; ly = turn_layout memory_codec (memory_budgets 1) ti new_chat [] in
      fits memory_codec (memory_budgets 1) ti (fst (fit memory_codec memory_files (memory_budgets 1) 1 ti ly no_chats))
      \<or> slim (fst (fit memory_codec memory_files (memory_budgets 1) 1 ti ly no_chats)))"
proof -
  let ?xs = "[memory_exchange ''a'' ''b'', memory_exchange ''c'' ''d'']"
  have t: "no_twins memory_codec ?xs" by (auto simp: no_twins_def inj_on_def memory_keys less_Suc_eq)
  have n: "next_group (ch_groups new_chat) + 64 \<le> 10 ^ 6" by (simp add: next_group_def new_chat_def)
  show ?thesis using fit_settles [of memory_codec "memory_turn ?xs" memory_files no_chats _ "memory_budgets 1" "[]" 1] t n new_chat_ok
    by (simp add: chat_of_no_chats Let_def)
qed

definition twin_exchanges :: "exchange list" where
  "twin_exchanges = [memory_exchange ''a'' ''b'', memory_exchange ''a'' ''b'', memory_exchange ''a'' ''b'',
     said user_role ''c'' # replicate 12 (said assistant_role ''d''), memory_exchange ''e'' ''f'']"

definition twin_chat :: chat_state where
  "twin_chat = foldl (commit_in memory_codec twin_exchanges) new_chat [0, 1]"

definition twin_layout :: "chat_state \<Rightarrow> prompt_layout" where
  "twin_layout s = turn_layout memory_codec (memory_budgets 310) (memory_turn twin_exchanges) s []"

lemma twin_again: "commit_in memory_codec twin_exchanges twin_chat 1 = twin_chat"
  by code_simp

lemma twin_working: "ly_working (twin_layout new_chat) = [0, 1, 2, 3, 4]" "ly_working (twin_layout twin_chat) = [1, 2, 3, 4]"
  by code_simp+

lemma twin_sizes:
  "\<not> fits memory_codec (memory_budgets 310) (memory_turn twin_exchanges) (twin_layout new_chat)"
  "\<not> fits memory_codec (memory_budgets 310) (memory_turn twin_exchanges) (twin_layout twin_chat)"
  "fits memory_codec (memory_budgets 310) (memory_turn twin_exchanges) (twin_layout (commit_in memory_codec twin_exchanges twin_chat 3))"
  by code_simp+

lemma twin_loop:
  assumes "chat_of fc ''u'' ''c1'' st = twin_chat"
  shows "fst (fit_loop n memory_codec fc (memory_budgets 310) at_time (memory_turn twin_exchanges) (twin_layout twin_chat) st) = twin_layout twin_chat
    \<and> chat_of fc ''u'' ''c1'' (snd (fit_loop n memory_codec fc (memory_budgets 310) at_time (memory_turn twin_exchanges) (twin_layout twin_chat) st)) = twin_chat"
  using assms
proof (induction n arbitrary: st)
  case (Suc n)
  let ?ti = "memory_turn twin_exchanges"
  have "chat_of fc ''u'' ''c1'' (fit_commit memory_codec fc at_time ?ti st 1) = twin_chat"
    using chat_of_fit_commit [of fc ?ti memory_codec at_time st 1] Suc.prems twin_again by simp
  then show ?case using Suc.IH [of "fit_commit memory_codec fc at_time ?ti st 1"] twin_sizes(2) twin_working(2) turn_layout_closed
    by (simp add: Let_def twin_layout_def)
qed simp


end
