(* ===== verification/Spec2Isabelle.thy ===== *)
theory Spec2Isabelle
  imports Commands Conservation Queue_Runs Market_Ends Payment_Safety Delivery_Ends Access_Safety
    Copy_Samples Memory_Samples
begin

text \<open>
  SparkPipe rents Fleets of GPU nodes by the hour and by the Week. This development verifies the
  Python services that run that business, the node queue that shares the machines, the tool that
  copies files between them and the memory of the chat it serves:
  \<open>tools/sparkpipe_market.py\<close> (the market: credits, bookings, waitlist, outages),
  \<open>tools/sparkpipe_pay.py\<close> (the ledger, the stores, accounts, payments, the HTTP gateway),
  \<open>tools/spark_queue.py\<close> (the queue that gives nodes to tasks), \<open>tools/sparkcp.py\<close> (the
  copying tool) and \<open>tools/serving/chat_memory.py\<close> (chat memory).

  \<^bold>\<open>The program.\<close> Everything that matters is a line of one append-only, hash-chained ledger file.
  Class \<open>Book\<close> replays it into a state; class \<open>State\<close> of the market has one handler per kind of
  line. Customers buy hour-credits (HC), which arrive as lots that lapse; they spend them on hours
  or Weeks of a Fleet, or lock them to wait for a Fleet at a Sunday round. Class \<open>Market\<close> does this:
  every operation first runs \<open>advance\<close>, the loop that handles each event that came due since
  (locked HC that lapses, Sunday rounds, credits for maintenance and outages, failovers,
  auto-extended Weeks, notices before deadlines), in the order of their times, and then does its own
  work. Class \<open>App\<close> adds orders and payments (coins, SWIFT, Toss Payments), sessions, members, API
  keys, rate limits and webhooks; class \<open>Handler\<close> admits requests and forwards them to the hub of a
  Fleet, or of another one while the first is down. Class \<open>Notifier\<close> delivers webhooks with retries.
  The queue is a program of its own: tasks are claimed for nodes when nothing conflicts, run as one
  control group per node, and end when every node confirmed that it stopped. So is the copying tool:
  the source lists its files in a manifest and cuts them into chunks, the receiver plans which files
  it needs, threads write the chunks that arrive in any order to temporary files, and a file is
  renamed to its target when its last chunk is written. Chat memory keeps a long conversation within
  the context of a model: earlier exchanges are committed to a ledger of one line each, runs of lines
  fold into groups, long tool results shrink to sections, and what was left out can be expanded again.
  Its decisions are records of one append-only file per chat.

  \<^bold>\<open>How the code is represented.\<close> An operation is a function from the state to an exception or a
  value, together with the state it leaves: a Python object keeps what was written to it before an
  exception, and so does the model. Exceptions are the constructors of \<open>exn\<close>. A dictionary is an
  association list in insertion order (\<open>dget\<close>, \<open>dset\<close>, \<open>ddel\<close>), since the code relies on the order.
  Lots are shared between an account's list and its lock, so they live in a store and are named by
  addresses. An instant is a number of microseconds, a stamp of seconds, a slot of hours; a
  \<open>Decimal\<close> is a rational number. Time and random identifiers are streams of the environment
  \<open>env\<close>, read by position. What other services answer (the digest and the keyed hash, the payment
  processors, webhooks, hubs, resolvers, the nodes of the queue) is a parameter.

  \<^bold>\<open>Theories, the code they model, and what they show.\<close>

    \<^item> \<open>Prelude\<close>: types, exceptions, state operations, dictionaries, and the locale \<open>exclusion\<close>: adding
      to a list only what conflicts with nothing in it keeps its members free of conflicts. It is
      interpreted twice, on the bookings of a Fleet (\<open>Market_Runs\<close>, \<open>booked\<close>) and on what holds the
      nodes of the queue (\<open>Queue_Safety\<close>, \<open>held\<close>).
    \<^item> \<open>Calendar\<close>: the calendar helpers of the market (\<open>week_start\<close>, \<open>sunday_after\<close>, \<open>months_later\<close>,
      \<open>merged\<close>). The locale \<open>grid\<close> states what rounding down to a period promises and is interpreted
      on hours and on Weeks.
    \<^item> \<open>Credits\<close>, \<open>Market_State\<close>: lots, locks, taking and giving back HC, and the line handlers of
      class \<open>State\<close>. Well-formedness is kept by every operation; taking is exact and takes first what
      lapses first. \<open>Conservation\<close>: every line changes what an account owns by exactly what it issues,
      spends or lets lapse.
    \<^item> \<open>Book\<close>: class \<open>Book\<close>. The locale \<open>line_log\<close> states the contract of a log that is read by
      position; its interpretation \<open>book_log\<close> gives that a process always holds the replay of the
      file, and the hash chain fixes the file.
    \<^item> \<open>Stores\<close>, \<open>Uptime\<close>, \<open>World\<close>: classes \<open>Records\<close>, \<open>Journal\<close>, \<open>Usage\<close>, \<open>Uptime\<close>, and the
      application's state with its notices.
    \<^item> \<open>Bookings\<close>, \<open>Waitlist\<close>, \<open>Outages\<close>, \<open>Advance\<close>, \<open>Operations\<close>, \<open>Views\<close>: class \<open>Market\<close>, in the
      order of the file. \<open>Market_Runs\<close> has a calculus of what holds when an operation returns and
      shows that every operation keeps the market sound and well-formed, and that booking charges
      exactly its price. \<open>Completion\<close>, \<open>Market_Ranks\<close> and \<open>Market_Ends\<close> show that the event loop ends
      and leaves nothing due.
    \<^item> \<open>Keys\<close>, \<open>Sessions\<close>, \<open>Gateway\<close>: API keys, cookies and bearer sessions, and what \<open>Handler\<close>
      decides. \<open>Access_Safety\<close>: the life of a key, the headers a hub can trust, chunked bodies, and
      the bound on retries.
    \<^item> \<open>Text_Fields\<close>, \<open>App_State\<close>, \<open>Payments\<close>, \<open>Toss\<close>, \<open>Accounts\<close>, \<open>Reports\<close>, \<open>Commands\<close>: class \<open>App\<close>
      and the operator's commands. \<open>Payment_Safety\<close>: amounts add up, a payment in part buys at most
      its share, and no order is issued twice.
    \<^item> \<open>Delivery\<close>: classes \<open>Notifier\<close> and \<open>Guard\<close> and the housekeeping; \<open>Delivery_Ends\<close>: every
      delivery ends within eight attempts.
    \<^item> \<open>Queue\<close>: \<open>tools/spark_queue.py\<close>; \<open>Queue_Safety\<close>: what a round of claims guarantees;
      \<open>Queue_Runs\<close>: the commands and passes as a transition system, and what holds in every state it
      reaches.
    \<^item> \<open>Copy\<close>: \<open>tools/sparkcp.py\<close>, with class \<open>Receiver\<close> as operations on a disk. \<open>Copy_Wire\<close>: the
      chunks of a manifest tile its files, and frames are read back as they were written, wherever
      the connection cuts them. \<open>Copy_Runs\<close>: the threads as a step relation in which any thread takes
      the next step of its own code; the locale \<open>positional\<close> states what writing at an offset promises
      and is interpreted on the bytes of a file (\<open>file_bytes\<close>). \<open>Copy_Safety\<close>: an invariant of every
      interleaving, so that a target holds its old or its new contents and never a part, and every
      run ends. \<open>Copy_Plan\<close>: the plan starts such a run, the needed files are delivered, and an abort
      restores the disk. \<open>Copy_Scan\<close>: the walk of the source's folders and the manifest it gives.
      \<open>Copy_Samples\<close>: a small copy on which these are evaluated, and the race of two files whose
      temporary names are equal.
    \<^item> \<open>Memory_Text\<close>, \<open>Memory_Ledger\<close>, \<open>Memory_Store\<close>: \<open>tools/serving/chat_memory.py\<close>, the texts, the
      ledger and the layout of the prompt, and class \<open>ChatStore\<close> with the part of class \<open>Memory\<close> that
      makes a prompt. \<open>Memory_Forms\<close>: sections tile a tool result, its first form stays within its cap,
      and its text cannot pass for a mark of the memory. \<open>Memory_Layout\<close>: every exchange is in the
      prompt or in the ledger, once, and every group can be opened. \<open>Memory_Frozen\<close>, \<open>Memory_Chats\<close>: a
      chat only grows, its file replays to what memory holds, and a turn asked again gets the same
      prompt. \<open>Memory_Fit\<close>: the loop that makes a prompt fit succeeds when no two exchanges are equal.
      \<open>Memory_Samples\<close>: a small conversation, and one with equal exchanges on which that loop is stuck.
    \<^item> \<open>Samples\<close>: the inputs on which the examples are evaluated.

  \<^bold>\<open>Bounds.\<close> Four loops carry a number of turns. \<open>advance_loop\<close>: \<open>advance_ends\<close> shows that some
  number is enough in every sound state and that more change nothing, so the loop of the source ends;
  running out would be the result \<open>Exhausted\<close>, which no operation below the loop gives
  (\<open>Completion\<close>). \<open>hub_loop\<close> gets two turns, and \<open>hub_tries_twice\<close> shows that a third never happens.
  The loop that draws a payment reference until it is new (\<open>swift_reference\<close>) gets as many turns as
  the environment says; the source draws until it succeeds. \<open>walk_tree\<close> descends as often as it is
  told; \<open>scan_ends\<close> shows that the number of folders is enough, since no folder is its own ancestor.
  The 64 rounds of \<open>fit_loop\<close> are those of the source.

  \<^bold>\<open>Not modelled, and why.\<close> The texts of notices, mails, invoices and pages: what is sent, to whom
  and once is kept, the wording is not. The 28-digit context of \<open>Decimal\<close>: amounts are exact, and
  the code rounds them to six decimals or to the unit of the currency long before the context would.
  The JSON encoding of a line and the recovery of a torn last line: a file is the list of its
  complete lines, and the digest is a function of a line's fields. Unpadded time texts, which
  \<open>strptime\<close> accepts. Sockets, streaming and threads inside the HTTP server: a request is one call.
  A pass of the dispatcher and a run of the housekeeping read the clock several times; the model
  reads it once. The shell commands the queue runs on its nodes and its git synchronisation. The
  agents that \<open>sparkcp\<close> starts over ssh, the messages of its control connection and its display of
  progress; symbolic links below a destination, and the times of folders that change when files are
  created in them; numbers too wide for a frame, for which \<open>struct\<close> raises an error. The
  search over a chat's history, the curator that writes the lines of the ledger and its background
  jobs, the signed identity of a user and the resolution of budgets in floating point. The rest of the
  chat front end, the command line client, the development tools, the reference models of the
  networks (tensor programs over an external library) and the C and CUDA core.
\<close>

end
